(* ===== verification/Prelude.thy ===== *)
theory Prelude
  imports Main "HOL-Library.AList" "HOL-Library.Sublist"
begin

text \<open>
  Shared vocabulary of the development: thrown errors as values of a sum type and runs of
  checks that stop at the first failure, the insertion-ordered \<^verbatim>\<open>Map\<close> of JavaScript as an
  association list behind a small interface, folds that may throw, and decimal numerals.
\<close>

section \<open>Collections of rewrite rules\<close>

named_theorems check_simps \<open>evaluation of runs of validation checks\<close>
named_theorems throw_iff \<open>when a fallible computation returns a value\<close>

section \<open>Errors as values\<close>

text \<open>
  A validator either returns normally or throws: \<open>None\<close> is "returned", \<open>Some e\<close> is "threw
  \<open>e\<close>". A statement sequence of validators throws the first error it meets.
\<close>

fun first_error :: "'e option list \<Rightarrow> 'e option" where
  "first_error [] = None"
| "first_error (None # cs) = first_error cs"
| "first_error (Some e # cs) = Some e"

definition run_checks :: "'e option list \<Rightarrow> 'a \<Rightarrow> 'e + 'a" where
  "run_checks cs v = (case first_error cs of None \<Rightarrow> Inr v | Some e \<Rightarrow> Inl e)"

definition require :: "bool \<Rightarrow> 'e \<Rightarrow> 'e option" where
  "require b e = (if b then None else Some e)"

definition bindE :: "'e + 'a \<Rightarrow> ('a \<Rightarrow> 'e + 'b) \<Rightarrow> 'e + 'b" where
  "bindE m f = (case m of Inl e \<Rightarrow> Inl e | Inr x \<Rightarrow> f x)"

definition error_of :: "'e + 'a \<Rightarrow> 'e option" where
  "error_of m = (case m of Inl e \<Rightarrow> Some e | Inr _ \<Rightarrow> None)"

definition when_some :: "'a option \<Rightarrow> ('a \<Rightarrow> 'e option) \<Rightarrow> 'e option" where
  "when_some x f = (case x of None \<Rightarrow> None | Some v \<Rightarrow> f v)"

text \<open>A \<^verbatim>\<open>for\<close> loop whose body updates a state and may throw.\<close>

fun foldE :: "('s \<Rightarrow> 'a \<Rightarrow> 'e + 's) \<Rightarrow> 's \<Rightarrow> 'a list \<Rightarrow> 'e + 's" where
  "foldE f s [] = Inr s"
| "foldE f s (x # xs) = (case f s x of Inl e \<Rightarrow> Inl e | Inr s' \<Rightarrow> foldE f s' xs)"

fun mapE :: "('a \<Rightarrow> 'e + 'b) \<Rightarrow> 'a list \<Rightarrow> 'e + 'b list" where
  "mapE f [] = Inr []"
| "mapE f (x # xs) =
     (case f x of Inl e \<Rightarrow> Inl e
      | Inr y \<Rightarrow> (case mapE f xs of Inl e \<Rightarrow> Inl e | Inr ys \<Rightarrow> Inr (y # ys)))"

text \<open>Pairs each element with its index, as \<^verbatim>\<open>entries()\<close> does.\<close>

definition indexed :: "'a list \<Rightarrow> (nat \<times> 'a) list" where
  "indexed xs = zip [0..<length xs] xs"

section \<open>The JavaScript Map\<close>

text \<open>
  A \<^verbatim>\<open>Map\<close> iterates in insertion order; \<^verbatim>\<open>set\<close> on a present key keeps its place, on a new key
  appends, \<^verbatim>\<open>delete\<close> removes. The association list with \<open>AList.update\<close> and \<open>AList.delete\<close>
  is exactly that.
\<close>

type_synonym ('k, 'v) jsmap = "('k \<times> 'v) list"

definition mget :: "('k, 'v) jsmap \<Rightarrow> 'k \<Rightarrow> 'v option" where
  "mget m k = map_of m k"

definition mput :: "('k, 'v) jsmap \<Rightarrow> 'k \<Rightarrow> 'v \<Rightarrow> ('k, 'v) jsmap" where
  "mput m k v = AList.update k v m"

definition mdel :: "('k, 'v) jsmap \<Rightarrow> 'k \<Rightarrow> ('k, 'v) jsmap" where
  "mdel m k = AList.delete k m"

definition mhas :: "('k, 'v) jsmap \<Rightarrow> 'k \<Rightarrow> bool" where
  "mhas m k \<longleftrightarrow> mget m k \<noteq> None"

definition mkeys :: "('k, 'v) jsmap \<Rightarrow> 'k list" where
  "mkeys m = map fst m"

definition mvals :: "('k, 'v) jsmap \<Rightarrow> 'v list" where
  "mvals m = map snd m"

definition mwf :: "('k, 'v) jsmap \<Rightarrow> bool" where
  "mwf m \<longleftrightarrow> distinct (map fst m)"

section \<open>Numerals\<close>

definition digit_char :: "nat \<Rightarrow> char" where
  "digit_char n = char_of (48 + n)"

fun nat_str :: "nat \<Rightarrow> string" where
  "nat_str n = (if n < 10 then [digit_char n] else nat_str (n div 10) @ [digit_char (n mod 10)])"

declare nat_str.simps [simp del]

fun join :: "string \<Rightarrow> string list \<Rightarrow> string" where
  "join sep [] = []"
| "join sep [x] = x"
| "join sep (x # y # xs) = x @ sep @ join sep (y # xs)"

section \<open>Lemmas on errors\<close>

lemma first_error_None [check_simps]:
  "first_error cs = None \<longleftrightarrow> (\<forall>c \<in> set cs. c = None)"
  by (induction cs rule: first_error.induct) auto

lemma first_error_append:
  "first_error (xs @ ys) = (case first_error xs of None \<Rightarrow> first_error ys | Some e \<Rightarrow> Some e)"
  by (induction xs rule: first_error.induct) auto

lemma first_error_Some_in: "first_error cs = Some e \<Longrightarrow> Some e \<in> set cs"
  by (induction cs rule: first_error.induct) auto

lemma run_checks_Inr [throw_iff]:
  "run_checks cs v = Inr w \<longleftrightarrow> w = v \<and> (\<forall>c \<in> set cs. c = None)"
  by (auto simp: run_checks_def first_error_None [symmetric] split: option.splits)

lemma run_checks_Inl [throw_iff]: "run_checks cs v = Inl e \<longleftrightarrow> first_error cs = Some e"
  by (auto simp: run_checks_def split: option.splits)

lemma require_None [simp, check_simps]: "require b e = None \<longleftrightarrow> b"
  by (simp add: require_def)

lemma require_Some [simp]: "require b e = Some e' \<longleftrightarrow> \<not> b \<and> e' = e"
  by (auto simp: require_def)

lemma require_True [simp]: "require True e = None"
  by (simp add: require_def)

lemma require_False [simp]: "require False e = Some e"
  by (simp add: require_def)

lemma bindE_Inr [throw_iff]: "bindE m f = Inr y \<longleftrightarrow> (\<exists>x. m = Inr x \<and> f x = Inr y)"
  by (auto simp: bindE_def split: sum.splits)

lemma bindE_simps [simp]: "bindE (Inl e) f = Inl e" "bindE (Inr x) f = f x"
  by (simp_all add: bindE_def)

lemma error_of_simps [simp]: "error_of (Inl e) = Some e" "error_of (Inr x) = None"
  by (simp_all add: error_of_def)

lemma error_of_None [check_simps]: "error_of m = None \<longleftrightarrow> (\<exists>x. m = Inr x)"
  by (auto simp: error_of_def split: sum.splits)

lemma when_some_simps [simp]: "when_some None f = None" "when_some (Some v) f = f v"
  by (simp_all add: when_some_def)

lemma when_some_None_iff [check_simps]:
  "when_some x f = None \<longleftrightarrow> (\<forall>v. x = Some v \<longrightarrow> f v = None)"
  by (auto simp: when_some_def split: option.splits)

lemma foldE_append:
  "foldE f s (xs @ ys) = (case foldE f s xs of Inl e \<Rightarrow> Inl e | Inr s' \<Rightarrow> foldE f s' ys)"
  by (induction xs arbitrary: s) (auto split: sum.splits)

lemma mapE_Inr_length: "mapE f xs = Inr ys \<Longrightarrow> length ys = length xs"
  by (induction xs arbitrary: ys) (auto split: sum.splits)

lemma mapE_all: "(\<And>x. x \<in> set xs \<Longrightarrow> f x = Inr (g x)) \<Longrightarrow> mapE f xs = Inr (map g xs)"
  by (induction xs) auto

lemma indexed_Nil [simp]: "indexed [] = []"
  by (simp add: indexed_def)

lemma indexed_snoc: "indexed (xs @ [x]) = indexed xs @ [(length xs, x)]"
  by (simp add: indexed_def)

lemma in_set_indexed: "(i, x) \<in> set (indexed xs) \<longleftrightarrow> i < length xs \<and> x = xs ! i"
  by (force simp: indexed_def in_set_zip)

lemma ball_indexed:
  "(\<forall>p \<in> set (indexed xs). P p) \<longleftrightarrow> (\<forall>i < length xs. P (i, xs ! i))"
  by (auto simp: in_set_indexed)

lemma ball_indexed_snd:
  "(\<forall>p \<in> set (indexed xs). P (snd p)) \<longleftrightarrow> (\<forall>x \<in> set xs. P x)"
  by (simp only: ball_indexed snd_conv all_set_conv_all_nth [of xs])

section \<open>A fold that keeps an invariant\<close>

text \<open>
  Every reducer of the program (the session tree, the conversation projector, the command
  journal, tool-call pairing) is a \<^verbatim>\<open>for\<close> loop over records whose body may throw. The
  contract is the same each time: if the body keeps an invariant, so does the whole loop.
\<close>

locale reducer =
  fixes step :: "'s \<Rightarrow> 'a \<Rightarrow> 'e + 's"
    and inv :: "'s \<Rightarrow> bool"
  assumes step_inv: "inv s \<Longrightarrow> step s x = Inr s' \<Longrightarrow> inv s'"
begin

lemma run_inv: "inv s \<Longrightarrow> foldE step s xs = Inr s' \<Longrightarrow> inv s'"
  by (induction xs arbitrary: s) (auto split: sum.splits dest: step_inv)

lemma run_prefix_inv:
  assumes "inv s" and "foldE step s (xs @ ys) = Inr s'"
  shows "\<exists>t. foldE step s xs = Inr t \<and> inv t \<and> foldE step t ys = Inr s'"
  using assms run_inv [OF assms(1)] by (auto simp: foldE_append split: sum.splits)

end

section \<open>The contract of a Map\<close>

locale keyed_store =
  fixes get :: "'m \<Rightarrow> 'k \<Rightarrow> 'v option"
    and put :: "'m \<Rightarrow> 'k \<Rightarrow> 'v \<Rightarrow> 'm"
    and del :: "'m \<Rightarrow> 'k \<Rightarrow> 'm"
    and keys :: "'m \<Rightarrow> 'k list"
    and wf :: "'m \<Rightarrow> bool"
  assumes get_put: "get (put m k v) k' = (if k' = k then Some v else get m k')"
    and get_del: "get (del m k) k' = (if k' = k then None else get m k')"
    and keys_get: "k \<in> set (keys m) \<longleftrightarrow> get m k \<noteq> None"
    and keys_put: "keys (put m k v) = (if get m k = None then keys m @ [k] else keys m)"
    and keys_del: "keys (del m k) = filter (\<lambda>k'. k' \<noteq> k) (keys m)"
    and wf_put: "wf m \<Longrightarrow> wf (put m k v)"
    and wf_del: "wf m \<Longrightarrow> wf (del m k)"
begin

lemma put_put_get: "get (put (put m k v) k w) k' = get (put m k w) k'"
  by (simp add: get_put)

lemma keys_put_set: "set (keys (put m k v)) = insert k (set (keys m))"
  by (auto simp: keys_put keys_get)

lemma length_keys_put: "length (keys (put m k v)) \<le> Suc (length (keys m))"
  by (simp add: keys_put)

lemma keys_refresh:
  "keys (put (del m k) k v) = filter (\<lambda>k'. k' \<noteq> k) (keys m) @ [k]"
  by (simp add: keys_put keys_del get_del)

end

lemma mkeys_mput: "mkeys (mput m k v) = (if mget m k = None then mkeys m @ [k] else mkeys m)"
  by (induction m) (auto simp: mkeys_def mput_def mget_def)

interpretation jsmap: keyed_store mget mput mdel mkeys mwf
proof unfold_locales
  fix m :: "('k, 'v) jsmap" and k k' v
  show "mget (mput m k v) k' = (if k' = k then Some v else mget m k')"
    by (simp add: mget_def mput_def update_conv)
  show "mget (mdel m k) k' = (if k' = k then None else mget m k')"
    by (simp add: mget_def mdel_def delete_conv)
  show "k \<in> set (mkeys m) \<longleftrightarrow> mget m k \<noteq> None"
    by (auto simp: mkeys_def mget_def map_of_eq_None_iff)
  show "mkeys (mput m k v) = (if mget m k = None then mkeys m @ [k] else mkeys m)"
    by (rule mkeys_mput)
  show "mkeys (mdel m k) = filter (\<lambda>k'. k' \<noteq> k) (mkeys m)"
    by (simp add: mkeys_def mdel_def delete_keys removeAll_filter_not_eq eq_commute)
  show "mwf m \<Longrightarrow> mwf (mput m k v)"
    by (simp add: mwf_def mput_def distinct_update)
  show "mwf m \<Longrightarrow> mwf (mdel m k)"
    by (simp add: mwf_def mdel_def distinct_delete)
qed

lemmas jsmap_get [simp] = jsmap.get_put jsmap.get_del
lemmas jsmap_wf [simp, intro] = jsmap.wf_put jsmap.wf_del

lemma mget_Nil [simp]: "mget [] k = None"
  by (simp add: mget_def)

lemma mget_Cons [simp]: "mget ((k, v) # m) k' = (if k' = k then Some v else mget m k')"
  by (simp add: mget_def)

lemma mwf_Nil [simp]: "mwf []"
  by (simp add: mwf_def)

lemma mhas_simps [simp]:
  "mhas [] k = False"
  "mhas (mput m k v) k' = (k' = k \<or> mhas m k')"
  "mhas (mdel m k) k' = (k' \<noteq> k \<and> mhas m k')"
  by (auto simp: mhas_def)

lemma mput_eval [simp]:
  "mput [] k v = [(k, v)]"
  "mput ((k', w) # m) k v = (if k' = k then (k, v) # m else (k', w) # mput m k v)"
  by (simp_all add: mput_def)

lemma mdel_eval [simp]:
  "mdel [] k = []"
  "mdel ((k', w) # m) k = (if k' = k then mdel m k else (k', w) # mdel m k)"
  by (simp_all add: mdel_def)

lemma mput_fresh: "mget m k = None \<Longrightarrow> mput m k v = m @ [(k, v)]"
  by (induction m) (auto simp: mput_def mget_def split: if_splits)

lemma mget_append: "mget (m @ n) k = (case mget m k of None \<Rightarrow> mget n k | Some v \<Rightarrow> Some v)"
  by (simp add: mget_def map_add_def split: option.splits)

lemma mget_in: "mget m k = Some v \<Longrightarrow> (k, v) \<in> set m"
  by (simp add: mget_def map_of_SomeD)

lemma in_mget: "mwf m \<Longrightarrow> (k, v) \<in> set m \<Longrightarrow> mget m k = Some v"
  by (simp add: mget_def mwf_def)

section \<open>Lemmas on numerals and joining\<close>

lemma nat_str_nonempty [simp]: "nat_str n \<noteq> []"
  by (subst nat_str.simps) simp

lemma of_char_digit: "n < 10 \<Longrightarrow> of_char (digit_char n) = 48 + n"
  by (simp add: digit_char_def)

lemma digit_char_inj: "a < 10 \<Longrightarrow> b < 10 \<Longrightarrow> digit_char a = digit_char b \<Longrightarrow> a = b"
  by (metis add_left_imp_eq of_char_digit)

lemma join_map_length:
  "length (join sep xs) = sum_list (map length xs) + length sep * (length xs - 1)"
  by (induction sep xs rule: join.induct) (auto simp: algebra_simps)

end
