(* ===== verification/Js_Text.thy ===== *)
theory Js_Text
  imports Prelude "HOL-Library.Word"
begin

text \<open>
  What the program uses of the JavaScript standard library on text: string searching and
  replacement, UTF-8, JSON values with \<^verbatim>\<open>JSON.stringify\<close> and \<^verbatim>\<open>JSON.parse\<close>.

  A string is the list of its code units. The model's code units are the 256 values of
  type \<open>char\<close>, so every string of this development is one whose units are below 256; on
  those, \<^verbatim>\<open>length\<close>, UTF-8 (one byte below 128, two bytes from 128) and the character
  classes are the language's own.

  A finite number is an integer or a finite decimal fraction \<open>m * 10^-k\<close>; this is the
  decimal that \<^verbatim>\<open>String(n)\<close> prints. Arithmetic on it is exact: the rounding of doubles is not
  modelled, and negative zero is zero.
\<close>

section \<open>Strings\<close>

definition starts_with :: "string \<Rightarrow> string \<Rightarrow> bool" where
  "starts_with s p \<longleftrightarrow> prefix p s"

fun str_includes :: "string \<Rightarrow> string \<Rightarrow> bool" where
  "str_includes [] p \<longleftrightarrow> p = []"
| "str_includes (c # s) p \<longleftrightarrow> prefix p (c # s) \<or> str_includes s p"

fun index_of :: "string \<Rightarrow> string \<Rightarrow> nat option" where
  "index_of [] p = (if p = [] then Some 0 else None)"
| "index_of (c # s) p = (if prefix p (c # s) then Some 0 else map_option Suc (index_of s p))"

text \<open>
  \<^verbatim>\<open>replaceAll\<close> and \<^verbatim>\<open>split\<close> for a non-empty pattern: occurrences are found from left to
  right and do not overlap. The first argument counts the units of an occurrence that are
  still to be skipped.
\<close>

fun replace_from :: "nat \<Rightarrow> string \<Rightarrow> string \<Rightarrow> string \<Rightarrow> string" where
  "replace_from n old new [] = []"
| "replace_from (Suc n) old new (c # s) = replace_from n old new s"
| "replace_from 0 old new (c # s) =
     (if prefix old (c # s) then new @ replace_from (length old - 1) old new s
      else c # replace_from 0 old new s)"

definition replace_all :: "string \<Rightarrow> string \<Rightarrow> string \<Rightarrow> string" where
  "replace_all s old new = replace_from 0 old new s"

fun split_from :: "nat \<Rightarrow> string \<Rightarrow> string \<Rightarrow> string \<Rightarrow> string list" where
  "split_from n sep cur [] = [cur]"
| "split_from (Suc n) sep cur (c # s) = split_from n sep cur s"
| "split_from 0 sep cur (c # s) =
     (if prefix sep (c # s) then cur # split_from (length sep - 1) sep [] s
      else split_from 0 sep (cur @ [c]) s)"

definition split_str :: "string \<Rightarrow> string \<Rightarrow> string list" where
  "split_str s sep = split_from 0 sep [] s"

definition code_unit :: "char \<Rightarrow> nat" where
  "code_unit c = of_char c"

definition is_js_space :: "char \<Rightarrow> bool" where
  "is_js_space c \<longleftrightarrow> code_unit c \<in> {9, 10, 11, 12, 13, 32, 160}"

definition trim :: "string \<Rightarrow> string" where
  "trim s = rev (dropWhile is_js_space (rev (dropWhile is_js_space s)))"

definition to_lower_char :: "char \<Rightarrow> char" where
  "to_lower_char c =
     (let n = code_unit c in
      if (65 \<le> n \<and> n \<le> 90) \<or> (192 \<le> n \<and> n \<le> 222 \<and> n \<noteq> 215) then char_of (n + 32) else c)"

definition to_lower :: "string \<Rightarrow> string" where
  "to_lower s = map to_lower_char s"

text \<open>The classes \<^verbatim>\<open>\p{Cc}\<close> and \<^verbatim>\<open>\p{Cf}\<close> of code units below 256.\<close>

definition is_control_or_format :: "char \<Rightarrow> bool" where
  "is_control_or_format c \<longleftrightarrow>
     (let n = code_unit c in n < 32 \<or> (127 \<le> n \<and> n < 160) \<or> n = 173)"

definition is_digit :: "char \<Rightarrow> bool" where
  "is_digit c \<longleftrightarrow> 48 \<le> code_unit c \<and> code_unit c \<le> 57"

definition is_lower :: "char \<Rightarrow> bool" where
  "is_lower c \<longleftrightarrow> 97 \<le> code_unit c \<and> code_unit c \<le> 122"

definition is_lower_hex :: "char \<Rightarrow> bool" where
  "is_lower_hex c \<longleftrightarrow> is_digit c \<or> (97 \<le> code_unit c \<and> code_unit c \<le> 102)"

section \<open>UTF-8\<close>

type_synonym byte = "8 word"

definition utf8_unit :: "char \<Rightarrow> byte list" where
  "utf8_unit c =
     (let n = code_unit c in
      if n < 128 then [word_of_nat n]
      else [word_of_nat (192 + n div 64), word_of_nat (128 + n mod 64)])"

definition utf8_encode :: "string \<Rightarrow> byte list" where
  "utf8_encode s = concat (map utf8_unit s)"

text \<open>
  The fatal decoder. A lead byte other than those of the units below 256 is refused: either
  the input is malformed or it denotes a unit outside the model.
\<close>

fun utf8_decode :: "byte list \<Rightarrow> string option" where
  "utf8_decode [] = Some []"
| "utf8_decode (b # bs) =
     (if unat b < 128 then map_option ((#) (char_of (unat b))) (utf8_decode bs)
      else case bs of
        [] \<Rightarrow> None
      | b2 # bs' \<Rightarrow>
          (if (unat b = 194 \<or> unat b = 195) \<and> 128 \<le> unat b2 \<and> unat b2 < 192
           then map_option ((#) (char_of ((unat b - 192) * 64 + (unat b2 - 128)))) (utf8_decode bs')
           else None))"

definition utf8_length :: "string \<Rightarrow> nat" where
  "utf8_length s = length (utf8_encode s)"

section \<open>JSON values\<close>

datatype jsnum = JInt int | JFrac int nat | JInfinity | JNegInfinity | JNaN

datatype json =
    JNull
  | JBool bool
  | JNum jsnum
  | JStr string
  | JArr "json list"
  | JObj "(string \<times> json) list"

type_synonym json_object = "(string \<times> json) list"

text \<open>\<open>num_of m k\<close> is the number \<open>m * 10^-k\<close> in its unique form.\<close>

fun num_of :: "int \<Rightarrow> nat \<Rightarrow> jsnum" where
  "num_of m 0 = JInt m"
| "num_of m (Suc k) = (if m mod 10 = 0 then num_of (m div 10) k else JFrac m (Suc k))"

definition max_safe_integer :: int where
  "max_safe_integer = 9007199254740991"

fun is_safe_integer :: "jsnum \<Rightarrow> bool" where
  "is_safe_integer (JInt i) = (- max_safe_integer \<le> i \<and> i \<le> max_safe_integer)"
| "is_safe_integer _ = False"

fun is_finite :: "jsnum \<Rightarrow> bool" where
  "is_finite (JInt _) = True"
| "is_finite (JFrac _ _) = True"
| "is_finite _ = False"

fun num_negative :: "jsnum \<Rightarrow> bool" where
  "num_negative (JInt i) = (i < 0)"
| "num_negative (JFrac m _) = (m < 0)"
| "num_negative JNegInfinity = True"
| "num_negative _ = False"

fun num_add :: "jsnum \<Rightarrow> jsnum \<Rightarrow> jsnum" where
  "num_add (JInt a) (JInt b) = JInt (a + b)"
| "num_add (JInt a) (JFrac m k) = num_of (a * 10 ^ k + m) k"
| "num_add (JFrac m k) (JInt a) = num_of (m + a * 10 ^ k) k"
| "num_add (JFrac m k) (JFrac n l) = num_of (m * 10 ^ l + n * 10 ^ k) (k + l)"
| "num_add _ _ = JNaN"

fun obj_fields :: "json \<Rightarrow> json_object option" where
  "obj_fields (JObj o1) = Some o1"
| "obj_fields _ = None"

section \<open>JSON.stringify\<close>

definition hex_digit :: "nat \<Rightarrow> char" where
  "hex_digit n = (if n < 10 then char_of (48 + n) else char_of (87 + n))"

definition escape_unit :: "char \<Rightarrow> string" where
  "escape_unit c =
     (let n = code_unit c in
      if n = 34 then [CHR 0x5C, CHR 0x22]
      else if n = 92 then [CHR 0x5C, CHR 0x5C]
      else if n = 8 then [CHR 0x5C, CHR ''b'']
      else if n = 12 then [CHR 0x5C, CHR ''f'']
      else if n = 10 then [CHR 0x5C, CHR ''n'']
      else if n = 13 then [CHR 0x5C, CHR ''r'']
      else if n = 9 then [CHR 0x5C, CHR ''t'']
      else if n < 32 then
        [CHR 0x5C, CHR ''u'', CHR ''0'', CHR ''0'', hex_digit (n div 16), hex_digit (n mod 16)]
      else [c])"

definition quote_str :: "string \<Rightarrow> string" where
  "quote_str s = CHR 0x22 # concat (map escape_unit s) @ [CHR 0x22]"

definition int_str :: "int \<Rightarrow> string" where
  "int_str i = (if i < 0 then CHR ''-'' # nat_str (nat (- i)) else nat_str (nat i))"

text \<open>
  \<^verbatim>\<open>Number::toString\<close> on the significant digits \<open>s\<close> and the position \<open>n\<close> of the decimal
  point, so that the value is \<open>0.s * 10^n\<close>.
\<close>

definition exponent_form :: "string \<Rightarrow> int \<Rightarrow> string" where
  "exponent_form s n =
     (let e = (if n - 1 < 0 then CHR ''-'' # nat_str (nat (1 - n)) else CHR ''+'' # nat_str (nat (n - 1)))
      in case s of [] \<Rightarrow> [] | [d] \<Rightarrow> d # CHR ''e'' # e | d # ds \<Rightarrow> d # CHR ''.'' # ds @ CHR ''e'' # e)"

definition digits_form :: "string \<Rightarrow> int \<Rightarrow> string" where
  "digits_form s n =
     (let k = int (length s) in
      if k \<le> n \<and> n \<le> 21 then s @ replicate (nat (n - k)) CHR ''0''
      else if 0 < n \<and> n \<le> 21 then take (nat n) s @ CHR ''.'' # drop (nat n) s
      else if - 6 < n \<and> n \<le> 0 then ''0.'' @ replicate (nat (- n)) CHR ''0'' @ s
      else exponent_form s n)"

definition drop_trailing_zeros :: "string \<Rightarrow> string" where
  "drop_trailing_zeros s = rev (dropWhile (\<lambda>c. c = CHR ''0'') (rev s))"

fun num_str :: "jsnum \<Rightarrow> string" where
  "num_str (JInt i) =
     (if \<bar>i\<bar> < 10 ^ 21 then int_str i
      else (if i < 0 then ''-'' else []) @
        (let s = nat_str (nat \<bar>i\<bar>) in digits_form (drop_trailing_zeros s) (int (length s))))"
| "num_str (JFrac m k) =
     (if m < 0 then ''-'' else []) @
     (let s = nat_str (nat \<bar>m\<bar>) in digits_form s (int (length s) - int k))"
| "num_str JInfinity = ''Infinity''"
| "num_str JNegInfinity = ''-Infinity''"
| "num_str JNaN = ''NaN''"

definition json_num_str :: "jsnum \<Rightarrow> string" where
  "json_num_str n = (if is_finite n then num_str n else ''null'')"

fun json_text :: "json \<Rightarrow> string" where
  "json_text JNull = ''null''"
| "json_text (JBool b) = (if b then ''true'' else ''false'')"
| "json_text (JNum n) = json_num_str n"
| "json_text (JStr s) = quote_str s"
| "json_text (JArr vs) = CHR ''['' # join '','' (map json_text vs) @ '']''"
| "json_text (JObj kvs) =
     CHR ''{'' # join '','' (map (\<lambda>(k, v). quote_str k @ CHR '':'' # json_text v) kvs) @ ''}''"


section \<open>JSON.parse\<close>

definition is_json_space :: "char \<Rightarrow> bool" where
  "is_json_space c \<longleftrightarrow> code_unit c \<in> {9, 10, 13, 32}"

definition skip_ws :: "string \<Rightarrow> string" where
  "skip_ws s = dropWhile is_json_space s"

definition hex_value :: "char \<Rightarrow> nat option" where
  "hex_value c =
     (let n = code_unit c in
      if 48 \<le> n \<and> n \<le> 57 then Some (n - 48)
      else if 97 \<le> n \<and> n \<le> 102 then Some (n - 87)
      else if 65 \<le> n \<and> n \<le> 70 then Some (n - 55) else None)"

definition hex4 :: "char \<Rightarrow> char \<Rightarrow> char \<Rightarrow> char \<Rightarrow> nat option" where
  "hex4 a b c d =
     (case (hex_value a, hex_value b, hex_value c, hex_value d) of
        (Some w, Some x, Some y, Some z) \<Rightarrow> Some (((w * 16 + x) * 16 + y) * 16 + z)
      | _ \<Rightarrow> None)"

definition unescape :: "char \<Rightarrow> char option" where
  "unescape c =
     (if code_unit c \<in> {34, 47, 92} then Some c
      else if c = CHR ''b'' then Some (CHR 0x08)
      else if c = CHR ''f'' then Some (CHR 0x0C)
      else if c = CHR ''n'' then Some (CHR 0x0A)
      else if c = CHR ''r'' then Some (CHR 0x0D)
      else if c = CHR ''t'' then Some (CHR 0x09) else None)"

definition cons_fst :: "'a \<Rightarrow> ('a list \<times> 'b) option \<Rightarrow> ('a list \<times> 'b) option" where
  "cons_fst c r = map_option (\<lambda>(s, rest). (c # s, rest)) r"

text \<open>The rest of a string literal, after its opening quote.\<close>

fun parse_str :: "string \<Rightarrow> (string \<times> string) option" where
  "parse_str [] = None"
| "parse_str (c # s) =
     (if code_unit c = 34 then Some ([], s)
      else if code_unit c = 92 then
        (case s of
           [] \<Rightarrow> None
         | e # r \<Rightarrow>
             (if e = CHR ''u'' then
                (case r of
                   h1 # h2 # h3 # h4 # r' \<Rightarrow>
                     (case hex4 h1 h2 h3 h4 of
                        Some n \<Rightarrow> (if n < 256 then cons_fst (char_of n) (parse_str r') else None)
                      | None \<Rightarrow> None)
                 | _ \<Rightarrow> None)
              else (case unescape e of Some c' \<Rightarrow> cons_fst c' (parse_str r) | None \<Rightarrow> None)))
      else if code_unit c < 32 then None
      else cons_fst c (parse_str s))"

definition digits_value :: "string \<Rightarrow> nat" where
  "digits_value s = foldl (\<lambda>a c. a * 10 + (code_unit c - 48)) 0 s"

definition scaled :: "int \<Rightarrow> nat \<Rightarrow> int \<Rightarrow> jsnum" where
  "scaled m k e = (if int k \<le> e then JInt (m * 10 ^ nat (e - int k)) else num_of m (nat (int k - e)))"

text \<open>The optional exponent: its value and the rest.\<close>

definition parse_exponent :: "string \<Rightarrow> (int \<times> string) option" where
  "parse_exponent s =
     (case s of
        [] \<Rightarrow> Some (0, [])
      | c # r \<Rightarrow>
          (if c = CHR ''e'' \<or> c = CHR ''E'' then
             (let neg = (r \<noteq> [] \<and> hd r = CHR ''-'');
                  r1 = (if r \<noteq> [] \<and> (hd r = CHR ''-'' \<or> hd r = CHR ''+'') then tl r else r);
                  ds = takeWhile is_digit r1
              in if ds = [] then None
                 else Some ((if neg then - int (digits_value ds) else int (digits_value ds)),
                            dropWhile is_digit r1))
           else Some (0, s)))"

definition parse_num :: "string \<Rightarrow> (jsnum \<times> string) option" where
  "parse_num s =
     (let neg = (s \<noteq> [] \<and> hd s = CHR ''-'');
          s1 = (if neg then tl s else s);
          ds = takeWhile is_digit s1;
          r = dropWhile is_digit s1;
          point = (r \<noteq> [] \<and> hd r = CHR ''.'');
          fs = (if point then takeWhile is_digit (tl r) else []);
          r1 = (if point then dropWhile is_digit (tl r) else r)
      in if ds = [] \<or> (hd ds = CHR ''0'' \<and> length ds > 1) \<or> (point \<and> fs = []) then None
         else case parse_exponent r1 of
           None \<Rightarrow> None
         | Some (e, rest) \<Rightarrow>
             (let m = int (digits_value (ds @ fs))
              in Some (scaled (if neg then - m else m) (length fs) e, rest)))"

text \<open>
  Own properties are ordered: array-index keys first, ascending, then the others in
  insertion order. Setting a present key keeps its place.
\<close>

definition is_index_key :: "string \<Rightarrow> bool" where
  "is_index_key k \<longleftrightarrow>
     k \<noteq> [] \<and> list_all is_digit k \<and> (hd k \<noteq> CHR ''0'' \<or> length k = 1)
     \<and> digits_value k < 4294967295"

definition before_index :: "string \<Rightarrow> string \<times> json \<Rightarrow> bool" where
  "before_index k p \<longleftrightarrow> is_index_key (fst p) \<and> digits_value (fst p) < digits_value k"

definition obj_set :: "json_object \<Rightarrow> string \<Rightarrow> json \<Rightarrow> json_object" where
  "obj_set kvs k v =
     (if mhas kvs k then mput kvs k v
      else if is_index_key k then
        takeWhile (before_index k) kvs @ (k, v) # dropWhile (before_index k) kvs
      else kvs @ [(k, v)])"

definition expect :: "string \<Rightarrow> 'a \<Rightarrow> string \<Rightarrow> ('a \<times> string) option" where
  "expect w v s = (if prefix w s then Some (v, drop (length w) s) else None)"

text \<open>
  A recursive-descent parser. The fuel bounds the nesting of calls; every call that recurs
  has consumed a unit, so the length of the text is enough.
\<close>

fun parse_val :: "nat \<Rightarrow> string \<Rightarrow> (json \<times> string) option"
  and parse_elems :: "nat \<Rightarrow> json list \<Rightarrow> string \<Rightarrow> (json list \<times> string) option"
  and parse_members :: "nat \<Rightarrow> json_object \<Rightarrow> string \<Rightarrow> (json_object \<times> string) option" where
  "parse_val 0 s = None"
| "parse_val (Suc f) s =
     (case skip_ws s of
        [] \<Rightarrow> None
      | c # r \<Rightarrow>
          (if c = CHR ''n'' then expect ''ull'' JNull r
           else if c = CHR ''t'' then expect ''rue'' (JBool True) r
           else if c = CHR ''f'' then expect ''alse'' (JBool False) r
           else if code_unit c = 34 then map_option (\<lambda>(t, r'). (JStr t, r')) (parse_str r)
           else if c = CHR ''['' then
             (if starts_with (skip_ws r) '']'' then Some (JArr [], tl (skip_ws r))
              else map_option (\<lambda>(vs, r'). (JArr vs, r')) (parse_elems f [] r))
           else if c = CHR ''{'' then
             (if starts_with (skip_ws r) ''}'' then Some (JObj [], tl (skip_ws r))
              else map_option (\<lambda>(kvs, r'). (JObj kvs, r')) (parse_members f [] r))
           else map_option (\<lambda>(n, r'). (JNum n, r')) (parse_num (c # r))))"
| "parse_elems 0 acc s = None"
| "parse_elems (Suc f) acc s =
     (case parse_val f s of
        None \<Rightarrow> None
      | Some (v, r) \<Rightarrow>
          (case skip_ws r of
             [] \<Rightarrow> None
           | c # r' \<Rightarrow>
               (if c = CHR '','' then parse_elems f (acc @ [v]) r'
                else if c = CHR '']'' then Some (acc @ [v], r') else None)))"
| "parse_members 0 acc s = None"
| "parse_members (Suc f) acc s =
     (case skip_ws s of
        [] \<Rightarrow> None
      | q # r \<Rightarrow>
          (if code_unit q \<noteq> 34 then None
           else case parse_str r of
             None \<Rightarrow> None
           | Some (k, r1) \<Rightarrow>
               (case skip_ws r1 of
                  [] \<Rightarrow> None
                | c # r2 \<Rightarrow>
                    (if c \<noteq> CHR '':'' then None
                     else case parse_val f r2 of
                       None \<Rightarrow> None
                     | Some (v, r3) \<Rightarrow>
                         (case skip_ws r3 of
                            [] \<Rightarrow> None
                          | d # r4 \<Rightarrow>
                              (if d = CHR '','' then parse_members f (obj_set acc k v) r4
                               else if d = CHR ''}'' then Some (obj_set acc k v, r4) else None))))))"

definition json_parse :: "string \<Rightarrow> json option" where
  "json_parse s =
     (case parse_val (Suc (length s)) s of
        None \<Rightarrow> None
      | Some (v, r) \<Rightarrow> (if skip_ws r = [] then Some v else None))"

text \<open>
  The values a JavaScript program can hold and print as JSON text: finite numbers in unique
  form and within the range printed without an exponent, and objects whose properties are in
  the language's order.
\<close>

fun wf_num :: "jsnum \<Rightarrow> bool" where
  "wf_num (JInt i) = (\<bar>i\<bar> < 10 ^ 21)"
| "wf_num (JFrac m k) =
     (0 < k \<and> m mod 10 \<noteq> 0 \<and> int k < int (length (nat_str (nat \<bar>m\<bar>))) + 6
      \<and> length (nat_str (nat \<bar>m\<bar>)) \<le> 21)"
| "wf_num _ = False"

definition wf_keys :: "json_object \<Rightarrow> bool" where
  "wf_keys kvs \<longleftrightarrow> foldl (\<lambda>a (k, v). obj_set a k v) [] kvs = kvs"

fun wf_json :: "json \<Rightarrow> bool" where
  "wf_json (JNum n) = wf_num n"
| "wf_json (JArr vs) = list_all wf_json vs"
| "wf_json (JObj kvs) = (wf_keys kvs \<and> list_all (\<lambda>(k, v). wf_json v) kvs)"
| "wf_json _ = True"

section \<open>UTF-8 round trip\<close>

lemma code_unit_less: "code_unit c < 256"
  unfolding code_unit_def by (metis of_char_mod_256 mod_less_divisor zero_less_numeral)

lemma char_of_code_unit [simp]: "char_of (code_unit c) = c"
  by (simp add: code_unit_def)

lemma code_unit_char_of [simp]: "n < 256 \<Longrightarrow> code_unit (char_of n) = n"
  by (simp add: code_unit_def)

lemma code_unit_inj [simp]: "code_unit c = code_unit d \<longleftrightarrow> c = d"
  by (metis char_of_code_unit)

lemma code_unit_lit:
  "code_unit (CHR 0x22) = 34" "code_unit (CHR 0x5C) = 92" "code_unit (CHR 0x08) = 8"
  "code_unit (CHR 0x0C) = 12" "code_unit (CHR 0x0A) = 10" "code_unit (CHR 0x0D) = 13"
  "code_unit (CHR 0x09) = 9" "code_unit (CHR ''0'') = 48" "code_unit (CHR ''/'') = 47"
  by (simp_all add: code_unit_def)

lemma code_unit_eq:
  "code_unit c = 34 \<longleftrightarrow> c = CHR 0x22" "code_unit c = 92 \<longleftrightarrow> c = CHR 0x5C"
  "code_unit c = 8 \<longleftrightarrow> c = CHR 0x08" "code_unit c = 12 \<longleftrightarrow> c = CHR 0x0C"
  "code_unit c = 10 \<longleftrightarrow> c = CHR 0x0A" "code_unit c = 13 \<longleftrightarrow> c = CHR 0x0D"
  "code_unit c = 9 \<longleftrightarrow> c = CHR 0x09" "code_unit c = 47 \<longleftrightarrow> c = CHR ''/''"
  using code_unit_inj [of c "CHR 0x22"] code_unit_inj [of c "CHR 0x5C"] code_unit_inj [of c "CHR 0x08"]
    code_unit_inj [of c "CHR 0x0C"] code_unit_inj [of c "CHR 0x0A"] code_unit_inj [of c "CHR 0x0D"]
    code_unit_inj [of c "CHR 0x09"] code_unit_inj [of c "CHR ''/''"]
  by (simp_all only: code_unit_lit)

lemma unat_byte: "n < 256 \<Longrightarrow> unat (word_of_nat n :: byte) = n"
  by (simp add: unat_of_nat)

lemma lead_byte_cases:
  assumes "n < 256" and "128 \<le> (n::nat)"
  shows "n div 64 = 2 \<or> n div 64 = 3"
proof -
  have "n div 64 < 4" using assms(1) by (simp add: div_less_iff_less_mult)
  moreover have "2 \<le> n div 64" using assms(2) div_le_mono [of 128 n 64] by simp
  ultimately show ?thesis by linarith
qed

lemma utf8_decode_unit: "utf8_decode (utf8_unit c @ bs) = map_option ((#) c) (utf8_decode bs)"
proof -
  have lt: "code_unit c < 256" by (rule code_unit_less)
  show ?thesis
  proof (cases "code_unit c < 128")
    case True
    then show ?thesis by (simp add: utf8_unit_def unat_byte Let_def)
  next
    case False
    then have a: "code_unit c div 64 = 2 \<or> code_unit c div 64 = 3"
      using lt by (intro lead_byte_cases) simp_all
    have m: "code_unit c mod 64 < 64" by simp
    have b: "unat (word_of_nat (192 + code_unit c div 64) :: byte) = 192 + code_unit c div 64"
      using a by (intro unat_byte) auto
    have c: "unat (word_of_nat (128 + code_unit c mod 64) :: byte) = 128 + code_unit c mod 64"
      using m by (intro unat_byte) linarith
    have d: "code_unit c div 64 * 64 + code_unit c mod 64 = code_unit c" by simp
    have e: "utf8_unit c = [word_of_nat (192 + code_unit c div 64), word_of_nat (128 + code_unit c mod 64)]"
      using False by (simp only: utf8_unit_def Let_def if_False)
    show ?thesis
      unfolding e append_Cons append_Nil utf8_decode.simps list.case b c
      using a m d by auto
  qed
qed

lemma utf8_roundtrip: "utf8_decode (utf8_encode s) = Some s"
  by (induction s) (simp_all add: utf8_encode_def utf8_decode_unit)

text \<open>Only the unit 10 produces the byte 10, so an escaped text never contains a line break.\<close>

lemma newline_byte_unit: "(10 :: byte) \<in> set (utf8_unit c) \<longleftrightarrow> code_unit c = 10"
proof -
  have lt: "code_unit c < 256" by (rule code_unit_less)
  have *: "(word_of_nat n = (10 :: byte)) \<longleftrightarrow> n = 10" if "n < 256" for n
  proof
    assume "word_of_nat n = (10 :: byte)"
    then have "unat (word_of_nat n :: byte) = unat (10 :: byte)" by (rule arg_cong)
    with unat_byte [OF that] show "n = 10" by simp
  qed simp
  show ?thesis
  proof (cases "code_unit c < 128")
    case True
    with lt show ?thesis by (auto simp: utf8_unit_def Let_def * eq_commute)
  next
    case False
    have "code_unit c div 64 = 2 \<or> code_unit c div 64 = 3"
      using False lt by (intro lead_byte_cases) simp_all
    then have "192 + code_unit c div 64 < 256" "128 + code_unit c mod 64 < 256"
      using mod_less_divisor [of 64 "code_unit c"] by auto
    then have "(word_of_nat (192 + code_unit c div 64) :: byte) \<noteq> 10"
      "(word_of_nat (128 + code_unit c mod 64) :: byte) \<noteq> 10"
      by (simp_all only: *)
    moreover have "utf8_unit c = [word_of_nat (192 + code_unit c div 64), word_of_nat (128 + code_unit c mod 64)]"
      using False by (simp only: utf8_unit_def Let_def if_False)
    ultimately show ?thesis using False by auto
  qed
qed

lemma newline_byte_encode: "(10 :: byte) \<in> set (utf8_encode s) \<longleftrightarrow> CHR 0x0A \<in> set s"
  by (induction s) (simp_all add: utf8_encode_def newline_byte_unit code_unit_eq(5) eq_commute)

lemma utf8_encode_append [simp]: "utf8_encode (s @ t) = utf8_encode s @ utf8_encode t"
  by (simp add: utf8_encode_def)

lemma utf8_encode_length: "length (utf8_encode s) \<le> 2 * length s"
  by (induction s) (auto simp: utf8_encode_def utf8_unit_def Let_def)

section \<open>String literals round trip\<close>

lemma hex_value_digit: "n < 16 \<Longrightarrow> hex_value (hex_digit n) = Some n"
  by (auto simp: hex_value_def hex_digit_def Let_def)

lemma parse_str_escape: "parse_str (escape_unit c @ s) = cons_fst c (parse_str s)"
proof -
  let ?n = "code_unit c"
  consider "?n = 34" | "?n = 92" | "?n = 8" | "?n = 12" | "?n = 10" | "?n = 13" | "?n = 9"
    | "?n < 32" "?n \<notin> {8, 9, 10, 12, 13}" | "32 \<le> ?n" "?n \<noteq> 34" "?n \<noteq> 92"
    by fastforce
  then show ?thesis
  proof cases
    case 8
    have d: "?n div 16 < 16" "?n mod 16 < 16" using 8(1) by (simp_all add: div_less_iff_less_mult)
    have z: "hex_value CHR ''0'' = Some 0" by (simp add: hex_value_def code_unit_def)
    have "hex4 CHR ''0'' CHR ''0'' (hex_digit (?n div 16)) (hex_digit (?n mod 16)) = Some ?n"
      by (simp add: hex4_def z hex_value_digit [OF d(1)] hex_value_digit [OF d(2)])
    moreover have "escape_unit c = [CHR 0x5C, CHR ''u'', CHR ''0'', CHR ''0'', hex_digit (?n div 16), hex_digit (?n mod 16)]"
      using 8 by (simp add: escape_unit_def Let_def)
    ultimately show ?thesis using 8(1) by (simp add: code_unit_lit)
  next
    case 9
    then show ?thesis by (simp add: escape_unit_def Let_def)
  qed (simp add: escape_unit_def Let_def unescape_def code_unit_lit code_unit_eq)+
qed

lemma parse_str_escaped:
  "parse_str (concat (map escape_unit s) @ CHR 0x22 # r) = Some (s, r)"
  by (induction s) (simp_all add: parse_str_escape cons_fst_def code_unit_lit)

lemma no_newline_escape: "CHR 0x0A \<notin> set (escape_unit c)"
proof -
  have "hex_digit n \<noteq> CHR 0x0A" if "n < 16" for n
    using hex_value_digit [OF that] by (auto simp: hex_value_def code_unit_lit)
  moreover have "code_unit c < 32 \<Longrightarrow> code_unit c div 16 < 16" "code_unit c mod 16 < 16"
    by (simp_all add: div_less_iff_less_mult)
  ultimately show ?thesis
    by (auto simp: escape_unit_def Let_def code_unit_eq dest: sym)
qed

section \<open>Numerals round trip\<close>

lemma digits_value_snoc: "digits_value (s @ [c]) = digits_value s * 10 + (code_unit c - 48)"
  by (simp add: digits_value_def)

lemma code_unit_digit_char: "n < 10 \<Longrightarrow> code_unit (digit_char n) = 48 + n"
  by (simp add: digit_char_def)

lemma nat_str_value [simp]: "digits_value (nat_str n) = n"
proof (induction n rule: nat_str.induct)
  case (1 n)
  show ?case
  proof (cases "n < 10")
    case True
    then show ?thesis by (simp add: nat_str.simps [of n] digits_value_def code_unit_digit_char)
  next
    case False
    with 1 show ?thesis
      by (simp add: nat_str.simps [of n] digits_value_snoc code_unit_digit_char)
  qed
qed

lemma nat_str_digits: "\<forall>c \<in> set (nat_str n). is_digit c"
proof (induction n rule: nat_str.induct)
  case (1 n)
  then show ?case
    by (cases "n < 10") (auto simp: nat_str.simps [of n] is_digit_def code_unit_digit_char)
qed

lemma nat_str_hd: "n \<noteq> 0 \<Longrightarrow> hd (nat_str n) \<noteq> CHR ''0''"
proof (induction n rule: nat_str.induct)
  case (1 n)
  show ?case
  proof (cases "n < 10")
    case True
    have "hd (nat_str n) = digit_char n" using True by (simp add: nat_str.simps [of n])
    moreover have "code_unit (digit_char n) \<noteq> code_unit CHR ''0''"
      using True "1.prems" by (simp add: code_unit_digit_char) (simp add: code_unit_def)
    ultimately show ?thesis by auto
  next
    case False
    then have "hd (nat_str (n div 10)) \<noteq> CHR ''0''" using 1 by simp
    then show ?thesis using False by (simp add: nat_str.simps [of n])
  qed
qed

lemma nat_str_0: "nat_str 0 = ''0''"
  by (simp add: nat_str.simps digit_char_def) code_simp

lemma takeWhile_digits:
  "\<forall>c \<in> set s. is_digit c \<Longrightarrow> r = [] \<or> \<not> is_digit (hd r) \<Longrightarrow>
   takeWhile is_digit (s @ r) = s \<and> dropWhile is_digit (s @ r) = r"
  by (cases r) (auto simp: takeWhile_append dropWhile_append dropWhile_eq_Nil_conv)

definition num_stop :: "string \<Rightarrow> bool" where
  "num_stop r \<longleftrightarrow> r = [] \<or> hd r \<in> {CHR '','', CHR '']'', CHR ''}''}"

lemma num_stopD: "num_stop r \<Longrightarrow> r = [] \<or> \<not> is_digit (hd r)"
  by (auto simp: num_stop_def is_digit_def code_unit_def)

lemma parse_exponent_stop: "num_stop r \<Longrightarrow> parse_exponent r = Some (0, r)"
  by (cases r) (auto simp: num_stop_def parse_exponent_def)

text \<open>A sign, digits without a leading zero, and an optional fraction, read back.\<close>

lemma parse_num_plain:
  assumes ds: "\<forall>c \<in> set ds. is_digit c" "ds \<noteq> []" "hd ds \<noteq> CHR ''0'' \<or> length ds = 1"
    and fs: "\<forall>c \<in> set fs. is_digit c" and r: "num_stop r"
  shows "parse_num ((if neg then ''-'' else []) @ ds @ (if fs = [] then [] else CHR ''.'' # fs) @ r)
       = Some (scaled (if neg then - int (digits_value (ds @ fs)) else int (digits_value (ds @ fs)))
                 (length fs) 0, r)"
proof -
  have nd: "\<not> is_digit CHR ''.''" "\<not> is_digit CHR ''-''" by (simp_all add: is_digit_def code_unit_def)
  have hd_ds: "hd ds \<noteq> CHR ''-''" using ds(1,2) nd(2) hd_in_set by metis
  let ?tail = "(if fs = [] then [] else CHR ''.'' # fs) @ r"
  have t: "?tail = [] \<or> \<not> is_digit (hd ?tail)" using num_stopD [OF r] nd by auto
  have p: "(?tail \<noteq> [] \<and> hd ?tail = CHR ''.'') \<longleftrightarrow> fs \<noteq> []"
    using r by (auto simp: num_stop_def)
  have f: "takeWhile is_digit (fs @ r) = fs" "dropWhile is_digit (fs @ r) = r"
    using takeWhile_digits [OF fs num_stopD [OF r]] by simp_all
  have d: "takeWhile is_digit (ds @ ?tail) = ds" "dropWhile is_digit (ds @ ?tail) = ?tail"
    using takeWhile_digits [OF ds(1) t] by simp_all
  have lead: "\<not> (ds = [] \<or> (hd ds = CHR ''0'' \<and> length ds > 1))" using ds by auto
  let ?s = "(if neg then ''-'' else []) @ ds @ ?tail"
  have n: "(?s \<noteq> [] \<and> hd ?s = CHR ''-'') = neg" and s1: "(if neg then tl ?s else ?s) = ds @ ?tail"
    using ds(2) hd_ds by auto
  have fs': "(if fs \<noteq> [] then takeWhile is_digit (tl ?tail) else []) = fs"
    and r1: "(if fs \<noteq> [] then dropWhile is_digit (tl ?tail) else ?tail) = r"
    using f by auto
  show ?thesis
    unfolding parse_num_def Let_def n s1 d p fs' r1 using lead r by (simp add: parse_exponent_stop)
qed

lemma num_str_roundtrip:
  assumes "wf_num n" and "num_stop r"
  shows "parse_num (json_num_str n @ r) = Some (n, r)"
proof (cases n)
  case (JInt i)
  let ?s = "nat_str (nat \<bar>i\<bar>)"
  have lead: "hd ?s \<noteq> CHR ''0'' \<or> length ?s = 1"
    using nat_str_hd [of "nat \<bar>i\<bar>"] by (cases "i = 0") (auto simp: nat_str_0)
  have "json_num_str n = (if i < 0 then ''-'' else []) @ ?s"
    using assms(1) JInt by (simp add: json_num_str_def int_str_def)
  then show ?thesis
    using parse_num_plain [of ?s "[]" r "i < 0"] lead nat_str_digits assms(2) JInt
    by (simp add: scaled_def)
next
  case (JFrac m k)
  let ?s = "nat_str (nat \<bar>m\<bar>)" and ?n = "int (length (nat_str (nat \<bar>m\<bar>))) - int k"
  from assms(1) JFrac have k: "0 < k" and m10: "m mod 10 \<noteq> 0" and lo: "- 6 < ?n"
    and len: "length ?s \<le> 21" by auto
  have m0: "m \<noteq> 0" using m10 by auto
  have txt_eq: "json_num_str n = (if m < 0 then ''-'' else []) @ digits_form ?s ?n"
    using JFrac by (simp add: json_num_str_def Let_def)
  have sc: "scaled (if m < 0 then - int (nat \<bar>m\<bar>) else int (nat \<bar>m\<bar>)) k 0 = JFrac m k"
    using k m10 by (cases k) (auto simp: scaled_def nat_add_distrib simp flip: of_nat_Suc)
  have len_s: "0 < length ?s" by (simp add: length_greater_0_conv)
  show ?thesis
  proof (cases "0 < ?n")
    case True
    let ?d = "take (nat ?n) ?s" and ?f = "drop (nat ?n) ?s"
    have form: "digits_form ?s ?n = ?d @ CHR ''.'' # ?f"
      using True k len by (simp add: digits_form_def Let_def)
    have f: "length ?f = k" "?f \<noteq> []" using True k by auto
    have d: "?d \<noteq> []" "hd ?d \<noteq> CHR ''0''"
      using True nat_str_hd [of "nat \<bar>m\<bar>"] m0 by (auto simp: hd_take)
    have dg: "\<forall>c \<in> set ?d. is_digit c" "\<forall>c \<in> set ?f. is_digit c"
      using nat_str_digits by (auto dest: in_set_takeD in_set_dropD)
    have "parse_num (json_num_str n @ r) = Some (JFrac m k, r)"
      using parse_num_plain [OF dg(1) d(1) disjI1 [OF d(2)] dg(2) assms(2), of "m < 0"] f(2)
      unfolding append_take_drop_id nat_str_value f(1) sc txt_eq form by simp
    then show ?thesis by (simp add: JFrac)
  next
    case False
    let ?f = "replicate (nat (- ?n)) CHR ''0'' @ ?s"
    have form: "digits_form ?s ?n = ''0'' @ CHR ''.'' # ?f"
      using False lo k by (simp add: digits_form_def Let_def)
    have f: "length ?f = k" using False by simp
    have z: "foldl (\<lambda>a c. a * 10 + (code_unit c - 48)) 0 (replicate j CHR ''0'') = 0" for j
      by (induction j) (simp_all add: code_unit_lit)
    have v: "digits_value (''0'' @ ?f) = nat \<bar>m\<bar>"
      using nat_str_value [of "nat \<bar>m\<bar>"] by (simp add: digits_value_def z code_unit_lit)
    have dg: "\<forall>c \<in> set ''0''. is_digit c" "\<forall>c \<in> set ?f. is_digit c"
      using nat_str_digits by (auto simp: is_digit_def code_unit_lit)
    have l: "hd ''0'' \<noteq> CHR ''0'' \<or> length ''0'' = 1" by simp
    have "parse_num (json_num_str n @ r) = Some (JFrac m k, r)"
      using parse_num_plain [OF dg(1) _ l dg(2) assms(2), of "m < 0"]
      unfolding v f sc txt_eq form by simp
    then show ?thesis by (simp add: JFrac)
  qed
qed (use assms in auto)

section \<open>JSON text round trip\<close>

lemma num_text_start:
  assumes "wf_num n"
  shows "\<exists>c s. json_num_str n = c # s \<and> (is_digit c \<or> c = CHR ''-'')"
proof -
  obtain n' r where p: "parse_num (json_num_str n @ []) = Some (n', r)"
    using num_str_roundtrip [OF assms, of "[]"] by (auto simp: num_stop_def)
  then have "json_num_str n \<noteq> []" by (auto simp: parse_num_def)
  then obtain c s where cs: "json_num_str n = c # s" by (cases "json_num_str n") auto
  with p show ?thesis by (auto simp: parse_num_def Let_def split: if_splits)
qed

lemma json_text_start:
  assumes "wf_json v"
  shows "\<exists>c s. json_text v = c # s \<and> \<not> is_json_space c \<and> c \<noteq> CHR '']'' \<and> c \<noteq> CHR ''}''"
proof (cases v)
  case (JNum n)
  then obtain c s where "json_text v = c # s" "is_digit c \<or> c = CHR ''-''"
    using assms num_text_start [of n] by auto
  then show ?thesis by (auto simp: is_json_space_def is_digit_def code_unit_def)
qed (auto simp: is_json_space_def quote_str_def code_unit_def)

lemma skip_ws_start: "\<not> is_json_space c \<Longrightarrow> skip_ws (c # s) = c # s"
  by (simp add: skip_ws_def)

lemma json_space_lit [simp]:
  "\<not> is_json_space CHR '',''" "\<not> is_json_space CHR '']''" "\<not> is_json_space CHR ''}''"
  "\<not> is_json_space CHR '':''" "\<not> is_json_space (CHR 0x22)"
  by (simp_all add: is_json_space_def code_unit_def)

definition parses_back :: "json \<Rightarrow> bool" where
  "parses_back v \<longleftrightarrow> (\<forall>f r. num_stop r \<longrightarrow> length (json_text v) \<le> f \<longrightarrow>
     parse_val (Suc f) (json_text v @ r) = Some (v, r))"

lemma parse_elems_text:
  assumes "vs \<noteq> []" and "\<forall>v \<in> set vs. parses_back v"
    and "length (join '','' (map json_text vs)) + 2 \<le> f"
  shows "parse_elems f acc (join '','' (map json_text vs) @ CHR '']'' # r) = Some (acc @ vs, r)"
  using assms
proof (induction vs arbitrary: f acc)
  case Nil
  then show ?case by simp
next
  case (Cons v vs)
  obtain f' where f: "f = Suc (Suc f')" using Cons.prems(3) by (metis add_2_eq_Suc' le_Suc_ex add_Suc)
  show ?case
  proof (cases vs)
    case Nil
    then have "parse_val (Suc f') (json_text v @ CHR '']'' # r) = Some (v, CHR '']'' # r)"
      using Cons.prems f by (simp add: parses_back_def num_stop_def)
    then show ?thesis using Nil f by (simp add: skip_ws_start)
  next
    case (Cons w ws)
    let ?rest = "join '','' (map json_text vs)"
    have j: "join '','' (map json_text (v # vs)) = json_text v @ CHR '','' # ?rest"
      using Cons by simp
    have p: "parse_val (Suc f') (json_text v @ CHR '','' # ?rest @ CHR '']'' # r)
        = Some (v, CHR '','' # ?rest @ CHR '']'' # r)"
      using Cons.prems f j by (simp add: parses_back_def num_stop_def)
    have q: "parse_elems (Suc f') (acc @ [v]) (?rest @ CHR '']'' # r) = Some ((acc @ [v]) @ vs, r)"
      using Cons.prems f j Cons by (intro Cons.IH) auto
    show ?thesis unfolding j using f p q by (simp add: skip_ws_start)
  qed
qed

lemma parse_members_text:
  assumes "kvs \<noteq> []" and "\<forall>(k, v) \<in> set kvs. parses_back v"
    and "length (join '','' (map (\<lambda>(k, v). quote_str k @ CHR '':'' # json_text v) kvs)) + 2 \<le> f"
  shows "parse_members f acc (join '','' (map (\<lambda>(k, v). quote_str k @ CHR '':'' # json_text v) kvs) @ CHR ''}'' # r)
       = Some (foldl (\<lambda>a (k, v). obj_set a k v) acc kvs, r)"
  using assms
proof (induction kvs arbitrary: f acc)
  case Nil
  then show ?case by simp
next
  case (Cons kv kvs)
  obtain k v where kv: "kv = (k, v)" by (cases kv)
  let ?g = "\<lambda>(k, v). quote_str k @ CHR '':'' # json_text v"
  obtain f' where f: "f = Suc (Suc f')" using Cons.prems(3) by (metis add_2_eq_Suc' le_Suc_ex add_Suc)
  have start: "parse_members f acc (quote_str k @ CHR '':'' # json_text v @ d # t)
      = (if d = CHR '','' then parse_members (Suc f') (obj_set acc k v) t
         else if d = CHR ''}'' then Some (obj_set acc k v, t) else None)"
    if "d = CHR '','' \<or> d = CHR ''}''" for d t
  proof -
    have "length (json_text v) \<le> f'"
      using Cons.prems(3) f kv by (cases kvs) (auto simp: quote_str_def)
    then have "parse_val (Suc f') (json_text v @ d # t) = Some (v, d # t)"
      using Cons.prems(2) kv that by (auto simp: parses_back_def num_stop_def)
    then show ?thesis
      using that f by (auto simp: quote_str_def skip_ws_start parse_str_escaped code_unit_lit)
  qed
  show ?case
  proof (cases kvs)
    case Nil
    then show ?thesis using start [of "CHR ''}''" r] kv by simp
  next
    case (Cons kv' kvs')
    let ?rest = "join '','' (map ?g kvs)"
    have j: "join '','' (map ?g (kv # kvs)) = quote_str k @ CHR '':'' # json_text v @ CHR '','' # ?rest"
      using Cons kv by simp
    have q: "parse_members (Suc f') (obj_set acc k v) (?rest @ CHR ''}'' # r)
        = Some (foldl (\<lambda>a (k, v). obj_set a k v) (obj_set acc k v) kvs, r)"
      using Cons.prems f j Cons by (intro Cons.IH) (auto simp: quote_str_def)
    show ?thesis
      using start [of "CHR '',''" "?rest @ CHR ''}'' # r"] q unfolding j
      by (simp add: kv del: parse_members.simps)
  qed
qed


lemma digit_start_parse:
  assumes "is_digit c \<or> c = CHR ''-''"
  shows "parse_val (Suc f) (c # s) = map_option (\<lambda>(n, r'). (JNum n, r')) (parse_num (c # s))"
proof -
  have "\<not> is_json_space c" using assms by (auto simp: is_json_space_def is_digit_def code_unit_def)
  moreover have "c \<notin> {CHR ''n'', CHR ''t'', CHR ''f'', CHR ''['', CHR ''{''}" "code_unit c \<noteq> 34"
    using assms by (auto simp: is_digit_def code_unit_def)
  ultimately show ?thesis by (simp add: skip_ws_start)
qed

lemma parses_back_all: "wf_json v \<Longrightarrow> parses_back v"
proof (induction v rule: json_text.induct)
  case 1
  then show ?case
    by (simp add: parses_back_def skip_ws_def is_json_space_def code_unit_def expect_def)
next
  case (2 b)
  then show ?case
    by (simp add: parses_back_def skip_ws_def is_json_space_def code_unit_def expect_def)
next
  case (3 n)
  then obtain c s where cs: "json_num_str n = c # s" "is_digit c \<or> c = CHR ''-''"
    using num_text_start [of n] by auto
  show ?case
    unfolding parses_back_def
  proof (intro allI impI)
    fix f r assume "num_stop r"
    then have "parse_num (c # s @ r) = Some (n, r)"
      using num_str_roundtrip [of n r] 3 cs by simp
    then show "parse_val (Suc f) (json_text (JNum n) @ r) = Some (JNum n, r)"
      using digit_start_parse [OF cs(2), of f "s @ r"] cs(1) by simp
  qed
next
  case (4 s)
  then show ?case
    by (simp add: parses_back_def quote_str_def skip_ws_start parse_str_escaped code_unit_lit)
next
  case (5 vs)
  show ?case
    unfolding parses_back_def
  proof (intro allI impI)
    fix f r assume f: "length (json_text (JArr vs)) \<le> f"
    show "parse_val (Suc f) (json_text (JArr vs) @ r) = Some (JArr vs, r)"
    proof (cases vs)
      case Nil
      then show ?thesis by (simp add: skip_ws_def is_json_space_def code_unit_def starts_with_def)
    next
      case (Cons v ws)
      have all: "\<forall>v \<in> set vs. parses_back v" using 5 by (auto simp: list_all_iff)
      have "wf_json v" using 5(2) Cons by simp
      then obtain c t where ct: "json_text v = c # t" "\<not> is_json_space c" "c \<noteq> CHR '']''"
        using json_text_start by blast
      let ?b = "join '','' (map json_text vs)"
      obtain u where u: "?b = c # u" using ct Cons by (cases ws) auto
      have "parse_elems f [] (?b @ CHR '']'' # r) = Some ([] @ vs, r)"
        using f Cons all by (intro parse_elems_text) simp_all
      then show ?thesis
        using ct u by (simp add: skip_ws_start starts_with_def is_json_space_def code_unit_def)
    qed
  qed
next
  case (6 kvs)
  show ?case
    unfolding parses_back_def
  proof (intro allI impI)
    fix f r assume f: "length (json_text (JObj kvs)) \<le> f"
    show "parse_val (Suc f) (json_text (JObj kvs) @ r) = Some (JObj kvs, r)"
    proof (cases kvs)
      case Nil
      then show ?thesis by (simp add: skip_ws_def is_json_space_def code_unit_def starts_with_def)
    next
      case (Cons kv ws)
      let ?g = "\<lambda>(k, v). quote_str k @ CHR '':'' # json_text v"
      have all: "\<forall>(k, v) \<in> set kvs. parses_back v" using 6 by (auto simp: list_all_iff)
      let ?b = "join '','' (map ?g kvs)"
      obtain u where u: "?b = CHR 0x22 # u"
        using Cons by (cases ws; cases kv) (auto simp: quote_str_def)
      have "parse_members f [] (?b @ CHR ''}'' # r) = Some (foldl (\<lambda>a (k, v). obj_set a k v) [] kvs, r)"
        using f Cons all by (intro parse_members_text) simp_all
      then show ?thesis
        using u 6(2) by (simp add: skip_ws_start starts_with_def is_json_space_def code_unit_def wf_keys_def)
    qed
  qed
qed

theorem json_roundtrip: "wf_json v \<Longrightarrow> json_parse (json_text v) = Some v"
  using parses_back_all [of v]
  by (simp add: json_parse_def parses_back_def num_stop_def skip_ws_def
      del: parse_val.simps split: option.splits)

lemma newline_not_digit: "\<forall>c \<in> set s. is_digit c \<Longrightarrow> CHR 0x0A \<notin> set s"
  by (auto simp: is_digit_def code_unit_def)

lemma num_text_no_newline: "CHR 0x0A \<notin> set (json_num_str n)"
proof -
  note nd = newline_not_digit [OF nat_str_digits]
  have dz: "CHR 0x0A \<notin> set (drop_trailing_zeros s)" if "CHR 0x0A \<notin> set s" for s
    using that by (auto simp: drop_trailing_zeros_def dest: set_dropWhileD)
  have ef: "CHR 0x0A \<notin> set (exponent_form s i)" if "CHR 0x0A \<notin> set s" for s i
    using that nd by (auto simp: exponent_form_def Let_def split: list.splits)
  have df: "CHR 0x0A \<notin> set (digits_form s i)" if "CHR 0x0A \<notin> set s" for s i
    using that ef [OF that] by (auto simp: digits_form_def Let_def dest: in_set_takeD in_set_dropD)
  show ?thesis
    using nd df [OF dz [OF nd]] df [OF nd]
    by (cases n) (auto simp: json_num_str_def int_str_def Let_def)
qed

lemma set_join: "set (join sep xs) \<subseteq> set sep \<union> (\<Union>x \<in> set xs. set x)"
  by (induction sep xs rule: join.induct) auto

lemma quote_no_newline: "CHR 0x0A \<notin> set (quote_str s)"
  using no_newline_escape by (auto simp: quote_str_def)

lemma json_text_no_newline: "CHR 0x0A \<notin> set (json_text v)"
proof (induction v rule: json_text.induct)
  case (5 vs)
  then show ?case using set_join [of "'',''" "map json_text vs"] by auto
next
  case (6 kvs)
  then show ?case
    using set_join [of "'',''" "map (\<lambda>(k, v). quote_str k @ CHR '':'' # json_text v) kvs"]
    by (auto simp: quote_no_newline)
qed (simp_all add: num_text_no_newline quote_no_newline)

lemma foldl_obj_set:
  "distinct (map fst (acc @ kvs)) \<Longrightarrow> \<forall>k \<in> set (map fst kvs). \<not> is_index_key k \<Longrightarrow>
   foldl (\<lambda>a (k, v). obj_set a k v) acc kvs = acc @ kvs"
proof (induction kvs arbitrary: acc)
  case Nil
  then show ?case by simp
next
  case (Cons kv kvs)
  obtain k v where kv: "kv = (k, v)" by (cases kv)
  have "mget acc k = None" using Cons.prems(1) kv by (auto simp: mget_def map_of_eq_None_iff)
  then have "obj_set acc k v = acc @ [(k, v)]"
    using Cons.prems(2) kv by (simp add: obj_set_def mhas_def)
  then show ?case using Cons.IH [of "acc @ [(k, v)]"] Cons.prems kv by simp
qed

text \<open>Object literals of the program have fixed, non-numeric, distinct keys.\<close>

lemma wf_keysI:
  "distinct (map fst kvs) \<Longrightarrow> \<forall>k \<in> set (map fst kvs). \<not> is_index_key k \<Longrightarrow> wf_keys kvs"
  using foldl_obj_set [of "[]" kvs] by (simp add: wf_keys_def)

lemma not_index_lower: "k \<noteq> [] \<Longrightarrow> is_lower (hd k) \<Longrightarrow> \<not> is_index_key k"
  by (cases k) (auto simp: is_index_key_def is_lower_def is_digit_def)

lemma obj_set_keys: "set (map fst (obj_set kvs k v)) = insert k (set (map fst kvs))"
proof (cases "mhas kvs k")
  case True
  then show ?thesis
    using jsmap.keys_put_set [of kvs k v] by (simp add: obj_set_def mkeys_def)
next
  case False
  have "set (map fst (takeWhile P kvs @ (k, v) # dropWhile P kvs)) = insert k (set (map fst kvs))" for P
  proof -
    have "set kvs = set (takeWhile P kvs) \<union> set (dropWhile P kvs)"
      by (metis set_append takeWhile_dropWhile_id)
    then show ?thesis by auto
  qed
  from this [of "before_index k"] False show ?thesis by (simp add: obj_set_def image_Un)
qed

end
