(* ===== verification/Event_Envelope.thy ===== *)
theory Event_Envelope
  imports Js_Text
begin

text \<open>
  The envelope of a canonical event (\<^verbatim>\<open>packages/protocol/src/event-envelope.ts\<close>): identifiers,
  the bounded walk that accepts JSON payloads, and the parser of the envelope itself. A thrown
  \<^verbatim>\<open>ProtocolValidationError\<close> is a value; an absent property is \<open>None\<close>.

  Values here are trees, so the tests for repeated references and for foreign prototypes,
  which only shared or class objects can fail, have no counterpart.
\<close>

datatype protocol_error = ProtocolValidationError (error_path: string) (error_message: string)

definition validationError :: "string \<Rightarrow> string \<Rightarrow> protocol_error option" where
  "validationError path message = Some (ProtocolValidationError path message)"

definition EVENT_FORMAT_VERSION :: int where
  "EVENT_FORMAT_VERSION = 1"

definition maximumJsonDepth :: nat where
  "maximumJsonDepth = 64"

section \<open>Identifiers\<close>

definition is_dash :: "char \<Rightarrow> bool" where
  "is_dash c \<longleftrightarrow> c = CHR ''-''"

definition is_uuid_version :: "char \<Rightarrow> bool" where
  "is_uuid_version c \<longleftrightarrow> 49 \<le> code_unit c \<and> code_unit c \<le> 56"

definition is_uuid_variant :: "char \<Rightarrow> bool" where
  "is_uuid_variant c \<longleftrightarrow> c \<in> {CHR ''8'', CHR ''9'', CHR ''a'', CHR ''b''}"

definition uuidPattern :: "(char \<Rightarrow> bool) list" where
  "uuidPattern =
     replicate 8 is_lower_hex @ is_dash # replicate 4 is_lower_hex
     @ is_dash # is_uuid_version # replicate 3 is_lower_hex
     @ is_dash # is_uuid_variant # replicate 3 is_lower_hex
     @ is_dash # replicate 12 is_lower_hex"

definition is_uuid :: "string \<Rightarrow> bool" where
  "is_uuid s \<longleftrightarrow> list_all2 (\<lambda>p c. p c) uuidPattern s"

definition is_alnum :: "char \<Rightarrow> bool" where
  "is_alnum c \<longleftrightarrow> is_lower c \<or> is_digit c"

text \<open>The two states of \<^verbatim>\<open>[a-z0-9]*(?:[._-][a-z0-9]+)*$\<close>: \<open>True\<close> right after a separator.\<close>

fun event_type_tail :: "bool \<Rightarrow> string \<Rightarrow> bool" where
  "event_type_tail after_sep [] = (\<not> after_sep)"
| "event_type_tail after_sep (c # s) =
     (if is_alnum c then event_type_tail False s
      else if c \<in> {CHR ''.'', CHR ''_'', CHR ''-''} \<and> \<not> after_sep then event_type_tail True s
      else False)"

definition eventTypePattern :: "string \<Rightarrow> bool" where
  "eventTypePattern s \<longleftrightarrow> (case s of [] \<Rightarrow> False | c # r \<Rightarrow> is_lower c \<and> event_type_tail False r)"

definition parseId :: "json option \<Rightarrow> string \<Rightarrow> protocol_error + string" where
  "parseId value path =
     (case value of
        Some (JStr s) \<Rightarrow>
          (if is_uuid s then Inr s
           else Inl (ProtocolValidationError path ''must be a lowercase RFC 9562 UUID''))
      | _ \<Rightarrow> Inl (ProtocolValidationError path ''must be a lowercase RFC 9562 UUID''))"

definition parseEventId :: "json option \<Rightarrow> string \<Rightarrow> protocol_error + string" where
  "parseEventId value path = parseId value path"

definition parseSessionId :: "json option \<Rightarrow> string \<Rightarrow> protocol_error + string" where
  "parseSessionId value path = parseId value path"

definition parseOperationId :: "json option \<Rightarrow> string \<Rightarrow> protocol_error + string" where
  "parseOperationId value path = parseId value path"

section \<open>Objects and bounded JSON\<close>

definition parseObject :: "json option \<Rightarrow> string \<Rightarrow> protocol_error + json_object" where
  "parseObject value path =
     (case value of
        Some (JObj kvs) \<Rightarrow> Inr kvs
      | _ \<Rightarrow> Inl (ProtocolValidationError path ''must be an object''))"

definition index_path :: "string \<Rightarrow> nat \<Rightarrow> string" where
  "index_path path i = path @ ''['' @ nat_str i @ '']''"

definition key_path :: "string \<Rightarrow> string \<Rightarrow> string" where
  "key_path path k = path @ ''.'' @ k"

lemma weight_elements:
  "length ns = length vs \<Longrightarrow>
   (\<Sum>p\<leftarrow>rev (map (\<lambda>p. (snd p, f (fst p), d)) (zip ns vs)). Suc (size (fst p))) = size_list size vs"
  by (induction ns vs rule: list_induct2) simp_all

lemma weight_members:
  "(\<Sum>p\<leftarrow>rev (map (\<lambda>p. (snd p, f (fst p), d)) kvs). Suc (size (fst p)))
   \<le> size_list (size_prod (\<lambda>x. 0) size) (kvs :: json_object)"
  by (induction kvs) auto

text \<open>
  The loop of \<^verbatim>\<open>validateJson\<close>: a stack of values with their path and depth, popped from the
  end and extended at the end. The head of the list is the top of the stack, so the children
  of a value are pushed in reverse.
\<close>

function validateJson_loop :: "(json \<times> string \<times> nat) list \<Rightarrow> protocol_error option" where
  "validateJson_loop [] = None"
| "validateJson_loop ((value, path, depth) # pending) =
     (case value of
        JNum n \<Rightarrow>
          (if is_finite n then validateJson_loop pending
           else validationError path ''must be a finite number'')
      | JArr vs \<Rightarrow>
          (if maximumJsonDepth \<le> depth
           then validationError path (''must not exceed '' @ nat_str maximumJsonDepth @ '' nested levels'')
           else validateJson_loop
                  (rev (map (\<lambda>(i, v). (v, index_path path i, Suc depth)) (indexed vs)) @ pending))
      | JObj kvs \<Rightarrow>
          (if maximumJsonDepth \<le> depth
           then validationError path (''must not exceed '' @ nat_str maximumJsonDepth @ '' nested levels'')
           else validateJson_loop
                  (rev (map (\<lambda>(k, v). (v, key_path path k, Suc depth)) kvs) @ pending))
      | _ \<Rightarrow> validateJson_loop pending)"
  by pat_completeness auto

termination
  by (relation "measure (\<lambda>st. sum_list (map (\<lambda>(v, path, depth). Suc (size v)) st))")
    (auto simp: case_prod_unfold indexed_def weight_elements less_Suc_eq_le
      intro: le_trans [OF weight_members] le_SucI)

definition validateJson :: "json \<Rightarrow> string \<Rightarrow> protocol_error option" where
  "validateJson value path = validateJson_loop [(value, path, 0)]"

text \<open>The reference: every number is finite and no container sits at depth 64 or below.\<close>

fun json_shape_ok :: "nat \<Rightarrow> json \<Rightarrow> bool" where
  "json_shape_ok d (JNum n) = is_finite n"
| "json_shape_ok d (JArr vs) = (d < maximumJsonDepth \<and> list_all (json_shape_ok (Suc d)) vs)"
| "json_shape_ok d (JObj kvs) =
     (d < maximumJsonDepth \<and> list_all (\<lambda>(k, v). json_shape_ok (Suc d) v) kvs)"
| "json_shape_ok d _ = True"

section \<open>The envelope\<close>

record event_envelope =
  env_id :: string
  env_sessionId :: string
  env_operationId :: "string option"
  env_parentId :: "string option"
  env_timestamp :: int
  env_type :: string
  env_payload :: json_object

definition allowedKeys :: "string list" where
  "allowedKeys =
     [''version'', ''id'', ''sessionId'', ''operationId'', ''parentId'', ''timestamp'', ''type'', ''payload'']"

definition check_allowed :: "string \<Rightarrow> string list \<Rightarrow> json_object \<Rightarrow> protocol_error option" where
  "check_allowed path allowed kvs =
     first_error (map (\<lambda>k. require (k \<in> set allowed)
       (ProtocolValidationError (key_path path k) ''is not allowed'')) (map fst kvs))"

fun safe_nonneg_int :: "json option \<Rightarrow> int option" where
  "safe_nonneg_int (Some (JNum (JInt i))) =
     (if is_safe_integer (JInt i) \<and> 0 \<le> i then Some i else None)"
| "safe_nonneg_int _ = None"

definition check_timestamp :: "json option \<Rightarrow> protocol_error + int" where
  "check_timestamp v =
     (case safe_nonneg_int v of
        Some i \<Rightarrow> Inr i
      | None \<Rightarrow> Inl (ProtocolValidationError ''event.timestamp'' ''must be a non-negative safe integer''))"

definition check_event_type :: "json option \<Rightarrow> protocol_error + string" where
  "check_event_type v =
     (case v of
        Some (JStr t) \<Rightarrow>
          (if length t \<le> 128 \<and> eventTypePattern t then Inr t
           else Inl (ProtocolValidationError ''event.type''
                  ''must be a lowercase event name of at most 128 characters''))
      | _ \<Rightarrow> Inl (ProtocolValidationError ''event.type''
               ''must be a lowercase event name of at most 128 characters''))"

definition parseEventEnvelope :: "json \<Rightarrow> protocol_error + event_envelope" where
  "parseEventEnvelope value =
     bindE (parseObject (Some value) ''event'') (\<lambda>event.
     bindE (run_checks
       [check_allowed ''event'' allowedKeys event,
        require (mget event ''version'' = Some (JNum (JInt EVENT_FORMAT_VERSION)))
          (ProtocolValidationError ''event.version'' (''must equal '' @ int_str EVENT_FORMAT_VERSION))] ()) (\<lambda>_.
     bindE (parseEventId (mget event ''id'') ''event.id'') (\<lambda>eid.
     bindE (parseSessionId (mget event ''sessionId'') ''event.sessionId'') (\<lambda>sessionId.
     bindE (if mget event ''parentId'' = Some JNull then Inr None
            else map_sum id Some (parseEventId (mget event ''parentId'') ''event.parentId'')) (\<lambda>parentId.
     bindE (check_timestamp (mget event ''timestamp'')) (\<lambda>timestamp.
     bindE (check_event_type (mget event ''type'')) (\<lambda>ty.
     bindE (parseObject (mget event ''payload'') ''event.payload'') (\<lambda>payload.
     bindE (run_checks [validateJson (JObj payload) ''event.payload''] ()) (\<lambda>_.
     bindE (if mhas event ''operationId''
            then map_sum id Some (parseOperationId (mget event ''operationId'') ''event.operationId'')
            else Inr None) (\<lambda>operationId.
     Inr \<lparr>env_id = eid, env_sessionId = sessionId, env_operationId = operationId,
          env_parentId = parentId, env_timestamp = timestamp, env_type = ty, env_payload = payload\<rparr>))))))))))"

text \<open>The object a parsed envelope is, with its properties in the order the parser writes them.\<close>

definition envelope_json :: "event_envelope \<Rightarrow> json_object" where
  "envelope_json e =
     [(''version'', JNum (JInt EVENT_FORMAT_VERSION)),
      (''id'', JStr (env_id e)),
      (''sessionId'', JStr (env_sessionId e))]
     @ (case env_operationId e of None \<Rightarrow> [] | Some op \<Rightarrow> [(''operationId'', JStr op)])
     @ [(''parentId'', case env_parentId e of None \<Rightarrow> JNull | Some p \<Rightarrow> JStr p),
        (''timestamp'', JNum (JInt (env_timestamp e))),
        (''type'', JStr (env_type e)),
        (''payload'', JObj (env_payload e))]"

definition wf_envelope :: "event_envelope \<Rightarrow> bool" where
  "wf_envelope e \<longleftrightarrow>
     is_uuid (env_id e) \<and> is_uuid (env_sessionId e)
     \<and> (case env_operationId e of None \<Rightarrow> True | Some op \<Rightarrow> is_uuid op)
     \<and> (case env_parentId e of None \<Rightarrow> True | Some p \<Rightarrow> is_uuid p)
     \<and> 0 \<le> env_timestamp e \<and> env_timestamp e \<le> max_safe_integer
     \<and> length (env_type e) \<le> 128 \<and> eventTypePattern (env_type e)
     \<and> json_shape_ok 0 (JObj (env_payload e))"

section \<open>What the validators accept\<close>

lemma validateJson_loop_None:
  "validateJson_loop st = None \<longleftrightarrow> (\<forall>(v, path, d) \<in> set st. json_shape_ok d v)"
proof (induction st rule: validateJson_loop.induct)
  case 1
  then show ?case by simp
next
  case (2 v path depth pending)
  show ?case
  proof (cases v)
    case (JArr vs)
    have elems: "(\<forall>i < length vs. json_shape_ok d (vs ! i)) \<longleftrightarrow> list_all (json_shape_ok d) vs" for d
      by (simp add: list_all_length)
    show ?thesis
    proof (cases "maximumJsonDepth \<le> depth")
      case False
      then show ?thesis
        using 2(5) [OF JArr False] JArr elems [of "Suc depth"] by (auto simp: in_set_indexed ball_Un ball_indexed)
    qed (simp add: JArr validationError_def)
  next
    case (JObj kvs)
    show ?thesis
    proof (cases "maximumJsonDepth \<le> depth")
      case False
      then show ?thesis
        using 2(6) [OF JObj False] JObj by (auto simp: list_all_iff ball_Un)
    qed (simp add: JObj validationError_def)
  qed (use 2 in \<open>auto simp: validationError_def\<close>)
qed

lemma validateJson_iff [check_simps]: "validateJson v path = None \<longleftrightarrow> json_shape_ok 0 v"
  by (simp add: validateJson_def validateJson_loop_None del: validateJson_loop.simps)

lemma parseId_Inr [throw_iff]: "parseId v path = Inr s \<longleftrightarrow> v = Some (JStr s) \<and> is_uuid s"
  by (auto simp: parseId_def split: option.splits json.splits)

lemmas parse_ids [throw_iff] =
  parseId_Inr [folded parseEventId_def] parseId_Inr [folded parseSessionId_def]
  parseId_Inr [folded parseOperationId_def]

lemma parseObject_Inr [throw_iff]: "parseObject v path = Inr kvs \<longleftrightarrow> v = Some (JObj kvs)"
  by (auto simp: parseObject_def split: option.splits json.splits)

lemma check_allowed_None [check_simps]:
  "check_allowed path allowed kvs = None \<longleftrightarrow> fst ` set kvs \<subseteq> set allowed"
  by (auto simp: check_allowed_def first_error_None)

lemma safe_nonneg_int_Some:
  "safe_nonneg_int v = Some i \<longleftrightarrow> v = Some (JNum (JInt i)) \<and> 0 \<le> i \<and> i \<le> max_safe_integer"
  by (cases v rule: safe_nonneg_int.cases) (auto simp: max_safe_integer_def)

lemma check_timestamp_Inr [throw_iff]:
  "check_timestamp v = Inr i \<longleftrightarrow> v = Some (JNum (JInt i)) \<and> 0 \<le> i \<and> i \<le> max_safe_integer"
  by (auto simp: check_timestamp_def safe_nonneg_int_Some [symmetric] split: option.splits)

lemma check_event_type_Inr [throw_iff]:
  "check_event_type v = Inr t \<longleftrightarrow> v = Some (JStr t) \<and> length t \<le> 128 \<and> eventTypePattern t"
  by (auto simp: check_event_type_def split: option.splits json.splits)

lemma map_sum_Inr [throw_iff]: "map_sum id f m = Inr y \<longleftrightarrow> (\<exists>x. m = Inr x \<and> y = f x)"
  by (cases m) auto

section \<open>The envelope round trip\<close>

lemma parseEventEnvelope_wf:
  assumes "parseEventEnvelope v = Inr e"
  shows "wf_envelope e"
  using assms
  by (auto simp: parseEventEnvelope_def throw_iff check_simps wf_envelope_def max_safe_integer_def
      split: if_splits)

lemma mget_envelope:
  "mget (envelope_json e) ''version'' = Some (JNum (JInt EVENT_FORMAT_VERSION))"
  "mget (envelope_json e) ''id'' = Some (JStr (env_id e))"
  "mget (envelope_json e) ''sessionId'' = Some (JStr (env_sessionId e))"
  "mget (envelope_json e) ''operationId'' = map_option JStr (env_operationId e)"
  "mget (envelope_json e) ''parentId'' = Some (case env_parentId e of None \<Rightarrow> JNull | Some p \<Rightarrow> JStr p)"
  "mget (envelope_json e) ''timestamp'' = Some (JNum (JInt (env_timestamp e)))"
  "mget (envelope_json e) ''type'' = Some (JStr (env_type e))"
  "mget (envelope_json e) ''payload'' = Some (JObj (env_payload e))"
  by (simp_all add: envelope_json_def split: option.splits)

lemma envelope_roundtrip:
  assumes "wf_envelope e"
  shows "parseEventEnvelope (JObj (envelope_json e)) = Inr e"
proof -
  have keys: "check_allowed ''event'' allowedKeys (envelope_json e) = None"
    by (auto simp: check_allowed_None envelope_json_def allowedKeys_def split: option.splits)
  have op: "mhas (envelope_json e) ''operationId'' \<longleftrightarrow> env_operationId e \<noteq> None"
    by (simp add: mhas_def mget_envelope)
  have ids: "parseEventId (Some (JStr (env_id e))) p = Inr (env_id e)"
    "parseSessionId (Some (JStr (env_sessionId e))) p = Inr (env_sessionId e)"
    "\<And>x. env_operationId e = Some x \<Longrightarrow> parseOperationId (Some (JStr x)) p = Inr x"
    "\<And>x. env_parentId e = Some x \<Longrightarrow> parseEventId (Some (JStr x)) p = Inr x" for p
    using assms by (auto simp: throw_iff wf_envelope_def)
  have rest: "check_timestamp (Some (JNum (JInt (env_timestamp e)))) = Inr (env_timestamp e)"
    "check_event_type (Some (JStr (env_type e))) = Inr (env_type e)"
    "validateJson (JObj (env_payload e)) p = None" for p
    using assms by (auto simp: throw_iff check_simps wf_envelope_def)
  show ?thesis
    unfolding parseEventEnvelope_def
    by (cases "env_operationId e"; cases "env_parentId e")
      (simp_all add: mget_envelope op keys ids rest parseObject_def run_checks_def)
qed

section \<open>Properties\<close>

text \<open>
  The JSON validator, an explicit work list over the value and its paths, accepts exactly the
  values whose numbers are finite and whose containers nest at most 64 deep.
\<close>

theorem validateJson_exact: "validateJson v path = None \<longleftrightarrow> json_shape_ok 0 v"
  by (simp add: validateJson_iff)

end
