(* ===== verification/Events.thy ===== *)
theory Events
  imports Event_Envelope
begin

text \<open>
  Canonical events (\<^verbatim>\<open>packages/protocol/src/events.ts\<close> and the request settings of
  \<^verbatim>\<open>model-request.ts\<close>): the payload of each event type as a constructor of \<open>payload\<close>, the
  field validators, one parser per event type in the order of \<^verbatim>\<open>payloadParsers\<close>, and
  \<^verbatim>\<open>parseEvent\<close>. A parser checks the JSON object as the code does and reads it as the typed
  payload the code casts it to; \<open>payload_json\<close> is the object of a typed payload, with its
  properties in declaration order.
\<close>

section \<open>Enumerations\<close>

datatype thinking_level = ThinkOff | ThinkMinimal | ThinkLow | ThinkMedium | ThinkHigh | ThinkXhigh | ThinkMax
datatype session_profile = ProfileMinimal | ProfileStandard | ProfileChat | ProfileExec
datatype permission_decision = AllowOnce | AllowSession | Deny
datatype interaction_action = Accept | Decline | Cancel
datatype interaction_kind = McpTool | McpSamplingRequest | McpSamplingResponse | McpElicitationForm | McpElicitationUrl
datatype close_reason = CloseCompleted | CloseDisposed | CloseFailed
datatype stop_reason = Stop | StopLength | ToolUse | StopError | StopAborted
datatype child_status = ChildCompleted | ChildFailed | ChildAborted
datatype dialect_reason = SessionStart | ModelSwitch | ToolChange | Reload
datatype queue_priority = Front | Back
datatype interrupt_state = Interrupting | Delivered | InterruptFailed

fun thinking_str :: "thinking_level \<Rightarrow> string" where
  "thinking_str ThinkOff = ''off''"
| "thinking_str ThinkMinimal = ''minimal''"
| "thinking_str ThinkLow = ''low''"
| "thinking_str ThinkMedium = ''medium''"
| "thinking_str ThinkHigh = ''high''"
| "thinking_str ThinkXhigh = ''xhigh''"
| "thinking_str ThinkMax = ''max''"

definition THINKING_LEVELS :: "thinking_level list" where
  "THINKING_LEVELS = [ThinkOff, ThinkMinimal, ThinkLow, ThinkMedium, ThinkHigh, ThinkXhigh, ThinkMax]"

fun profile_str :: "session_profile \<Rightarrow> string" where
  "profile_str ProfileMinimal = ''minimal''"
| "profile_str ProfileStandard = ''standard''"
| "profile_str ProfileChat = ''chat''"
| "profile_str ProfileExec = ''exec''"

definition all_profiles :: "session_profile list" where
  "all_profiles = [ProfileMinimal, ProfileStandard, ProfileChat, ProfileExec]"

fun decision_str :: "permission_decision \<Rightarrow> string" where
  "decision_str AllowOnce = ''allow_once''"
| "decision_str AllowSession = ''allow_session''"
| "decision_str Deny = ''deny''"

definition all_decisions :: "permission_decision list" where
  "all_decisions = [AllowOnce, AllowSession, Deny]"

fun action_str :: "interaction_action \<Rightarrow> string" where
  "action_str Accept = ''accept''"
| "action_str Decline = ''decline''"
| "action_str Cancel = ''cancel''"

definition all_actions :: "interaction_action list" where
  "all_actions = [Accept, Decline, Cancel]"

fun kind_str :: "interaction_kind \<Rightarrow> string" where
  "kind_str McpTool = ''mcp_tool''"
| "kind_str McpSamplingRequest = ''mcp_sampling_request''"
| "kind_str McpSamplingResponse = ''mcp_sampling_response''"
| "kind_str McpElicitationForm = ''mcp_elicitation_form''"
| "kind_str McpElicitationUrl = ''mcp_elicitation_url''"

definition all_kinds :: "interaction_kind list" where
  "all_kinds = [McpTool, McpSamplingRequest, McpSamplingResponse, McpElicitationForm, McpElicitationUrl]"

fun close_str :: "close_reason \<Rightarrow> string" where
  "close_str CloseCompleted = ''completed''"
| "close_str CloseDisposed = ''disposed''"
| "close_str CloseFailed = ''failed''"

definition all_close_reasons :: "close_reason list" where
  "all_close_reasons = [CloseCompleted, CloseDisposed, CloseFailed]"

fun stop_str :: "stop_reason \<Rightarrow> string" where
  "stop_str Stop = ''stop''"
| "stop_str StopLength = ''length''"
| "stop_str ToolUse = ''tool_use''"
| "stop_str StopError = ''error''"
| "stop_str StopAborted = ''aborted''"

definition all_stop_reasons :: "stop_reason list" where
  "all_stop_reasons = [Stop, StopLength, ToolUse, StopError, StopAborted]"

fun child_str :: "child_status \<Rightarrow> string" where
  "child_str ChildCompleted = ''completed''"
| "child_str ChildFailed = ''failed''"
| "child_str ChildAborted = ''aborted''"

definition all_child_statuses :: "child_status list" where
  "all_child_statuses = [ChildCompleted, ChildFailed, ChildAborted]"

fun dialect_str :: "dialect_reason \<Rightarrow> string" where
  "dialect_str SessionStart = ''session_start''"
| "dialect_str ModelSwitch = ''model_switch''"
| "dialect_str ToolChange = ''tool_change''"
| "dialect_str Reload = ''reload''"

definition all_dialect_reasons :: "dialect_reason list" where
  "all_dialect_reasons = [SessionStart, ModelSwitch, ToolChange, Reload]"

fun priority_str :: "queue_priority \<Rightarrow> string" where
  "priority_str Front = ''front''"
| "priority_str Back = ''back''"

definition all_priorities :: "queue_priority list" where
  "all_priorities = [Front, Back]"

fun interrupt_str :: "interrupt_state \<Rightarrow> string" where
  "interrupt_str Interrupting = ''interrupting''"
| "interrupt_str Delivered = ''delivered''"
| "interrupt_str InterruptFailed = ''failed''"

definition all_interrupt_states :: "interrupt_state list" where
  "all_interrupt_states = [Interrupting, Delivered, InterruptFailed]"

lemmas enum_lists =
  THINKING_LEVELS_def all_profiles_def all_decisions_def all_actions_def all_kinds_def
  all_close_reasons_def all_stop_reasons_def all_child_statuses_def all_dialect_reasons_def
  all_priorities_def all_interrupt_states_def

section \<open>Payloads\<close>

record blob_reference =
  blob_sha256 :: string
  blob_mediaType :: string
  blob_sizeBytes :: int
  blob_name :: "string option"

datatype content_item = Text string | Thinking string | Blob blob_reference

record usage =
  inputTokens :: int
  outputTokens :: int
  cacheReadTokens :: int
  cacheWriteTokens :: int
  reasoningTokens :: "int option"
  costUsd :: "jsnum option"

record model_request_settings =
  set_maxOutputTokens :: "int option"
  set_httpIdleTimeoutMs :: int

record model_request_configuration =
  cfg_maxOutputTokens :: int
  cfg_httpIdleTimeoutMs :: int
  cfg_estimatedInputTokens :: int
  cfg_contextWindow :: int
  cfg_contextReserveTokens :: int
  cfg_modelMaxOutputTokens :: int

datatype payload =
    SessionCreated string "session_profile option" "string option" "string option"
  | SessionResumed
  | SessionRenamed string
  | SessionClosed close_reason
  | UserMessage "content_item list"
  | QueueEnqueued "content_item list" queue_priority
  | QueueRequeued string queue_priority
  | QueueStarted string
  | QueuePaused string
  | InterruptRequested "content_item list" "string option"
  | InterruptUpdated interrupt_state "string option" "string option"
  | UserShell string "content_item list" bool bool
  | AssistantMessage "content_item list" stop_reason "usage option" "string option"
  | ModelRetryScheduled int int int string
  | ToolCall string string json_object
  | ToolResult string string "content_item list" bool "json option"
  | ConfigRequest model_request_settings
  | ModelRequestConfigured model_request_configuration
  | ConfigModel string
  | ConfigProvider string
  | ConfigEntitlement string
  | ConfigProfile session_profile
  | ConfigThinking thinking_level thinking_level bool
  | ConfigTools bool bool
  | ConfigDialect string string dialect_reason
  | PromptSection string string string
  | ToolSchema string string json_object
  | ContextInjected string string
  | ContextExtension string string string
  | PermissionRequested string string
  | PermissionResolved string permission_decision "string option"
  | InteractionRequested string interaction_kind string string "json_object option"
  | InteractionResolved string interaction_action "json_object option"
  | SandboxConfigured string bool "string list" "json_object option"
  | SandboxViolation string string
  | ContextCompacted string "string list" "usage option"
  | SessionErrorEv string string bool "json option"
  | ChildResult string child_status "json option"

fun payload_type :: "payload \<Rightarrow> string" where
  "payload_type (SessionCreated _ _ _ _) = ''session.created''"
| "payload_type SessionResumed = ''session.resumed''"
| "payload_type (SessionRenamed _) = ''session.renamed''"
| "payload_type (SessionClosed _) = ''session.closed''"
| "payload_type (UserMessage _) = ''user.message''"
| "payload_type (QueueEnqueued _ _) = ''queue.enqueued''"
| "payload_type (QueueRequeued _ _) = ''queue.requeued''"
| "payload_type (QueueStarted _) = ''queue.started''"
| "payload_type (QueuePaused _) = ''queue.paused''"
| "payload_type (InterruptRequested _ _) = ''interrupt.requested''"
| "payload_type (InterruptUpdated _ _ _) = ''interrupt.updated''"
| "payload_type (UserShell _ _ _ _) = ''user.shell''"
| "payload_type (AssistantMessage _ _ _ _) = ''assistant.message''"
| "payload_type (ModelRetryScheduled _ _ _ _) = ''model.retry_scheduled''"
| "payload_type (ToolCall _ _ _) = ''tool.call''"
| "payload_type (ToolResult _ _ _ _ _) = ''tool.result''"
| "payload_type (ConfigRequest _) = ''config.request''"
| "payload_type (ModelRequestConfigured _) = ''model.request_configured''"
| "payload_type (ConfigModel _) = ''config.model''"
| "payload_type (ConfigProvider _) = ''config.provider''"
| "payload_type (ConfigEntitlement _) = ''config.entitlement''"
| "payload_type (ConfigProfile _) = ''config.profile''"
| "payload_type (ConfigThinking _ _ _) = ''config.thinking''"
| "payload_type (ConfigTools _ _) = ''config.tools''"
| "payload_type (ConfigDialect _ _ _) = ''config.dialect''"
| "payload_type (PromptSection _ _ _) = ''prompt.section''"
| "payload_type (ToolSchema _ _ _) = ''tool.schema''"
| "payload_type (ContextInjected _ _) = ''context.injected''"
| "payload_type (ContextExtension _ _ _) = ''context.extension''"
| "payload_type (PermissionRequested _ _) = ''permission.requested''"
| "payload_type (PermissionResolved _ _ _) = ''permission.resolved''"
| "payload_type (InteractionRequested _ _ _ _ _) = ''interaction.requested''"
| "payload_type (InteractionResolved _ _ _) = ''interaction.resolved''"
| "payload_type (SandboxConfigured _ _ _ _) = ''sandbox.configured''"
| "payload_type (SandboxViolation _ _) = ''sandbox.violation''"
| "payload_type (ContextCompacted _ _ _) = ''context.compacted''"
| "payload_type (SessionErrorEv _ _ _ _) = ''session.error''"
| "payload_type (ChildResult _ _ _) = ''child.result''"

section \<open>Field validators\<close>

definition exact :: "json_object \<Rightarrow> string \<Rightarrow> string list \<Rightarrow> string list \<Rightarrow> protocol_error option" where
  "exact kvs path required optional =
     first_error
       [check_allowed path (required @ optional) kvs,
        first_error (map (\<lambda>k. require (mhas kvs k)
          (ProtocolValidationError (key_path path k) ''is required'')) required)]"

fun is_string :: "bool \<Rightarrow> json option \<Rightarrow> bool" where
  "is_string allowEmpty (Some (JStr s)) = (allowEmpty \<or> s \<noteq> [])"
| "is_string allowEmpty _ = False"

definition check_string :: "json option \<Rightarrow> string \<Rightarrow> bool \<Rightarrow> protocol_error option" where
  "check_string v path allowEmpty =
     require (is_string allowEmpty v) (ProtocolValidationError path
       (if allowEmpty then ''must be a string'' else ''must be a non-empty string''))"

fun is_boolean :: "json option \<Rightarrow> bool" where
  "is_boolean (Some (JBool b)) = True"
| "is_boolean _ = False"

definition check_boolean :: "json option \<Rightarrow> string \<Rightarrow> protocol_error option" where
  "check_boolean v path = require (is_boolean v) (ProtocolValidationError path ''must be a boolean'')"

definition nonNegativeInteger :: "json option \<Rightarrow> string \<Rightarrow> protocol_error option" where
  "nonNegativeInteger v path =
     require (safe_nonneg_int v \<noteq> None)
       (ProtocolValidationError path ''must be a non-negative safe integer'')"

fun is_nonneg_number :: "json option \<Rightarrow> bool" where
  "is_nonneg_number (Some (JNum n)) = (is_finite n \<and> \<not> num_negative n)"
| "is_nonneg_number _ = False"

definition nonNegativeNumber :: "json option \<Rightarrow> string \<Rightarrow> protocol_error option" where
  "nonNegativeNumber v path =
     require (is_nonneg_number v) (ProtocolValidationError path ''must be a non-negative finite number'')"

fun is_choice :: "string list \<Rightarrow> json option \<Rightarrow> bool" where
  "is_choice vals (Some (JStr s)) = (s \<in> set vals)"
| "is_choice vals _ = False"

definition check_choice :: "json option \<Rightarrow> string \<Rightarrow> string list \<Rightarrow> protocol_error option" where
  "check_choice v path vals =
     require (is_choice vals v)
       (ProtocolValidationError path (''must be one of: '' @ join '', '' vals))"

fun is_object :: "json option \<Rightarrow> bool" where
  "is_object (Some (JObj kvs)) = True"
| "is_object _ = False"

definition check_object :: "json option \<Rightarrow> string \<Rightarrow> protocol_error option" where
  "check_object v path = require (is_object v) (ProtocolValidationError path ''must be an object'')"

definition check_array :: "json option \<Rightarrow> string \<Rightarrow> (json list \<Rightarrow> protocol_error option) \<Rightarrow> protocol_error option" where
  "check_array v path k =
     (case v of Some (JArr vs) \<Rightarrow> k vs
      | _ \<Rightarrow> validationError path ''must be an array'')"

definition optionalString :: "json option \<Rightarrow> string \<Rightarrow> protocol_error option" where
  "optionalString v path = when_some v (\<lambda>x. check_string (Some x) path False)"

definition is_sha256 :: "string \<Rightarrow> bool" where
  "is_sha256 s \<longleftrightarrow> length s = 64 \<and> list_all is_lower_hex s"

section \<open>Reading validated fields\<close>

text \<open>The casts of the code. On a validated object each reader returns the field.\<close>

fun read_str :: "json option \<Rightarrow> string" where
  "read_str (Some (JStr s)) = s"
| "read_str _ = []"

fun read_bool :: "json option \<Rightarrow> bool" where
  "read_bool (Some (JBool b)) = b"
| "read_bool _ = False"

fun read_int :: "json option \<Rightarrow> int" where
  "read_int (Some (JNum (JInt i))) = i"
| "read_int _ = 0"

fun read_obj :: "json option \<Rightarrow> json_object" where
  "read_obj (Some (JObj kvs)) = kvs"
| "read_obj _ = []"

fun read_arr :: "json option \<Rightarrow> json list" where
  "read_arr (Some (JArr vs)) = vs"
| "read_arr _ = []"

fun read_num :: "json option \<Rightarrow> jsnum" where
  "read_num (Some (JNum n)) = n"
| "read_num _ = JNaN"

definition read_opt :: "(json option \<Rightarrow> 'a) \<Rightarrow> json option \<Rightarrow> 'a option" where
  "read_opt f v = map_option (\<lambda>x. f (Some x)) v"

definition read_enum :: "('a \<Rightarrow> string) \<Rightarrow> 'a list \<Rightarrow> json option \<Rightarrow> 'a" where
  "read_enum str all v =
     (case find (\<lambda>x. str x = read_str v) all of Some x \<Rightarrow> x | None \<Rightarrow> hd all)"

section \<open>Blobs, content, usage\<close>

definition validateBlob :: "json option \<Rightarrow> string \<Rightarrow> protocol_error option" where
  "validateBlob v path =
     (case v of
        Some (JObj blob) \<Rightarrow>
          first_error
            [exact blob path [''sha256'', ''mediaType'', ''sizeBytes''] [''name''],
             check_string (mget blob ''sha256'') (key_path path ''sha256'') False,
             require (is_sha256 (read_str (mget blob ''sha256'')))
               (ProtocolValidationError (key_path path ''sha256'') ''must be a lowercase SHA-256 digest''),
             check_string (mget blob ''mediaType'') (key_path path ''mediaType'') False,
             nonNegativeInteger (mget blob ''sizeBytes'') (key_path path ''sizeBytes''),
             optionalString (mget blob ''name'') (key_path path ''name'')]
      | _ \<Rightarrow> validationError path ''must be an object'')"

definition read_blob :: "json option \<Rightarrow> blob_reference" where
  "read_blob v =
     (let b = read_obj v in
      \<lparr>blob_sha256 = read_str (mget b ''sha256''), blob_mediaType = read_str (mget b ''mediaType''),
       blob_sizeBytes = read_int (mget b ''sizeBytes''), blob_name = read_opt read_str (mget b ''name'')\<rparr>)"

definition parseBlobReference :: "json \<Rightarrow> string \<Rightarrow> protocol_error + blob_reference" where
  "parseBlobReference v path = run_checks [validateBlob (Some v) path] (read_blob (Some v))"

definition validateItem :: "json \<Rightarrow> string \<Rightarrow> bool \<Rightarrow> protocol_error option" where
  "validateItem item path assistant =
     (case item of
        JObj c \<Rightarrow>
          first_error
            [check_string (mget c ''type'') (key_path path ''type'') False,
             (let t = read_str (mget c ''type'') in
              if t = ''text'' \<or> (assistant \<and> t = ''thinking'') then
                first_error
                  [exact c path [''type'', ''text''] [],
                   check_string (mget c ''text'') (key_path path ''text'') True]
              else if t = ''blob'' then
                first_error
                  [exact c path [''type'', ''blob''] [],
                   validateBlob (mget c ''blob'') (key_path path ''blob'')]
              else validationError (key_path path ''type'') ''is not allowed for this message'')]
      | _ \<Rightarrow> validationError path ''must be an object'')"

definition validateContent :: "json option \<Rightarrow> string \<Rightarrow> bool \<Rightarrow> protocol_error option" where
  "validateContent v path assistant =
     check_array v path (\<lambda>items.
       first_error (map (\<lambda>(i, item). validateItem item (index_path path i) assistant) (indexed items)))"

definition read_item :: "json \<Rightarrow> content_item" where
  "read_item item =
     (let c = read_obj (Some item); t = read_str (mget c ''type'') in
      if t = ''text'' then Text (read_str (mget c ''text''))
      else if t = ''thinking'' then Thinking (read_str (mget c ''text''))
      else Blob (read_blob (mget c ''blob'')))"

definition read_content :: "json option \<Rightarrow> content_item list" where
  "read_content v = map read_item (read_arr v)"

definition parseUserContent :: "json \<Rightarrow> string \<Rightarrow> protocol_error + content_item list" where
  "parseUserContent v path = run_checks [validateContent (Some v) path False] (read_content (Some v))"

definition validateUsage :: "json \<Rightarrow> string \<Rightarrow> protocol_error option" where
  "validateUsage v path =
     (case v of
        JObj u \<Rightarrow>
          first_error
            [exact u path [''inputTokens'', ''outputTokens'', ''cacheReadTokens'', ''cacheWriteTokens'']
               [''reasoningTokens'', ''costUsd''],
             nonNegativeInteger (mget u ''inputTokens'') (key_path path ''inputTokens''),
             nonNegativeInteger (mget u ''outputTokens'') (key_path path ''outputTokens''),
             nonNegativeInteger (mget u ''cacheReadTokens'') (key_path path ''cacheReadTokens''),
             nonNegativeInteger (mget u ''cacheWriteTokens'') (key_path path ''cacheWriteTokens''),
             when_some (mget u ''reasoningTokens'')
               (\<lambda>x. nonNegativeInteger (Some x) (key_path path ''reasoningTokens'')),
             when_some (mget u ''costUsd'') (\<lambda>x. nonNegativeNumber (Some x) (key_path path ''costUsd''))]
      | _ \<Rightarrow> validationError path ''must be an object'')"

definition read_usage :: "json option \<Rightarrow> usage" where
  "read_usage v =
     (let u = read_obj v in
      \<lparr>inputTokens = read_int (mget u ''inputTokens''), outputTokens = read_int (mget u ''outputTokens''),
       cacheReadTokens = read_int (mget u ''cacheReadTokens''),
       cacheWriteTokens = read_int (mget u ''cacheWriteTokens''),
       reasoningTokens = read_opt read_int (mget u ''reasoningTokens''),
       costUsd = read_opt read_num (mget u ''costUsd'')\<rparr>)"

definition validateStringArray :: "json option \<Rightarrow> string \<Rightarrow> protocol_error option" where
  "validateStringArray v path =
     check_array v path (\<lambda>items.
       first_error (map (\<lambda>(i, item). check_string (Some item) (index_path path i) False) (indexed items)))"

definition validateEventIds :: "json option \<Rightarrow> string \<Rightarrow> protocol_error option" where
  "validateEventIds v path =
     check_array v path (\<lambda>items.
       first_error (map (\<lambda>(i, item). error_of (parseEventId (Some item) (index_path path i))) (indexed items)))"

section \<open>Request settings\<close>

definition request_integer :: "json option \<Rightarrow> int \<Rightarrow> string \<Rightarrow> protocol_error option" where
  "request_integer v minimum path =
     require (case v of Some (JNum n) \<Rightarrow> is_safe_integer n \<and> minimum \<le> read_int v | _ \<Rightarrow> False)
       (ProtocolValidationError path (''must be a safe integer of at least '' @ int_str minimum))"

definition request_object :: "json_object \<Rightarrow> string list \<Rightarrow> string \<Rightarrow> protocol_error option" where
  "request_object kvs keys path =
     first_error (map (\<lambda>k. require (k \<in> set keys)
       (ProtocolValidationError (key_path path k) ''unknown field'')) (map fst kvs))"

definition parseModelRequestSettings :: "json_object \<Rightarrow> string \<Rightarrow> protocol_error + model_request_settings" where
  "parseModelRequestSettings input path =
     run_checks
       [request_object input [''maxOutputTokens'', ''httpIdleTimeoutMs''] path,
        (if mget input ''maxOutputTokens'' = Some JNull then None
         else request_integer (mget input ''maxOutputTokens'') 1 (key_path path ''maxOutputTokens'')),
        request_integer (mget input ''httpIdleTimeoutMs'') 0 (key_path path ''httpIdleTimeoutMs'')]
       \<lparr>set_maxOutputTokens = (if mget input ''maxOutputTokens'' = Some JNull then None
                                else Some (read_int (mget input ''maxOutputTokens''))),
        set_httpIdleTimeoutMs = read_int (mget input ''httpIdleTimeoutMs'')\<rparr>"

definition parseModelRequestConfiguration ::
  "json_object \<Rightarrow> string \<Rightarrow> protocol_error + model_request_configuration" where
  "parseModelRequestConfiguration input path =
     run_checks
       [request_object input [''maxOutputTokens'', ''httpIdleTimeoutMs'', ''estimatedInputTokens'',
          ''contextWindow'', ''contextReserveTokens'', ''modelMaxOutputTokens''] path,
        request_integer (mget input ''maxOutputTokens'') 1 (key_path path ''maxOutputTokens''),
        request_integer (mget input ''httpIdleTimeoutMs'') 0 (key_path path ''httpIdleTimeoutMs''),
        request_integer (mget input ''estimatedInputTokens'') 0 (key_path path ''estimatedInputTokens''),
        request_integer (mget input ''contextWindow'') 1 (key_path path ''contextWindow''),
        request_integer (mget input ''contextReserveTokens'') 0 (key_path path ''contextReserveTokens''),
        request_integer (mget input ''modelMaxOutputTokens'') 1 (key_path path ''modelMaxOutputTokens''),
        require (read_int (mget input ''maxOutputTokens'') \<le> read_int (mget input ''modelMaxOutputTokens''))
          (ProtocolValidationError path ''output exceeds the model maximum'')]
       \<lparr>cfg_maxOutputTokens = read_int (mget input ''maxOutputTokens''),
        cfg_httpIdleTimeoutMs = read_int (mget input ''httpIdleTimeoutMs''),
        cfg_estimatedInputTokens = read_int (mget input ''estimatedInputTokens''),
        cfg_contextWindow = read_int (mget input ''contextWindow''),
        cfg_contextReserveTokens = read_int (mget input ''contextReserveTokens''),
        cfg_modelMaxOutputTokens = read_int (mget input ''modelMaxOutputTokens'')\<rparr>"

section \<open>The payload parsers\<close>

definition check_id :: "json option \<Rightarrow> string \<Rightarrow> protocol_error option" where
  "check_id v path = error_of (parseId v path)"

definition parse_session_created :: "json_object \<Rightarrow> string \<Rightarrow> protocol_error + payload" where
  "parse_session_created payload path =
     run_checks
       [exact payload path [''cwd''] [''profile'', ''parentSessionId'', ''sourceEventId''],
        check_string (mget payload ''cwd'') (key_path path ''cwd'') False,
        when_some (mget payload ''profile'')
          (\<lambda>x. check_choice (Some x) (key_path path ''profile'') (map profile_str all_profiles)),
        when_some (mget payload ''parentSessionId'') (\<lambda>x. check_id (Some x) (key_path path ''parentSessionId'')),
        when_some (mget payload ''sourceEventId'') (\<lambda>x. check_id (Some x) (key_path path ''sourceEventId''))]
       (SessionCreated (read_str (mget payload ''cwd''))
          (read_opt (read_enum profile_str all_profiles) (mget payload ''profile''))
          (read_opt read_str (mget payload ''parentSessionId''))
          (read_opt read_str (mget payload ''sourceEventId'')))"

definition parse_session_resumed :: "json_object \<Rightarrow> string \<Rightarrow> protocol_error + payload" where
  "parse_session_resumed payload path = run_checks [exact payload path [] []] SessionResumed"

definition title_ok :: "string \<Rightarrow> bool" where
  "title_ok t \<longleftrightarrow> t \<noteq> [] \<and> trim t = t \<and> \<not> list_ex is_control_or_format t"

definition parse_session_renamed :: "json_object \<Rightarrow> string \<Rightarrow> protocol_error + payload" where
  "parse_session_renamed payload path =
     (let title = read_str (mget payload ''title'') in
      run_checks
       [exact payload path [''title''] [],
        check_string (mget payload ''title'') (key_path path ''title'') False,
        require (utf8_length title \<le> 256)
          (ProtocolValidationError (key_path path ''title'') ''must not exceed 256 UTF-8 bytes''),
        require (title_ok title)
          (ProtocolValidationError (key_path path ''title'')
             ''must be non-empty trimmed text without control characters'')]
       (SessionRenamed title))"

definition parse_session_closed :: "json_object \<Rightarrow> string \<Rightarrow> protocol_error + payload" where
  "parse_session_closed payload path =
     run_checks
       [exact payload path [''reason''] [],
        check_choice (mget payload ''reason'') (key_path path ''reason'') (map close_str all_close_reasons)]
       (SessionClosed (read_enum close_str all_close_reasons (mget payload ''reason'')))"

definition parse_user_message :: "json_object \<Rightarrow> string \<Rightarrow> protocol_error + payload" where
  "parse_user_message payload path =
     run_checks
       [exact payload path [''content''] [],
        validateContent (mget payload ''content'') (key_path path ''content'') False]
       (UserMessage (read_content (mget payload ''content'')))"

definition parse_queue_enqueued :: "json_object \<Rightarrow> string \<Rightarrow> protocol_error + payload" where
  "parse_queue_enqueued payload path =
     run_checks
       [exact payload path [''content'', ''priority''] [],
        validateContent (mget payload ''content'') (key_path path ''content'') False,
        check_choice (mget payload ''priority'') (key_path path ''priority'') (map priority_str all_priorities)]
       (QueueEnqueued (read_content (mget payload ''content''))
          (read_enum priority_str all_priorities (mget payload ''priority'')))"

definition parse_queue_requeued :: "json_object \<Rightarrow> string \<Rightarrow> protocol_error + payload" where
  "parse_queue_requeued payload path =
     run_checks
       [exact payload path [''queueItemId'', ''priority''] [],
        check_id (mget payload ''queueItemId'') (key_path path ''queueItemId''),
        check_choice (mget payload ''priority'') (key_path path ''priority'') (map priority_str all_priorities)]
       (QueueRequeued (read_str (mget payload ''queueItemId''))
          (read_enum priority_str all_priorities (mget payload ''priority'')))"

definition parse_queue_started :: "json_object \<Rightarrow> string \<Rightarrow> protocol_error + payload" where
  "parse_queue_started payload path =
     run_checks
       [exact payload path [''queueItemId''] [],
        check_id (mget payload ''queueItemId'') (key_path path ''queueItemId'')]
       (QueueStarted (read_str (mget payload ''queueItemId'')))"

definition parse_queue_paused :: "json_object \<Rightarrow> string \<Rightarrow> protocol_error + payload" where
  "parse_queue_paused payload path =
     run_checks
       [exact payload path [''queueItemId'', ''reason''] [],
        check_id (mget payload ''queueItemId'') (key_path path ''queueItemId''),
        check_choice (mget payload ''reason'') (key_path path ''reason'') [''daemon_restart'']]
       (QueuePaused (read_str (mget payload ''queueItemId'')))"

definition parse_interrupt_requested :: "json_object \<Rightarrow> string \<Rightarrow> protocol_error + payload" where
  "parse_interrupt_requested payload path =
     run_checks
       [exact payload path [''state'', ''content''] [''targetOperationId''],
        check_choice (mget payload ''state'') (key_path path ''state'') [''queued''],
        validateContent (mget payload ''content'') (key_path path ''content'') False,
        when_some (mget payload ''targetOperationId'')
          (\<lambda>x. check_id (Some x) (key_path path ''targetOperationId''))]
       (InterruptRequested (read_content (mget payload ''content''))
          (read_opt read_str (mget payload ''targetOperationId'')))"

definition parse_interrupt_updated :: "json_object \<Rightarrow> string \<Rightarrow> protocol_error + payload" where
  "parse_interrupt_updated payload path =
     (let state = read_enum interrupt_str all_interrupt_states (mget payload ''state'') in
      run_checks
       [exact payload path [''state''] [''targetOperationId'', ''reason''],
        check_choice (mget payload ''state'') (key_path path ''state'')
          (map interrupt_str all_interrupt_states),
        when_some (mget payload ''targetOperationId'')
          (\<lambda>x. check_id (Some x) (key_path path ''targetOperationId'')),
        optionalString (mget payload ''reason'') (key_path path ''reason''),
        require (\<not> (state = Interrupting \<and> mget payload ''targetOperationId'' = None))
          (ProtocolValidationError (key_path path ''targetOperationId'') ''is required while interrupting''),
        require (\<not> (state = InterruptFailed \<and> mget payload ''reason'' = None))
          (ProtocolValidationError (key_path path ''reason'') ''is required when failed'')]
       (InterruptUpdated state
          (read_opt read_str (mget payload ''targetOperationId''))
          (read_opt read_str (mget payload ''reason''))))"

definition parse_user_shell :: "json_object \<Rightarrow> string \<Rightarrow> protocol_error + payload" where
  "parse_user_shell payload path =
     run_checks
       [exact payload path [''command'', ''content'', ''isError'', ''excluded''] [],
        check_string (mget payload ''command'') (key_path path ''command'') False,
        validateContent (mget payload ''content'') (key_path path ''content'') False,
        check_boolean (mget payload ''isError'') (key_path path ''isError''),
        check_boolean (mget payload ''excluded'') (key_path path ''excluded'')]
       (UserShell (read_str (mget payload ''command'')) (read_content (mget payload ''content''))
          (read_bool (mget payload ''isError'')) (read_bool (mget payload ''excluded'')))"

definition parse_assistant_message :: "json_object \<Rightarrow> string \<Rightarrow> protocol_error + payload" where
  "parse_assistant_message payload path =
     (let stopReason = read_enum stop_str all_stop_reasons (mget payload ''stopReason'') in
      run_checks
       [exact payload path [''content'', ''stopReason''] [''usage'', ''errorMessage''],
        validateContent (mget payload ''content'') (key_path path ''content'') True,
        check_choice (mget payload ''stopReason'') (key_path path ''stopReason'') (map stop_str all_stop_reasons),
        when_some (mget payload ''usage'') (\<lambda>x. validateUsage x (key_path path ''usage'')),
        optionalString (mget payload ''errorMessage'') (key_path path ''errorMessage''),
        require (\<not> (stopReason = StopError \<and> mget payload ''errorMessage'' = None))
          (ProtocolValidationError (key_path path ''errorMessage'') ''is required when stopReason is error'')]
       (AssistantMessage (read_content (mget payload ''content'')) stopReason
          (read_opt read_usage (mget payload ''usage''))
          (read_opt read_str (mget payload ''errorMessage''))))"

definition parse_model_retry_scheduled :: "json_object \<Rightarrow> string \<Rightarrow> protocol_error + payload" where
  "parse_model_retry_scheduled payload path =
     (let attempt = read_int (mget payload ''attempt''); maxAttempts = read_int (mget payload ''maxAttempts'') in
      run_checks
       [exact payload path [''attempt'', ''maxAttempts'', ''delayMs'', ''code''] [],
        nonNegativeInteger (mget payload ''attempt'') (key_path path ''attempt''),
        nonNegativeInteger (mget payload ''maxAttempts'') (key_path path ''maxAttempts''),
        nonNegativeInteger (mget payload ''delayMs'') (key_path path ''delayMs''),
        check_string (mget payload ''code'') (key_path path ''code'') False,
        require (\<not> (attempt < 2 \<or> attempt > maxAttempts))
          (ProtocolValidationError (key_path path ''attempt'') ''must be between 2 and maxAttempts'')]
       (ModelRetryScheduled attempt maxAttempts (read_int (mget payload ''delayMs''))
          (read_str (mget payload ''code''))))"

definition parse_tool_call :: "json_object \<Rightarrow> string \<Rightarrow> protocol_error + payload" where
  "parse_tool_call payload path =
     run_checks
       [exact payload path [''callId'', ''name'', ''input''] [],
        check_string (mget payload ''callId'') (key_path path ''callId'') False,
        check_string (mget payload ''name'') (key_path path ''name'') False,
        check_object (mget payload ''input'') (key_path path ''input'')]
       (ToolCall (read_str (mget payload ''callId'')) (read_str (mget payload ''name''))
          (read_obj (mget payload ''input'')))"

definition parse_tool_result :: "json_object \<Rightarrow> string \<Rightarrow> protocol_error + payload" where
  "parse_tool_result payload path =
     run_checks
       [exact payload path [''callId'', ''name'', ''content'', ''isError''] [''details''],
        check_string (mget payload ''callId'') (key_path path ''callId'') False,
        check_string (mget payload ''name'') (key_path path ''name'') False,
        validateContent (mget payload ''content'') (key_path path ''content'') False,
        check_boolean (mget payload ''isError'') (key_path path ''isError'')]
       (ToolResult (read_str (mget payload ''callId'')) (read_str (mget payload ''name''))
          (read_content (mget payload ''content'')) (read_bool (mget payload ''isError''))
          (mget payload ''details''))"

definition parse_config_request :: "json_object \<Rightarrow> string \<Rightarrow> protocol_error + payload" where
  "parse_config_request payload path = map_sum id ConfigRequest (parseModelRequestSettings payload path)"

definition parse_model_request_configured :: "json_object \<Rightarrow> string \<Rightarrow> protocol_error + payload" where
  "parse_model_request_configured payload path =
     map_sum id ModelRequestConfigured (parseModelRequestConfiguration payload path)"

definition parse_config_model :: "json_object \<Rightarrow> string \<Rightarrow> protocol_error + payload" where
  "parse_config_model payload path =
     run_checks
       [exact payload path [''modelId''] [],
        check_string (mget payload ''modelId'') (key_path path ''modelId'') False]
       (ConfigModel (read_str (mget payload ''modelId'')))"

definition parse_config_provider :: "json_object \<Rightarrow> string \<Rightarrow> protocol_error + payload" where
  "parse_config_provider payload path =
     run_checks
       [exact payload path [''providerId''] [],
        check_string (mget payload ''providerId'') (key_path path ''providerId'') False]
       (ConfigProvider (read_str (mget payload ''providerId'')))"

definition parse_config_entitlement :: "json_object \<Rightarrow> string \<Rightarrow> protocol_error + payload" where
  "parse_config_entitlement payload path =
     run_checks
       [exact payload path [''entitlementId''] [],
        check_string (mget payload ''entitlementId'') (key_path path ''entitlementId'') False]
       (ConfigEntitlement (read_str (mget payload ''entitlementId'')))"

definition parse_config_profile :: "json_object \<Rightarrow> string \<Rightarrow> protocol_error + payload" where
  "parse_config_profile payload path =
     run_checks
       [exact payload path [''profile''] [],
        check_choice (mget payload ''profile'') (key_path path ''profile'') (map profile_str all_profiles)]
       (ConfigProfile (read_enum profile_str all_profiles (mget payload ''profile'')))"

definition parse_config_thinking :: "json_object \<Rightarrow> string \<Rightarrow> protocol_error + payload" where
  "parse_config_thinking payload path =
     run_checks
       [exact payload path [''requested'', ''effective'', ''clamped''] [],
        check_choice (mget payload ''requested'') (key_path path ''requested'') (map thinking_str THINKING_LEVELS),
        check_choice (mget payload ''effective'') (key_path path ''effective'') (map thinking_str THINKING_LEVELS),
        check_boolean (mget payload ''clamped'') (key_path path ''clamped'')]
       (ConfigThinking (read_enum thinking_str THINKING_LEVELS (mget payload ''requested''))
          (read_enum thinking_str THINKING_LEVELS (mget payload ''effective''))
          (read_bool (mget payload ''clamped'')))"

definition parse_config_tools :: "json_object \<Rightarrow> string \<Rightarrow> protocol_error + payload" where
  "parse_config_tools payload path =
     run_checks
       [exact payload path [''webFetch'', ''webSearch''] [],
        check_boolean (mget payload ''webFetch'') (key_path path ''webFetch''),
        check_boolean (mget payload ''webSearch'') (key_path path ''webSearch'')]
       (ConfigTools (read_bool (mget payload ''webFetch'')) (read_bool (mget payload ''webSearch'')))"

definition parse_config_dialect :: "json_object \<Rightarrow> string \<Rightarrow> protocol_error + payload" where
  "parse_config_dialect payload path =
     run_checks
       [exact payload path [''dialectId'', ''rosterFingerprint'', ''reason''] [],
        check_string (mget payload ''dialectId'') (key_path path ''dialectId'') False,
        check_string (mget payload ''rosterFingerprint'') (key_path path ''rosterFingerprint'') False,
        check_choice (mget payload ''reason'') (key_path path ''reason'') (map dialect_str all_dialect_reasons)]
       (ConfigDialect (read_str (mget payload ''dialectId'')) (read_str (mget payload ''rosterFingerprint''))
          (read_enum dialect_str all_dialect_reasons (mget payload ''reason'')))"

definition parse_prompt_section :: "json_object \<Rightarrow> string \<Rightarrow> protocol_error + payload" where
  "parse_prompt_section payload path =
     run_checks
       [exact payload path [''name'', ''source'', ''content''] [],
        check_string (mget payload ''name'') (key_path path ''name'') False,
        check_string (mget payload ''source'') (key_path path ''source'') False,
        check_string (mget payload ''content'') (key_path path ''content'') True]
       (PromptSection (read_str (mget payload ''name'')) (read_str (mget payload ''source''))
          (read_str (mget payload ''content'')))"

definition parse_tool_schema :: "json_object \<Rightarrow> string \<Rightarrow> protocol_error + payload" where
  "parse_tool_schema payload path =
     run_checks
       [exact payload path [''name'', ''description'', ''inputSchema''] [],
        check_string (mget payload ''name'') (key_path path ''name'') False,
        check_string (mget payload ''description'') (key_path path ''description'') True,
        check_object (mget payload ''inputSchema'') (key_path path ''inputSchema'')]
       (ToolSchema (read_str (mget payload ''name'')) (read_str (mget payload ''description''))
          (read_obj (mget payload ''inputSchema'')))"

definition parse_context_injected :: "json_object \<Rightarrow> string \<Rightarrow> protocol_error + payload" where
  "parse_context_injected payload path =
     run_checks
       [exact payload path [''source'', ''content''] [],
        check_string (mget payload ''source'') (key_path path ''source'') False,
        check_string (mget payload ''content'') (key_path path ''content'') True]
       (ContextInjected (read_str (mget payload ''source'')) (read_str (mget payload ''content'')))"

definition parse_context_extension :: "json_object \<Rightarrow> string \<Rightarrow> protocol_error + payload" where
  "parse_context_extension payload path =
     run_checks
       [exact payload path [''extensionId'', ''source'', ''content''] [],
        check_string (mget payload ''extensionId'') (key_path path ''extensionId'') False,
        check_string (mget payload ''source'') (key_path path ''source'') False,
        check_string (mget payload ''content'') (key_path path ''content'') True]
       (ContextExtension (read_str (mget payload ''extensionId'')) (read_str (mget payload ''source''))
          (read_str (mget payload ''content'')))"

definition parse_permission_requested :: "json_object \<Rightarrow> string \<Rightarrow> protocol_error + payload" where
  "parse_permission_requested payload path =
     run_checks
       [exact payload path [''capability'', ''description''] [],
        check_string (mget payload ''capability'') (key_path path ''capability'') False,
        check_string (mget payload ''description'') (key_path path ''description'') False]
       (PermissionRequested (read_str (mget payload ''capability'')) (read_str (mget payload ''description'')))"

definition parse_permission_resolved :: "json_object \<Rightarrow> string \<Rightarrow> protocol_error + payload" where
  "parse_permission_resolved payload path =
     run_checks
       [exact payload path [''requestId'', ''decision''] [''reason''],
        check_id (mget payload ''requestId'') (key_path path ''requestId''),
        check_choice (mget payload ''decision'') (key_path path ''decision'') (map decision_str all_decisions),
        optionalString (mget payload ''reason'') (key_path path ''reason'')]
       (PermissionResolved (read_str (mget payload ''requestId''))
          (read_enum decision_str all_decisions (mget payload ''decision''))
          (read_opt read_str (mget payload ''reason'')))"

definition parse_interaction_requested :: "json_object \<Rightarrow> string \<Rightarrow> protocol_error + payload" where
  "parse_interaction_requested payload path =
     run_checks
       [exact payload path [''interactionId'', ''kind'', ''source'', ''message''] [''data''],
        check_string (mget payload ''interactionId'') (key_path path ''interactionId'') False,
        check_choice (mget payload ''kind'') (key_path path ''kind'') (map kind_str all_kinds),
        check_string (mget payload ''source'') (key_path path ''source'') False,
        check_string (mget payload ''message'') (key_path path ''message'') False,
        when_some (mget payload ''data'') (\<lambda>x. check_object (Some x) (key_path path ''data''))]
       (InteractionRequested (read_str (mget payload ''interactionId''))
          (read_enum kind_str all_kinds (mget payload ''kind''))
          (read_str (mget payload ''source'')) (read_str (mget payload ''message''))
          (read_opt read_obj (mget payload ''data'')))"

definition parse_interaction_resolved :: "json_object \<Rightarrow> string \<Rightarrow> protocol_error + payload" where
  "parse_interaction_resolved payload path =
     run_checks
       [exact payload path [''interactionId'', ''action''] [''content''],
        check_string (mget payload ''interactionId'') (key_path path ''interactionId'') False,
        check_choice (mget payload ''action'') (key_path path ''action'') (map action_str all_actions),
        when_some (mget payload ''content'') (\<lambda>x. check_object (Some x) (key_path path ''content''))]
       (InteractionResolved (read_str (mget payload ''interactionId''))
          (read_enum action_str all_actions (mget payload ''action''))
          (read_opt read_obj (mget payload ''content'')))"

definition parse_sandbox_configured :: "json_object \<Rightarrow> string \<Rightarrow> protocol_error + payload" where
  "parse_sandbox_configured payload path =
     run_checks
       [exact payload path [''provider'', ''enforced'', ''controls''] [''details''],
        check_string (mget payload ''provider'') (key_path path ''provider'') False,
        check_boolean (mget payload ''enforced'') (key_path path ''enforced''),
        validateStringArray (mget payload ''controls'') (key_path path ''controls''),
        when_some (mget payload ''details'') (\<lambda>x. check_object (Some x) (key_path path ''details''))]
       (SandboxConfigured (read_str (mget payload ''provider'')) (read_bool (mget payload ''enforced''))
          (map (\<lambda>x. read_str (Some x)) (read_arr (mget payload ''controls'')))
          (read_opt read_obj (mget payload ''details'')))"

definition parse_sandbox_violation :: "json_object \<Rightarrow> string \<Rightarrow> protocol_error + payload" where
  "parse_sandbox_violation payload path =
     run_checks
       [exact payload path [''capability'', ''reason''] [],
        check_string (mget payload ''capability'') (key_path path ''capability'') False,
        check_string (mget payload ''reason'') (key_path path ''reason'') False]
       (SandboxViolation (read_str (mget payload ''capability'')) (read_str (mget payload ''reason'')))"

definition parse_context_compacted :: "json_object \<Rightarrow> string \<Rightarrow> protocol_error + payload" where
  "parse_context_compacted payload path =
     run_checks
       [exact payload path [''summary'', ''replacedEventIds''] [''usage''],
        check_string (mget payload ''summary'') (key_path path ''summary'') False,
        validateEventIds (mget payload ''replacedEventIds'') (key_path path ''replacedEventIds''),
        require (read_arr (mget payload ''replacedEventIds'') \<noteq> [])
          (ProtocolValidationError (key_path path ''replacedEventIds'') ''must not be empty''),
        when_some (mget payload ''usage'') (\<lambda>x. validateUsage x (key_path path ''usage''))]
       (ContextCompacted (read_str (mget payload ''summary''))
          (map (\<lambda>x. read_str (Some x)) (read_arr (mget payload ''replacedEventIds'')))
          (read_opt read_usage (mget payload ''usage'')))"

definition parse_session_error :: "json_object \<Rightarrow> string \<Rightarrow> protocol_error + payload" where
  "parse_session_error payload path =
     run_checks
       [exact payload path [''code'', ''message'', ''retryable''] [''details''],
        check_string (mget payload ''code'') (key_path path ''code'') False,
        check_string (mget payload ''message'') (key_path path ''message'') False,
        check_boolean (mget payload ''retryable'') (key_path path ''retryable'')]
       (SessionErrorEv (read_str (mget payload ''code'')) (read_str (mget payload ''message''))
          (read_bool (mget payload ''retryable'')) (mget payload ''details''))"

definition parse_child_result :: "json_object \<Rightarrow> string \<Rightarrow> protocol_error + payload" where
  "parse_child_result payload path =
     run_checks
       [exact payload path [''childSessionId'', ''status''] [''result''],
        check_id (mget payload ''childSessionId'') (key_path path ''childSessionId''),
        check_choice (mget payload ''status'') (key_path path ''status'') (map child_str all_child_statuses)]
       (ChildResult (read_str (mget payload ''childSessionId''))
          (read_enum child_str all_child_statuses (mget payload ''status'')) (mget payload ''result''))"

definition payloadParsers :: "(string \<times> (json_object \<Rightarrow> string \<Rightarrow> protocol_error + payload)) list" where
  "payloadParsers =
     [(''session.created'', parse_session_created),
      (''session.resumed'', parse_session_resumed),
      (''session.renamed'', parse_session_renamed),
      (''session.closed'', parse_session_closed),
      (''user.message'', parse_user_message),
      (''queue.enqueued'', parse_queue_enqueued),
      (''queue.requeued'', parse_queue_requeued),
      (''queue.started'', parse_queue_started),
      (''queue.paused'', parse_queue_paused),
      (''interrupt.requested'', parse_interrupt_requested),
      (''interrupt.updated'', parse_interrupt_updated),
      (''user.shell'', parse_user_shell),
      (''assistant.message'', parse_assistant_message),
      (''model.retry_scheduled'', parse_model_retry_scheduled),
      (''tool.call'', parse_tool_call),
      (''tool.result'', parse_tool_result),
      (''config.request'', parse_config_request),
      (''model.request_configured'', parse_model_request_configured),
      (''config.model'', parse_config_model),
      (''config.provider'', parse_config_provider),
      (''config.entitlement'', parse_config_entitlement),
      (''config.profile'', parse_config_profile),
      (''config.thinking'', parse_config_thinking),
      (''config.tools'', parse_config_tools),
      (''config.dialect'', parse_config_dialect),
      (''prompt.section'', parse_prompt_section),
      (''tool.schema'', parse_tool_schema),
      (''context.injected'', parse_context_injected),
      (''context.extension'', parse_context_extension),
      (''permission.requested'', parse_permission_requested),
      (''permission.resolved'', parse_permission_resolved),
      (''interaction.requested'', parse_interaction_requested),
      (''interaction.resolved'', parse_interaction_resolved),
      (''sandbox.configured'', parse_sandbox_configured),
      (''sandbox.violation'', parse_sandbox_violation),
      (''context.compacted'', parse_context_compacted),
      (''session.error'', parse_session_error),
      (''child.result'', parse_child_result)]"

definition EVENT_TYPES :: "string list" where
  "EVENT_TYPES = map fst payloadParsers"

record canonical_event =
  ev_id :: string
  ev_sessionId :: string
  ev_operationId :: "string option"
  ev_parentId :: "string option"
  ev_timestamp :: int
  ev_payload :: payload

definition parseEvent :: "json \<Rightarrow> protocol_error + canonical_event" where
  "parseEvent v =
     bindE (parseEventEnvelope v) (\<lambda>event.
     (case mget payloadParsers (env_type event) of
        None \<Rightarrow> Inl (ProtocolValidationError ''event.type'' ''is not a recognized event type'')
      | Some parser \<Rightarrow>
          bindE (parser (env_payload event) ''event.payload'') (\<lambda>p.
          Inr \<lparr>ev_id = env_id event, ev_sessionId = env_sessionId event,
               ev_operationId = env_operationId event, ev_parentId = env_parentId event,
               ev_timestamp = env_timestamp event, ev_payload = p\<rparr>)))"

end
