(* ===== verification/Event_Codec.thy ===== *)
theory Event_Codec
  imports Events
begin

text \<open>
  The JSON object of a typed event, which \<^verbatim>\<open>JSON.stringify(event)\<close> prints
  (\<^verbatim>\<open>packages/protocol/src/canonical-event.ts\<close>), the well-formedness of typed events, and the
  theorems that connect both with the parsers: every parser returns a well-formed payload of
  its own type, and the object of a well-formed event parses back to the event.
\<close>

section \<open>Objects of typed payloads\<close>

definition opt_field :: "string \<Rightarrow> ('a \<Rightarrow> json) \<Rightarrow> 'a option \<Rightarrow> json_object" where
  "opt_field k enc x = (case x of None \<Rightarrow> [] | Some v \<Rightarrow> [(k, enc v)])"

definition jint :: "int \<Rightarrow> json" where
  "jint i = JNum (JInt i)"

definition blob_json :: "blob_reference \<Rightarrow> json" where
  "blob_json b =
     JObj ([(''sha256'', JStr (blob_sha256 b)), (''mediaType'', JStr (blob_mediaType b)),
            (''sizeBytes'', jint (blob_sizeBytes b))] @ opt_field ''name'' JStr (blob_name b))"

fun item_json :: "content_item \<Rightarrow> json" where
  "item_json (Text t) = JObj [(''type'', JStr ''text''), (''text'', JStr t)]"
| "item_json (Thinking t) = JObj [(''type'', JStr ''thinking''), (''text'', JStr t)]"
| "item_json (Blob b) = JObj [(''type'', JStr ''blob''), (''blob'', blob_json b)]"

definition content_json :: "content_item list \<Rightarrow> json" where
  "content_json c = JArr (map item_json c)"

definition usage_json :: "usage \<Rightarrow> json" where
  "usage_json u =
     JObj ([(''inputTokens'', jint (inputTokens u)), (''outputTokens'', jint (outputTokens u)),
            (''cacheReadTokens'', jint (cacheReadTokens u)), (''cacheWriteTokens'', jint (cacheWriteTokens u))]
           @ opt_field ''reasoningTokens'' jint (reasoningTokens u)
           @ opt_field ''costUsd'' JNum (costUsd u))"

definition settings_json :: "model_request_settings \<Rightarrow> json_object" where
  "settings_json s =
     [(''maxOutputTokens'', case set_maxOutputTokens s of None \<Rightarrow> JNull | Some n \<Rightarrow> jint n),
      (''httpIdleTimeoutMs'', jint (set_httpIdleTimeoutMs s))]"

definition configuration_json :: "model_request_configuration \<Rightarrow> json_object" where
  "configuration_json c =
     [(''maxOutputTokens'', jint (cfg_maxOutputTokens c)),
      (''httpIdleTimeoutMs'', jint (cfg_httpIdleTimeoutMs c)),
      (''estimatedInputTokens'', jint (cfg_estimatedInputTokens c)),
      (''contextWindow'', jint (cfg_contextWindow c)),
      (''contextReserveTokens'', jint (cfg_contextReserveTokens c)),
      (''modelMaxOutputTokens'', jint (cfg_modelMaxOutputTokens c))]"

fun payload_json :: "payload \<Rightarrow> json_object" where
  "payload_json (SessionCreated cwd pr par src) =
     [(''cwd'', JStr cwd)] @ opt_field ''profile'' (\<lambda>x. JStr (profile_str x)) pr
     @ opt_field ''parentSessionId'' JStr par @ opt_field ''sourceEventId'' JStr src"
| "payload_json SessionResumed = []"
| "payload_json (SessionRenamed t) = [(''title'', JStr t)]"
| "payload_json (SessionClosed r) = [(''reason'', JStr (close_str r))]"
| "payload_json (UserMessage c) = [(''content'', content_json c)]"
| "payload_json (QueueEnqueued c p) = [(''content'', content_json c), (''priority'', JStr (priority_str p))]"
| "payload_json (QueueRequeued q p) = [(''queueItemId'', JStr q), (''priority'', JStr (priority_str p))]"
| "payload_json (QueueStarted q) = [(''queueItemId'', JStr q)]"
| "payload_json (QueuePaused q) = [(''queueItemId'', JStr q), (''reason'', JStr ''daemon_restart'')]"
| "payload_json (InterruptRequested c t) =
     [(''state'', JStr ''queued''), (''content'', content_json c)] @ opt_field ''targetOperationId'' JStr t"
| "payload_json (InterruptUpdated st t r) =
     [(''state'', JStr (interrupt_str st))] @ opt_field ''targetOperationId'' JStr t @ opt_field ''reason'' JStr r"
| "payload_json (UserShell cmd c e x) =
     [(''command'', JStr cmd), (''content'', content_json c), (''isError'', JBool e), (''excluded'', JBool x)]"
| "payload_json (AssistantMessage c s u e) =
     [(''content'', content_json c), (''stopReason'', JStr (stop_str s))]
     @ opt_field ''usage'' usage_json u @ opt_field ''errorMessage'' JStr e"
| "payload_json (ModelRetryScheduled a m d c) =
     [(''attempt'', jint a), (''maxAttempts'', jint m), (''delayMs'', jint d), (''code'', JStr c)]"
| "payload_json (ToolCall i n inp) = [(''callId'', JStr i), (''name'', JStr n), (''input'', JObj inp)]"
| "payload_json (ToolResult i n c e d) =
     [(''callId'', JStr i), (''name'', JStr n), (''content'', content_json c), (''isError'', JBool e)]
     @ opt_field ''details'' (\<lambda>x. x) d"
| "payload_json (ConfigRequest s) = settings_json s"
| "payload_json (ModelRequestConfigured c) = configuration_json c"
| "payload_json (ConfigModel m) = [(''modelId'', JStr m)]"
| "payload_json (ConfigProvider p) = [(''providerId'', JStr p)]"
| "payload_json (ConfigEntitlement e) = [(''entitlementId'', JStr e)]"
| "payload_json (ConfigProfile p) = [(''profile'', JStr (profile_str p))]"
| "payload_json (ConfigThinking r e c) =
     [(''requested'', JStr (thinking_str r)), (''effective'', JStr (thinking_str e)), (''clamped'', JBool c)]"
| "payload_json (ConfigTools f s) = [(''webFetch'', JBool f), (''webSearch'', JBool s)]"
| "payload_json (ConfigDialect d r b) =
     [(''dialectId'', JStr d), (''rosterFingerprint'', JStr r), (''reason'', JStr (dialect_str b))]"
| "payload_json (PromptSection n s c) = [(''name'', JStr n), (''source'', JStr s), (''content'', JStr c)]"
| "payload_json (ToolSchema n d i) = [(''name'', JStr n), (''description'', JStr d), (''inputSchema'', JObj i)]"
| "payload_json (ContextInjected s c) = [(''source'', JStr s), (''content'', JStr c)]"
| "payload_json (ContextExtension x s c) = [(''extensionId'', JStr x), (''source'', JStr s), (''content'', JStr c)]"
| "payload_json (PermissionRequested c d) = [(''capability'', JStr c), (''description'', JStr d)]"
| "payload_json (PermissionResolved q d r) =
     [(''requestId'', JStr q), (''decision'', JStr (decision_str d))] @ opt_field ''reason'' JStr r"
| "payload_json (InteractionRequested i k s m d) =
     [(''interactionId'', JStr i), (''kind'', JStr (kind_str k)), (''source'', JStr s), (''message'', JStr m)]
     @ opt_field ''data'' JObj d"
| "payload_json (InteractionResolved i a c) =
     [(''interactionId'', JStr i), (''action'', JStr (action_str a))] @ opt_field ''content'' JObj c"
| "payload_json (SandboxConfigured p e cs d) =
     [(''provider'', JStr p), (''enforced'', JBool e), (''controls'', JArr (map JStr cs))]
     @ opt_field ''details'' JObj d"
| "payload_json (SandboxViolation c r) = [(''capability'', JStr c), (''reason'', JStr r)]"
| "payload_json (ContextCompacted s ids u) =
     [(''summary'', JStr s), (''replacedEventIds'', JArr (map JStr ids))] @ opt_field ''usage'' usage_json u"
| "payload_json (SessionErrorEv c m r d) =
     [(''code'', JStr c), (''message'', JStr m), (''retryable'', JBool r)] @ opt_field ''details'' (\<lambda>x. x) d"
| "payload_json (ChildResult s st r) =
     [(''childSessionId'', JStr s), (''status'', JStr (child_str st))] @ opt_field ''result'' (\<lambda>x. x) r"

section \<open>Well-formed payloads\<close>

definition safe_nat :: "int \<Rightarrow> bool" where
  "safe_nat i \<longleftrightarrow> 0 \<le> i \<and> i \<le> max_safe_integer"

definition opt_ok :: "('a \<Rightarrow> bool) \<Rightarrow> 'a option \<Rightarrow> bool" where
  "opt_ok P x = (case x of None \<Rightarrow> True | Some v \<Rightarrow> P v)"

definition nonempty :: "string \<Rightarrow> bool" where
  "nonempty s \<longleftrightarrow> s \<noteq> []"

definition wf_blob :: "blob_reference \<Rightarrow> bool" where
  "wf_blob b \<longleftrightarrow> is_sha256 (blob_sha256 b) \<and> nonempty (blob_mediaType b)
     \<and> safe_nat (blob_sizeBytes b) \<and> opt_ok nonempty (blob_name b)"

fun wf_item :: "bool \<Rightarrow> content_item \<Rightarrow> bool" where
  "wf_item assistant (Text _) = True"
| "wf_item assistant (Thinking _) = assistant"
| "wf_item assistant (Blob b) = wf_blob b"

definition wf_usage :: "usage \<Rightarrow> bool" where
  "wf_usage u \<longleftrightarrow> safe_nat (inputTokens u) \<and> safe_nat (outputTokens u) \<and> safe_nat (cacheReadTokens u)
     \<and> safe_nat (cacheWriteTokens u) \<and> opt_ok safe_nat (reasoningTokens u)
     \<and> opt_ok (\<lambda>n. is_finite n \<and> \<not> num_negative n) (costUsd u)"

definition wf_settings :: "model_request_settings \<Rightarrow> bool" where
  "wf_settings s \<longleftrightarrow> opt_ok (\<lambda>n. 1 \<le> n \<and> safe_nat n) (set_maxOutputTokens s) \<and> safe_nat (set_httpIdleTimeoutMs s)"

definition wf_configuration :: "model_request_configuration \<Rightarrow> bool" where
  "wf_configuration c \<longleftrightarrow>
     1 \<le> cfg_maxOutputTokens c \<and> safe_nat (cfg_maxOutputTokens c) \<and> safe_nat (cfg_httpIdleTimeoutMs c)
     \<and> safe_nat (cfg_estimatedInputTokens c) \<and> 1 \<le> cfg_contextWindow c \<and> safe_nat (cfg_contextWindow c)
     \<and> safe_nat (cfg_contextReserveTokens c) \<and> 1 \<le> cfg_modelMaxOutputTokens c
     \<and> safe_nat (cfg_modelMaxOutputTokens c) \<and> cfg_maxOutputTokens c \<le> cfg_modelMaxOutputTokens c"

fun wf_payload :: "payload \<Rightarrow> bool" where
  "wf_payload (SessionCreated cwd pr par src) = (nonempty cwd \<and> opt_ok is_uuid par \<and> opt_ok is_uuid src)"
| "wf_payload (SessionRenamed t) = (utf8_length t \<le> 256 \<and> title_ok t)"
| "wf_payload (UserMessage c) = list_all (wf_item False) c"
| "wf_payload (QueueEnqueued c p) = list_all (wf_item False) c"
| "wf_payload (QueueRequeued q p) = is_uuid q"
| "wf_payload (QueueStarted q) = is_uuid q"
| "wf_payload (QueuePaused q) = is_uuid q"
| "wf_payload (InterruptRequested c t) = (list_all (wf_item False) c \<and> opt_ok is_uuid t)"
| "wf_payload (InterruptUpdated st t r) =
     (opt_ok is_uuid t \<and> opt_ok nonempty r \<and> (st = Interrupting \<longrightarrow> t \<noteq> None)
      \<and> (st = InterruptFailed \<longrightarrow> r \<noteq> None))"
| "wf_payload (UserShell cmd c e x) = (nonempty cmd \<and> list_all (wf_item False) c)"
| "wf_payload (AssistantMessage c s u e) =
     (list_all (wf_item True) c \<and> opt_ok wf_usage u \<and> opt_ok nonempty e \<and> (s = StopError \<longrightarrow> e \<noteq> None))"
| "wf_payload (ModelRetryScheduled a m d c) = (safe_nat a \<and> safe_nat m \<and> safe_nat d \<and> nonempty c \<and> 2 \<le> a \<and> a \<le> m)"
| "wf_payload (ToolCall i n inp) = (nonempty i \<and> nonempty n)"
| "wf_payload (ToolResult i n c e d) = (nonempty i \<and> nonempty n \<and> list_all (wf_item False) c)"
| "wf_payload (ConfigRequest s) = wf_settings s"
| "wf_payload (ModelRequestConfigured c) = wf_configuration c"
| "wf_payload (ConfigModel m) = nonempty m"
| "wf_payload (ConfigProvider p) = nonempty p"
| "wf_payload (ConfigEntitlement e) = nonempty e"
| "wf_payload (ConfigDialect d r b) = (nonempty d \<and> nonempty r)"
| "wf_payload (PromptSection n s c) = (nonempty n \<and> nonempty s)"
| "wf_payload (ToolSchema n d i) = nonempty n"
| "wf_payload (ContextInjected s c) = nonempty s"
| "wf_payload (ContextExtension x s c) = (nonempty x \<and> nonempty s)"
| "wf_payload (PermissionRequested c d) = (nonempty c \<and> nonempty d)"
| "wf_payload (PermissionResolved q d r) = (is_uuid q \<and> opt_ok nonempty r)"
| "wf_payload (InteractionRequested i k s m d) = (nonempty i \<and> nonempty s \<and> nonempty m)"
| "wf_payload (InteractionResolved i a c) = nonempty i"
| "wf_payload (SandboxConfigured p e cs d) = (nonempty p \<and> list_all nonempty cs)"
| "wf_payload (SandboxViolation c r) = (nonempty c \<and> nonempty r)"
| "wf_payload (ContextCompacted s ids u) = (nonempty s \<and> ids \<noteq> [] \<and> list_all is_uuid ids \<and> opt_ok wf_usage u)"
| "wf_payload (SessionErrorEv c m r d) = (nonempty c \<and> nonempty m)"
| "wf_payload (ChildResult s st r) = is_uuid s"
| "wf_payload _ = True"

section \<open>Encoding events\<close>

definition event_envelope_of :: "canonical_event \<Rightarrow> event_envelope" where
  "event_envelope_of e =
     \<lparr>env_id = ev_id e, env_sessionId = ev_sessionId e, env_operationId = ev_operationId e,
      env_parentId = ev_parentId e, env_timestamp = ev_timestamp e,
      env_type = payload_type (ev_payload e), env_payload = payload_json (ev_payload e)\<rparr>"

definition event_json :: "canonical_event \<Rightarrow> json" where
  "event_json e = JObj (envelope_json (event_envelope_of e))"

definition wf_event :: "canonical_event \<Rightarrow> bool" where
  "wf_event e \<longleftrightarrow> wf_payload (ev_payload e) \<and> wf_envelope (event_envelope_of e)"

definition MAX_CANONICAL_EVENT_BYTES :: nat where
  "MAX_CANONICAL_EVENT_BYTES = 768 * 1024"

datatype encode_error = EncodeInvalid protocol_error | CanonicalEventSizeError canonical_event nat

definition encodeCanonicalEvent :: "json \<Rightarrow> encode_error + byte list" where
  "encodeCanonicalEvent v =
     (case parseEvent v of
        Inl e \<Rightarrow> Inl (EncodeInvalid e)
      | Inr event \<Rightarrow>
          (let encoded = utf8_encode (json_text (event_json event)) in
           if MAX_CANONICAL_EVENT_BYTES < length encoded
           then Inl (CanonicalEventSizeError event (length encoded)) else Inr encoded))"


section \<open>What each field validator accepts\<close>

lemma exact_None [check_simps]:
  "exact kvs path req opt = None \<longleftrightarrow>
     fst ` set kvs \<subseteq> set req \<union> set opt \<and> (\<forall>k \<in> set req. mhas kvs k)"
  by (auto simp: exact_def first_error_None check_allowed_None)

lemma check_string_None [check_simps]:
  "check_string v path ae = None \<longleftrightarrow> (\<exists>s. v = Some (JStr s) \<and> (ae \<or> s \<noteq> []))"
  by (cases "(ae, v)" rule: is_string.cases) (auto simp: check_string_def)

lemma check_boolean_None [check_simps]: "check_boolean v path = None \<longleftrightarrow> (\<exists>b. v = Some (JBool b))"
  by (cases v rule: is_boolean.cases) (auto simp: check_boolean_def)

lemma nonNegativeInteger_None [check_simps]:
  "nonNegativeInteger v path = None \<longleftrightarrow> (\<exists>i. v = Some (JNum (JInt i)) \<and> safe_nat i)"
  by (auto simp: nonNegativeInteger_def safe_nonneg_int_Some safe_nat_def)

lemma nonNegativeNumber_None [check_simps]:
  "nonNegativeNumber v path = None \<longleftrightarrow> (\<exists>n. v = Some (JNum n) \<and> is_finite n \<and> \<not> num_negative n)"
  by (cases v rule: is_nonneg_number.cases) (auto simp: nonNegativeNumber_def)

lemma check_choice_None [check_simps]:
  "check_choice v path vals = None \<longleftrightarrow> (\<exists>s \<in> set vals. v = Some (JStr s))"
  by (cases "(vals, v)" rule: is_choice.cases) (auto simp: check_choice_def)

lemma check_object_None [check_simps]: "check_object v path = None \<longleftrightarrow> (\<exists>kvs. v = Some (JObj kvs))"
  by (cases v rule: is_object.cases) (auto simp: check_object_def)

lemma check_array_None [check_simps]:
  "check_array v path k = None \<longleftrightarrow> (\<exists>vs. v = Some (JArr vs) \<and> k vs = None)"
  by (auto simp: check_array_def validationError_def split: option.splits json.splits)

lemma optionalString_None [check_simps]:
  "optionalString v path = None \<longleftrightarrow> v = None \<or> (\<exists>s. v = Some (JStr s) \<and> s \<noteq> [])"
  by (cases v) (auto simp: optionalString_def check_string_None)

lemma check_id_None [check_simps]: "check_id v path = None \<longleftrightarrow> (\<exists>s. v = Some (JStr s) \<and> is_uuid s)"
  by (auto simp: check_id_def error_of_None parseId_Inr)

lemma error_of_id_None [check_simps]:
  "error_of (parseEventId v path) = None \<longleftrightarrow> (\<exists>s. v = Some (JStr s) \<and> is_uuid s)"
  by (auto simp: error_of_None parse_ids)

lemma validationError_None [check_simps]: "validationError p m = None \<longleftrightarrow> False"
  by (simp add: validationError_def)

lemma request_integer_None [check_simps]:
  "request_integer v m path = None \<longleftrightarrow>
     (\<exists>i. v = Some (JNum (JInt i)) \<and> m \<le> i \<and> - max_safe_integer \<le> i \<and> i \<le> max_safe_integer)"
proof (cases v)
  case (Some x)
  then show ?thesis
  proof (cases x)
    case (JNum n)
    with Some show ?thesis by (cases n) (auto simp: request_integer_def)
  qed (auto simp: request_integer_def)
qed (simp add: request_integer_def)

lemma request_object_None [check_simps]:
  "request_object kvs keys path = None \<longleftrightarrow> fst ` set kvs \<subseteq> set keys"
  by (auto simp: request_object_def first_error_None)

declare ball_indexed [check_simps] option.map_ident [simp]

section \<open>Reading back enumerations\<close>

lemma find_by_name:
  "distinct (map str xs) \<Longrightarrow> x \<in> set xs \<Longrightarrow> find (\<lambda>y. str y = str x) xs = Some x"
  by (induction xs) (auto simp: image_iff)

lemma read_enum_find:
  "distinct (map str all) \<Longrightarrow> x \<in> set all \<Longrightarrow> read_enum str all (Some (JStr (str x))) = x"
  by (simp add: read_enum_def find_by_name)

lemma in_thinking_levels: "x \<in> set THINKING_LEVELS"
  by (cases x) (simp_all add: enum_lists)

lemma in_profiles: "x \<in> set all_profiles"
  by (cases x) (simp_all add: enum_lists)

lemma in_decisions: "x \<in> set all_decisions"
  by (cases x) (simp_all add: enum_lists)

lemma in_actions: "x \<in> set all_actions"
  by (cases x) (simp_all add: enum_lists)

lemma in_kinds: "x \<in> set all_kinds"
  by (cases x) (simp_all add: enum_lists)

lemma in_close_reasons: "x \<in> set all_close_reasons"
  by (cases x) (simp_all add: enum_lists)

lemma in_stop_reasons: "x \<in> set all_stop_reasons"
  by (cases x) (simp_all add: enum_lists)

lemma in_child_statuses: "x \<in> set all_child_statuses"
  by (cases x) (simp_all add: enum_lists)

lemma in_dialect_reasons: "x \<in> set all_dialect_reasons"
  by (cases x) (simp_all add: enum_lists)

lemma in_priorities: "x \<in> set all_priorities"
  by (cases x) (simp_all add: enum_lists)

lemma in_interrupt_states: "x \<in> set all_interrupt_states"
  by (cases x) (simp_all add: enum_lists)

lemmas enum_all = in_thinking_levels in_profiles in_decisions in_actions in_kinds in_close_reasons in_stop_reasons in_child_statuses in_dialect_reasons in_priorities in_interrupt_states

lemma read_thinking [simp]: "read_enum thinking_str THINKING_LEVELS (Some (JStr (thinking_str x))) = x"
  by (rule read_enum_find) (simp_all add: enum_all, simp add: enum_lists)

lemma read_profile [simp]: "read_enum profile_str all_profiles (Some (JStr (profile_str x))) = x"
  by (rule read_enum_find) (simp_all add: enum_all, simp add: enum_lists)

lemma read_decision [simp]: "read_enum decision_str all_decisions (Some (JStr (decision_str x))) = x"
  by (rule read_enum_find) (simp_all add: enum_all, simp add: enum_lists)

lemma read_action [simp]: "read_enum action_str all_actions (Some (JStr (action_str x))) = x"
  by (rule read_enum_find) (simp_all add: enum_all, simp add: enum_lists)

lemma read_kind [simp]: "read_enum kind_str all_kinds (Some (JStr (kind_str x))) = x"
  by (rule read_enum_find) (simp_all add: enum_all, simp add: enum_lists)

lemma read_close [simp]: "read_enum close_str all_close_reasons (Some (JStr (close_str x))) = x"
  by (rule read_enum_find) (simp_all add: enum_all, simp add: enum_lists)

lemma read_stop [simp]: "read_enum stop_str all_stop_reasons (Some (JStr (stop_str x))) = x"
  by (rule read_enum_find) (simp_all add: enum_all, simp add: enum_lists)

lemma read_child [simp]: "read_enum child_str all_child_statuses (Some (JStr (child_str x))) = x"
  by (rule read_enum_find) (simp_all add: enum_all, simp add: enum_lists)

lemma read_dialect [simp]: "read_enum dialect_str all_dialect_reasons (Some (JStr (dialect_str x))) = x"
  by (rule read_enum_find) (simp_all add: enum_all, simp add: enum_lists)

lemma read_priority [simp]: "read_enum priority_str all_priorities (Some (JStr (priority_str x))) = x"
  by (rule read_enum_find) (simp_all add: enum_all, simp add: enum_lists)

lemma read_interrupt [simp]: "read_enum interrupt_str all_interrupt_states (Some (JStr (interrupt_str x))) = x"
  by (rule read_enum_find) (simp_all add: enum_all, simp add: enum_lists)

section \<open>Content, blobs and usage round trip\<close>

lemma mget_opt_field [simp]:
  "mget (opt_field k enc x) k' = (if k' = k then map_option enc x else None)"
  by (auto simp: opt_field_def split: option.splits)

lemma fst_opt_field [simp]: "fst ` set (opt_field k enc x) = (if x = None then {} else {k})"
  by (auto simp: opt_field_def split: option.splits)

lemma mget_opt_field_append [simp]:
  "mget (opt_field k enc x @ m) k' = (if k' = k \<and> x \<noteq> None then map_option enc x else mget m k')"
  by (auto simp: opt_field_def split: option.splits)

lemma in_opt_field [simp]:
  "(a, b) \<in> set (opt_field k enc x) \<longleftrightarrow> a = k \<and> (\<exists>v. x = Some v \<and> b = enc v)"
  by (auto simp: opt_field_def split: option.splits)

lemma read_opt_None [simp]: "read_opt f None = None"
  by (simp add: read_opt_def)

lemma read_opt_map [simp]: "read_opt f (map_option g x) = map_option (\<lambda>v. f (Some (g v))) x"
  by (cases x) (simp_all add: read_opt_def)

lemma opt_ok_iff: "opt_ok P x \<longleftrightarrow> (\<forall>v. x = Some v \<longrightarrow> P v)"
  by (auto simp: opt_ok_def split: option.splits)

lemmas wf_simps = wf_blob_def wf_usage_def wf_settings_def wf_configuration_def opt_ok_iff nonempty_def

lemma validateBlob_json: "validateBlob (Some (blob_json b)) path = None \<longleftrightarrow> wf_blob b"
  by (auto simp: validateBlob_def blob_json_def jint_def check_simps mhas_def wf_simps
      is_sha256_def split: if_splits)

lemma read_blob_json [simp]: "read_blob (Some (blob_json b)) = b"
  by (simp add: read_blob_def blob_json_def jint_def)

lemma read_item_json [simp]: "read_item (item_json c) = c"
  by (cases c) (simp_all add: read_item_def)

lemma validateItem_json: "validateItem (item_json c) path a = None \<longleftrightarrow> wf_item a c"
  by (cases c) (auto simp: validateItem_def Let_def check_simps mhas_def validateBlob_json)

lemma validateContent_json [check_simps]:
  "validateContent (Some (content_json c)) path a = None \<longleftrightarrow> list_all (wf_item a) c"
  by (simp add: validateContent_def content_json_def check_simps validateItem_json list_all_length)

lemma read_content_json [simp]: "read_content (Some (content_json c)) = c"
  by (simp add: read_content_def content_json_def comp_def)

lemma validateUsage_json [check_simps]: "validateUsage (usage_json u) path = None \<longleftrightarrow> wf_usage u"
  by (auto simp: validateUsage_def usage_json_def jint_def check_simps mhas_def wf_simps
      split: if_splits)

lemma read_usage_json [simp]: "read_usage (Some (usage_json u)) = u"
  by (cases u) (simp add: read_usage_def usage_json_def jint_def)


section \<open>Every parser returns a well-formed payload of its own type\<close>

lemma validateBlob_wf: "validateBlob v path = None \<Longrightarrow> wf_blob (read_blob v)"
  by (auto simp: validateBlob_def read_blob_def check_simps wf_simps Let_def read_opt_def is_sha256_def
      split: option.splits json.splits)

lemma validateItem_wf: "validateItem item path a = None \<Longrightarrow> wf_item a (read_item item)"
  by (cases item) (auto simp: validateItem_def read_item_def check_simps Let_def validateBlob_wf
      split: if_splits)

lemma validateContent_wf: "validateContent v path a = None \<Longrightarrow> list_all (wf_item a) (read_content v)"
  using validateItem_wf by (fastforce simp: validateContent_def check_simps read_content_def list_all_length)

lemma validateUsage_wf: "validateUsage v path = None \<Longrightarrow> wf_usage (read_usage (Some v))"
  by (auto simp: validateUsage_def read_usage_def check_simps wf_simps Let_def read_opt_def
      split: option.splits json.splits)

definition parser_sound :: "string \<times> (json_object \<Rightarrow> string \<Rightarrow> protocol_error + payload) \<Rightarrow> bool" where
  "parser_sound tf \<longleftrightarrow>
     (\<forall>kvs path p. snd tf kvs path = Inr p \<longrightarrow> payload_type p = fst tf \<and> wf_payload p)"

lemmas parser_facts =
  parser_sound_def throw_iff check_simps opt_ok_iff nonempty_def Let_def read_opt_def

lemma parse_session_created_sound: "parser_sound (''session.created'', parse_session_created)"
  by (auto simp: parse_session_created_def parser_facts
      dest: validateContent_wf validateUsage_wf)

lemma parse_session_resumed_sound: "parser_sound (''session.resumed'', parse_session_resumed)"
  by (auto simp: parse_session_resumed_def parser_facts
      dest: validateContent_wf validateUsage_wf)

lemma parse_session_renamed_sound: "parser_sound (''session.renamed'', parse_session_renamed)"
  by (auto simp: parse_session_renamed_def parser_facts
      dest: validateContent_wf validateUsage_wf)

lemma parse_session_closed_sound: "parser_sound (''session.closed'', parse_session_closed)"
  by (auto simp: parse_session_closed_def parser_facts
      dest: validateContent_wf validateUsage_wf)

lemma parse_user_message_sound: "parser_sound (''user.message'', parse_user_message)"
  by (auto simp: parse_user_message_def parser_facts
      dest: validateContent_wf validateUsage_wf)

lemma parse_queue_enqueued_sound: "parser_sound (''queue.enqueued'', parse_queue_enqueued)"
  by (auto simp: parse_queue_enqueued_def parser_facts
      dest: validateContent_wf validateUsage_wf)

lemma parse_queue_requeued_sound: "parser_sound (''queue.requeued'', parse_queue_requeued)"
  by (auto simp: parse_queue_requeued_def parser_facts
      dest: validateContent_wf validateUsage_wf)

lemma parse_queue_started_sound: "parser_sound (''queue.started'', parse_queue_started)"
  by (auto simp: parse_queue_started_def parser_facts
      dest: validateContent_wf validateUsage_wf)

lemma parse_queue_paused_sound: "parser_sound (''queue.paused'', parse_queue_paused)"
  by (auto simp: parse_queue_paused_def parser_facts
      dest: validateContent_wf validateUsage_wf)

lemma parse_interrupt_requested_sound: "parser_sound (''interrupt.requested'', parse_interrupt_requested)"
  by (auto simp: parse_interrupt_requested_def parser_facts
      dest: validateContent_wf validateUsage_wf)

lemma parse_interrupt_updated_sound: "parser_sound (''interrupt.updated'', parse_interrupt_updated)"
  by (auto simp: parse_interrupt_updated_def parser_facts
      dest: validateContent_wf validateUsage_wf)

lemma parse_user_shell_sound: "parser_sound (''user.shell'', parse_user_shell)"
  by (auto simp: parse_user_shell_def parser_facts
      dest: validateContent_wf validateUsage_wf)

lemma parse_assistant_message_sound: "parser_sound (''assistant.message'', parse_assistant_message)"
  by (auto simp: parse_assistant_message_def parser_facts
      dest: validateContent_wf validateUsage_wf)

lemma parse_model_retry_scheduled_sound: "parser_sound (''model.retry_scheduled'', parse_model_retry_scheduled)"
  by (auto simp: parse_model_retry_scheduled_def parser_facts
      dest: validateContent_wf validateUsage_wf)

lemma parse_tool_call_sound: "parser_sound (''tool.call'', parse_tool_call)"
  by (auto simp: parse_tool_call_def parser_facts
      dest: validateContent_wf validateUsage_wf)

lemma parse_tool_result_sound: "parser_sound (''tool.result'', parse_tool_result)"
  by (auto simp: parse_tool_result_def parser_facts
      dest: validateContent_wf validateUsage_wf)

lemma parse_config_request_sound: "parser_sound (''config.request'', parse_config_request)"
  by (auto simp: parse_config_request_def parseModelRequestSettings_def wf_settings_def safe_nat_def parser_facts
      dest: validateContent_wf validateUsage_wf)

lemma parse_model_request_configured_sound: "parser_sound (''model.request_configured'', parse_model_request_configured)"
  by (auto simp: parse_model_request_configured_def parseModelRequestConfiguration_def wf_configuration_def safe_nat_def parser_facts
      dest: validateContent_wf validateUsage_wf)

lemma parse_config_model_sound: "parser_sound (''config.model'', parse_config_model)"
  by (auto simp: parse_config_model_def parser_facts
      dest: validateContent_wf validateUsage_wf)

lemma parse_config_provider_sound: "parser_sound (''config.provider'', parse_config_provider)"
  by (auto simp: parse_config_provider_def parser_facts
      dest: validateContent_wf validateUsage_wf)

lemma parse_config_entitlement_sound: "parser_sound (''config.entitlement'', parse_config_entitlement)"
  by (auto simp: parse_config_entitlement_def parser_facts
      dest: validateContent_wf validateUsage_wf)

lemma parse_config_profile_sound: "parser_sound (''config.profile'', parse_config_profile)"
  by (auto simp: parse_config_profile_def parser_facts
      dest: validateContent_wf validateUsage_wf)

lemma parse_config_thinking_sound: "parser_sound (''config.thinking'', parse_config_thinking)"
  by (auto simp: parse_config_thinking_def parser_facts
      dest: validateContent_wf validateUsage_wf)

lemma parse_config_tools_sound: "parser_sound (''config.tools'', parse_config_tools)"
  by (auto simp: parse_config_tools_def parser_facts
      dest: validateContent_wf validateUsage_wf)

lemma parse_config_dialect_sound: "parser_sound (''config.dialect'', parse_config_dialect)"
  by (auto simp: parse_config_dialect_def parser_facts
      dest: validateContent_wf validateUsage_wf)

lemma parse_prompt_section_sound: "parser_sound (''prompt.section'', parse_prompt_section)"
  by (auto simp: parse_prompt_section_def parser_facts
      dest: validateContent_wf validateUsage_wf)

lemma parse_tool_schema_sound: "parser_sound (''tool.schema'', parse_tool_schema)"
  by (auto simp: parse_tool_schema_def parser_facts
      dest: validateContent_wf validateUsage_wf)

lemma parse_context_injected_sound: "parser_sound (''context.injected'', parse_context_injected)"
  by (auto simp: parse_context_injected_def parser_facts
      dest: validateContent_wf validateUsage_wf)

lemma parse_context_extension_sound: "parser_sound (''context.extension'', parse_context_extension)"
  by (auto simp: parse_context_extension_def parser_facts
      dest: validateContent_wf validateUsage_wf)

lemma parse_permission_requested_sound: "parser_sound (''permission.requested'', parse_permission_requested)"
  by (auto simp: parse_permission_requested_def parser_facts
      dest: validateContent_wf validateUsage_wf)

lemma parse_permission_resolved_sound: "parser_sound (''permission.resolved'', parse_permission_resolved)"
  by (auto simp: parse_permission_resolved_def parser_facts
      dest: validateContent_wf validateUsage_wf)

lemma parse_interaction_requested_sound: "parser_sound (''interaction.requested'', parse_interaction_requested)"
  by (auto simp: parse_interaction_requested_def parser_facts
      dest: validateContent_wf validateUsage_wf)

lemma parse_interaction_resolved_sound: "parser_sound (''interaction.resolved'', parse_interaction_resolved)"
  by (auto simp: parse_interaction_resolved_def parser_facts
      dest: validateContent_wf validateUsage_wf)

lemma parse_sandbox_configured_sound: "parser_sound (''sandbox.configured'', parse_sandbox_configured)"
  by (auto simp: parse_sandbox_configured_def validateStringArray_def validateEventIds_def list_all_length parser_facts
      dest: validateContent_wf validateUsage_wf)

lemma parse_sandbox_violation_sound: "parser_sound (''sandbox.violation'', parse_sandbox_violation)"
  by (auto simp: parse_sandbox_violation_def parser_facts
      dest: validateContent_wf validateUsage_wf)

lemma parse_context_compacted_sound: "parser_sound (''context.compacted'', parse_context_compacted)"
  by (auto simp: parse_context_compacted_def validateStringArray_def validateEventIds_def list_all_length parser_facts
      dest: validateContent_wf validateUsage_wf)

lemma parse_session_error_sound: "parser_sound (''session.error'', parse_session_error)"
  by (auto simp: parse_session_error_def parser_facts
      dest: validateContent_wf validateUsage_wf)

lemma parse_child_result_sound: "parser_sound (''child.result'', parse_child_result)"
  by (auto simp: parse_child_result_def parser_facts
      dest: validateContent_wf validateUsage_wf)

lemma parsers_sound: "list_all parser_sound payloadParsers"
  unfolding payloadParsers_def list.pred_inject
  by (simp add:
      parse_session_created_sound
      parse_session_resumed_sound
      parse_session_renamed_sound
      parse_session_closed_sound
      parse_user_message_sound
      parse_queue_enqueued_sound
      parse_queue_requeued_sound
      parse_queue_started_sound
      parse_queue_paused_sound
      parse_interrupt_requested_sound
      parse_interrupt_updated_sound
      parse_user_shell_sound
      parse_assistant_message_sound
      parse_model_retry_scheduled_sound
      parse_tool_call_sound
      parse_tool_result_sound
      parse_config_request_sound
      parse_model_request_configured_sound
      parse_config_model_sound
      parse_config_provider_sound
      parse_config_entitlement_sound
      parse_config_profile_sound
      parse_config_thinking_sound
      parse_config_tools_sound
      parse_config_dialect_sound
      parse_prompt_section_sound
      parse_tool_schema_sound
      parse_context_injected_sound
      parse_context_extension_sound
      parse_permission_requested_sound
      parse_permission_resolved_sound
      parse_interaction_requested_sound
      parse_interaction_resolved_sound
      parse_sandbox_configured_sound
      parse_sandbox_violation_sound
      parse_context_compacted_sound
      parse_session_error_sound
      parse_child_result_sound)


section \<open>The object of a well-formed payload parses back\<close>

lemmas payload_facts =
  throw_iff check_simps opt_ok_iff nonempty_def Let_def mhas_def jint_def enum_all

lemma parse_session_created_json:
  "wf_payload (SessionCreated a b c d) \<Longrightarrow> parse_session_created (payload_json (SessionCreated a b c d)) path = Inr (SessionCreated a b c d)"
  by (auto simp: parse_session_created_def payload_facts)

lemma parse_session_resumed_json:
  "wf_payload SessionResumed \<Longrightarrow> parse_session_resumed (payload_json SessionResumed) path = Inr SessionResumed"
  by (auto simp: parse_session_resumed_def payload_facts)

lemma parse_session_renamed_json:
  "wf_payload (SessionRenamed a) \<Longrightarrow> parse_session_renamed (payload_json (SessionRenamed a)) path = Inr (SessionRenamed a)"
  by (auto simp: parse_session_renamed_def title_ok_def payload_facts)

lemma parse_session_closed_json:
  "wf_payload (SessionClosed a) \<Longrightarrow> parse_session_closed (payload_json (SessionClosed a)) path = Inr (SessionClosed a)"
  by (auto simp: parse_session_closed_def payload_facts)

lemma parse_user_message_json:
  "wf_payload (UserMessage a) \<Longrightarrow> parse_user_message (payload_json (UserMessage a)) path = Inr (UserMessage a)"
  by (auto simp: parse_user_message_def payload_facts)

lemma parse_queue_enqueued_json:
  "wf_payload (QueueEnqueued a b) \<Longrightarrow> parse_queue_enqueued (payload_json (QueueEnqueued a b)) path = Inr (QueueEnqueued a b)"
  by (auto simp: parse_queue_enqueued_def payload_facts)

lemma parse_queue_requeued_json:
  "wf_payload (QueueRequeued a b) \<Longrightarrow> parse_queue_requeued (payload_json (QueueRequeued a b)) path = Inr (QueueRequeued a b)"
  by (auto simp: parse_queue_requeued_def payload_facts)

lemma parse_queue_started_json:
  "wf_payload (QueueStarted a) \<Longrightarrow> parse_queue_started (payload_json (QueueStarted a)) path = Inr (QueueStarted a)"
  by (auto simp: parse_queue_started_def payload_facts)

lemma parse_queue_paused_json:
  "wf_payload (QueuePaused a) \<Longrightarrow> parse_queue_paused (payload_json (QueuePaused a)) path = Inr (QueuePaused a)"
  by (auto simp: parse_queue_paused_def payload_facts)

lemma parse_interrupt_requested_json:
  "wf_payload (InterruptRequested a b) \<Longrightarrow> parse_interrupt_requested (payload_json (InterruptRequested a b)) path = Inr (InterruptRequested a b)"
  by (auto simp: parse_interrupt_requested_def payload_facts)

lemma parse_interrupt_updated_json:
  "wf_payload (InterruptUpdated a b c) \<Longrightarrow> parse_interrupt_updated (payload_json (InterruptUpdated a b c)) path = Inr (InterruptUpdated a b c)"
  by (auto simp: parse_interrupt_updated_def payload_facts)

lemma parse_user_shell_json:
  "wf_payload (UserShell a b c d) \<Longrightarrow> parse_user_shell (payload_json (UserShell a b c d)) path = Inr (UserShell a b c d)"
  by (auto simp: parse_user_shell_def payload_facts)

lemma parse_assistant_message_json:
  "wf_payload (AssistantMessage a b c d) \<Longrightarrow> parse_assistant_message (payload_json (AssistantMessage a b c d)) path = Inr (AssistantMessage a b c d)"
  by (auto simp: parse_assistant_message_def payload_facts)

lemma parse_model_retry_scheduled_json:
  "wf_payload (ModelRetryScheduled a b c d) \<Longrightarrow> parse_model_retry_scheduled (payload_json (ModelRetryScheduled a b c d)) path = Inr (ModelRetryScheduled a b c d)"
  by (auto simp: parse_model_retry_scheduled_def payload_facts)

lemma parse_tool_call_json:
  "wf_payload (ToolCall a b c) \<Longrightarrow> parse_tool_call (payload_json (ToolCall a b c)) path = Inr (ToolCall a b c)"
  by (auto simp: parse_tool_call_def payload_facts)

lemma parse_tool_result_json:
  "wf_payload (ToolResult a b c d e) \<Longrightarrow> parse_tool_result (payload_json (ToolResult a b c d e)) path = Inr (ToolResult a b c d e)"
  by (auto simp: parse_tool_result_def payload_facts)

lemma parse_config_request_json:
  "wf_payload (ConfigRequest a) \<Longrightarrow> parse_config_request (payload_json (ConfigRequest a)) path = Inr (ConfigRequest a)"
  by (cases "set_maxOutputTokens a"; cases a)
    (auto simp: parse_config_request_def parseModelRequestSettings_def settings_json_def wf_settings_def
      safe_nat_def max_safe_integer_def payload_facts)

lemma parse_model_request_configured_json:
  "wf_payload (ModelRequestConfigured a) \<Longrightarrow> parse_model_request_configured (payload_json (ModelRequestConfigured a)) path = Inr (ModelRequestConfigured a)"
  by (auto simp: parse_model_request_configured_def parseModelRequestConfiguration_def configuration_json_def wf_configuration_def safe_nat_def max_safe_integer_def payload_facts)

lemma parse_config_model_json:
  "wf_payload (ConfigModel a) \<Longrightarrow> parse_config_model (payload_json (ConfigModel a)) path = Inr (ConfigModel a)"
  by (auto simp: parse_config_model_def payload_facts)

lemma parse_config_provider_json:
  "wf_payload (ConfigProvider a) \<Longrightarrow> parse_config_provider (payload_json (ConfigProvider a)) path = Inr (ConfigProvider a)"
  by (auto simp: parse_config_provider_def payload_facts)

lemma parse_config_entitlement_json:
  "wf_payload (ConfigEntitlement a) \<Longrightarrow> parse_config_entitlement (payload_json (ConfigEntitlement a)) path = Inr (ConfigEntitlement a)"
  by (auto simp: parse_config_entitlement_def payload_facts)

lemma parse_config_profile_json:
  "wf_payload (ConfigProfile a) \<Longrightarrow> parse_config_profile (payload_json (ConfigProfile a)) path = Inr (ConfigProfile a)"
  by (auto simp: parse_config_profile_def payload_facts)

lemma parse_config_thinking_json:
  "wf_payload (ConfigThinking a b c) \<Longrightarrow> parse_config_thinking (payload_json (ConfigThinking a b c)) path = Inr (ConfigThinking a b c)"
  by (auto simp: parse_config_thinking_def payload_facts)

lemma parse_config_tools_json:
  "wf_payload (ConfigTools a b) \<Longrightarrow> parse_config_tools (payload_json (ConfigTools a b)) path = Inr (ConfigTools a b)"
  by (auto simp: parse_config_tools_def payload_facts)

lemma parse_config_dialect_json:
  "wf_payload (ConfigDialect a b c) \<Longrightarrow> parse_config_dialect (payload_json (ConfigDialect a b c)) path = Inr (ConfigDialect a b c)"
  by (auto simp: parse_config_dialect_def payload_facts)

lemma parse_prompt_section_json:
  "wf_payload (PromptSection a b c) \<Longrightarrow> parse_prompt_section (payload_json (PromptSection a b c)) path = Inr (PromptSection a b c)"
  by (auto simp: parse_prompt_section_def payload_facts)

lemma parse_tool_schema_json:
  "wf_payload (ToolSchema a b c) \<Longrightarrow> parse_tool_schema (payload_json (ToolSchema a b c)) path = Inr (ToolSchema a b c)"
  by (auto simp: parse_tool_schema_def payload_facts)

lemma parse_context_injected_json:
  "wf_payload (ContextInjected a b) \<Longrightarrow> parse_context_injected (payload_json (ContextInjected a b)) path = Inr (ContextInjected a b)"
  by (auto simp: parse_context_injected_def payload_facts)

lemma parse_context_extension_json:
  "wf_payload (ContextExtension a b c) \<Longrightarrow> parse_context_extension (payload_json (ContextExtension a b c)) path = Inr (ContextExtension a b c)"
  by (auto simp: parse_context_extension_def payload_facts)

lemma parse_permission_requested_json:
  "wf_payload (PermissionRequested a b) \<Longrightarrow> parse_permission_requested (payload_json (PermissionRequested a b)) path = Inr (PermissionRequested a b)"
  by (auto simp: parse_permission_requested_def payload_facts)

lemma parse_permission_resolved_json:
  "wf_payload (PermissionResolved a b c) \<Longrightarrow> parse_permission_resolved (payload_json (PermissionResolved a b c)) path = Inr (PermissionResolved a b c)"
  by (auto simp: parse_permission_resolved_def payload_facts)

lemma parse_interaction_requested_json:
  "wf_payload (InteractionRequested a b c d e) \<Longrightarrow> parse_interaction_requested (payload_json (InteractionRequested a b c d e)) path = Inr (InteractionRequested a b c d e)"
  by (auto simp: parse_interaction_requested_def payload_facts)

lemma parse_interaction_resolved_json:
  "wf_payload (InteractionResolved a b c) \<Longrightarrow> parse_interaction_resolved (payload_json (InteractionResolved a b c)) path = Inr (InteractionResolved a b c)"
  by (auto simp: parse_interaction_resolved_def payload_facts)

lemma parse_sandbox_configured_json:
  "wf_payload (SandboxConfigured a b c d) \<Longrightarrow> parse_sandbox_configured (payload_json (SandboxConfigured a b c d)) path = Inr (SandboxConfigured a b c d)"
  by (auto simp: parse_sandbox_configured_def validateStringArray_def validateEventIds_def list_all_length comp_def payload_facts)

lemma parse_sandbox_violation_json:
  "wf_payload (SandboxViolation a b) \<Longrightarrow> parse_sandbox_violation (payload_json (SandboxViolation a b)) path = Inr (SandboxViolation a b)"
  by (auto simp: parse_sandbox_violation_def payload_facts)

lemma parse_context_compacted_json:
  "wf_payload (ContextCompacted a b c) \<Longrightarrow> parse_context_compacted (payload_json (ContextCompacted a b c)) path = Inr (ContextCompacted a b c)"
  by (auto simp: parse_context_compacted_def validateStringArray_def validateEventIds_def list_all_length comp_def payload_facts)

lemma parse_session_error_json:
  "wf_payload (SessionErrorEv a b c d) \<Longrightarrow> parse_session_error (payload_json (SessionErrorEv a b c d)) path = Inr (SessionErrorEv a b c d)"
  by (auto simp: parse_session_error_def payload_facts)

lemma parse_child_result_json:
  "wf_payload (ChildResult a b c) \<Longrightarrow> parse_child_result (payload_json (ChildResult a b c)) path = Inr (ChildResult a b c)"
  by (auto simp: parse_child_result_def payload_facts)

lemmas parser_json_facts =
  parse_session_created_json
  parse_session_resumed_json
  parse_session_renamed_json
  parse_session_closed_json
  parse_user_message_json
  parse_queue_enqueued_json
  parse_queue_requeued_json
  parse_queue_started_json
  parse_queue_paused_json
  parse_interrupt_requested_json
  parse_interrupt_updated_json
  parse_user_shell_json
  parse_assistant_message_json
  parse_model_retry_scheduled_json
  parse_tool_call_json
  parse_tool_result_json
  parse_config_request_json
  parse_model_request_configured_json
  parse_config_model_json
  parse_config_provider_json
  parse_config_entitlement_json
  parse_config_profile_json
  parse_config_thinking_json
  parse_config_tools_json
  parse_config_dialect_json
  parse_prompt_section_json
  parse_tool_schema_json
  parse_context_injected_json
  parse_context_extension_json
  parse_permission_requested_json
  parse_permission_resolved_json
  parse_interaction_requested_json
  parse_interaction_resolved_json
  parse_sandbox_configured_json
  parse_sandbox_violation_json
  parse_context_compacted_json
  parse_session_error_json
  parse_child_result_json

definition parsePayload :: "string \<Rightarrow> json_object \<Rightarrow> string \<Rightarrow> (protocol_error + payload) option" where
  "parsePayload ty kvs path = map_option (\<lambda>f. f kvs path) (mget payloadParsers ty)"

lemma parsePayload_json: "wf_payload p \<Longrightarrow> parsePayload (payload_type p) (payload_json p) path = Some (Inr p)"
  by (cases p; simp only: payload_type.simps parsePayload_def payloadParsers_def;
      simp add: parser_json_facts del: payload_json.simps wf_payload.simps)

lemma parsePayload_sound:
  assumes "parsePayload ty kvs path = Some (Inr p)"
  shows "payload_type p = ty \<and> wf_payload p"
proof -
  obtain f where f: "mget payloadParsers ty = Some f" "f kvs path = Inr p"
    using assms by (auto simp: parsePayload_def)
  then have "(ty, f) \<in> set payloadParsers" by (simp add: mget_in)
  then have "parser_sound (ty, f)" using parsers_sound by (auto simp: list_all_iff)
  then show ?thesis using f(2) by (auto simp: parser_sound_def)
qed

lemma parseEvent_eq:
  "parseEvent v =
     bindE (parseEventEnvelope v) (\<lambda>event.
     (case parsePayload (env_type event) (env_payload event) ''event.payload'' of
        None \<Rightarrow> Inl (ProtocolValidationError ''event.type'' ''is not a recognized event type'')
      | Some r \<Rightarrow>
          bindE r (\<lambda>p.
          Inr \<lparr>ev_id = env_id event, ev_sessionId = env_sessionId event,
               ev_operationId = env_operationId event, ev_parentId = env_parentId event,
               ev_timestamp = env_timestamp event, ev_payload = p\<rparr>)))"
  by (cases "parseEventEnvelope v"; cases "mget payloadParsers (env_type (projr (parseEventEnvelope v)))")
    (simp_all add: parseEvent_def parsePayload_def)

section \<open>Events round trip\<close>

lemma event_roundtrip:
  assumes "wf_event e"
  shows "parseEvent (event_json e) = Inr e"
proof -
  let ?v = "event_envelope_of e"
  have "parseEventEnvelope (event_json e) = Inr ?v"
    using assms unfolding event_json_def wf_event_def by (intro envelope_roundtrip) simp
  moreover have "parsePayload (env_type ?v) (env_payload ?v) ''event.payload'' = Some (Inr (ev_payload e))"
    using assms by (simp add: event_envelope_of_def wf_event_def parsePayload_json)
  ultimately show ?thesis by (simp add: parseEvent_eq event_envelope_of_def)
qed

lemma parseEvent_wf:
  assumes "parseEvent v = Inr e"
  shows "wf_payload (ev_payload e)" and "is_uuid (ev_id e)" and "is_uuid (ev_sessionId e)"
    and "opt_ok is_uuid (ev_operationId e)" and "opt_ok is_uuid (ev_parentId e)"
    and "safe_nat (ev_timestamp e)"
proof -
  obtain env p where env: "parseEventEnvelope v = Inr env"
    and p: "parsePayload (env_type env) (env_payload env) ''event.payload'' = Some (Inr p)"
    and e: "e = \<lparr>ev_id = env_id env, ev_sessionId = env_sessionId env, ev_operationId = env_operationId env,
      ev_parentId = env_parentId env, ev_timestamp = env_timestamp env, ev_payload = p\<rparr>"
    using assms by (auto simp: parseEvent_eq throw_iff split: option.splits)
  have w: "wf_envelope env" by (rule parseEventEnvelope_wf [OF env])
  show "wf_payload (ev_payload e)" using parsePayload_sound [OF p] e by simp
  show "is_uuid (ev_id e)" "is_uuid (ev_sessionId e)" "opt_ok is_uuid (ev_operationId e)"
    "opt_ok is_uuid (ev_parentId e)" "safe_nat (ev_timestamp e)"
    using w e by (simp_all add: wf_envelope_def opt_ok_def safe_nat_def)
qed

lemma payload_type_ok: "length (payload_type p) \<le> 128 \<and> eventTypePattern (payload_type p)"
  by (cases p) (simp_all, code_simp+)

section \<open>Encoding round trip\<close>

definition decodeCanonicalEvent :: "byte list \<Rightarrow> canonical_event option" where
  "decodeCanonicalEvent bytes =
     (case utf8_decode bytes of
        None \<Rightarrow> None
      | Some text \<Rightarrow>
          (case json_parse text of
             None \<Rightarrow> None
           | Some v \<Rightarrow> (case parseEvent v of Inl _ \<Rightarrow> None | Inr e \<Rightarrow> Some e)))"

lemma encode_event_json:
  assumes "wf_event e" and "wf_json (event_json e)" and "encodeCanonicalEvent (event_json e) = Inr bytes"
  shows "decodeCanonicalEvent bytes = Some e \<and> (10 :: byte) \<notin> set bytes
       \<and> length bytes \<le> MAX_CANONICAL_EVENT_BYTES"
proof -
  have b: "bytes = utf8_encode (json_text (event_json e))" "length bytes \<le> MAX_CANONICAL_EVENT_BYTES"
    using assms(3) event_roundtrip [OF assms(1)]
    by (auto simp: encodeCanonicalEvent_def Let_def split: if_splits)
  show ?thesis
    using b json_roundtrip [OF assms(2)] event_roundtrip [OF assms(1)]
    by (simp add: decodeCanonicalEvent_def utf8_roundtrip newline_byte_encode json_text_no_newline)
qed

end
