(* ===== verification/Event_Json.thy ===== *)
theory Event_Json
  imports Event_Codec
begin

text \<open>
  What parsing keeps of a JSON value: the arbitrary JSON inside a payload is the input's own, every
  event the parser returns is well-formed, and the object of a parsed event is again a value that
  prints and parses back.
\<close>

section \<open>Parsing keeps JSON representable\<close>

definition values_wf :: "json_object \<Rightarrow> bool" where
  "values_wf kvs \<longleftrightarrow> (\<forall>kv \<in> set kvs. wf_json (snd kv))"

lemma values_wf_simps [simp]:
  "values_wf []"
  "values_wf ((k, v) # kvs) \<longleftrightarrow> wf_json v \<and> values_wf kvs"
  "values_wf (xs @ ys) \<longleftrightarrow> values_wf xs \<and> values_wf ys"
  "values_wf (opt_field k enc x) \<longleftrightarrow> (\<forall>v. x = Some v \<longrightarrow> wf_json (enc v))"
  by (auto simp: values_wf_def opt_field_def split: option.splits)

lemma wf_obj: "wf_json (JObj kvs) \<longleftrightarrow> wf_keys kvs \<and> values_wf kvs"
  by (auto simp: values_wf_def list_all_iff)

lemma mget_wf: "mget kvs k = Some v \<Longrightarrow> values_wf kvs \<Longrightarrow> wf_json v"
  by (drule mget_in) (auto simp: values_wf_def)

lemma mget_wf_num: "mget kvs k = Some (JNum n) \<Longrightarrow> values_wf kvs \<Longrightarrow> wf_num n"
  using mget_wf [of kvs k "JNum n"] by simp

definition plain_key :: "string \<Rightarrow> bool" where
  "plain_key k \<longleftrightarrow> k \<noteq> [] \<and> is_lower (hd k)"

lemma wf_keys_plain: "distinct (map fst kvs) \<Longrightarrow> list_all plain_key (map fst kvs) \<Longrightarrow> wf_keys kvs"
  by (rule wf_keysI) (auto simp: plain_key_def list_all_iff not_index_lower)

lemma fst_opt_field_list: "map fst (opt_field k enc x) = (if x = None then [] else [k])"
  by (simp add: opt_field_def split: option.splits)

lemma plain_literals [simp]:
  "plain_key (c # s) \<longleftrightarrow> is_lower c" "plain_key [] \<longleftrightarrow> False"
  by (simp_all add: plain_key_def)

lemma lower_literals [simp]:
  "is_lower CHR ''a''" "is_lower CHR ''b''" "is_lower CHR ''c''" "is_lower CHR ''d''" "is_lower CHR ''e''"
  "is_lower CHR ''f''" "is_lower CHR ''g''" "is_lower CHR ''h''" "is_lower CHR ''i''" "is_lower CHR ''k''"
  "is_lower CHR ''m''" "is_lower CHR ''n''" "is_lower CHR ''o''" "is_lower CHR ''p''" "is_lower CHR ''q''"
  "is_lower CHR ''r''" "is_lower CHR ''s''" "is_lower CHR ''t''" "is_lower CHR ''u''" "is_lower CHR ''v''"
  "is_lower CHR ''w''"
  by (simp_all add: is_lower_def code_unit_def)

lemma payload_keys_wf: "wf_keys (payload_json p)"
  by (rule wf_keys_plain; cases p)
    (auto simp: fst_opt_field_list settings_json_def configuration_json_def)

lemma wf_jint [simp]: "safe_nat i \<Longrightarrow> wf_json (jint i)"
  by (simp add: jint_def safe_nat_def max_safe_integer_def)

definition cost_ok :: "usage \<Rightarrow> bool" where
  "cost_ok u = opt_ok wf_num (costUsd u)"

lemma wf_usage_json: "wf_usage u \<Longrightarrow> cost_ok u \<Longrightarrow> wf_json (usage_json u)"
proof -
  assume u: "wf_usage u" "cost_ok u"
  have "wf_keys ([(''inputTokens'', jint (inputTokens u)), (''outputTokens'', jint (outputTokens u)),
            (''cacheReadTokens'', jint (cacheReadTokens u)), (''cacheWriteTokens'', jint (cacheWriteTokens u))]
           @ opt_field ''reasoningTokens'' jint (reasoningTokens u)
           @ opt_field ''costUsd'' JNum (costUsd u))"
    by (rule wf_keys_plain) (auto simp: fst_opt_field_list)
  then show ?thesis unfolding usage_json_def wf_obj using u by (auto simp: wf_usage_def opt_ok_iff cost_ok_def)
qed

lemma wf_blob_json: "wf_blob b \<Longrightarrow> wf_json (blob_json b)"
proof -
  assume b: "wf_blob b"
  have "wf_keys ([(''sha256'', JStr (blob_sha256 b)), (''mediaType'', JStr (blob_mediaType b)),
            (''sizeBytes'', jint (blob_sizeBytes b))] @ opt_field ''name'' JStr (blob_name b))"
    by (rule wf_keys_plain) (auto simp: fst_opt_field_list)
  then show ?thesis unfolding blob_json_def wf_obj using b by (auto simp: wf_blob_def)
qed

lemma wf_item_json: "wf_item a c \<Longrightarrow> wf_json (item_json c)"
  by (cases c) (auto simp: wf_obj wf_blob_json simp del: wf_json.simps(3) intro!: wf_keys_plain)

lemma wf_content_json: "list_all (wf_item a) c \<Longrightarrow> wf_json (content_json c)"
  by (auto simp: content_json_def list_all_iff wf_item_json)

lemma wf_settings_values:
  "wf_settings c \<Longrightarrow> values_wf (settings_json c)" "wf_configuration d \<Longrightarrow> values_wf (configuration_json d)"
  by (auto simp: settings_json_def configuration_json_def wf_settings_def wf_configuration_def opt_ok_iff
      jint_def safe_nat_def max_safe_integer_def split: option.splits)

text \<open>The parts of a payload that are arbitrary JSON, and its usage record.\<close>

fun raw_parts :: "payload \<Rightarrow> json list" where
  "raw_parts (ToolCall c n i) = [JObj i]"
| "raw_parts (ToolResult c n k e d) = (case d of None \<Rightarrow> [] | Some v \<Rightarrow> [v])"
| "raw_parts (ToolSchema n d i) = [JObj i]"
| "raw_parts (InteractionRequested i k s m d) = (case d of None \<Rightarrow> [] | Some v \<Rightarrow> [JObj v])"
| "raw_parts (InteractionResolved i a c) = (case c of None \<Rightarrow> [] | Some v \<Rightarrow> [JObj v])"
| "raw_parts (SandboxConfigured p e cs d) = (case d of None \<Rightarrow> [] | Some v \<Rightarrow> [JObj v])"
| "raw_parts (SessionErrorEv c m r d) = (case d of None \<Rightarrow> [] | Some v \<Rightarrow> [v])"
| "raw_parts (ChildResult s st r) = (case r of None \<Rightarrow> [] | Some v \<Rightarrow> [v])"
| "raw_parts _ = []"

fun usage_part :: "payload \<Rightarrow> usage option" where
  "usage_part (AssistantMessage c s u e) = u"
| "usage_part (ContextCompacted s i u) = u"
| "usage_part _ = None"

lemma payload_json_wf:
  assumes "wf_payload p" "\<forall>v \<in> set (raw_parts p). wf_json v" "opt_ok cost_ok (usage_part p)"
  shows "wf_json (JObj (payload_json p))"
proof -
  have "values_wf (payload_json p)"
    using assms by (cases p) (auto simp: wf_content_json wf_settings_values wf_usage_json opt_ok_iff list_all_iff
       simp del: wf_json.simps(3))
  then show ?thesis by (simp only: wf_obj payload_keys_wf)
qed

lemma read_usage_cost:
  "validateUsage v path = None \<Longrightarrow> wf_json v \<Longrightarrow> cost_ok (read_usage (Some v))"
  by (cases v, auto simp: validateUsage_def check_simps read_usage_def Let_def read_opt_def wf_obj opt_ok_iff cost_ok_def
     simp del: wf_json.simps(3)) (erule (1) mget_wf_num)

definition parser_keeps :: "(json_object \<Rightarrow> string \<Rightarrow> protocol_error + payload) \<Rightarrow> bool" where
  "parser_keeps f \<longleftrightarrow>
     (\<forall>kvs path p. f kvs path = Inr p \<longrightarrow>
        (\<forall>v \<in> set (raw_parts p). \<exists>k. mget kvs k = Some v)
      \<and> (\<forall>u. usage_part p = Some u \<longrightarrow> (\<exists>k v path. mget kvs k = Some v \<and> validateUsage v path = None \<and> u = read_usage (Some v))))"

lemmas keeps_facts = parser_keeps_def throw_iff check_simps Let_def read_opt_def

lemma parse_session_created_keeps: "parser_keeps parse_session_created"
  by (auto simp: parse_session_created_def keeps_facts split: option.splits)

lemma parse_session_resumed_keeps: "parser_keeps parse_session_resumed"
  by (auto simp: parse_session_resumed_def keeps_facts split: option.splits)

lemma parse_session_renamed_keeps: "parser_keeps parse_session_renamed"
  by (auto simp: parse_session_renamed_def keeps_facts split: option.splits)

lemma parse_session_closed_keeps: "parser_keeps parse_session_closed"
  by (auto simp: parse_session_closed_def keeps_facts split: option.splits)

lemma parse_user_message_keeps: "parser_keeps parse_user_message"
  by (auto simp: parse_user_message_def keeps_facts split: option.splits)

lemma parse_queue_enqueued_keeps: "parser_keeps parse_queue_enqueued"
  by (auto simp: parse_queue_enqueued_def keeps_facts split: option.splits)

lemma parse_queue_requeued_keeps: "parser_keeps parse_queue_requeued"
  by (auto simp: parse_queue_requeued_def keeps_facts split: option.splits)

lemma parse_queue_started_keeps: "parser_keeps parse_queue_started"
  by (auto simp: parse_queue_started_def keeps_facts split: option.splits)

lemma parse_queue_paused_keeps: "parser_keeps parse_queue_paused"
  by (auto simp: parse_queue_paused_def keeps_facts split: option.splits)

lemma parse_interrupt_requested_keeps: "parser_keeps parse_interrupt_requested"
  by (auto simp: parse_interrupt_requested_def keeps_facts split: option.splits)

lemma parse_interrupt_updated_keeps: "parser_keeps parse_interrupt_updated"
  by (auto simp: parse_interrupt_updated_def keeps_facts split: option.splits)

lemma parse_user_shell_keeps: "parser_keeps parse_user_shell"
  by (auto simp: parse_user_shell_def keeps_facts split: option.splits)

lemma parse_assistant_message_keeps: "parser_keeps parse_assistant_message"
  by (auto simp: parse_assistant_message_def keeps_facts split: option.splits) blast+

lemma parse_model_retry_scheduled_keeps: "parser_keeps parse_model_retry_scheduled"
  by (auto simp: parse_model_retry_scheduled_def keeps_facts split: option.splits)

lemma parse_tool_call_keeps: "parser_keeps parse_tool_call"
  by (auto simp: parse_tool_call_def keeps_facts split: option.splits)

lemma parse_tool_result_keeps: "parser_keeps parse_tool_result"
  by (auto simp: parse_tool_result_def keeps_facts split: option.splits)

lemma parse_config_request_keeps: "parser_keeps parse_config_request"
  by (auto simp: parse_config_request_def keeps_facts split: option.splits)

lemma parse_model_request_configured_keeps: "parser_keeps parse_model_request_configured"
  by (auto simp: parse_model_request_configured_def keeps_facts split: option.splits)

lemma parse_config_model_keeps: "parser_keeps parse_config_model"
  by (auto simp: parse_config_model_def keeps_facts split: option.splits)

lemma parse_config_provider_keeps: "parser_keeps parse_config_provider"
  by (auto simp: parse_config_provider_def keeps_facts split: option.splits)

lemma parse_config_entitlement_keeps: "parser_keeps parse_config_entitlement"
  by (auto simp: parse_config_entitlement_def keeps_facts split: option.splits)

lemma parse_config_profile_keeps: "parser_keeps parse_config_profile"
  by (auto simp: parse_config_profile_def keeps_facts split: option.splits)

lemma parse_config_thinking_keeps: "parser_keeps parse_config_thinking"
  by (auto simp: parse_config_thinking_def keeps_facts split: option.splits)

lemma parse_config_tools_keeps: "parser_keeps parse_config_tools"
  by (auto simp: parse_config_tools_def keeps_facts split: option.splits)

lemma parse_config_dialect_keeps: "parser_keeps parse_config_dialect"
  by (auto simp: parse_config_dialect_def keeps_facts split: option.splits)

lemma parse_prompt_section_keeps: "parser_keeps parse_prompt_section"
  by (auto simp: parse_prompt_section_def keeps_facts split: option.splits)

lemma parse_tool_schema_keeps: "parser_keeps parse_tool_schema"
  by (auto simp: parse_tool_schema_def keeps_facts split: option.splits)

lemma parse_context_injected_keeps: "parser_keeps parse_context_injected"
  by (auto simp: parse_context_injected_def keeps_facts split: option.splits)

lemma parse_context_extension_keeps: "parser_keeps parse_context_extension"
  by (auto simp: parse_context_extension_def keeps_facts split: option.splits)

lemma parse_permission_requested_keeps: "parser_keeps parse_permission_requested"
  by (auto simp: parse_permission_requested_def keeps_facts split: option.splits)

lemma parse_permission_resolved_keeps: "parser_keeps parse_permission_resolved"
  by (auto simp: parse_permission_resolved_def keeps_facts split: option.splits)

lemma parse_interaction_requested_keeps: "parser_keeps parse_interaction_requested"
  by (auto simp: parse_interaction_requested_def keeps_facts split: option.splits) (metis read_obj.simps(1))

lemma parse_interaction_resolved_keeps: "parser_keeps parse_interaction_resolved"
  by (auto simp: parse_interaction_resolved_def keeps_facts split: option.splits) (metis read_obj.simps(1))

lemma parse_sandbox_configured_keeps: "parser_keeps parse_sandbox_configured"
  by (auto simp: parse_sandbox_configured_def keeps_facts split: option.splits) (metis read_obj.simps(1))

lemma parse_sandbox_violation_keeps: "parser_keeps parse_sandbox_violation"
  by (auto simp: parse_sandbox_violation_def keeps_facts split: option.splits)

lemma parse_context_compacted_keeps: "parser_keeps parse_context_compacted"
  by (auto simp: parse_context_compacted_def keeps_facts split: option.splits) blast+

lemma parse_session_error_keeps: "parser_keeps parse_session_error"
  by (auto simp: parse_session_error_def keeps_facts split: option.splits)

lemma parse_child_result_keeps: "parser_keeps parse_child_result"
  by (auto simp: parse_child_result_def keeps_facts split: option.splits)

lemmas parser_keeps_facts =
  parse_session_created_keeps
  parse_session_resumed_keeps
  parse_session_renamed_keeps
  parse_session_closed_keeps
  parse_user_message_keeps
  parse_queue_enqueued_keeps
  parse_queue_requeued_keeps
  parse_queue_started_keeps
  parse_queue_paused_keeps
  parse_interrupt_requested_keeps
  parse_interrupt_updated_keeps
  parse_user_shell_keeps
  parse_assistant_message_keeps
  parse_model_retry_scheduled_keeps
  parse_tool_call_keeps
  parse_tool_result_keeps
  parse_config_request_keeps
  parse_model_request_configured_keeps
  parse_config_model_keeps
  parse_config_provider_keeps
  parse_config_entitlement_keeps
  parse_config_profile_keeps
  parse_config_thinking_keeps
  parse_config_tools_keeps
  parse_config_dialect_keeps
  parse_prompt_section_keeps
  parse_tool_schema_keeps
  parse_context_injected_keeps
  parse_context_extension_keeps
  parse_permission_requested_keeps
  parse_permission_resolved_keeps
  parse_interaction_requested_keeps
  parse_interaction_resolved_keeps
  parse_sandbox_configured_keeps
  parse_sandbox_violation_keeps
  parse_context_compacted_keeps
  parse_session_error_keeps
  parse_child_result_keeps

lemma parsers_keep: "list_all (\<lambda>tf. parser_keeps (snd tf)) payloadParsers"
  by (simp add: payloadParsers_def parser_keeps_facts)

lemma parsePayload_keeps:
  assumes "parsePayload ty kvs path = Some (Inr p)"
  shows "\<forall>v \<in> set (raw_parts p). \<exists>k. mget kvs k = Some v"
    and "\<forall>u. usage_part p = Some u \<longrightarrow> (\<exists>k v path. mget kvs k = Some v \<and> validateUsage v path = None \<and> u = read_usage (Some v))"
proof -
  obtain f where f: "(ty, f) \<in> set payloadParsers" "f kvs path = Inr p"
    using assms by (auto simp: parsePayload_def dest: mget_in)
  then have "parser_keeps f" using parsers_keep by (auto simp: list_all_iff)
  then show "\<forall>v \<in> set (raw_parts p). \<exists>k. mget kvs k = Some v"
    and "\<forall>u. usage_part p = Some u \<longrightarrow> (\<exists>k v path. mget kvs k = Some v \<and> validateUsage v path = None \<and> u = read_usage (Some v))"
    using f(2) unfolding parser_keeps_def by blast+
qed

lemma parsePayload_wf_json:
  assumes "parsePayload ty kvs path = Some (Inr p)" and "values_wf kvs"
  shows "wf_json (JObj (payload_json p))"
proof (rule payload_json_wf)
  show "wf_payload p" using parsePayload_sound [OF assms(1)] by simp
  show "\<forall>v \<in> set (raw_parts p). wf_json v" using parsePayload_keeps(1) [OF assms(1)] assms(2) by (blast intro: mget_wf)
  show "opt_ok cost_ok (usage_part p)"
    using parsePayload_keeps(2) [OF assms(1)] assms(2) by (auto simp: opt_ok_iff intro: mget_wf read_usage_cost)
qed

lemma shape_item: "json_shape_ok (Suc (Suc 0)) (item_json c)" if "wf_item a c"
  using that by (cases c) (auto simp: maximumJsonDepth_def blob_json_def opt_field_def jint_def split: option.splits)

lemma shape_usage: "json_shape_ok (Suc 0) (usage_json u)" if "wf_usage u"
  using that by (auto simp: maximumJsonDepth_def usage_json_def opt_field_def jint_def wf_usage_def opt_ok_iff split: option.splits)

lemma shape_content: "json_shape_ok (Suc 0) (content_json c)" if "\<forall>x \<in> set c. wf_item a x"
  using that shape_item by (auto simp: content_json_def maximumJsonDepth_def list_all_iff)

lemma payload_shape:
  assumes "wf_payload p" "\<forall>v \<in> set (raw_parts p). json_shape_ok 1 v"
  shows "json_shape_ok 0 (JObj (payload_json p))"
  using assms
  by (cases p) (auto simp: shape_content shape_usage opt_ok_iff opt_field_def list_all_iff maximumJsonDepth_def
     settings_json_def configuration_json_def jint_def split: option.splits)

lemma envelope_json_wf:
  assumes "wf_envelope e"
  shows "wf_json (JObj (envelope_json e)) \<longleftrightarrow> wf_json (JObj (env_payload e))"
proof -
  have "\<bar>env_timestamp e\<bar> < 10 ^ 21" using assms by (simp add: wf_envelope_def max_safe_integer_def)
  moreover have keys: "wf_keys (envelope_json e)"
    by (rule wf_keys_plain) (auto simp: envelope_json_def split: option.splits)
  ultimately have "values_wf (envelope_json e) \<longleftrightarrow> wf_json (JObj (env_payload e))"
    by (auto simp: envelope_json_def simp: EVENT_FORMAT_VERSION_def simp del: wf_json.simps(3) split: option.splits)
  then show ?thesis unfolding wf_obj [of "envelope_json e"] using keys by simp
qed

text \<open>Every event the parser returns is well-formed, so its own object parses back to it.\<close>

lemma parseEvent_wf_event:
  assumes "parseEvent v = Inr e"
  shows "wf_event e"
proof -
  obtain env p where env: "parseEventEnvelope v = Inr env"
    and p: "parsePayload (env_type env) (env_payload env) ''event.payload'' = Some (Inr p)" and e: "ev_payload e = p"
    using assms by (auto simp: parseEvent_eq throw_iff split: option.splits)
  have "json_shape_ok 0 (JObj (env_payload env))" using parseEventEnvelope_wf [OF env] by (simp add: wf_envelope_def)
  then have "\<forall>(k, v) \<in> set (env_payload env). json_shape_ok 1 v" by (auto simp: list_all_iff)
  then have kv: "json_shape_ok 1 v" if "mget (env_payload env) k = Some v" for k v
    using mget_in [OF that] by blast
  have "\<forall>v \<in> set (raw_parts p). json_shape_ok 1 v"
  proof
    fix v assume "v \<in> set (raw_parts p)"
    then obtain k where "mget (env_payload env) k = Some v" using parsePayload_keeps(1) [OF p] by blast
    then show "json_shape_ok 1 v" by (rule kv)
  qed
  then have "json_shape_ok 0 (JObj (payload_json p))" using parsePayload_sound [OF p] by (intro payload_shape) auto
  then show ?thesis
    using parseEvent_wf [OF assms] payload_type_ok [of p] e
    by (simp add: wf_event_def wf_envelope_def event_envelope_of_def opt_ok_def safe_nat_def)
qed

lemma parseEvent_keeps:
  assumes "parseEvent v = Inr e" and "wf_json v"
  shows "wf_json (event_json e)"
proof -
  obtain env p where env: "parseEventEnvelope v = Inr env"
    and p: "parsePayload (env_type env) (env_payload env) ''event.payload'' = Some (Inr p)" and e: "ev_payload e = p"
    using assms(1) by (auto simp: parseEvent_eq throw_iff split: option.splits)
  obtain kvs where v: "v = JObj kvs" "mget kvs ''payload'' = Some (JObj (env_payload env))"
    using env by (auto simp: parseEventEnvelope_def bindE_Inr parseObject_Inr)
  have "wf_json (JObj (env_payload env))" using assms(2) v(1) mget_wf [OF v(2)] by (simp only: wf_obj)
  then have "values_wf (env_payload env)" by (simp only: wf_obj)
  then have "wf_json (JObj (payload_json p))" by (rule parsePayload_wf_json [OF p])
  moreover have "wf_envelope (event_envelope_of e)" using parseEvent_wf_event [OF assms(1)] by (simp add: wf_event_def)
  ultimately show ?thesis by (simp only: event_json_def envelope_json_wf) (simp add: event_envelope_of_def e)
qed

lemma parseEvent_event_json: "parseEvent v = Inr e \<Longrightarrow> parseEvent (event_json e) = Inr e"
  by (intro event_roundtrip parseEvent_wf_event)

section \<open>Example events\<close>

definition ex_id :: "char \<Rightarrow> string" where
  "ex_id c = ''018f0000-0000-7000-8000-00000000000'' @ [c]"

definition ex_session :: string where
  "ex_session = ex_id CHR ''0''"

definition ex_event :: "char \<Rightarrow> char option \<Rightarrow> payload \<Rightarrow> canonical_event" where
  "ex_event c parent p =
     \<lparr>ev_id = ex_id c, ev_sessionId = ex_session, ev_operationId = None,
      ev_parentId = map_option ex_id parent, ev_timestamp = 1, ev_payload = p\<rparr>"

definition ex_created :: canonical_event where
  "ex_created = ex_event CHR ''1'' None (SessionCreated ''/work'' None None None)"

definition ex_message :: canonical_event where
  "ex_message = ex_event CHR ''2'' (Some CHR ''1'') (UserMessage [Text ''use hunter2''])"

section \<open>Properties\<close>

text \<open>
  C33: whatever \<^verbatim>\<open>parseEvent\<close> accepts is a well-formed event of one of the 38 types, and its own
  object is accepted again as the same event.
\<close>

theorem parse_sound:
  assumes "parseEvent v = Inr e"
  shows "wf_event e \<and> parseEvent (event_json e) = Inr e"
  using parseEvent_wf_event [OF assms] parseEvent_event_json [OF assms] by simp

theorem parse_sound_witness: "wf_event ex_message"
proof -
  have "parseEvent (event_json ex_message) = Inr ex_message" by code_simp
  then show ?thesis using parse_sound by blast
qed


lemma encode_small:
  assumes "parseEvent v = Inr e" and "length (json_text (event_json e)) \<le> 1000"
  shows "encodeCanonicalEvent v = Inr (utf8_encode (json_text (event_json e)))"
  using assms utf8_encode_length [of "json_text (event_json e)"]
  by (simp add: encodeCanonicalEvent_def MAX_CANONICAL_EVENT_BYTES_def)


end
