(* ===== verification/Redaction.thy ===== *)
theory Redaction
  imports Event_Json
begin

text \<open>
  Redaction before storage (\<^verbatim>\<open>packages/kernel/src/redaction.ts\<close>): secret field names, the
  replacement of secret values in strings and JSON values, and \<^verbatim>\<open>redactEventForStorage\<close>.
  The lemmas show that no string value of a redacted payload contains a secret, for every secret
  that cannot be reassembled with the marker itself, and that redaction keeps the event's identity.
\<close>

section \<open>Definitions\<close>

definition REDACTED_VALUE :: string where
  "REDACTED_VALUE = ''[REDACTED]''"

definition SECRET_FIELD_NAMES :: "string list" where
  "SECRET_FIELD_NAMES =
     [''accessToken'', ''apiKey'', ''authorization'', ''clientSecret'', ''cookie'', ''credential'',
      ''credentials'', ''passphrase'', ''password'', ''privateKey'', ''proxyAuthorization'',
      ''refreshToken'', ''secret'', ''secretAccessKey'', ''secrets'', ''sessionToken'', ''setCookie'',
      ''token'', ''xApiKey'']"

definition normalizeField :: "string \<Rightarrow> string" where
  "normalizeField field = filter (\<lambda>c. c \<notin> {CHR ''-'', CHR ''_'', CHR ''.''}) (to_lower field)"

definition normalizedSecretFields :: "string set" where
  "normalizedSecretFields = set (map normalizeField SECRET_FIELD_NAMES)"

definition isSecretField :: "string \<Rightarrow> bool" where
  "isSecretField field \<longleftrightarrow> normalizeField field \<in> normalizedSecretFields"

definition redactString :: "string \<Rightarrow> string list \<Rightarrow> string" where
  "redactString v secretValues = foldl (\<lambda>redacted secret. replace_all redacted secret REDACTED_VALUE) v secretValues"

fun redactJsonValue :: "string list \<Rightarrow> bool \<Rightarrow> json \<Rightarrow> json" where
  "redactJsonValue secretValues names (JStr s) = JStr (redactString s secretValues)"
| "redactJsonValue secretValues names (JArr vs) = JArr (map (redactJsonValue secretValues names) vs)"
| "redactJsonValue secretValues names (JObj kvs) =
     JObj (map (\<lambda>(k, v). (k, if names \<and> isSecretField k then JStr REDACTED_VALUE
                              else redactJsonValue secretValues names v)) kvs)"
| "redactJsonValue secretValues names v = v"

text \<open>The entries of an object, as the code redacts them.\<close>

definition redactObject :: "string list \<Rightarrow> bool \<Rightarrow> json_object \<Rightarrow> json_object" where
  "redactObject secretValues names kvs =
     map (\<lambda>(k, v). (k, if names \<and> isSecretField k then JStr REDACTED_VALUE
                        else redactJsonValue secretValues names v)) kvs"

datatype redaction_error = SecretTypeError | RedactionInvalid protocol_error

text \<open>\<^verbatim>\<open>new Set\<close> keeps the first of equal values; \<^verbatim>\<open>sort\<close> is stable.\<close>

definition normalizeSecretValues :: "string list \<Rightarrow> redaction_error + string list" where
  "normalizeSecretValues vals =
     (if \<exists>v \<in> set vals. v = [] then Inl SecretTypeError
      else Inr (sort_key (\<lambda>s. - int (length s)) (rev (remdups (rev vals)))))"

definition redactPayload :: "string list \<Rightarrow> payload \<Rightarrow> json_object" where
  "redactPayload secrets p =
     (case p of
        ToolSchema name description inputSchema \<Rightarrow>
          [(''name'', JStr (redactString name secrets)),
           (''description'', JStr (redactString description secrets)),
           (''inputSchema'', JObj (redactObject secrets False inputSchema))]
      | _ \<Rightarrow> redactObject secrets True (payload_json p))"

definition redactEventForStorage :: "json \<Rightarrow> string list \<Rightarrow> redaction_error + canonical_event" where
  "redactEventForStorage v secretValues =
     (case parseEvent v of
        Inl e \<Rightarrow> Inl (RedactionInvalid e)
      | Inr event \<Rightarrow>
          bindE (normalizeSecretValues secretValues) (\<lambda>secrets.
          (case parseEvent (JObj (envelope_json ((event_envelope_of event)\<lparr>env_payload := redactPayload secrets (ev_payload event)\<rparr>))) of
             Inl e \<Rightarrow> Inl (RedactionInvalid e)
           | Inr redacted \<Rightarrow> Inr redacted)))"

section \<open>The string values of a JSON value\<close>

fun string_values :: "json \<Rightarrow> string list" where
  "string_values (JStr s) = [s]"
| "string_values (JArr vs) = concat (map string_values vs)"
| "string_values (JObj kvs) = concat (map (\<lambda>(k, v). string_values v) kvs)"
| "string_values v = []"

text \<open>A secret the marker cannot help to spell: it neither starts nor ends inside a marker, nor contains one.\<close>

definition separable :: "string \<Rightarrow> bool" where
  "separable q \<longleftrightarrow>
     q \<noteq> [] \<and> hd q \<notin> set REDACTED_VALUE \<and> last q \<notin> set REDACTED_VALUE \<and> \<not> str_includes q REDACTED_VALUE"

section \<open>Replacing an occurrence removes it\<close>

lemma str_includes_sublist: "str_includes s p \<longleftrightarrow> sublist p s"
  by (induction s) (auto simp: sublist_Cons_right)

lemma prefix_replace_from:
  assumes "prefix r (replace_from 0 old m t)" and "r = [] \<or> last r \<notin> set m" and "\<not> sublist m r"
  shows "prefix r t"
  using assms
proof (induction r arbitrary: t)
  case (Cons c r)
  show ?case
  proof (cases t)
    case Nil
    then show ?thesis using Cons.prems(1) by simp
  next
    case (Cons d t')
    show ?thesis
    proof (cases "prefix old t")
      case True
      then have "prefix (c # r) (m @ replace_from (length old - 1) old m t')"
        using Cons.prems(1) Cons by simp
      then consider "prefix (c # r) m" | u where "c # r = m @ u" by (auto simp: prefix_append)
      then show ?thesis
      proof cases
        case 1
        then have "last (c # r) \<in> set m" by (metis last_in_set list.distinct(1) set_mono_prefix subsetD)
        then show ?thesis using Cons.prems(2) by simp
      next
        case 2
        then show ?thesis using Cons.prems(3) by (metis prefix_imp_sublist prefixI)
      qed
    next
      case False
      then have "c = d" "prefix r (replace_from 0 old m t')" using Cons.prems(1) Cons by auto
      moreover have "\<not> sublist m r" using Cons.prems(3) by (metis sublist_Cons_right)
      moreover have "r = [] \<or> last r \<notin> set m" using Cons.prems(2) by auto
      ultimately show ?thesis using Cons.IH Cons by simp
    qed
  qed
qed simp

lemma sublist_append_hd:
  assumes "sublist q (m @ x)" and "q \<noteq> []" and "hd q \<notin> set m"
  shows "sublist q x"
proof -
  obtain u v where uv: "m @ x = u @ q @ v" using assms(1) by (auto simp: sublist_def)
  have "length m \<le> length u"
  proof (rule ccontr)
    assume "\<not> length m \<le> length u"
    then have "(u @ q @ v) ! length u \<in> set m" unfolding uv [symmetric] by (simp add: nth_append)
    then show False using assms(2,3) by (simp add: nth_append hd_conv_nth)
  qed
  then obtain u' where "u = m @ u'"
    using uv by (metis append_eq_append_conv_if append_take_drop_id)
  then show ?thesis using uv by (auto simp: sublist_def)
qed

lemma replace_from_no_new:
  assumes "q \<noteq> []" "hd q \<notin> set m" "last q \<notin> set m" "\<not> sublist m q" and "old = q \<or> \<not> sublist q t"
  shows "\<not> sublist q (replace_from n old m t)"
  using assms(5)
proof (induction t arbitrary: n)
  case Nil
  then show ?case using assms(1) by simp
next
  case (Cons c t)
  have tl: "old = q \<or> \<not> sublist q t" using Cons.prems by (auto simp: sublist_Cons_right)
  show ?case
  proof (cases n)
    case (Suc k)
    then show ?thesis using Cons.IH [OF tl] by simp
  next
    case 0
    show ?thesis
    proof (cases "prefix old (c # t)")
      case True
      then show ?thesis
        using 0 Cons.IH [OF tl] sublist_append_hd [OF _ assms(1,2)] by auto
    next
      case False
      have "\<not> prefix q (replace_from 0 old m (c # t))"
        using prefix_replace_from [of q old m "c # t"] assms(3,4) Cons.prems False
        by (auto dest: prefix_imp_sublist)
      then show ?thesis using 0 False Cons.IH [OF tl, of 0] by (simp add: sublist_Cons_right)
    qed
  qed
qed

lemma replace_all_removes: "separable q \<Longrightarrow> \<not> str_includes (replace_all t q REDACTED_VALUE) q"
  by (simp add: separable_def str_includes_sublist replace_all_def replace_from_no_new)

lemma replace_all_keeps_absent:
  "separable q \<Longrightarrow> \<not> str_includes t q \<Longrightarrow> \<not> str_includes (replace_all t old REDACTED_VALUE) q"
  by (simp add: separable_def str_includes_sublist replace_all_def replace_from_no_new)

lemma redactString_keeps_absent:
  "separable q \<Longrightarrow> \<not> str_includes t q \<Longrightarrow> \<not> str_includes (redactString t secrets) q"
  by (induction secrets arbitrary: t) (simp_all add: redactString_def replace_all_keeps_absent)

lemma redactString_removes:
  "separable q \<Longrightarrow> q \<in> set secrets \<Longrightarrow> \<not> str_includes (redactString t secrets) q"
proof (induction secrets arbitrary: t)
  case (Cons x xs)
  have step: "redactString t (x # xs) = redactString (replace_all t x REDACTED_VALUE) xs"
    by (simp add: redactString_def)
  show ?case
  proof (cases "q = x")
    case True
    then show ?thesis
      unfolding step using Cons.prems(1) by (simp add: redactString_keeps_absent replace_all_removes)
  next
    case False
    then show ?thesis unfolding step using Cons by simp
  qed
qed simp

lemma replace_from_absent: "\<not> str_includes t old \<Longrightarrow> replace_from 0 old new t = t"
  by (induction t) auto

lemma redactString_absent: "\<forall>q \<in> set secrets. \<not> str_includes t q \<Longrightarrow> redactString t secrets = t"
  by (induction secrets) (simp_all add: redactString_def replace_all_def replace_from_absent)

section \<open>Redaction of JSON values\<close>

lemma separable_marker: "separable q \<Longrightarrow> \<not> str_includes REDACTED_VALUE q"
  by (cases q) (auto simp: separable_def str_includes_sublist dest: set_mono_sublist)

lemma redactJsonValue_obj: "redactJsonValue secrets names (JObj kvs) = JObj (redactObject secrets names kvs)"
  by (simp add: redactObject_def)

lemma redactJsonValue_removes:
  assumes "separable q" and "q \<in> set secrets" and "s \<in> set (string_values (redactJsonValue secrets names v))"
  shows "\<not> str_includes s q"
  using assms(3)
proof (induction v arbitrary: s)
  case (JObj kvs)
  then obtain k v where kv: "(k, v) \<in> set kvs"
    "s \<in> set (string_values (if names \<and> isSecretField k then JStr REDACTED_VALUE else redactJsonValue secrets names v))"
    by auto
  then show ?case
    using JObj.IH [OF kv(1), of v s] separable_marker [OF assms(1)] by (auto split: if_splits)
qed (auto simp: redactString_removes [OF assms(1,2)])

lemma redactPayload_removes:
  assumes "separable q" and "q \<in> set secrets" and "s \<in> set (string_values (JObj (redactPayload secrets p)))"
  shows "\<not> str_includes s q"
proof (cases "\<exists>n d i. p = ToolSchema n d i")
  case True
  then show ?thesis
    using assms(3) redactJsonValue_removes [OF assms(1,2), of s False] redactString_removes [OF assms(1,2)]
    by (auto simp: redactPayload_def redactObject_def)
next
  case False
  then have "redactPayload secrets p = redactObject secrets True (payload_json p)"
    by (auto simp: redactPayload_def split: payload.splits)
  then have "s \<in> set (string_values (redactJsonValue secrets True (JObj (payload_json p))))"
    using assms(3) by (simp only: redactJsonValue_obj)
  then show ?thesis by (rule redactJsonValue_removes [OF assms(1,2)])
qed

lemma normalizeSecretValues_set: "normalizeSecretValues vals = Inr secrets \<Longrightarrow> set secrets = set vals \<and> [] \<notin> set vals"
  by (auto simp: normalizeSecretValues_def split: if_splits)

lemma normalizeSecretValues_sorted:
  "normalizeSecretValues vals = Inr secrets \<Longrightarrow> distinct secrets \<and> sorted_wrt (\<lambda>a b. length b \<le> length a) secrets"
proof -
  assume "normalizeSecretValues vals = Inr secrets"
  then have e: "secrets = sort_key (\<lambda>s. - int (length s)) (rev (remdups (rev vals)))"
    by (simp add: normalizeSecretValues_def split: if_splits)
  have "sorted (map (\<lambda>s. - int (length s)) secrets)" unfolding e by simp
  then show ?thesis unfolding e by (simp add: sorted_wrt_map)
qed

lemma normalizeField_idem: "isSecretField f \<longleftrightarrow> normalizeField f \<in> set
  [''accesstoken'', ''apikey'', ''authorization'', ''clientsecret'', ''cookie'', ''credential'', ''credentials'',
   ''passphrase'', ''password'', ''privatekey'', ''proxyauthorization'', ''refreshtoken'', ''secret'',
   ''secretaccesskey'', ''secrets'', ''sessiontoken'', ''setcookie'', ''token'', ''xapikey'']"
proof -
  have "map normalizeField SECRET_FIELD_NAMES =
    [''accesstoken'', ''apikey'', ''authorization'', ''clientsecret'', ''cookie'', ''credential'', ''credentials'',
     ''passphrase'', ''password'', ''privatekey'', ''proxyauthorization'', ''refreshtoken'', ''secret'',
     ''secretaccesskey'', ''secrets'', ''sessiontoken'', ''setcookie'', ''token'', ''xapikey'']"
    by code_simp
  then show ?thesis by (simp only: isSecretField_def normalizedSecretFields_def)
qed

section \<open>Redaction of events\<close>

lemma redactEventForStorage_Inr:
  assumes "redactEventForStorage v secretValues = Inr e"
  obtains event secrets where "parseEvent v = Inr event" "normalizeSecretValues secretValues = Inr secrets"
    "parseEvent (JObj (envelope_json ((event_envelope_of event)\<lparr>env_payload := redactPayload secrets (ev_payload event)\<rparr>))) = Inr e"
proof -
  obtain event where ev: "parseEvent v = Inr event"
    using assms by (cases "parseEvent v") (simp_all add: redactEventForStorage_def)
  obtain secrets where sec: "normalizeSecretValues secretValues = Inr secrets"
    using assms ev by (auto simp: redactEventForStorage_def bindE_Inr)
  show thesis
    using assms ev sec by (intro that [OF ev sec]) (auto simp: redactEventForStorage_def split: sum.splits)
qed

lemma envelope_parse_same: "parseEventEnvelope (JObj (envelope_json env)) = Inr env' \<Longrightarrow> env' = env"
  by (auto simp: parseEventEnvelope_def envelope_json_def parseObject_def throw_iff mhas_def
      parseEventId_def parseSessionId_def parseOperationId_def parseId_def check_timestamp_def check_event_type_def
      split: option.splits if_splits)


section \<open>Parsing adds no string value\<close>

definition object_values :: "json_object \<Rightarrow> string set" where
  "object_values kvs = set (string_values (JObj kvs))"

lemma object_values_simps [simp]:
  "object_values [] = {}"
  "object_values ((k, v) # kvs) = set (string_values v) \<union> object_values kvs"
  "object_values (xs @ ys) = object_values xs \<union> object_values ys"
  "object_values (opt_field k enc x) = (case x of None \<Rightarrow> {} | Some v \<Rightarrow> set (string_values (enc v)))"
  "set (string_values (JObj kvs)) = object_values kvs"
  by (auto simp: object_values_def opt_field_def split: option.splits)

declare string_values.simps(3) [simp del]

lemma mget_values: "mget kvs k = Some v \<Longrightarrow> x \<in> set (string_values v) \<Longrightarrow> x \<in> object_values kvs"
  by (drule mget_in) (force simp: object_values_def string_values.simps(3))

lemma mget_str: "mget kvs k = Some (JStr s) \<Longrightarrow> s \<in> object_values kvs"
  by (erule mget_values) simp

lemma mget_obj: "mget kvs k = Some (JObj m) \<Longrightarrow> x \<in> object_values m \<Longrightarrow> x \<in> object_values kvs"
  by (erule mget_values) simp

definition field_values :: "json option \<Rightarrow> string set" where
  "field_values v = (case v of None \<Rightarrow> {} | Some x \<Rightarrow> set (string_values x))"

lemma field_values_mget: "x \<in> field_values (mget kvs k) \<Longrightarrow> x \<in> object_values kvs"
  by (auto simp: field_values_def split: option.splits intro: mget_values)

lemmas value_intros = mget_str mget_obj mget_values field_values_mget

lemma jint_values [simp]: "string_values (jint i) = []"
  by (simp add: jint_def)

lemma usage_values [simp]: "string_values (usage_json u) = []"
  by (auto simp: usage_json_def opt_field_def string_values.simps(3) split: option.splits)

lemma read_blob_values:
  "validateBlob v path = None \<Longrightarrow> x \<in> set (string_values (blob_json (read_blob v))) \<Longrightarrow> x \<in> field_values v"
  by (auto simp: validateBlob_def read_blob_def blob_json_def check_simps Let_def read_opt_def field_values_def
     split: option.splits json.splits if_splits intro: value_intros)

lemma read_item_values:
  "validateItem v path a = None \<Longrightarrow> x \<in> set (string_values (item_json (read_item v))) \<Longrightarrow> x \<in> set (string_values v)"
  by (cases v) (auto simp: validateItem_def read_item_def check_simps Let_def
      split: if_splits intro: value_intros dest: read_blob_values)

lemma read_content_values:
  "validateContent v path a = None \<Longrightarrow> x \<in> set (string_values (content_json (read_content v))) \<Longrightarrow> x \<in> field_values v"
  by (fastforce simp: validateContent_def check_simps read_content_def content_json_def field_values_def in_set_conv_nth
    dest: read_item_values)

lemma read_enum_values:
  "s \<in> str ` set vals \<Longrightarrow> str (read_enum str vals (Some (JStr s))) = s"
  by (auto simp: read_enum_def find_None_iff find_Some_iff split: option.splits)

lemma read_enum_all [simp]:
  "s \<in> profile_str ` set all_profiles \<Longrightarrow> profile_str (read_enum profile_str all_profiles (Some (JStr s))) = s"
  "s \<in> close_str ` set all_close_reasons \<Longrightarrow> close_str (read_enum close_str all_close_reasons (Some (JStr s))) = s"
  "s \<in> priority_str ` set all_priorities \<Longrightarrow> priority_str (read_enum priority_str all_priorities (Some (JStr s))) = s"
  by (simp_all add: read_enum_values)

lemma settings_values [simp]: "object_values (settings_json c) = {}" "object_values (configuration_json d) = {}"
  by (auto simp: settings_json_def configuration_json_def split: option.splits)

lemma str_items_values:
  assumes "\<forall>i < length vs. \<exists>s. vs ! i = JStr s" and "y \<in> set vs"
  shows "read_str (Some y) \<in> field_values (Some (JArr vs))"
proof -
  obtain s where "y = JStr s" using assms by (auto simp: in_set_conv_nth)
  then show ?thesis using assms(2) by (force simp: field_values_def)
qed

lemma event_ids_values:
  "validateEventIds v path = None \<Longrightarrow> y \<in> set (read_arr v) \<Longrightarrow> read_str (Some y) \<in> field_values v"
  by (auto simp: validateEventIds_def check_simps throw_iff intro!: str_items_values)

lemma string_array_values:
  "validateStringArray v path = None \<Longrightarrow> y \<in> set (read_arr v) \<Longrightarrow> read_str (Some y) \<in> field_values v"
  by (auto simp: validateStringArray_def check_simps intro!: str_items_values)

definition parser_reads :: "(json_object \<Rightarrow> string \<Rightarrow> protocol_error + payload) \<Rightarrow> bool" where
  "parser_reads f \<longleftrightarrow>
     (\<forall>kvs path p. f kvs path = Inr p \<longrightarrow> object_values (payload_json p) \<subseteq> object_values kvs)"

lemmas reads_facts = parser_reads_def throw_iff check_simps Let_def read_opt_def

lemma parse_session_created_reads: "parser_reads parse_session_created"
  by (auto simp: parse_session_created_def reads_facts split: option.splits intro: value_intros dest: read_content_values event_ids_values string_array_values)

lemma parse_session_resumed_reads: "parser_reads parse_session_resumed"
  by (auto simp: parse_session_resumed_def reads_facts split: option.splits intro: value_intros dest: read_content_values event_ids_values string_array_values)

lemma parse_session_renamed_reads: "parser_reads parse_session_renamed"
  by (auto simp: parse_session_renamed_def reads_facts split: option.splits intro: value_intros dest: read_content_values event_ids_values string_array_values)

lemma parse_session_closed_reads: "parser_reads parse_session_closed"
  by (auto simp: parse_session_closed_def reads_facts split: option.splits intro: value_intros dest: read_content_values event_ids_values string_array_values)

lemma parse_user_message_reads: "parser_reads parse_user_message"
  by (auto simp: parse_user_message_def reads_facts split: option.splits intro: value_intros dest: read_content_values event_ids_values string_array_values)

lemma parse_queue_enqueued_reads: "parser_reads parse_queue_enqueued"
  by (auto simp: parse_queue_enqueued_def reads_facts split: option.splits intro: value_intros dest: read_content_values event_ids_values string_array_values)

lemma parse_queue_requeued_reads: "parser_reads parse_queue_requeued"
  by (auto simp: parse_queue_requeued_def reads_facts split: option.splits intro: value_intros dest: read_content_values event_ids_values string_array_values)

lemma parse_queue_started_reads: "parser_reads parse_queue_started"
  by (auto simp: parse_queue_started_def reads_facts split: option.splits intro: value_intros dest: read_content_values event_ids_values string_array_values)

lemma parse_queue_paused_reads: "parser_reads parse_queue_paused"
  by (auto simp: parse_queue_paused_def reads_facts split: option.splits intro: value_intros dest: read_content_values event_ids_values string_array_values)

lemma parse_interrupt_requested_reads: "parser_reads parse_interrupt_requested"
  by (auto simp: parse_interrupt_requested_def reads_facts split: option.splits intro: value_intros dest: read_content_values event_ids_values string_array_values)

lemma parse_interrupt_updated_reads: "parser_reads parse_interrupt_updated"
  by (auto simp: parse_interrupt_updated_def reads_facts split: option.splits intro: value_intros dest: read_content_values event_ids_values string_array_values)

lemma parse_user_shell_reads: "parser_reads parse_user_shell"
  by (auto simp: parse_user_shell_def reads_facts split: option.splits intro: value_intros dest: read_content_values event_ids_values string_array_values)

lemma parse_assistant_message_reads: "parser_reads parse_assistant_message"
  by (auto simp: parse_assistant_message_def reads_facts split: option.splits intro: value_intros dest: read_content_values event_ids_values string_array_values)

lemma parse_model_retry_scheduled_reads: "parser_reads parse_model_retry_scheduled"
  by (auto simp: parse_model_retry_scheduled_def reads_facts split: option.splits intro: value_intros dest: read_content_values event_ids_values string_array_values)

lemma parse_tool_call_reads: "parser_reads parse_tool_call"
  by (auto simp: parse_tool_call_def reads_facts split: option.splits intro: value_intros dest: read_content_values event_ids_values string_array_values)

lemma parse_tool_result_reads: "parser_reads parse_tool_result"
  by (auto simp: parse_tool_result_def reads_facts split: option.splits intro: value_intros dest: read_content_values event_ids_values string_array_values)

lemma parse_config_request_reads: "parser_reads parse_config_request"
  by (auto simp: parse_config_request_def reads_facts split: option.splits intro: value_intros dest: read_content_values event_ids_values string_array_values)

lemma parse_model_request_configured_reads: "parser_reads parse_model_request_configured"
  by (auto simp: parse_model_request_configured_def reads_facts split: option.splits intro: value_intros dest: read_content_values event_ids_values string_array_values)

lemma parse_config_model_reads: "parser_reads parse_config_model"
  by (auto simp: parse_config_model_def reads_facts split: option.splits intro: value_intros dest: read_content_values event_ids_values string_array_values)

lemma parse_config_provider_reads: "parser_reads parse_config_provider"
  by (auto simp: parse_config_provider_def reads_facts split: option.splits intro: value_intros dest: read_content_values event_ids_values string_array_values)

lemma parse_config_entitlement_reads: "parser_reads parse_config_entitlement"
  by (auto simp: parse_config_entitlement_def reads_facts split: option.splits intro: value_intros dest: read_content_values event_ids_values string_array_values)

lemma parse_config_profile_reads: "parser_reads parse_config_profile"
  by (auto simp: parse_config_profile_def reads_facts split: option.splits intro: value_intros dest: read_content_values event_ids_values string_array_values)

lemma parse_config_thinking_reads: "parser_reads parse_config_thinking"
  by (auto simp: parse_config_thinking_def reads_facts split: option.splits intro: value_intros dest: read_content_values event_ids_values string_array_values)

lemma parse_config_tools_reads: "parser_reads parse_config_tools"
  by (auto simp: parse_config_tools_def reads_facts split: option.splits intro: value_intros dest: read_content_values event_ids_values string_array_values)

lemma parse_config_dialect_reads: "parser_reads parse_config_dialect"
  by (auto simp: parse_config_dialect_def reads_facts split: option.splits intro: value_intros dest: read_content_values event_ids_values string_array_values)

lemma parse_prompt_section_reads: "parser_reads parse_prompt_section"
  by (auto simp: parse_prompt_section_def reads_facts split: option.splits intro: value_intros dest: read_content_values event_ids_values string_array_values)

lemma parse_tool_schema_reads: "parser_reads parse_tool_schema"
  by (auto simp: parse_tool_schema_def reads_facts split: option.splits intro: value_intros dest: read_content_values event_ids_values string_array_values)

lemma parse_context_injected_reads: "parser_reads parse_context_injected"
  by (auto simp: parse_context_injected_def reads_facts split: option.splits intro: value_intros dest: read_content_values event_ids_values string_array_values)

lemma parse_context_extension_reads: "parser_reads parse_context_extension"
  by (auto simp: parse_context_extension_def reads_facts split: option.splits intro: value_intros dest: read_content_values event_ids_values string_array_values)

lemma parse_permission_requested_reads: "parser_reads parse_permission_requested"
  by (auto simp: parse_permission_requested_def reads_facts split: option.splits intro: value_intros dest: read_content_values event_ids_values string_array_values)

lemma parse_permission_resolved_reads: "parser_reads parse_permission_resolved"
  by (auto simp: parse_permission_resolved_def reads_facts split: option.splits intro: value_intros dest: read_content_values event_ids_values string_array_values)

lemma parse_interaction_requested_reads: "parser_reads parse_interaction_requested"
  by (auto simp: parse_interaction_requested_def reads_facts split: option.splits intro: value_intros dest: read_content_values event_ids_values string_array_values)

lemma parse_interaction_resolved_reads: "parser_reads parse_interaction_resolved"
  by (auto simp: parse_interaction_resolved_def reads_facts split: option.splits intro: value_intros dest: read_content_values event_ids_values string_array_values)

lemma parse_sandbox_configured_reads: "parser_reads parse_sandbox_configured"
  by (auto simp: parse_sandbox_configured_def reads_facts split: option.splits intro: value_intros dest: read_content_values event_ids_values string_array_values)

lemma parse_sandbox_violation_reads: "parser_reads parse_sandbox_violation"
  by (auto simp: parse_sandbox_violation_def reads_facts split: option.splits intro: value_intros dest: read_content_values event_ids_values string_array_values)

lemma parse_context_compacted_reads: "parser_reads parse_context_compacted"
  by (auto simp: parse_context_compacted_def reads_facts split: option.splits intro: value_intros dest: read_content_values event_ids_values string_array_values)

lemma parse_session_error_reads: "parser_reads parse_session_error"
  by (auto simp: parse_session_error_def reads_facts split: option.splits intro: value_intros dest: read_content_values event_ids_values string_array_values)

lemma parse_child_result_reads: "parser_reads parse_child_result"
  by (auto simp: parse_child_result_def reads_facts split: option.splits intro: value_intros dest: read_content_values event_ids_values string_array_values)

lemmas parser_reads_facts =
  parse_session_created_reads
  parse_session_resumed_reads
  parse_session_renamed_reads
  parse_session_closed_reads
  parse_user_message_reads
  parse_queue_enqueued_reads
  parse_queue_requeued_reads
  parse_queue_started_reads
  parse_queue_paused_reads
  parse_interrupt_requested_reads
  parse_interrupt_updated_reads
  parse_user_shell_reads
  parse_assistant_message_reads
  parse_model_retry_scheduled_reads
  parse_tool_call_reads
  parse_tool_result_reads
  parse_config_request_reads
  parse_model_request_configured_reads
  parse_config_model_reads
  parse_config_provider_reads
  parse_config_entitlement_reads
  parse_config_profile_reads
  parse_config_thinking_reads
  parse_config_tools_reads
  parse_config_dialect_reads
  parse_prompt_section_reads
  parse_tool_schema_reads
  parse_context_injected_reads
  parse_context_extension_reads
  parse_permission_requested_reads
  parse_permission_resolved_reads
  parse_interaction_requested_reads
  parse_interaction_resolved_reads
  parse_sandbox_configured_reads
  parse_sandbox_violation_reads
  parse_context_compacted_reads
  parse_session_error_reads
  parse_child_result_reads

lemma parsers_read: "list_all (\<lambda>tf. parser_reads (snd tf)) payloadParsers"
  by (simp add: payloadParsers_def parser_reads_facts)

lemma parsePayload_values:
  assumes "parsePayload ty kvs path = Some (Inr p)"
  shows "object_values (payload_json p) \<subseteq> object_values kvs"
proof -
  obtain f where f: "(ty, f) \<in> set payloadParsers" "f kvs path = Inr p"
    using assms by (auto simp: parsePayload_def dest: mget_in)
  then have "parser_reads f" using parsers_read by (auto simp: list_all_iff)
  then show ?thesis using f(2) by (simp add: parser_reads_def)
qed

section \<open>What a redacted event is\<close>

lemma redacted_payload:
  assumes "redactEventForStorage v secretValues = Inr e"
  obtains event secrets where "parseEvent v = Inr event" "normalizeSecretValues secretValues = Inr secrets"
    "parsePayload (payload_type (ev_payload event)) (redactPayload secrets (ev_payload event)) ''event.payload'' = Some (Inr (ev_payload e))"
    "ev_id e = ev_id event" "ev_sessionId e = ev_sessionId event" "ev_operationId e = ev_operationId event"
    "ev_parentId e = ev_parentId event" "ev_timestamp e = ev_timestamp event"
proof -
  from assms obtain event secrets where ev: "parseEvent v = Inr event" "normalizeSecretValues secretValues = Inr secrets"
    and p: "parseEvent (JObj (envelope_json ((event_envelope_of event)\<lparr>env_payload := redactPayload secrets (ev_payload event)\<rparr>))) = Inr e"
    by (rule redactEventForStorage_Inr)
  let ?env = "(event_envelope_of event)\<lparr>env_payload := redactPayload secrets (ev_payload event)\<rparr>"
  have "parseEventEnvelope (JObj (envelope_json ?env)) = Inr ?env"
    using p envelope_parse_same [of ?env] by (auto simp: parseEvent_eq bindE_Inr)
  then show thesis
    using p by (intro that [OF ev]) (auto simp: parseEvent_eq event_envelope_of_def bindE_Inr split: option.splits)
qed

lemma redacted_no_secret:
  assumes "redactEventForStorage v secretValues = Inr e" and "q \<in> set secretValues" and "separable q"
    and "s \<in> set (string_values (JObj (payload_json (ev_payload e))))"
  shows "\<not> str_includes s q"
proof -
  from assms(1) obtain event :: canonical_event and secrets where n: "normalizeSecretValues secretValues = Inr secrets"
    and p: "parsePayload (payload_type (ev_payload event)) (redactPayload secrets (ev_payload event)) ''event.payload'' = Some (Inr (ev_payload e))"
    by (rule redacted_payload) blast
  have "q \<in> set secrets" using normalizeSecretValues_set [OF n] assms(2) by simp
  moreover have "s \<in> set (string_values (JObj (redactPayload secrets (ev_payload event))))"
    using parsePayload_values [OF p] assms(4) by auto
  ultimately show ?thesis by (intro redactPayload_removes [OF assms(3)])
qed


section \<open>Redaction keeps JSON representable\<close>

definition on_values :: "(string \<Rightarrow> json \<Rightarrow> json) \<Rightarrow> json_object \<Rightarrow> json_object" where
  "on_values f kvs = map (\<lambda>(k, v). (k, f k v)) kvs"

lemma mhas_on_values: "mhas (on_values f kvs) k = mhas kvs k"
  by (induction kvs) (auto simp: on_values_def mhas_def split: if_splits)

lemma mput_on_values: "mput (on_values f kvs) k (f k v) = on_values f (mput kvs k v)"
  by (induction kvs) (auto simp: on_values_def)

lemma obj_set_on_values: "obj_set (on_values f kvs) k (f k v) = on_values f (obj_set kvs k v)"
proof -
  have "takeWhile (before_index k) (on_values f xs) = on_values f (takeWhile (before_index k) xs)"
    "dropWhile (before_index k) (on_values f xs) = on_values f (dropWhile (before_index k) xs)" for xs
    by (induction xs) (auto simp: on_values_def before_index_def)
  then show ?thesis
    unfolding obj_set_def by (simp add: mhas_on_values mput_on_values) (simp add: on_values_def)
qed

lemma wf_keys_on_values: "wf_keys kvs \<Longrightarrow> wf_keys (on_values f kvs)"
proof -
  have "foldl (\<lambda>a (k, v). obj_set a k v) (on_values f acc) (on_values f xs)
    = on_values f (foldl (\<lambda>a (k, v). obj_set a k v) acc xs)" for acc xs
  proof (induction xs arbitrary: acc)
    case (Cons x xs)
    then show ?case using obj_set_on_values [of f acc "fst x" "snd x"]
      by (cases x) (simp add: on_values_def)
  qed (simp add: on_values_def)
  from this [of "[]" kvs] show "wf_keys kvs \<Longrightarrow> wf_keys (on_values f kvs)"
    by (simp add: wf_keys_def on_values_def)
qed

lemma redactObject_on_values:
  "redactObject secrets names kvs =
     on_values (\<lambda>k v. if names \<and> isSecretField k then JStr REDACTED_VALUE else redactJsonValue secrets names v) kvs"
  by (simp add: redactObject_def on_values_def)

lemma redactJsonValue_wf: "wf_json v \<Longrightarrow> wf_json (redactJsonValue secrets names v)"
proof (induction v)
  case (JObj kvs)
  have "wf_keys (redactObject secrets names kvs)"
    unfolding redactObject_on_values using JObj.prems by (intro wf_keys_on_values) simp
  moreover have "values_wf (redactObject secrets names kvs)"
    using JObj unfolding wf_obj by (force simp: redactObject_def values_wf_def)
  ultimately show ?case unfolding redactJsonValue_obj wf_obj by simp
qed (auto simp: list_all_iff)

lemma redactPayload_wf: "wf_json (JObj (payload_json p)) \<Longrightarrow> wf_json (JObj (redactPayload secrets p))"
proof (cases "\<exists>n d i. p = ToolSchema n d i")
  case True
  assume w: "wf_json (JObj (payload_json p))"
  obtain n d i where p: "p = ToolSchema n d i" using True by blast
  have "wf_json (JObj i)" using w p by simp
  then have "wf_json (JObj (redactObject secrets False i))"
    using redactJsonValue_wf [of "JObj i"] by (simp only: redactJsonValue_obj)
  moreover have "wf_keys (redactPayload secrets p)"
    by (rule wf_keys_plain) (simp_all add: p redactPayload_def)
  ultimately show ?thesis unfolding wf_obj [of "redactPayload secrets p"]
    by (simp add: p redactPayload_def del: wf_json.simps(3))
next
  case False
  assume w: "wf_json (JObj (payload_json p))"
  have "redactPayload secrets p = redactObject secrets True (payload_json p)"
    using False by (auto simp: redactPayload_def split: payload.splits)
  then show ?thesis using redactJsonValue_wf [OF w] by (simp only: redactJsonValue_obj)
qed

lemma redacted_wf:
  assumes "redactEventForStorage v secretValues = Inr e" and "wf_json v"
  shows "wf_event e \<and> wf_json (event_json e)"
proof -
  from assms(1) obtain event :: canonical_event and secrets where ev: "parseEvent v = Inr event"
    and p: "parseEvent (JObj (envelope_json ((event_envelope_of event)\<lparr>env_payload := redactPayload secrets (ev_payload event)\<rparr>))) = Inr e"
    by (rule redactEventForStorage_Inr)
  let ?env = "(event_envelope_of event)\<lparr>env_payload := redactPayload secrets (ev_payload event)\<rparr>"
  have "wf_envelope (event_envelope_of event)" "wf_json (event_json event)"
    using parseEvent_wf_event [OF ev] parseEvent_keeps [OF ev assms(2)] by (simp_all add: wf_event_def)
  then have "wf_json (JObj (payload_json (ev_payload event)))"
    by (simp only: event_json_def envelope_json_wf) (simp add: event_envelope_of_def)
  then have "wf_json (JObj (env_payload ?env))" using redactPayload_wf by simp
  moreover have "parseEventEnvelope (JObj (envelope_json ?env)) = Inr ?env"
    using p envelope_parse_same [of ?env] by (auto simp: parseEvent_eq bindE_Inr)
  then have "wf_envelope ?env" by (rule parseEventEnvelope_wf)
  ultimately have "wf_json (JObj (envelope_json ?env))" by (simp only: envelope_json_wf)
  then show ?thesis using parseEvent_keeps [OF p] parseEvent_wf_event [OF p] by simp
qed

section \<open>Properties\<close>


definition ex_redacted :: canonical_event where
  "ex_redacted = ex_message\<lparr>ev_payload := UserMessage [Text ''use [REDACTED]'']\<rparr>"


text \<open>
  Redaction keeps the identity of an event: its id, session, operation, parent, timestamp and
  type are those of the event that was submitted, and the result is a well-formed event.
\<close>

theorem redaction_keeps_identity:
  assumes "redactEventForStorage v secretValues = Inr e"
  shows "wf_event e \<and> (\<exists>event. parseEvent v = Inr event \<and> ev_id e = ev_id event
    \<and> ev_sessionId e = ev_sessionId event \<and> ev_operationId e = ev_operationId event
    \<and> ev_parentId e = ev_parentId event \<and> ev_timestamp e = ev_timestamp event
    \<and> payload_type (ev_payload e) = payload_type (ev_payload event))"
proof -
  obtain event secrets where p: "parseEvent (JObj (envelope_json ((event_envelope_of event)\<lparr>env_payload := redactPayload secrets (ev_payload event)\<rparr>))) = Inr e"
    using assms by (rule redactEventForStorage_Inr)
  from assms obtain event' :: canonical_event and secrets' where e: "parseEvent v = Inr event'"
    "parsePayload (payload_type (ev_payload event')) (redactPayload secrets' (ev_payload event')) ''event.payload'' = Some (Inr (ev_payload e))"
    "ev_id e = ev_id event'" "ev_sessionId e = ev_sessionId event'" "ev_operationId e = ev_operationId event'"
    "ev_parentId e = ev_parentId event'" "ev_timestamp e = ev_timestamp event'"
    by (rule redacted_payload) blast
  show ?thesis using e parsePayload_sound [OF e(2)] parseEvent_wf_event [OF p] by blast
qed

theorem redaction_keeps_identity_witness: "wf_event ex_redacted"
proof -
  have "redactEventForStorage (event_json ex_message) [''hunter2''] = Inr ex_redacted" by code_simp
  then show ?thesis using redaction_keeps_identity by blast
qed

end
