(* ===== verification/Session_Tree.thy ===== *)
theory Session_Tree
  imports Event_Json
begin

text \<open>
  The session tree (\<^verbatim>\<open>packages/kernel/src/session-tree.ts\<close>) and the tool-call integrity check
  of \<^verbatim>\<open>replay.ts\<close>. \<open>fromEvents\<close> is the single ordered pass of the code; \<open>log_ok\<close> and
  \<open>tree_of\<close> say what it accepts and what it builds without a pass, and the two are proved equal.
  The loop of \<open>lineage\<close> follows parent links through the map and carries a fuel of one more
  than the number of nodes; running out of it is the error value \<open>Diverges\<close>, which trees built by
  \<open>fromEvents\<close> never reach.
\<close>

section \<open>Data\<close>

datatype tree_error =
    TreeProtocolError protocol_error
  | SessionTreeIntegrityError int "string option" string
  | Diverges

record tree_node =
  node_event :: canonical_event
  node_children :: "string list"

record session_tree =
  tree_sessionId :: string
  tree_nodes :: "(string, tree_node) jsmap"
  tree_root :: "string option"

type_synonym tree_state = "(string, tree_node) jsmap \<times> string option"

section \<open>Building the tree\<close>

definition push_child :: "(string, tree_node) jsmap \<Rightarrow> string \<Rightarrow> tree_node \<Rightarrow> string \<Rightarrow> (string, tree_node) jsmap" where
  "push_child nodes pid parent child = mput nodes pid (parent\<lparr>node_children := node_children parent @ [child]\<rparr>)"

definition fromEvents_step :: "string \<Rightarrow> tree_state \<Rightarrow> nat \<times> canonical_event \<Rightarrow> tree_error + tree_state" where
  "fromEvents_step expected = (\<lambda>(nodes, root) (index, event).
     if ev_sessionId event \<noteq> expected then
       Inl (SessionTreeIntegrityError (int index) (Some (ev_id event))
         (''belongs to session '' @ ev_sessionId event @ '', not '' @ expected))
     else if mhas nodes (ev_id event) then
       Inl (SessionTreeIntegrityError (int index) (Some (ev_id event)) ''duplicates an earlier event ID'')
     else
       (case ev_parentId event of
          None \<Rightarrow>
            (case root of
               Some r \<Rightarrow> Inl (SessionTreeIntegrityError (int index) (Some (ev_id event))
                 (''is a second root; the tree is already rooted at '' @ r))
             | None \<Rightarrow> Inr (mput nodes (ev_id event) \<lparr>node_event = event, node_children = []\<rparr>, Some (ev_id event)))
        | Some pid \<Rightarrow>
            (case mget nodes pid of
               None \<Rightarrow> Inl (SessionTreeIntegrityError (int index) (Some (ev_id event))
                 (''references parent '' @ pid @ '', which does not precede it in the log''))
             | Some parent \<Rightarrow>
                 Inr (mput (push_child nodes pid parent (ev_id event)) (ev_id event)
                        \<lparr>node_event = event, node_children = []\<rparr>, root))))"

definition fromEvents :: "json option \<Rightarrow> canonical_event list \<Rightarrow> tree_error + session_tree" where
  "fromEvents sessionId events =
     (case parseSessionId sessionId ''sessionId'' of
        Inl e \<Rightarrow> Inl (TreeProtocolError e)
      | Inr expected \<Rightarrow>
          bindE (foldE (fromEvents_step expected) ([], None) (indexed events)) (\<lambda>(nodes, root).
          Inr \<lparr>tree_sessionId = expected, tree_nodes = nodes, tree_root = root\<rparr>))"

section \<open>Reading the tree\<close>

definition tree_rootId :: "session_tree \<Rightarrow> string option" where
  "tree_rootId t = tree_root t"

definition tree_size :: "session_tree \<Rightarrow> nat" where
  "tree_size t = length (tree_nodes t)"

definition tree_has :: "session_tree \<Rightarrow> string \<Rightarrow> bool" where
  "tree_has t eid = mhas (tree_nodes t) eid"

definition tree_node_of :: "session_tree \<Rightarrow> string \<Rightarrow> tree_error + tree_node" where
  "tree_node_of t eid =
     (case mget (tree_nodes t) eid of
        None \<Rightarrow> Inl (SessionTreeIntegrityError (-1) (Some eid) ''is not part of this session tree'')
      | Some n \<Rightarrow> Inr n)"

definition tree_event :: "session_tree \<Rightarrow> string \<Rightarrow> tree_error + canonical_event" where
  "tree_event t eid = bindE (tree_node_of t eid) (\<lambda>n. Inr (node_event n))"

definition childrenOf :: "session_tree \<Rightarrow> string \<Rightarrow> tree_error + string list" where
  "childrenOf t eid = bindE (tree_node_of t eid) (\<lambda>n. Inr (node_children n))"

definition tree_events :: "session_tree \<Rightarrow> canonical_event list" where
  "tree_events t = map node_event (mvals (tree_nodes t))"

definition leaves :: "session_tree \<Rightarrow> string list" where
  "leaves t = map (\<lambda>n. ev_id (node_event n)) (filter (\<lambda>n. node_children n = []) (mvals (tree_nodes t)))"

fun lineage_loop :: "nat \<Rightarrow> session_tree \<Rightarrow> string option \<Rightarrow> canonical_event list \<Rightarrow> tree_error + canonical_event list" where
  "lineage_loop fuel t None path = Inr (rev path)"
| "lineage_loop 0 t (Some current) path = Inl Diverges"
| "lineage_loop (Suc fuel) t (Some current) path =
     bindE (tree_event t current) (\<lambda>e. lineage_loop fuel t (ev_parentId e) (path @ [e]))"

definition lineage :: "session_tree \<Rightarrow> string \<Rightarrow> tree_error + canonical_event list" where
  "lineage t eid = lineage_loop (Suc (tree_size t)) t (Some eid) []"

section \<open>Tool-call integrity\<close>

datatype replay_error = ReplayError string | ReplayTree tree_error

record pending_call =
  call_name :: string
  call_answered :: bool

definition integrity_step :: "(string, pending_call) jsmap \<Rightarrow> canonical_event \<Rightarrow> replay_error + (string, pending_call) jsmap" where
  "integrity_step calls event =
     (case ev_payload event of
        ToolCall callId name input \<Rightarrow>
          if mhas calls callId then
            Inl (ReplayError (''Event '' @ ev_id event @ '' reuses tool call ID '' @ callId @ '' on one branch''))
          else Inr (mput calls callId \<lparr>call_name = name, call_answered = False\<rparr>)
      | ToolResult callId name content isError details \<Rightarrow>
          (case mget calls callId of
             None \<Rightarrow> Inl (ReplayError (''Event '' @ ev_id event @ '' answers tool call ID '' @ callId
               @ '', which has no call on its branch''))
           | Some call \<Rightarrow>
               if call_answered call then
                 Inl (ReplayError (''Event '' @ ev_id event @ '' answers tool call ID '' @ callId
                   @ '' a second time on one branch''))
               else if call_name call \<noteq> name then
                 Inl (ReplayError (''Event '' @ ev_id event @ '' answers tool call ID '' @ callId
                   @ '' as '' @ name @ '', not '' @ call_name call))
               else Inr (mput calls callId (call\<lparr>call_answered := True\<rparr>)))
      | _ \<Rightarrow> Inr calls)"

definition verifyToolCallIntegrity :: "session_tree \<Rightarrow> replay_error option" where
  "verifyToolCallIntegrity t =
     first_error (map (\<lambda>leaf.
       (case lineage t leaf of
          Inl e \<Rightarrow> Some (ReplayTree e)
        | Inr path \<Rightarrow> error_of (foldE integrity_step [] path))) (leaves t))"

section \<open>What a well-formed log is\<close>

definition has_parent_in :: "canonical_event list \<Rightarrow> canonical_event \<Rightarrow> bool" where
  "has_parent_in earlier e =
     (case ev_parentId e of None \<Rightarrow> earlier = [] | Some p \<Rightarrow> p \<in> ev_id ` set earlier)"

definition log_ok :: "string \<Rightarrow> canonical_event list \<Rightarrow> bool" where
  "log_ok sid events \<longleftrightarrow>
     distinct (map ev_id events)
   \<and> (\<forall>e \<in> set events. ev_sessionId e = sid)
   \<and> (\<forall>i < length events. has_parent_in (take i events) (events ! i))"

definition children_in :: "canonical_event list \<Rightarrow> string \<Rightarrow> string list" where
  "children_in events eid = map ev_id (filter (\<lambda>e. ev_parentId e = Some eid) events)"

definition tree_of :: "string \<Rightarrow> canonical_event list \<Rightarrow> session_tree" where
  "tree_of sid events =
     \<lparr>tree_sessionId = sid,
      tree_nodes = map (\<lambda>e. (ev_id e, \<lparr>node_event = e, node_children = children_in events (ev_id e)\<rparr>)) events,
      tree_root = (case events of [] \<Rightarrow> None | e # _ \<Rightarrow> Some (ev_id e))\<rparr>"

text \<open>The ancestors of an event, read off the log from its newest event backwards.\<close>

fun ancestry :: "canonical_event list \<Rightarrow> string \<Rightarrow> canonical_event list" where
  "ancestry [] eid = []"
| "ancestry (e # older) eid =
     (if ev_id e = eid
      then (case ev_parentId e of None \<Rightarrow> [e] | Some p \<Rightarrow> ancestry older p @ [e])
      else ancestry older eid)"

text \<open>Along a path every event is the child of the one before it, from a root.\<close>

fun parent_chain :: "string option \<Rightarrow> canonical_event list \<Rightarrow> bool" where
  "parent_chain p [] = True"
| "parent_chain p (e # es) = (ev_parentId e = p \<and> parent_chain (Some (ev_id e)) es)"

definition call_ids :: "canonical_event list \<Rightarrow> string list" where
  "call_ids path = concat (map (\<lambda>e. case ev_payload e of ToolCall c n i \<Rightarrow> [c] | _ \<Rightarrow> []) path)"

definition result_ids :: "canonical_event list \<Rightarrow> string list" where
  "result_ids path = concat (map (\<lambda>e. case ev_payload e of ToolResult c n k er d \<Rightarrow> [c] | _ \<Rightarrow> []) path)"

definition calls_named :: "canonical_event list \<Rightarrow> (string \<times> string) list" where
  "calls_named path = concat (map (\<lambda>e. case ev_payload e of ToolCall c n i \<Rightarrow> [(c, n)] | _ \<Rightarrow> []) path)"

text \<open>Calls have distinct ids, results answer distinct calls, and each answers an earlier call by name.\<close>

definition pairing_ok :: "canonical_event list \<Rightarrow> bool" where
  "pairing_ok path \<longleftrightarrow>
     distinct (call_ids path) \<and> distinct (result_ids path)
   \<and> (\<forall>i < length path. \<forall>c n k er d. ev_payload (path ! i) = ToolResult c n k er d \<longrightarrow>
        (c, n) \<in> set (calls_named (take i path)))"

section \<open>The pass builds exactly the tree of a well-formed log\<close>

lemma log_ok_Nil [simp]: "log_ok sid []"
  by (simp add: log_ok_def)

lemma log_ok_snoc:
  "log_ok sid (evs @ [e]) \<longleftrightarrow>
     log_ok sid evs \<and> ev_sessionId e = sid \<and> ev_id e \<notin> ev_id ` set evs \<and> has_parent_in evs e"
  by (auto simp: log_ok_def nth_append less_Suc_eq all_conj_distrib)

lemma log_ok_prefix: "log_ok sid (xs @ ys) \<Longrightarrow> log_ok sid xs"
  by (induction ys rule: rev_induct) (auto simp: log_ok_snoc simp flip: append_assoc)

lemma tree_of_keys: "map fst (tree_nodes (tree_of sid evs)) = map ev_id evs"
  by (simp add: tree_of_def comp_def)

lemma mget_map_pairs:
  "distinct (map f xs) \<Longrightarrow> x \<in> set xs \<Longrightarrow> mget (map (\<lambda>x. (f x, g x)) xs) (f x) = Some (g x)"
  by (rule in_mget) (auto simp: mwf_def comp_def)

lemma mget_map_pairs_None: "k \<notin> f ` set xs \<Longrightarrow> mget (map (\<lambda>x. (f x, g x)) xs) k = None"
  by (force simp: mget_def map_of_eq_None_iff)

lemma mhas_tree_of: "mhas (tree_nodes (tree_of sid evs)) k \<longleftrightarrow> k \<in> ev_id ` set evs"
  by (force simp: mhas_def mget_def tree_of_def map_of_eq_None_iff)

lemma mput_present:
  "distinct (map f xs) \<Longrightarrow> x \<in> set xs \<Longrightarrow>
   mput (map (\<lambda>x. (f x, g x)) xs) (f x) v = map (\<lambda>y. (f y, if f y = f x then v else g y)) xs"
proof (induction xs)
  case (Cons a xs)
  show ?case
  proof (cases "f a = f x")
    case True
    then have "\<forall>y \<in> set xs. f y \<noteq> f x" using Cons.prems(1) by (metis distinct.simps(2) imageI list.set_map list.simps(9))
    then show ?thesis using True by (auto intro!: map_cong)
  next
    case False
    then show ?thesis using Cons by auto
  qed
qed simp

lemma children_in_snoc:
  "children_in (evs @ [e]) eid = children_in evs eid @ (if ev_parentId e = Some eid then [ev_id e] else [])"
  by (simp add: children_in_def)

lemma no_children_yet:
  assumes "log_ok sid evs" and "eid \<notin> ev_id ` set evs"
  shows "children_in evs eid = []"
proof -
  have "ev_parentId (evs ! i) \<noteq> Some eid" if "i < length evs" for i
    using assms that by (fastforce simp: log_ok_def has_parent_in_def dest: in_set_takeD split: option.splits)
  then show ?thesis
    by (auto simp: children_in_def filter_empty_conv in_set_conv_nth)
qed

lemma step_snoc:
  assumes ok: "log_ok sid evs"
  shows "fromEvents_step sid (tree_nodes (tree_of sid evs), tree_root (tree_of sid evs)) (i, e) = Inr st \<longleftrightarrow>
     log_ok sid (evs @ [e]) \<and> st = (tree_nodes (tree_of sid (evs @ [e])), tree_root (tree_of sid (evs @ [e])))"
proof (cases "ev_sessionId e = sid \<and> ev_id e \<notin> ev_id ` set evs")
  case False
  then show ?thesis by (auto simp: fromEvents_step_def log_ok_snoc mhas_tree_of)
next
  case fresh: True
  let ?n = "tree_nodes (tree_of sid evs)"
  have d: "distinct (map ev_id evs)" using ok by (simp add: log_ok_def)
  have kids: "children_in evs (ev_id e) = []" using no_children_yet [OF ok] fresh by blast
  show ?thesis
  proof (cases "ev_parentId e")
    case None
    show ?thesis
    proof (cases evs)
      case Nil
      then show ?thesis using fresh None log_ok_snoc [of sid "[]" e]
        by (auto simp: fromEvents_step_def has_parent_in_def tree_of_def children_in_def)
    next
      case (Cons a list)
      then have "tree_root (tree_of sid evs) = Some (ev_id a)" "\<not> has_parent_in evs e"
        using None by (simp_all add: tree_of_def has_parent_in_def)
      then show ?thesis using fresh None by (simp add: fromEvents_step_def log_ok_snoc mhas_tree_of)
    qed
  next
    case (Some p)
    show ?thesis
    proof (cases "p \<in> ev_id ` set evs")
      case False
      then have "mget ?n p = None" by (metis mhas_def mhas_tree_of)
      then show ?thesis using fresh Some False
        by (auto simp: fromEvents_step_def log_ok_snoc has_parent_in_def mhas_tree_of)
    next
      case True
      then obtain q where q: "q \<in> set evs" "ev_id q = p" by auto
      let ?g = "\<lambda>x. \<lparr>node_event = x, node_children = children_in evs (ev_id x)\<rparr>"
      have n: "?n = map (\<lambda>x. (ev_id x, ?g x)) evs" by (simp add: tree_of_def)
      have g: "mget ?n p = Some (?g q)"
        unfolding n q(2) [symmetric] by (rule mget_map_pairs [OF d q(1)])
      let ?v = "\<lparr>node_event = q, node_children = children_in evs p @ [ev_id e]\<rparr>"
      have "push_child ?n p (?g q) (ev_id e) = mput (map (\<lambda>x. (ev_id x, ?g x)) evs) (ev_id q) ?v"
        by (simp add: push_child_def n q(2))
      also have "\<dots> = map (\<lambda>x. (ev_id x, if ev_id x = ev_id q then ?v else ?g x)) evs"
        by (rule mput_present [OF d q(1)])
      also have "\<dots> = map (\<lambda>x. (ev_id x, \<lparr>node_event = x, node_children = children_in (evs @ [e]) (ev_id x)\<rparr>)) evs"
        using d q Some by (auto simp: children_in_snoc distinct_map inj_on_def)
      finally have m: "push_child ?n p (?g q) (ev_id e) = \<dots>" .
      have f: "mget (push_child ?n p (?g q) (ev_id e)) (ev_id e) = None"
        unfolding m using fresh by (intro mget_map_pairs_None) blast
      have pe: "p \<noteq> ev_id e" using fresh True by metis
      have "mput (push_child ?n p (?g q) (ev_id e)) (ev_id e) \<lparr>node_event = e, node_children = []\<rparr>
        = tree_nodes (tree_of sid (evs @ [e]))"
        by (subst mput_fresh [OF f], subst m) (use kids Some pe in \<open>simp add: tree_of_def children_in_snoc\<close>)
      moreover have "tree_root (tree_of sid (evs @ [e])) = tree_root (tree_of sid evs)"
        using q by (cases evs) (auto simp: tree_of_def)
      ultimately show ?thesis
        using fresh Some g True ok by (auto simp: fromEvents_step_def log_ok_snoc has_parent_in_def mhas_tree_of)
    qed
  qed
qed

lemma fold_tree:
  "foldE (fromEvents_step sid) ([], None) (indexed evs) = Inr st \<longleftrightarrow>
     log_ok sid evs \<and> st = (tree_nodes (tree_of sid evs), tree_root (tree_of sid evs))"
proof (induction evs arbitrary: st rule: rev_induct)
  case Nil
  then show ?case by (auto simp: tree_of_def)
next
  case (snoc e evs)
  show ?case
  proof (cases "log_ok sid evs")
    case True
    then have "foldE (fromEvents_step sid) ([], None) (indexed evs)
      = Inr (tree_nodes (tree_of sid evs), tree_root (tree_of sid evs))" using snoc.IH by blast
    then show ?thesis using step_snoc [OF True, of "length evs" e st]
      by (auto simp: indexed_snoc foldE_append split: sum.splits)
  next
    case False
    then have "\<nexists>s. foldE (fromEvents_step sid) ([], None) (indexed evs) = Inr s" using snoc.IH by blast
    then show ?thesis using False by (auto simp: indexed_snoc foldE_append log_ok_snoc split: sum.splits)
  qed
qed

lemma fromEvents_iff:
  assumes "is_uuid sid"
  shows "fromEvents (Some (JStr sid)) evs = Inr t \<longleftrightarrow> log_ok sid evs \<and> t = tree_of sid evs"
proof -
  have "parseSessionId (Some (JStr sid)) ''sessionId'' = Inr sid"
    using assms by (simp add: parseSessionId_def parseId_def)
  then have "fromEvents (Some (JStr sid)) evs = Inr t \<longleftrightarrow>
    (\<exists>st. foldE (fromEvents_step sid) ([], None) (indexed evs) = Inr st
      \<and> t = \<lparr>tree_sessionId = sid, tree_nodes = fst st, tree_root = snd st\<rparr>)"
    by (auto simp: fromEvents_def bindE_Inr split: prod.splits)
  then show ?thesis by (auto simp: fold_tree tree_of_def)
qed

section \<open>Lineages\<close>

lemma tree_event_of:
  assumes "log_ok sid evs" and "e \<in> set evs"
  shows "tree_event (tree_of sid evs) (ev_id e) = Inr e"
proof -
  have "distinct (map ev_id evs)" using assms(1) by (simp add: log_ok_def)
  from mget_map_pairs [OF this assms(2), of "\<lambda>e. \<lparr>node_event = e, node_children = children_in evs (ev_id e)\<rparr>"]
  show ?thesis by (simp add: tree_event_def tree_node_of_def tree_of_def)
qed

lemma lineage_loop_ancestry:
  assumes "log_ok sid (evs @ rest)" and "eid \<in> ev_id ` set evs" and "length evs \<le> fuel"
  shows "lineage_loop fuel (tree_of sid (evs @ rest)) (Some eid) path = Inr (ancestry (rev evs) eid @ rev path)"
  using assms
proof (induction evs arbitrary: rest eid fuel path rule: rev_induct)
  case Nil
  then show ?case by simp
next
  case (snoc e evs)
  note IH = snoc.IH [of "e # rest"]
  have ok: "log_ok sid (evs @ e # rest)" and ok': "log_ok sid (evs @ [e])"
    using snoc.prems(1) log_ok_prefix [of sid "evs @ [e]" rest] by simp_all
  obtain f where f: "fuel = Suc f" "length evs \<le> f" using snoc.prems(3) by (cases fuel) auto
  show ?case
  proof (cases "ev_id e = eid")
    case False
    then have "eid \<in> ev_id ` set evs" using snoc.prems(2) by auto
    then show ?thesis using False IH [OF ok, of eid fuel path] f by simp
  next
    case True
    have ev: "tree_event (tree_of sid (evs @ e # rest)) eid = Inr e"
      using tree_event_of [OF ok, of e] True by simp
    have "has_parent_in evs e" using ok' by (simp add: log_ok_snoc)
    then show ?thesis
      using True ev f IH [OF ok _ f(2)]
      by (cases "ev_parentId e") (auto simp: has_parent_in_def)
  qed
qed

lemma lineage_ancestry:
  assumes "log_ok sid evs" and "eid \<in> ev_id ` set evs"
  shows "lineage (tree_of sid evs) eid = Inr (ancestry (rev evs) eid)"
  using lineage_loop_ancestry [of sid evs "[]" eid "Suc (length evs)" "[]"] assms
  by (simp add: lineage_def tree_size_def tree_of_def)

lemma lineage_missing:
  assumes "eid \<notin> ev_id ` set evs"
  shows "lineage (tree_of sid evs) eid
       = Inl (SessionTreeIntegrityError (-1) (Some eid) ''is not part of this session tree'')"
proof -
  have "mget (tree_nodes (tree_of sid evs)) eid = None"
    using assms mhas_tree_of [of sid evs eid] by (simp add: mhas_def)
  then show ?thesis by (simp add: lineage_def tree_event_def tree_node_of_def)
qed

lemma ancestry_nonempty: "eid \<in> ev_id ` set evs \<Longrightarrow> ancestry evs eid \<noteq> [] \<and> ev_id (last (ancestry evs eid)) = eid"
  by (induction evs) (auto split: option.splits)

lemma ancestry_subseq: "subseq (ancestry (rev evs) eid) evs"
  by (induction evs arbitrary: eid rule: rev_induct)
    (auto split: option.splits intro: list_emb_append_mono subseq_order.trans)

lemma parent_chain_snoc:
  "parent_chain p (xs @ [e]) \<longleftrightarrow>
     parent_chain p xs \<and> ev_parentId e = (if xs = [] then p else Some (ev_id (last xs)))"
  by (induction xs arbitrary: p) auto

lemma ancestry_chain:
  "log_ok sid evs \<Longrightarrow> eid \<in> ev_id ` set evs \<Longrightarrow> parent_chain None (ancestry (rev evs) eid)"
proof (induction evs arbitrary: eid rule: rev_induct)
  case (snoc e evs)
  have ok: "log_ok sid evs" "has_parent_in evs e" using snoc.prems(1) by (simp_all add: log_ok_snoc)
  have "ancestry (rev evs) p \<noteq> [] \<and> ev_id (last (ancestry (rev evs) p)) = p" if "p \<in> ev_id ` set evs" for p
    using ancestry_nonempty [of p "rev evs"] that by simp
  then show ?case
    using snoc.IH [OF ok(1)] ok(2) snoc.prems(2)
    by (auto simp: parent_chain_snoc has_parent_in_def split: option.splits)
qed simp

lemma ancestry_extend:
  "ev_parentId e = Some tip \<Longrightarrow> ancestry (rev (evs @ [e])) (ev_id e) = ancestry (rev evs) tip @ [e]"
  by simp

lemma ancestry_linear:
  "parent_chain None evs \<Longrightarrow> distinct (map ev_id evs) \<Longrightarrow> evs \<noteq> [] \<Longrightarrow>
   ancestry (rev evs) (ev_id (last evs)) = evs"
proof (induction evs rule: rev_induct)
  case (snoc e evs)
  then show ?case by (cases "evs = []") (auto simp: parent_chain_snoc)
qed simp

section \<open>Integrity of tool calls\<close>

definition answered_in :: "canonical_event list \<Rightarrow> string \<Rightarrow> bool" where
  "answered_in path c \<longleftrightarrow> c \<in> set (result_ids path)"

definition calls_of :: "canonical_event list \<Rightarrow> (string, pending_call) jsmap" where
  "calls_of path = map (\<lambda>(c, n). (c, \<lparr>call_name = n, call_answered = answered_in path c\<rparr>)) (calls_named path)"

lemma call_ids_named: "call_ids path = map fst (calls_named path)"
  by (induction path) (auto simp: call_ids_def calls_named_def split: payload.splits)

lemma mget_calls_of:
  "distinct (call_ids path) \<Longrightarrow>
   mget (calls_of path) c = Some pc \<longleftrightarrow> (c, call_name pc) \<in> set (calls_named path) \<and> call_answered pc = answered_in path c"
  by (cases pc) (force simp: mget_def calls_of_def call_ids_named comp_def case_prod_beta)

lemma mhas_calls_of: "mhas (calls_of path) c \<longleftrightarrow> c \<in> set (call_ids path)"
  by (force simp: mhas_def mget_def calls_of_def call_ids_named map_of_eq_None_iff)

lemma pairing_snoc:
  "pairing_ok (path @ [e]) \<longleftrightarrow> pairing_ok path \<and>
     (case ev_payload e of
        ToolCall c n i \<Rightarrow> c \<notin> set (call_ids path)
      | ToolResult c n k er d \<Rightarrow> (c, n) \<in> set (calls_named path) \<and> c \<notin> set (result_ids path)
      | _ \<Rightarrow> True)"
  by (auto simp: pairing_ok_def call_ids_def result_ids_def nth_append less_Suc_eq all_conj_distrib split: payload.splits)

lemma calls_of_other:
  "(\<And>c n i. ev_payload e \<noteq> ToolCall c n i) \<Longrightarrow> (\<And>c n k er d. ev_payload e \<noteq> ToolResult c n k er d) \<Longrightarrow>
   calls_of (path @ [e]) = calls_of path"
  by (auto simp: calls_of_def calls_named_def answered_in_def result_ids_def split: payload.splits)

lemma calls_of_call:
  assumes "ev_payload e = ToolCall c n i" and "c \<notin> set (call_ids path)" and "set (result_ids path) \<subseteq> set (call_ids path)"
  shows "mput (calls_of path) c \<lparr>call_name = n, call_answered = False\<rparr> = calls_of (path @ [e])"
proof -
  have "mget (calls_of path) c = None" using assms(2) by (metis mhas_calls_of mhas_def)
  moreover have "calls_named (path @ [e]) = calls_named path @ [(c, n)]" "result_ids (path @ [e]) = result_ids path"
    using assms(1) by (simp_all add: calls_named_def result_ids_def)
  moreover have "\<not> answered_in path c" using assms(2,3) by (auto simp: answered_in_def)
  ultimately show ?thesis by (simp add: mput_fresh calls_of_def answered_in_def)
qed

lemma calls_of_result:
  assumes "ev_payload e = ToolResult c n k er d" and "distinct (call_ids path)" and "(c, n) \<in> set (calls_named path)"
  shows "mput (calls_of path) c \<lparr>call_name = n, call_answered = True\<rparr> = calls_of (path @ [e])"
proof -
  let ?cs = "calls_named path"
  have d: "distinct (map fst ?cs)" using assms(2) by (simp add: call_ids_named)
  have cs: "calls_of path = map (\<lambda>x. (fst x, \<lparr>call_name = snd x, call_answered = answered_in path (fst x)\<rparr>)) ?cs"
    by (simp add: calls_of_def case_prod_beta')
  have "mput (calls_of path) c \<lparr>call_name = n, call_answered = True\<rparr>
    = map (\<lambda>y. (fst y, if fst y = c then \<lparr>call_name = n, call_answered = True\<rparr>
        else \<lparr>call_name = snd y, call_answered = answered_in path (fst y)\<rparr>)) ?cs"
    unfolding cs using mput_present [OF d assms(3)] by simp
  also have "\<dots> = calls_of (path @ [e])"
  proof -
    have "snd y = n" if "y \<in> set ?cs" "fst y = c" for y
      using that d assms(3) by (metis eq_key_imp_eq_value prod.collapse)
    moreover have "calls_named (path @ [e]) = ?cs"
      and "answered_in (path @ [e]) x \<longleftrightarrow> answered_in path x \<or> x = c" for x
      using assms(1) by (auto simp: calls_named_def answered_in_def result_ids_def)
    ultimately show ?thesis by (auto simp: calls_of_def case_prod_beta)
  qed
  finally show ?thesis .
qed

lemma pairing_results_called: "pairing_ok path \<Longrightarrow> set (result_ids path) \<subseteq> set (call_ids path)"
proof (induction path rule: rev_induct)
  case (snoc e path)
  then show ?case
    by (auto simp: pairing_snoc call_ids_def result_ids_def calls_named_def split: payload.splits)
      (force split: payload.splits)
qed (simp add: result_ids_def)

lemma integrity_step_iff:
  assumes "pairing_ok path"
  shows "integrity_step (calls_of path) e = Inr cs \<longleftrightarrow> pairing_ok (path @ [e]) \<and> cs = calls_of (path @ [e])"
proof -
  have d: "distinct (call_ids path)" using assms by (simp add: pairing_ok_def)
  consider c n i where "ev_payload e = ToolCall c n i"
    | c n k er dt where "ev_payload e = ToolResult c n k er dt"
    | "\<And>c n i. ev_payload e \<noteq> ToolCall c n i" "\<And>c n k er d. ev_payload e \<noteq> ToolResult c n k er d"
    by blast
  then show ?thesis
  proof cases
    case 1
    then show ?thesis
      using calls_of_call [OF 1 _ pairing_results_called [OF assms]] assms
      by (auto simp: integrity_step_def pairing_snoc mhas_calls_of)
  next
    case 2
    show ?thesis
    proof (cases "mget (calls_of path) c")
      case None
      then have "c \<notin> set (call_ids path)" by (metis mhas_calls_of mhas_def)
      then show ?thesis using 2 None by (force simp: integrity_step_def pairing_snoc call_ids_named)
    next
      case (Some pc)
      then have in_named: "(c, call_name pc) \<in> set (calls_named path)" "call_answered pc = answered_in path c"
        using mget_calls_of [OF d] by blast+
      have uniq: "(c, m) \<in> set (calls_named path) \<longleftrightarrow> m = call_name pc" for m
        using d in_named(1) by (auto simp: call_ids_named dest: eq_key_imp_eq_value)
      have upd: "pc\<lparr>call_answered := True\<rparr> = \<lparr>call_name = call_name pc, call_answered = True\<rparr>"
        by simp
      show ?thesis
        using 2 Some assms in_named uniq calls_of_result [OF 2 d]
        by (auto simp: integrity_step_def pairing_snoc answered_in_def upd)
    qed
  next
    case 3
    then show ?thesis using assms calls_of_other [OF 3]
      by (auto simp: integrity_step_def pairing_snoc split: payload.splits)
  qed
qed

lemma integrity_fold:
  "foldE integrity_step [] path = Inr cs \<longleftrightarrow> pairing_ok path \<and> cs = calls_of path"
proof (induction path arbitrary: cs rule: rev_induct)
  case Nil
  then show ?case
    by (auto simp: pairing_ok_def calls_of_def call_ids_def result_ids_def calls_named_def)
next
  case (snoc e path)
  show ?case
  proof (cases "pairing_ok path")
    case True
    then have "foldE integrity_step [] path = Inr (calls_of path)" using snoc.IH by blast
    then show ?thesis using integrity_step_iff [OF True, of e cs]
      by (auto simp: foldE_append split: sum.splits)
  next
    case False
    then have "\<nexists>s. foldE integrity_step [] path = Inr s" using snoc.IH by blast
    then show ?thesis using False by (auto simp: foldE_append pairing_snoc split: sum.splits)
  qed
qed

definition leaf_ids :: "canonical_event list \<Rightarrow> string list" where
  "leaf_ids evs = filter (\<lambda>i. children_in evs i = []) (map ev_id evs)"

lemma leaves_tree_of: "leaves (tree_of sid evs) = leaf_ids evs"
  by (simp add: leaves_def leaf_ids_def tree_of_def mvals_def filter_map comp_def)

lemma verify_tree_iff:
  assumes "log_ok sid evs"
  shows "verifyToolCallIntegrity (tree_of sid evs) = None \<longleftrightarrow>
    (\<forall>leaf \<in> set (leaf_ids evs). pairing_ok (ancestry (rev evs) leaf))"
proof -
  have "lineage (tree_of sid evs) leaf = Inr (ancestry (rev evs) leaf)" if "leaf \<in> set (leaf_ids evs)" for leaf
    using that by (intro lineage_ancestry [OF assms]) (auto simp: leaf_ids_def)
  moreover have "error_of (foldE integrity_step [] path) = None \<longleftrightarrow> pairing_ok path" for path
    using integrity_fold [of path] by (auto simp: error_of_None)
  ultimately show ?thesis
    by (auto simp: verifyToolCallIntegrity_def first_error_None leaves_tree_of)
qed

section \<open>Properties\<close>

text \<open>
  C5: \<^verbatim>\<open>SessionTree.fromEvents\<close> succeeds exactly when the session id is a UUID and the log is
  well formed (ids distinct, one session, the first event the only root, every parent earlier in
  the log), and then the tree holds exactly the logged events in log order, each with its children
  in log order, rooted at the first event.
\<close>

theorem fromEvents_exact:
  "fromEvents (Some (JStr sid)) evs = Inr t \<longleftrightarrow> is_uuid sid \<and> log_ok sid evs \<and> t = tree_of sid evs"
proof (cases "is_uuid sid")
  case True
  then show ?thesis using fromEvents_iff by simp
next
  case False
  then have "\<nexists>s. parseSessionId (Some (JStr sid)) ''sessionId'' = Inr s" by (simp add: parse_ids)
  then show ?thesis using False by (auto simp: fromEvents_def split: sum.splits)
qed

text \<open>
  C27: on a tree built from a log, the lineage of every event terminates and is the parent chain from
  the root to that event, a subsequence of the log; of an unknown id it is the integrity error.
\<close>

theorem lineage_correct:
  assumes "fromEvents (Some (JStr sid)) evs = Inr t"
  shows "if tree_has t eid
    then \<exists>path. lineage t eid = Inr path \<and> path \<noteq> [] \<and> ev_id (last path) = eid
           \<and> parent_chain None path \<and> subseq path evs
    else lineage t eid = Inl (SessionTreeIntegrityError (-1) (Some eid) ''is not part of this session tree'')"
proof -
  have "is_uuid sid"
    using assms by (auto simp: fromEvents_def parse_ids split: sum.splits)
  then have t: "log_ok sid evs" "t = tree_of sid evs" using assms fromEvents_iff by blast+
  have "ancestry (rev evs) eid \<noteq> [] \<and> ev_id (last (ancestry (rev evs) eid)) = eid" if "eid \<in> ev_id ` set evs"
    using ancestry_nonempty [of eid "rev evs"] that by simp
  then show ?thesis
    using t lineage_ancestry [OF t(1)] ancestry_chain [OF t(1)] ancestry_subseq [of evs eid] lineage_missing [of eid evs sid]
    by (auto simp: tree_has_def mhas_tree_of)
qed

definition ex_log :: "canonical_event list" where
  "ex_log =
     [ex_event CHR ''1'' None (SessionCreated ''/work'' None None None),
      ex_event CHR ''2'' (Some CHR ''1'') (UserMessage [Text ''hi'']),
      ex_event CHR ''3'' (Some CHR ''2'') (AssistantMessage [] ToolUse None None),
      ex_event CHR ''4'' (Some CHR ''3'') (ToolCall ''c1'' ''read'' []),
      ex_event CHR ''5'' (Some CHR ''4'') (ToolResult ''c1'' ''read'' [Text ''ok''] False None),
      ex_event CHR ''6'' (Some CHR ''2'') (AssistantMessage [Text ''branch''] Stop None None)]"

lemma ex_log_tree: "fromEvents (Some (JStr ex_session)) ex_log = Inr (tree_of ex_session ex_log)"
  by code_simp

theorem lineage_correct_witness:
  "\<exists>path. lineage (tree_of ex_session ex_log) (ex_id CHR ''6'') = Inr path \<and> parent_chain None path \<and> subseq path ex_log"
proof -
  have "tree_has (tree_of ex_session ex_log) (ex_id CHR ''6'')" by code_simp
  then show ?thesis using lineage_correct [OF ex_log_tree, of "ex_id CHR ''6''"] by auto
qed

text \<open>
  C28: the integrity check of a tree passes exactly when, along every branch, call ids are distinct,
  each call is answered at most once, and every result follows a call of the same id and name.
\<close>

theorem integrity_exact:
  assumes "fromEvents (Some (JStr sid)) evs = Inr t"
  shows "verifyToolCallIntegrity t = None \<longleftrightarrow>
    (\<forall>leaf \<in> set (leaves t). \<exists>path. lineage t leaf = Inr path \<and> pairing_ok path)"
proof -
  have "is_uuid sid"
    using assms by (auto simp: fromEvents_def parse_ids split: sum.splits)
  then have t: "log_ok sid evs" "t = tree_of sid evs" using assms fromEvents_iff by blast+
  have "leaf \<in> ev_id ` set evs" if "leaf \<in> set (leaf_ids evs)" for leaf using that by (auto simp: leaf_ids_def)
  then show ?thesis using verify_tree_iff [OF t(1)] lineage_ancestry [OF t(1)] t(2) by (auto simp: leaves_tree_of)
qed

theorem integrity_exact_witness:
  "list_all (\<lambda>leaf. \<exists>path. lineage (tree_of ex_session ex_log) leaf = Inr path \<and> pairing_ok path)
     (leaves (tree_of ex_session ex_log))"
proof -
  have "verifyToolCallIntegrity (tree_of ex_session ex_log) = None" by code_simp
  then show ?thesis using integrity_exact [OF ex_log_tree] unfolding list_all_iff by blast
qed

end
