(* ===== verification/Framing.thy ===== *)
theory Framing
  imports Js_Text
begin

text \<open>
  Newline-framed record files, shared by the event log and the command journal: the reader's
  scan for complete lines, the framing of a record list, and the contract a line codec must keep
  for a torn or appended file to read back. Units are polymorphic, since the event log scans
  bytes and the command journal scans the decoded text.
\<close>

section \<open>Scanning complete lines\<close>

definition index_from :: "'b \<Rightarrow> 'b list \<Rightarrow> nat \<Rightarrow> nat option" where
  "index_from nl bytes start =
     (let n = length (takeWhile (\<lambda>b. b \<noteq> nl) (drop start bytes)) in
      if start + n < length bytes then Some (start + n) else None)"

definition slice :: "nat \<Rightarrow> nat \<Rightarrow> 'b list \<Rightarrow> 'b list" where
  "slice i j xs = take (j - i) (drop i xs)"

function scan_lines ::
  "'b \<Rightarrow> (nat \<Rightarrow> 'b list \<Rightarrow> 'e + 'r) \<Rightarrow> 'b list \<Rightarrow> 'r list \<Rightarrow> nat \<Rightarrow> nat \<Rightarrow> 'e + ('r list \<times> nat)" where
  "scan_lines nl dec bytes records lineStart lineNumber =
     (case index_from nl bytes lineStart of
        None \<Rightarrow> Inr (records, lineStart)
      | Some newline \<Rightarrow>
          (case dec lineNumber (slice lineStart newline bytes) of
             Inl e \<Rightarrow> Inl e
           | Inr r \<Rightarrow> scan_lines nl dec bytes (records @ [r]) (newline + 1) (lineNumber + 1)))"
  by pat_completeness auto

termination
  by (relation "measure (\<lambda>(nl, dec, bytes, records, lineStart, lineNumber). length bytes - lineStart)")
    (auto simp: index_from_def Let_def split: if_splits)

declare scan_lines.simps [simp del]

text \<open>A record file: each record on a line of its own.\<close>

definition frame :: "'b \<Rightarrow> ('r \<Rightarrow> 'b list) \<Rightarrow> 'r list \<Rightarrow> 'b list" where
  "frame nl enc records = concat (map (\<lambda>r. enc r @ [nl]) records)"

section \<open>Lemmas on scanning\<close>

lemma frame_simps [simp]:
  "frame nl enc [] = []"
  "frame nl enc (r # rs) = enc r @ nl # frame nl enc rs"
  "frame nl enc (rs @ qs) = frame nl enc rs @ frame nl enc qs"
  by (simp_all add: frame_def)

lemma takeWhile_line:
  "nl \<notin> set line \<Longrightarrow> takeWhile (\<lambda>b. b \<noteq> nl) (line @ nl # rest) = line"
  "nl \<notin> set line \<Longrightarrow> takeWhile (\<lambda>b. b \<noteq> nl) line = line"
  by (induction line) auto

lemma index_from_line:
  "nl \<notin> set line \<Longrightarrow> index_from nl (pre @ line @ nl # rest) (length pre) = Some (length pre + length line)"
  by (simp add: index_from_def takeWhile_line)

lemma index_from_none: "nl \<notin> set tail \<Longrightarrow> index_from nl (pre @ tail) (length pre) = None"
  by (simp add: index_from_def takeWhile_line)

lemma slice_line: "slice (length pre) (length pre + length line) (pre @ line @ rest) = line"
  by (simp add: slice_def)

lemma scan_one_line:
  assumes "nl \<notin> set line"
  shows "scan_lines nl dec (pre @ line @ nl # rest) acc (length pre) n =
    (case dec n line of Inl e \<Rightarrow> Inl e
     | Inr r \<Rightarrow> scan_lines nl dec ((pre @ line @ [nl]) @ rest) (acc @ [r]) (length (pre @ line @ [nl])) (Suc n))"
  using index_from_line [OF assms, of pre rest] slice_line [of pre line "nl # rest"]
  by (subst scan_lines.simps) (simp split: sum.splits)

lemma scan_tail:
  "nl \<notin> set tail \<Longrightarrow> scan_lines nl dec (pre @ tail) acc (length pre) n = Inr (acc, length pre)"
  by (subst scan_lines.simps) (simp add: index_from_none)

text \<open>Every sequence is some complete lines followed by a tail without a newline.\<close>

lemma lines_and_tail:
  obtains ls tail where "bytes = concat (map (\<lambda>l. l @ [nl]) ls) @ tail" "nl \<notin> set tail" "\<forall>l \<in> set ls. nl \<notin> set l"
proof -
  have "\<exists>ls tail. bytes = concat (map (\<lambda>l. l @ [nl]) ls) @ tail \<and> nl \<notin> set tail \<and> (\<forall>l \<in> set ls. nl \<notin> set l)"
  proof (induction bytes)
    case Nil
    show ?case by (rule exI [of _ "[]"]) simp
  next
    case (Cons b bytes)
    then obtain ls tail where ih: "bytes = concat (map (\<lambda>l. l @ [nl]) ls) @ tail" "nl \<notin> set tail"
      "\<forall>l \<in> set ls. nl \<notin> set l" by blast
    show ?case
    proof (cases "b = nl")
      case True
      then show ?thesis using ih by (intro exI [of _ "[] # ls"] exI [of _ tail]) simp
    next
      case False
      show ?thesis
      proof (cases ls)
        case Nil
        then show ?thesis using ih False by (intro exI [of _ "[]"] exI [of _ "b # tail"]) simp
      next
        case (Cons l ls')
        then show ?thesis using ih False by (intro exI [of _ "(b # l) # ls'"] exI [of _ tail]) simp
      qed
    qed
  qed
  then show thesis using that by blast
qed

text \<open>The scan decodes the complete lines in order and stops where the tail begins.\<close>

lemma scan_lines_mapE:
  assumes "\<forall>l \<in> set ls. nl \<notin> set l" and "nl \<notin> set tail"
  shows "scan_lines nl dec (pre @ concat (map (\<lambda>l. l @ [nl]) ls) @ tail) acc (length pre) n =
    (case mapE (\<lambda>(i, l). dec (n + i) l) (indexed ls) of
       Inl e \<Rightarrow> Inl e
     | Inr rs \<Rightarrow> Inr (acc @ rs, length pre + length (concat (map (\<lambda>l. l @ [nl]) ls))))"
  using assms(1)
proof (induction ls arbitrary: pre acc n)
  case Nil
  then show ?case using scan_tail [OF assms(2)] by simp
next
  case (Cons l ls)
  let ?rest = "concat (map (\<lambda>l. l @ [nl]) ls) @ tail"
  have idx: "indexed (l # ls) = (0, l) # map (\<lambda>(i, x). (Suc i, x)) (indexed ls)"
    by (simp add: indexed_def upt_conv_Cons zip_map1 flip: map_Suc_upt del: upt_Suc)
  have "mapE (\<lambda>(i, l). dec (n + i) l) (map (\<lambda>(i, x). (Suc i, x)) xs) = mapE (\<lambda>(i, l). dec (Suc n + i) l) xs" for xs
    by (induction xs) (auto split: sum.splits)
  then show ?case
    using Cons.IH [of "pre @ l @ [nl]" _ "Suc n"] Cons.prems scan_one_line [of nl l dec pre ?rest acc n]
    by (auto simp: idx split: sum.splits)
qed

section \<open>The contract of a line codec\<close>

locale line_codec =
  fixes nl :: 'b
    and enc :: "'r \<Rightarrow> 'b list"
    and dec :: "nat \<Rightarrow> 'b list \<Rightarrow> 'e + 'r"
    and ok :: "'r \<Rightarrow> bool"
  assumes enc_no_newline: "ok r \<Longrightarrow> nl \<notin> set (enc r)"
    and dec_enc: "ok r \<Longrightarrow> dec n (enc r) = Inr r"
begin

lemma scan_frame:
  assumes "\<forall>r \<in> set rs. ok r"
  shows "scan_lines nl dec (pre @ frame nl enc rs @ rest) acc (length pre) n =
    scan_lines nl dec ((pre @ frame nl enc rs) @ rest) (acc @ rs) (length (pre @ frame nl enc rs)) (n + length rs)"
  using assms
proof (induction rs arbitrary: pre acc n)
  case (Cons r rs)
  have "scan_lines nl dec (pre @ enc r @ nl # (frame nl enc rs @ rest)) acc (length pre) n
    = scan_lines nl dec ((pre @ enc r @ [nl]) @ frame nl enc rs @ rest) (acc @ [r]) (length (pre @ enc r @ [nl])) (Suc n)"
    using Cons.prems scan_one_line [of nl "enc r" dec pre "frame nl enc rs @ rest" acc n]
    by (simp add: enc_no_newline dec_enc)
  then show ?case using Cons.IH [of "pre @ enc r @ [nl]" "acc @ [r]" "Suc n"] Cons.prems by simp
qed simp

text \<open>A file of encoded records followed by a torn tail reads back as exactly the records.\<close>

lemma read_back:
  assumes "\<forall>r \<in> set rs. ok r" and "nl \<notin> set tail"
  shows "scan_lines nl dec (frame nl enc rs @ tail) [] 0 n = Inr (rs, length (frame nl enc rs))"
  using scan_frame [OF assms(1), of "[]" tail "[]" n] scan_tail [OF assms(2), of dec "frame nl enc rs" rs]
  by simp

text \<open>Cutting a file anywhere keeps a prefix of its records.\<close>

lemma read_truncated:
  assumes "\<forall>r \<in> set rs. ok r" and "prefix p (enc r @ [nl])" and "ok r"
  shows "scan_lines nl dec (frame nl enc rs @ p) [] 0 n =
    (if p = enc r @ [nl] then Inr (rs @ [r], length (frame nl enc (rs @ [r]))) else Inr (rs, length (frame nl enc rs)))"
proof (cases "p = enc r @ [nl]")
  case True
  then show ?thesis using read_back [of "rs @ [r]" "[]" n] assms by simp
next
  case False
  then have "prefix p (enc r)" using assms(2) by (simp add: prefix_snoc)
  then have "nl \<notin> set p" using enc_no_newline [OF assms(3)] by (meson set_mono_prefix subsetD)
  then show ?thesis using read_back [OF assms(1), of p n] False by simp
qed

end

end
