(* ===== verification/Event_Log.thy ===== *)
theory Event_Log
  imports Redaction Session_Tree Framing
begin

text \<open>
  The append-only event log (\<^verbatim>\<open>packages/kernel/src/jsonl-event-log.ts\<close>) and the replay of a
  log into an empty one (\<^verbatim>\<open>replay.ts\<close>). A log file is its byte sequence. The file system
  decides how many bytes each \<^verbatim>\<open>write\<close> takes and whether \<^verbatim>\<open>write\<close>, \<^verbatim>\<open>sync\<close> and
  \<^verbatim>\<open>truncate\<close> fail: it is the parameter \<open>fs_behaviour\<close>. Operations of one log run one after the
  other, as the promise chain \<^verbatim>\<open>tail\<close> orders them, so the model runs them in call order.
\<close>

section \<open>Errors and state\<close>

datatype line_cause = NotUtf8 | NotJson | NotEvent protocol_error

datatype log_error =
    EventLogCorruptionError string nat line_cause
  | EventLogMigrationRequiredError canonical_event nat
  | LogProtocolError protocol_error
  | LogRedaction redaction_error
  | LogEncode encode_error
  | PrepareFailed string
  | ZeroBytesWritten
  | IoError string
  | RollbackFailed log_error string

datatype write_outcome = Wrote nat | WriteFails string

record fs_behaviour =
  fs_write :: "nat \<Rightarrow> write_outcome"
  fs_sync :: "string option"
  fs_truncate :: "string option"
  fs_resync :: "string option"

record log_options =
  opt_prepareEvent :: "(canonical_event \<Rightarrow> string + json) option"
  opt_prepareOversizedEvent :: "(canonical_event \<Rightarrow> string + json) option"

record event_log =
  log_path :: string
  log_sessionId :: string
  log_options :: log_options

section \<open>Reading\<close>

definition session_mismatch :: "string \<Rightarrow> protocol_error" where
  "session_mismatch expected = ProtocolValidationError ''event.sessionId'' (''must match log session '' @ expected)"

definition decodeEventLine :: "string \<Rightarrow> string \<Rightarrow> nat \<Rightarrow> byte list \<Rightarrow> log_error + canonical_event" where
  "decodeEventLine path expected lineNumber line =
     (case utf8_decode line of
        None \<Rightarrow> Inl (EventLogCorruptionError path lineNumber NotUtf8)
      | Some s \<Rightarrow>
          (case json_parse s of
             None \<Rightarrow> Inl (EventLogCorruptionError path lineNumber NotJson)
           | Some v \<Rightarrow>
               (case parseEvent v of
                  Inl e \<Rightarrow> Inl (EventLogCorruptionError path lineNumber (NotEvent e))
                | Inr event \<Rightarrow>
                    if ev_sessionId event \<noteq> expected then
                      Inl (EventLogCorruptionError path lineNumber (NotEvent (session_mismatch expected)))
                    else if MAX_CANONICAL_EVENT_BYTES < length line then
                      Inl (EventLogMigrationRequiredError event (length line))
                    else Inr event)))"

definition decodeEventLogBytes :: "string \<Rightarrow> byte list \<Rightarrow> string \<Rightarrow> log_error + (canonical_event list \<times> nat)" where
  "decodeEventLogBytes path bytes expected = scan_lines (0x0A :: byte) (decodeEventLine path expected) bytes [] 0 1"

text \<open>The events, the number of torn bytes, and the file afterwards.\<close>

definition readAndRecover :: "string \<Rightarrow> string \<Rightarrow> byte list \<Rightarrow> log_error + ((canonical_event list \<times> nat) \<times> byte list)" where
  "readAndRecover path expected bytes =
     bindE (decodeEventLogBytes path bytes expected) (\<lambda>(events, cleanByteLength).
     (let recoveredBytes = length bytes - cleanByteLength in
      Inr ((events, recoveredBytes), if 0 < recoveredBytes then take cleanByteLength bytes else bytes)))"

section \<open>Appending\<close>

definition write_at :: "byte list \<Rightarrow> nat \<Rightarrow> byte list \<Rightarrow> byte list" where
  "write_at file position chunk = take position file @ chunk @ drop (position + length chunk) file"

function write_loop :: "(nat \<Rightarrow> write_outcome) \<Rightarrow> nat \<Rightarrow> nat \<Rightarrow> byte list \<Rightarrow> nat \<Rightarrow> byte list \<Rightarrow> log_error option \<times> byte list" where
  "write_loop outcome call before line written file =
     (if written < length line then
        (case outcome call of
           WriteFails e \<Rightarrow> (Some (IoError e), file)
         | Wrote n \<Rightarrow>
             (let bytesWritten = min n (length line - written) in
              if bytesWritten = 0 then (Some ZeroBytesWritten, file)
              else write_loop outcome (call + 1) before line (written + bytesWritten)
                     (write_at file (before + written) (slice written (written + bytesWritten) line))))
      else (None, file))"
  by pat_completeness auto

termination
  by (relation "measure (\<lambda>(outcome, call, before, line, written, file). length line - written)") auto

declare write_loop.simps [simp del]

definition appendDurably :: "fs_behaviour \<Rightarrow> byte list \<Rightarrow> byte list \<Rightarrow> log_error option \<times> byte list" where
  "appendDurably fs line file =
     (let before = length file;
          (failure, written) = write_loop (fs_write fs) 0 before line 0 file;
          failed = (case failure of Some e \<Rightarrow> Some e | None \<Rightarrow> map_option IoError (fs_sync fs)) in
      case failed of
        None \<Rightarrow> (None, written)
      | Some e \<Rightarrow>
          (case fs_truncate fs of
             Some r \<Rightarrow> (Some (RollbackFailed e r), written)
           | None \<Rightarrow>
               (case fs_resync fs of
                  Some r \<Rightarrow> (Some (RollbackFailed e r), take before written)
                | None \<Rightarrow> (Some e, take before written))))"

definition check_session :: "event_log \<Rightarrow> canonical_event \<Rightarrow> log_error + canonical_event" where
  "check_session log event =
     (if ev_sessionId event \<noteq> log_sessionId log
      then Inl (LogProtocolError (session_mismatch (log_sessionId log))) else Inr event)"

definition parse_prepared :: "event_log \<Rightarrow> string + json \<Rightarrow> log_error + canonical_event" where
  "parse_prepared log prepared =
     (case prepared of
        Inl e \<Rightarrow> Inl (PrepareFailed e)
      | Inr v \<Rightarrow> (case parseEvent v of Inl e \<Rightarrow> Inl (LogProtocolError e) | Inr event \<Rightarrow> Inr event))"

definition encode_for_log :: "canonical_event \<Rightarrow> log_error + byte list" where
  "encode_for_log event = (case encodeCanonicalEvent (event_json event) of Inl e \<Rightarrow> Inl (LogEncode e) | Inr b \<Rightarrow> Inr b)"

text \<open>Encoding, with the host's fallback for an oversized event.\<close>

definition encode_or_shrink :: "event_log \<Rightarrow> canonical_event \<Rightarrow> log_error + (canonical_event \<times> byte list)" where
  "encode_or_shrink log event =
     (case encode_for_log event of
        Inr encoded \<Rightarrow> Inr (event, encoded)
      | Inl e \<Rightarrow>
          (case (e, opt_prepareOversizedEvent (log_options log)) of
             (LogEncode (CanonicalEventSizeError big n), Some prepare) \<Rightarrow>
               bindE (parse_prepared log (prepare event)) (\<lambda>p.
               bindE (check_session log p) (\<lambda>smaller.
               bindE (encode_for_log smaller) (\<lambda>encoded. Inr (smaller, encoded))))
           | _ \<Rightarrow> Inl e))"

text \<open>The bytes of one append, or why there are none.\<close>

definition append_line :: "event_log \<Rightarrow> string list \<Rightarrow> json \<Rightarrow> log_error + (canonical_event \<times> byte list)" where
  "append_line log secretValues v =
     bindE (case redactEventForStorage v secretValues of Inl e \<Rightarrow> Inl (LogRedaction e) | Inr redacted \<Rightarrow> check_session log redacted) (\<lambda>redacted.
     bindE (case opt_prepareEvent (log_options log) of
              None \<Rightarrow> Inr redacted
            | Some prepare \<Rightarrow> parse_prepared log (prepare redacted)) (\<lambda>prepared.
     bindE (check_session log prepared) (\<lambda>event.
     bindE (encode_or_shrink log event) (\<lambda>(stored, encoded). Inr (stored, encoded @ [0x0A])))))"

definition log_append :: "fs_behaviour \<Rightarrow> event_log \<Rightarrow> string list \<Rightarrow> json \<Rightarrow> byte list \<Rightarrow> (log_error + canonical_event) \<times> byte list" where
  "log_append fs log secretValues v file =
     (case append_line log secretValues v of
        Inl e \<Rightarrow> (Inl e, file)
      | Inr (event, line) \<Rightarrow>
          (case appendDurably fs line file of
             (None, file') \<Rightarrow> (Inr event, file')
           | (Some e, file') \<Rightarrow> (Inl e, file')))"

definition log_read :: "event_log \<Rightarrow> byte list \<Rightarrow> log_error + ((canonical_event list \<times> nat) \<times> byte list)" where
  "log_read log file = readAndRecover (log_path log) (log_sessionId log) file"

text \<open>\<^verbatim>\<open>ensureLogFile\<close> creates a missing file empty.\<close>

definition log_open :: "string \<Rightarrow> json option \<Rightarrow> log_options \<Rightarrow> byte list option \<Rightarrow>
  log_error + (event_log \<times> (canonical_event list \<times> nat) \<times> byte list)" where
  "log_open path sessionId options disk =
     (case parseSessionId sessionId ''sessionId'' of
        Inl e \<Rightarrow> Inl (LogProtocolError e)
      | Inr sid \<Rightarrow>
          (let file = (case disk of None \<Rightarrow> [] | Some bytes \<Rightarrow> bytes);
               log = \<lparr>log_path = path, log_sessionId = sid, log_options = options\<rparr> in
           bindE (log_read log file) (\<lambda>(result, file'). Inr (log, result, file'))))"

section \<open>Replaying a log\<close>

datatype replay_failure =
    ReplayLogFailed log_error
  | ReplayTreeFailed tree_error
  | ReplayFailed replay_error

definition map_error :: "('e \<Rightarrow> 'f) \<Rightarrow> 'e + 'a \<Rightarrow> 'f + 'a" where
  "map_error f m = map_sum f id m"

definition replay_appends :: "fs_behaviour \<Rightarrow> event_log \<Rightarrow> string list \<Rightarrow> byte list \<Rightarrow> canonical_event list \<Rightarrow> log_error + byte list" where
  "replay_appends fs log secretValues file events =
     foldE (\<lambda>bytes event.
       (case log_append fs log secretValues (event_json event) bytes of
          (Inl e, bytes') \<Rightarrow> Inl e
        | (Inr _, bytes') \<Rightarrow> Inr bytes')) file events"

definition replaySessionLog :: "fs_behaviour \<Rightarrow> log_options \<Rightarrow> string list \<Rightarrow> string \<Rightarrow> string \<Rightarrow> json option \<Rightarrow>
  byte list option \<Rightarrow> byte list option \<Rightarrow> replay_failure + (canonical_event list \<times> session_tree)" where
  "replaySessionLog fs options secretValues sourcePath destinationPath sessionId source destination =
     bindE (map_error ReplayLogFailed (log_open sourcePath sessionId options source)) (\<lambda>(sourceLog, (sourceEvents, _), _).
     bindE (map_error ReplayTreeFailed (fromEvents (Some (JStr (log_sessionId sourceLog))) sourceEvents)) (\<lambda>sourceTree.
     bindE (case verifyToolCallIntegrity sourceTree of None \<Rightarrow> Inr () | Some e \<Rightarrow> Inl (ReplayFailed e)) (\<lambda>_.
     bindE (map_error ReplayLogFailed (log_open destinationPath (Some (JStr (log_sessionId sourceLog))) options destination))
       (\<lambda>(destinationLog, (destinationEvents, _), destinationFile).
     if destinationEvents \<noteq> [] then
       Inl (ReplayFailed (ReplayError (''Replay destination '' @ quote_str destinationPath @ '' is not empty'')))
     else
       bindE (map_error ReplayLogFailed (replay_appends fs destinationLog secretValues destinationFile sourceEvents)) (\<lambda>file.
       bindE (map_error ReplayLogFailed (log_read destinationLog file)) (\<lambda>((readBack, _), _).
       bindE (map_error ReplayTreeFailed (fromEvents (Some (JStr (log_sessionId destinationLog))) readBack)) (\<lambda>tree.
       if json_text (JArr (map event_json readBack)) \<noteq> json_text (JArr (map event_json sourceEvents)) then
         Inl (ReplayFailed (ReplayError (''Replay into '' @ quote_str destinationPath @ '' diverged from the source log'')))
       else Inr (readBack, tree))))))))"

section \<open>Events as lines\<close>

definition event_bytes :: "canonical_event \<Rightarrow> byte list" where
  "event_bytes e = utf8_encode (json_text (event_json e))"

definition storable :: "string \<Rightarrow> canonical_event \<Rightarrow> bool" where
  "storable sid e \<longleftrightarrow> wf_event e \<and> wf_json (event_json e) \<and> ev_sessionId e = sid
     \<and> length (event_bytes e) \<le> MAX_CANONICAL_EVENT_BYTES"

definition event_file :: "canonical_event list \<Rightarrow> byte list" where
  "event_file events = frame (0x0A :: byte) event_bytes events"

lemma decode_event_bytes: "storable sid e \<Longrightarrow> decodeEventLine path sid n (event_bytes e) = Inr e"
  by (simp add: storable_def decodeEventLine_def event_bytes_def utf8_roundtrip json_roundtrip event_roundtrip)

interpretation event_lines: line_codec "0x0A :: byte" event_bytes "decodeEventLine path sid" "storable sid" for path sid
  by unfold_locales
    (simp_all add: decode_event_bytes, simp add: event_bytes_def newline_byte_encode json_text_no_newline)

section \<open>Writing\<close>

lemma write_at_end: "write_at (f @ take k line) (length f + k) chunk = f @ take k line @ chunk" if "k \<le> length line"
  using that by (simp add: write_at_def)

lemma write_loop_prefix:
  assumes "written \<le> length line"
  shows "\<exists>w r. write_loop outcome call (length f) line written (f @ take written line) = (r, f @ take w line)
    \<and> w \<le> length line \<and> (r = None \<longrightarrow> w = length line)"
  using assms
proof (induction "length line - written" arbitrary: written call rule: less_induct)
  case less
  show ?case
  proof (cases "written < length line")
    case False
    then show ?thesis using less.prems by (subst write_loop.simps) auto
  next
    case True
    show ?thesis
    proof (cases "outcome call")
      case (WriteFails e)
      then show ?thesis using True by (subst write_loop.simps) auto
    next
      case (Wrote n)
      let ?m = "min n (length line - written)"
      show ?thesis
      proof (cases "?m = 0")
        case zero: True
        then show ?thesis using True Wrote by (subst write_loop.simps) auto
      next
        case False
        have "write_at (f @ take written line) (length f + written) (slice written (written + ?m) line)
          = f @ take (written + ?m) line"
          using True by (simp add: write_at_end slice_def take_add)
        moreover have "\<exists>w r. write_loop outcome (call + 1) (length f) line (written + ?m) (f @ take (written + ?m) line)
          = (r, f @ take w line) \<and> w \<le> length line \<and> (r = None \<longrightarrow> w = length line)"
          using False True by (intro less.hyps) auto
        ultimately show ?thesis using True Wrote False less.prems by (subst write_loop.simps) (auto simp: Let_def)
      qed
    qed
  qed
qed

definition healthy :: "fs_behaviour \<Rightarrow> bool" where
  "healthy fs \<longleftrightarrow> (\<forall>i. \<exists>n > 0. fs_write fs i = Wrote n) \<and> fs_sync fs = None"

lemma write_loop_progress:
  assumes "\<forall>i. \<exists>n > 0. outcome i = Wrote n"
  shows "fst (write_loop outcome call before line written f) = None"
proof (induction "length line - written" arbitrary: written call f rule: less_induct)
  case less
  show ?case
  proof (cases "written < length line")
    case True
    obtain n where n: "n > 0" "outcome call = Wrote n" using assms by blast
    then show ?thesis using True by (subst write_loop.simps) (simp add: Let_def less.hyps)
  qed (subst write_loop.simps, simp)
qed

lemma appendDurably_cases:
  "\<exists>w r. appendDurably fs line file = (r, file @ take w line) \<and> w \<le> length line
     \<and> (r = None \<longrightarrow> w = length line) \<and> (r \<noteq> None \<and> fs_truncate fs = None \<longrightarrow> w = 0)"
proof -
  obtain w r where w: "write_loop (fs_write fs) 0 (length file) line 0 file = (r, file @ take w line)"
    "w \<le> length line" "r = None \<longrightarrow> w = length line"
    using write_loop_prefix [where f = "file" and written = 0 and line = line and outcome = "fs_write fs" and call = 0] by auto
  show ?thesis
  proof (cases "r = None \<and> fs_sync fs = None")
    case True
    then show ?thesis using w by (auto simp: appendDurably_def Let_def)
  next
    case False
    then obtain e where "(case r of Some e \<Rightarrow> Some e | None \<Rightarrow> map_option IoError (fs_sync fs)) = Some e"
      by (cases r) auto
    moreover have "file = file @ take 0 line" by simp
    ultimately show ?thesis
      using w by (cases "fs_truncate fs"; cases "fs_resync fs") (auto simp: appendDurably_def Let_def)
  qed
qed

lemma appendDurably_healthy:
  assumes "healthy fs"
  shows "appendDurably fs line file = (None, file @ line)"
proof -
  obtain w r where w: "appendDurably fs line file = (r, file @ take w line)" "r = None \<longrightarrow> w = length line"
    using appendDurably_cases by blast
  have "fst (write_loop (fs_write fs) 0 (length file) line 0 file) = None"
    using assms by (intro write_loop_progress) (simp add: healthy_def)
  then have "r = None" using w(1) assms by (auto simp: appendDurably_def Let_def healthy_def split: prod.splits)
  then show ?thesis using w by simp
qed

section \<open>Appending\<close>

text \<open>Host transformations hand back values JSON can represent.\<close>

definition prepares_wf :: "log_options \<Rightarrow> bool" where
  "prepares_wf opts \<longleftrightarrow>
     (\<forall>f. opt_prepareEvent opts = Some f \<or> opt_prepareOversizedEvent opts = Some f \<longrightarrow>
        (\<forall>e v. f e = Inr v \<longrightarrow> wf_json v))"

lemma prepares_wfD:
  assumes "prepares_wf opts" and "opt_prepareEvent opts = Some f \<or> opt_prepareOversizedEvent opts = Some f"
  shows "\<forall>e v. f e = Inr v \<longrightarrow> wf_json v"
  using assms unfolding prepares_wf_def by blast

lemma check_session_Inr: "check_session log e = Inr e' \<longleftrightarrow> e' = e \<and> ev_sessionId e = log_sessionId log"
  by (auto simp: check_session_def)

lemma parse_prepared_wf:
  assumes "parse_prepared log (f e0) = Inr e" and "\<forall>e v. f e = Inr v \<longrightarrow> wf_json v"
  shows "wf_event e \<and> wf_json (event_json e)"
  using assms by (auto simp: parse_prepared_def parseEvent_wf_event parseEvent_keeps split: sum.splits)

lemma encode_for_log_Inr:
  assumes "encode_for_log e = Inr b" and "wf_event e" and "wf_json (event_json e)" and "ev_sessionId e = sid"
  shows "b = event_bytes e \<and> storable sid e"
  using assms event_roundtrip [OF assms(2)]
  by (auto simp: encode_for_log_def encodeCanonicalEvent_def Let_def event_bytes_def storable_def split: sum.splits if_splits)

lemma encode_or_shrink_storable:
  assumes "encode_or_shrink log event = Inr (e, b)" and "wf_event event" "wf_json (event_json event)"
    and "ev_sessionId event = log_sessionId log" and "prepares_wf (log_options log)"
  shows "storable (log_sessionId log) e \<and> b = event_bytes e"
proof (cases "encode_for_log event")
  case (Inr b')
  then show ?thesis using assms(1) encode_for_log_Inr [OF Inr assms(2,3,4)] by (auto simp: encode_or_shrink_def)
next
  case (Inl x)
  then obtain prepare p where s: "opt_prepareOversizedEvent (log_options log) = Some prepare"
    "parse_prepared log (prepare event) = Inr e" "ev_sessionId e = log_sessionId log" "encode_for_log e = Inr b"
    using assms(1) by (auto simp: encode_or_shrink_def bindE_Inr check_session_Inr
        split: option.splits log_error.splits encode_error.splits)
  have "wf_event e \<and> wf_json (event_json e)"
    using parse_prepared_wf [of log prepare, OF s(2)] prepares_wfD [OF assms(5), of prepare] s(1) by blast
  then show ?thesis using encode_for_log_Inr [OF s(4)] s by simp
qed

lemma append_line_storable:
  assumes "append_line log secretValues v = Inr (e, line)" and "wf_json v" and "prepares_wf (log_options log)"
  shows "storable (log_sessionId log) e \<and> line = event_bytes e @ [0x0A]"
proof -
  obtain redacted where r: "redactEventForStorage v secretValues = Inr redacted"
    using assms(1) by (auto simp: append_line_def bindE_Inr split: sum.splits)
  obtain event b where p: "(case opt_prepareEvent (log_options log) of None \<Rightarrow> Inr redacted
            | Some prepare \<Rightarrow> parse_prepared log (prepare redacted)) = Inr event"
    and sid: "ev_sessionId event = log_sessionId log"
    and enc: "encode_or_shrink log event = Inr (e, b)" "line = b @ [0x0A]"
    using assms(1) r by (auto simp: append_line_def bindE_Inr check_session_Inr)
  have "wf_event event \<and> wf_json (event_json event)"
  proof (cases "opt_prepareEvent (log_options log)")
    case None
    then show ?thesis using p redacted_wf [OF r assms(2)] by simp
  next
    case (Some f)
    have "\<forall>e v. f e = Inr v \<longrightarrow> wf_json v" using prepares_wfD [OF assms(3)] Some by blast
    then show ?thesis using p Some parse_prepared_wf [of log f redacted event] by simp
  qed
  then show ?thesis using encode_or_shrink_storable [OF enc(1) _ _ sid assms(3)] enc(2) by simp
qed

section \<open>Files of stored events\<close>

lemma decode_file:
  assumes "\<forall>e \<in> set events. storable sid e" and "(0x0A :: byte) \<notin> set tail"
  shows "decodeEventLogBytes path (event_file events @ tail) sid = Inr (events, length (event_file events))"
  unfolding decodeEventLogBytes_def event_file_def using assms by (rule event_lines.read_back)

lemma read_file:
  assumes "\<forall>e \<in> set events. storable sid e" and "(0x0A :: byte) \<notin> set tail"
  shows "readAndRecover path sid (event_file events @ tail) = Inr ((events, length tail), event_file events)"
  by (simp add: readAndRecover_def decode_file [OF assms])

lemma event_file_snoc: "event_file (events @ [e]) = event_file events @ event_bytes e @ [0x0A]"
  by (simp add: event_file_def)

lemma event_bytes_no_newline: "storable sid e \<Longrightarrow> (0x0A :: byte) \<notin> set (event_bytes e)"
  by (rule event_lines.enc_no_newline)

lemma log_append_file:
  assumes "wf_json v" and "prepares_wf (log_options log)"
    and "log_append fs log secretValues v file = (r, file')"
  shows "(\<exists>e. r = Inr e \<and> storable (log_sessionId log) e \<and> file' = file @ event_bytes e @ [0x0A])
    \<or> (\<exists>err. r = Inl err \<and> (file' = file \<or> (fs_truncate fs \<noteq> None \<and>
         (\<exists>e p. storable (log_sessionId log) e \<and> prefix p (event_bytes e @ [0x0A]) \<and> file' = file @ p))))"
proof (cases "append_line log secretValues v")
  case (Inl e)
  then show ?thesis using assms(3) by (auto simp: log_append_def)
next
  case (Inr el)
  obtain e line where el: "el = (e, line)" by (cases el)
  have st: "storable (log_sessionId log) e" "line = event_bytes e @ [0x0A]"
    using append_line_storable [OF Inr [unfolded el] assms(1,2)] by simp_all
  obtain w x where a: "appendDurably fs line file = (x, file @ take w line)" "x = None \<longrightarrow> w = length line"
    "x \<noteq> None \<and> fs_truncate fs = None \<longrightarrow> w = 0"
    using appendDurably_cases by blast
  show ?thesis
  proof (cases x)
    case None
    then show ?thesis using assms(3) Inr el a st by (auto simp: log_append_def)
  next
    case (Some err)
    have "prefix (take w line) (event_bytes e @ [0x0A])" unfolding st(2) by (rule take_is_prefix)
    then show ?thesis using assms(3) Inr el a st(1) Some by (auto simp: log_append_def)
  qed
qed

text \<open>Whatever an append does, the log reads back as before or with the one new event.\<close>

lemma append_then_read:
  assumes stored: "\<forall>e \<in> set events. storable (log_sessionId log) e"
    and v: "wf_json v" "prepares_wf (log_options log)"
    and app: "log_append fs log secretValues v (event_file events) = (r, file')"
  shows "\<exists>events' torn. log_read log file' = Inr ((events', torn), event_file events')
    \<and> (\<forall>e. r = Inr e \<longrightarrow> events' = events @ [e] \<and> torn = 0)
    \<and> (\<forall>err. r = Inl err \<longrightarrow> events' = events \<or> (\<exists>e. events' = events @ [e] \<and> fs_truncate fs \<noteq> None))"
proof -
  let ?sid = "log_sessionId log"
  have whole: "log_read log (event_file evs) = Inr ((evs, 0), event_file evs)" if "\<forall>e \<in> set evs. storable ?sid e" for evs
    using read_file [OF that, of "[]"] by (simp add: log_read_def)
  note cases = log_append_file [OF v app]
  consider
      (added) e where "r = Inr e" "storable ?sid e" "file' = event_file (events @ [e])"
    | (same) err where "r = Inl err" "file' = event_file events"
    | (torn) err e p where "r = Inl err" "fs_truncate fs \<noteq> None" "storable ?sid e"
        "prefix p (event_bytes e @ [0x0A])" "file' = event_file events @ p"
    using cases unfolding event_file_snoc by blast
  then show ?thesis
  proof cases
    case added
    then show ?thesis using whole [of "events @ [e]"] stored by auto
  next
    case same
    then show ?thesis using whole [OF stored] by auto
  next
    case torn
    show ?thesis
    proof (cases "p = event_bytes e @ [0x0A]")
      case True
      then have "file' = event_file (events @ [e])" using torn(5) by (simp add: event_file_snoc)
      then show ?thesis using whole [of "events @ [e]"] stored torn by auto
    next
      case False
      then have "prefix p (event_bytes e)" using torn(4) by (simp add: prefix_snoc)
      then have "(0x0A :: byte) \<notin> set p"
        using event_bytes_no_newline [OF torn(3)] by (meson set_mono_prefix subsetD)
      then show ?thesis using read_file [OF stored] torn by (auto simp: log_read_def)
    qed
  qed
qed

text \<open>Reading untrusted bytes cuts them after the last newline; reading again changes nothing.\<close>

lemma recover_again:
  assumes "readAndRecover path sid bytes = Inr ((events, n), bytes')"
  shows "readAndRecover path sid bytes' = Inr ((events, 0), bytes') \<and> prefix bytes' bytes
    \<and> length bytes = length bytes' + n \<and> (bytes' = [] \<or> last bytes' = 0x0A)"
proof -
  obtain ls tail where b: "bytes = concat (map (\<lambda>l. l @ [0x0A]) ls) @ tail" "(0x0A :: byte) \<notin> set tail"
    "\<forall>l \<in> set ls. (0x0A :: byte) \<notin> set l" by (rule lines_and_tail)
  let ?clean = "concat (map (\<lambda>l. l @ [0x0A]) ls)"
  have scan: "decodeEventLogBytes path (?clean @ t) sid =
      (case mapE (\<lambda>(i, l). decodeEventLine path sid (1 + i) l) (indexed ls) of
         Inl e \<Rightarrow> Inl e | Inr rs \<Rightarrow> Inr (rs, length ?clean))" if "(0x0A :: byte) \<notin> set t" for t
    using scan_lines_mapE [OF b(3) that, of "decodeEventLine path sid" "[]" "[]" 1]
    by (simp add: decodeEventLogBytes_def cong: sum.case_cong)
  from assms scan [OF b(2)] obtain rs where rs: "mapE (\<lambda>(i, l). decodeEventLine path sid (1 + i) l) (indexed ls) = Inr rs"
    by (auto simp: readAndRecover_def b(1) bindE_Inr split: sum.splits)
  have "events = rs" "n = length tail" "bytes' = ?clean"
    using assms scan [OF b(2)] rs by (auto simp: readAndRecover_def b(1) Let_def split: if_splits)
  moreover have "?clean = [] \<or> last ?clean = 0x0A" by (cases ls rule: rev_cases) auto
  ultimately show ?thesis using scan [of "[]"] rs b(1) by (simp add: readAndRecover_def)
qed

section \<open>Replay\<close>

definition no_options :: log_options where
  "no_options = \<lparr>opt_prepareEvent = None, opt_prepareOversizedEvent = None\<rparr>"

lemma append_stored_event:
  assumes "storable sid e" and "redactEventForStorage (event_json e) secretValues = Inr e" and "healthy fs"
  shows "log_append fs \<lparr>log_path = path, log_sessionId = sid, log_options = no_options\<rparr> secretValues (event_json e) file
    = (Inr e, file @ event_bytes e @ [0x0A])"
proof -
  have "encodeCanonicalEvent (event_json e) = Inr (event_bytes e)"
    using assms(1) by (simp add: encodeCanonicalEvent_def storable_def event_roundtrip event_bytes_def)
  then show ?thesis
    using assms by (simp add: log_append_def append_line_def check_session_def storable_def no_options_def
        encode_or_shrink_def encode_for_log_def appendDurably_healthy)
qed

lemma replay_appends_all:
  assumes "\<forall>e \<in> set events. storable sid e \<and> redactEventForStorage (event_json e) secretValues = Inr e" and "healthy fs"
  shows "replay_appends fs \<lparr>log_path = path, log_sessionId = sid, log_options = no_options\<rparr> secretValues file events
    = Inr (file @ event_file events)"
  using assms(1)
proof (induction events arbitrary: "file")
  case Nil
  then show ?case by (simp add: replay_appends_def event_file_def)
next
  case (Cons e events)
  then show ?case using append_stored_event [OF _ _ assms(2), of sid e secretValues path "file"]
    by (simp add: replay_appends_def event_file_def)
qed

lemma replay_reproduces:
  assumes "is_uuid sid" and "log_ok sid events" and "verifyToolCallIntegrity (tree_of sid events) = None"
    and stored: "\<forall>e \<in> set events. storable sid e \<and> redactEventForStorage (event_json e) secretValues = Inr e"
    and "healthy fs" and "(0x0A :: byte) \<notin> set torn"
  shows "replaySessionLog fs no_options secretValues src dst (Some (JStr sid)) (Some (event_file events @ torn)) None
    = Inr (events, tree_of sid events)"
proof -
  have st: "\<forall>e \<in> set events. storable sid e" using stored by blast
  have sid: "parseSessionId (Some (JStr sid)) p = Inr sid" for p
    using assms(1) by (simp add: parse_ids)
  have tree: "fromEvents (Some (JStr sid)) events = Inr (tree_of sid events)"
    using assms(1,2) by (simp add: fromEvents_iff)
  have read: "log_read \<lparr>log_path = p, log_sessionId = sid, log_options = no_options\<rparr> (event_file events @ t)
     = Inr ((events, length t), event_file events)" if "(0x0A :: byte) \<notin> set t" for p t
    using read_file [OF st that] by (simp add: log_read_def)
  have empty: "log_read \<lparr>log_path = p, log_sessionId = sid, log_options = no_options\<rparr> [] = Inr (([], 0), [])" for p
    using read_file [of "[]" sid "[]"] by (simp add: log_read_def event_file_def)
  show ?thesis
    using read [OF assms(6)] read [of "[]"] empty tree assms(3) replay_appends_all [OF stored assms(5)]
    by (simp add: replaySessionLog_def log_open_def sid map_error_def)
qed

section \<open>Properties\<close>

text \<open>
  C1: appending to a log of stored events, under any behaviour of the file system: the log reads back
  without an error as the events before or those and one more; a successful append is read back as
  exactly its event at the end with no torn bytes; a failed append whose rollback could truncate
  leaves the log's events unchanged.
\<close>

theorem append_is_atomic:
  assumes "\<forall>e \<in> set events. storable (log_sessionId log) e"
    and "wf_json v" and "prepares_wf (log_options log)"
    and "log_append fs log secretValues v (event_file events) = (r, file')"
  shows "\<exists>events' torn. log_read log file' = Inr ((events', torn), event_file events')
    \<and> (\<forall>e. r = Inr e \<longrightarrow> events' = events @ [e] \<and> torn = 0)
    \<and> (\<forall>err. r = Inl err \<longrightarrow> events' = events \<or> (\<exists>e. events' = events @ [e] \<and> fs_truncate fs \<noteq> None))"
  using assms by (rule append_then_read)

definition ex_fs :: fs_behaviour where
  "ex_fs = \<lparr>fs_write = (\<lambda>i. Wrote (Suc i)), fs_sync = None, fs_truncate = None, fs_resync = None\<rparr>"

definition ex_event_log :: event_log where
  "ex_event_log = \<lparr>log_path = ''/log'', log_sessionId = ex_session, log_options = no_options\<rparr>"

lemma ex_storable: "storable ex_session ex_created" "storable ex_session ex_message"
proof -
  have "wf_event ex_created" "wf_json (event_json ex_created)" "ev_sessionId ex_created = ex_session"
    "length (json_text (event_json ex_created)) \<le> 1000" "wf_event ex_message" "wf_json (event_json ex_message)"
    "ev_sessionId ex_message = ex_session" "length (json_text (event_json ex_message)) \<le> 1000"
    by code_simp+
  then show "storable ex_session ex_created" "storable ex_session ex_message"
    using utf8_encode_length [of "json_text (event_json ex_created)"] utf8_encode_length [of "json_text (event_json ex_message)"]
    by (simp_all add: storable_def event_bytes_def MAX_CANONICAL_EVENT_BYTES_def)
qed

lemma ex_healthy: "healthy ex_fs"
  by (simp add: healthy_def ex_fs_def)

theorem append_is_atomic_witness:
  "\<exists>file'. log_append ex_fs ex_event_log [] (event_json ex_message) (event_file [ex_created]) = (Inr ex_message, file')
    \<and> log_read ex_event_log file' = Inr (([ex_created, ex_message], 0), event_file [ex_created, ex_message])"
proof -
  have red: "redactEventForStorage (event_json ex_message) [] = Inr ex_message" and w: "wf_json (event_json ex_message)"
    by code_simp+
  let ?f = "event_file [ex_created] @ event_bytes ex_message @ [0x0A]"
  have app: "log_append ex_fs ex_event_log [] (event_json ex_message) (event_file [ex_created]) = (Inr ex_message, ?f)"
    using append_stored_event [OF ex_storable(2) red ex_healthy] by (simp add: ex_event_log_def)
  have "\<forall>e \<in> set [ex_created]. storable (log_sessionId ex_event_log) e" "prepares_wf (log_options ex_event_log)"
    by (simp_all add: ex_event_log_def ex_storable prepares_wf_def no_options_def)
  then show ?thesis using append_is_atomic [OF _ w _ app] app by auto
qed

text \<open>
  Reading arbitrary bytes either reports a corrupt line or cuts the file after its last newline;
  reading the recovered file again returns the same events and recovers nothing.
\<close>

theorem recovery_idempotent:
  assumes "readAndRecover path sid bytes = Inr ((events, n), bytes')"
  shows "readAndRecover path sid bytes' = Inr ((events, 0), bytes') \<and> prefix bytes' bytes
    \<and> length bytes = length bytes' + n \<and> (bytes' = [] \<or> last bytes' = 0x0A)"
  using assms by (rule recover_again)

theorem recovery_idempotent_witness:
  "readAndRecover ''/log'' ex_session (event_file [ex_created]) = Inr (([ex_created], 0), event_file [ex_created])"
proof -
  have "readAndRecover ''/log'' ex_session (event_file [ex_created] @ [0x7B]) = Inr (([ex_created], 1), event_file [ex_created])"
    using read_file [of "[ex_created]" ex_session "[0x7B]" "''/log''"] ex_storable by simp
  then show ?thesis using recovery_idempotent by blast
qed

text \<open>
  On a file system whose writes make progress, the write loop of an append ends, the whole line is
  at the end of the file, and no error is raised, however the bytes are split over write calls.
\<close>

theorem append_durably_completes:
  assumes "healthy fs"
  shows "appendDurably fs line file = (None, file @ line)"
  using assms by (rule appendDurably_healthy)

theorem append_durably_completes_witness: "appendDurably ex_fs [1, 2, 3, 4] [9, 0x0A] = (None, [9, 0x0A, 1, 2, 3, 4])"
  using append_durably_completes [OF ex_healthy, of "[1, 2, 3, 4]" "[9, 0x0A]"] by simp

text \<open>
  Replaying a well-formed log of already redacted events into an empty destination reproduces the
  source events and their tree, ignoring the torn tail of the source.
\<close>

theorem replay_reproduces_log:
  assumes "is_uuid sid" and "log_ok sid events" and "verifyToolCallIntegrity (tree_of sid events) = None"
    and "\<forall>e \<in> set events. storable sid e \<and> redactEventForStorage (event_json e) secretValues = Inr e"
    and "healthy fs" and "(0x0A :: byte) \<notin> set torn"
  shows "replaySessionLog fs no_options secretValues src dst (Some (JStr sid)) (Some (event_file events @ torn)) None
    = Inr (events, tree_of sid events)"
  using assms by (rule replay_reproduces)

theorem replay_reproduces_log_witness:
  "replaySessionLog ex_fs no_options [] ''/a'' ''/b'' (Some (JStr ex_session)) (Some (event_file [ex_created, ex_message] @ [0x7B])) None
    = Inr ([ex_created, ex_message], tree_of ex_session [ex_created, ex_message])"
proof (rule replay_reproduces_log)
  show "is_uuid ex_session" "log_ok ex_session [ex_created, ex_message]"
    "verifyToolCallIntegrity (tree_of ex_session [ex_created, ex_message]) = None" by code_simp+
  have "redactEventForStorage (event_json ex_created) [] = Inr ex_created"
    "redactEventForStorage (event_json ex_message) [] = Inr ex_message" by code_simp+
  then show "\<forall>e \<in> set [ex_created, ex_message]. storable ex_session e \<and> redactEventForStorage (event_json e) [] = Inr e"
    by (simp add: ex_storable)
  show "healthy ex_fs" by (rule ex_healthy)
  show "(0x0A :: byte) \<notin> set [0x7B]" by simp
qed

end
