(* ===== verification/Model_Stream.thy ===== *)
theory Model_Stream
  imports Event_Json
begin

text \<open>
  Model messages and the provider stream (\<^verbatim>\<open>packages/protocol/src/model-stream.ts\<close>) and the
  token estimates of \<^verbatim>\<open>model-request.ts\<close>. \<open>parseModelStreamEvent\<close> validates an untrusted
  provider event and, like the code, returns the value it was given; \<open>stream_json\<close> is the object
  of a typed event. The code compares \<^verbatim>\<open>String(x)\<close> with its sets of names, so \<open>js_string\<close>
  models that conversion for every JSON value.
\<close>

section \<open>Thinking levels\<close>

record model_thinking_support =
  mts_reasoning :: bool
  mts_thinkingLevelMap :: "(thinking_level \<times> string option) list option"

definition mapped_level :: "model_thinking_support \<Rightarrow> thinking_level \<Rightarrow> string option option" where
  "mapped_level model level =
     (case mts_thinkingLevelMap model of None \<Rightarrow> None | Some m \<Rightarrow> mget m level)"

definition supportedThinkingLevels :: "model_thinking_support \<Rightarrow> thinking_level list" where
  "supportedThinkingLevels model =
     (if \<not> mts_reasoning model then [ThinkOff]
      else filter (\<lambda>level.
        let mapped = mapped_level model level in
        if mapped = Some None then False
        else if level = ThinkXhigh \<or> level = ThinkMax then mapped \<noteq> None
        else True) THINKING_LEVELS)"

section \<open>Messages\<close>

record tool_call_request =
  req_callId :: string
  req_name :: string
  req_input :: json_object

datatype model_message =
    UserMsg "content_item list"
  | AssistantMsg "content_item list" "tool_call_request list option"
  | ToolMsg string string "content_item list" bool

record tool_declaration =
  decl_name :: string
  decl_description :: string
  decl_inputSchema :: json_object

section \<open>Stream events\<close>

datatype model_error_category =
    RateLimit | Overloaded | Network | Timeout | Authentication | Authorization | InvalidRequest
  | ContextLimit | ContentPolicy | ProviderInternal | StreamInterrupted | UnknownCategory

fun category_str :: "model_error_category \<Rightarrow> string" where
  "category_str RateLimit = ''rate_limit''"
| "category_str Overloaded = ''overloaded''"
| "category_str Network = ''network''"
| "category_str Timeout = ''timeout''"
| "category_str Authentication = ''authentication''"
| "category_str Authorization = ''authorization''"
| "category_str InvalidRequest = ''invalid_request''"
| "category_str ContextLimit = ''context_limit''"
| "category_str ContentPolicy = ''content_policy''"
| "category_str ProviderInternal = ''provider_internal''"
| "category_str StreamInterrupted = ''stream_interrupted''"
| "category_str UnknownCategory = ''unknown''"

definition all_categories :: "model_error_category list" where
  "all_categories = [RateLimit, Overloaded, Network, Timeout, Authentication, Authorization,
     InvalidRequest, ContextLimit, ContentPolicy, ProviderInternal, StreamInterrupted, UnknownCategory]"

datatype request_phase = BeforeDispatch | AwaitingResponse | Streaming | UnknownPhase

fun phase_str :: "request_phase \<Rightarrow> string" where
  "phase_str BeforeDispatch = ''before_dispatch''"
| "phase_str AwaitingResponse = ''awaiting_response''"
| "phase_str Streaming = ''streaming''"
| "phase_str UnknownPhase = ''unknown''"

definition all_phases :: "request_phase list" where
  "all_phases = [BeforeDispatch, AwaitingResponse, Streaming, UnknownPhase]"

datatype severity = Info | Warning | SevError

fun severity_str :: "severity \<Rightarrow> string" where
  "severity_str Info = ''info''"
| "severity_str Warning = ''warning''"
| "severity_str SevError = ''error''"

definition all_severities :: "severity list" where
  "all_severities = [Info, Warning, SevError]"

datatype replay_target = TargetThinking | TargetText | TargetToolCall

fun target_str :: "replay_target \<Rightarrow> string" where
  "target_str TargetThinking = ''thinking''"
| "target_str TargetText = ''text''"
| "target_str TargetToolCall = ''tool_call''"

definition all_targets :: "replay_target list" where
  "all_targets = [TargetThinking, TargetText, TargetToolCall]"

record provider_retry_guidance =
  guide_retryAfterMs :: "int option"
  guide_resetAtEpochMs :: "int option"

record safe_provider_diagnostic =
  diag_code :: string
  diag_message :: string
  diag_severity :: severity

record provider_response_metadata =
  resp_providerId :: string
  resp_requestedModelId :: string
  resp_routedModelId :: "string option"
  resp_responseId :: "string option"
  resp_nativeStopReason :: "string option"
  resp_latencyMs :: "jsnum option"

record model_stream_error =
  err_code :: string
  err_message :: string
  err_retryable :: bool
  err_partial :: "bool option"
  err_category :: "model_error_category option"
  err_requestPhase :: "request_phase option"
  err_retryAfterMs :: "int option"
  err_retry :: "provider_retry_guidance option"
  err_response :: "provider_response_metadata option"
  err_diagnostics :: "safe_provider_diagnostic list option"

record provider_replay_metadata =
  rep_target :: replay_target
  rep_contentIndex :: int
  rep_providerId :: string
  rep_apiDialect :: string
  rep_modelId :: string
  rep_callId :: "string option"
  rep_signature :: "string option"
  rep_redacted :: "bool option"
  rep_responseId :: "string option"
  rep_itemId :: "string option"
  rep_namespace :: "string option"

datatype model_stream_event =
    TextDelta string "int option"
  | ThinkingDelta string "int option"
  | ToolCallStart int string string
  | ToolCallDelta int string string
  | ToolCallEv tool_call_request "int option"
  | ReplayMetadata provider_replay_metadata
  | Completed stop_reason usage "bool option" "provider_response_metadata option" "safe_provider_diagnostic list option"
  | StreamErrorEv model_stream_error
  | Aborted "bool option"

fun isTerminalModelStreamEvent :: "model_stream_event \<Rightarrow> bool" where
  "isTerminalModelStreamEvent (Completed s u p r d) = True"
| "isTerminalModelStreamEvent (StreamErrorEv e) = True"
| "isTerminalModelStreamEvent (Aborted p) = True"
| "isTerminalModelStreamEvent _ = False"

section \<open>Validators\<close>

datatype stream_error = ModelStreamValidationError string string

definition stream_fail :: "string \<Rightarrow> string \<Rightarrow> stream_error option" where
  "stream_fail path message = Some (ModelStreamValidationError path message)"

text \<open>\<^verbatim>\<open>String(v)\<close> of an optional JSON value.\<close>

fun js_string :: "json \<Rightarrow> string" where
  "js_string JNull = ''null''"
| "js_string (JBool b) = (if b then ''true'' else ''false'')"
| "js_string (JNum n) = num_str n"
| "js_string (JStr s) = s"
| "js_string (JArr vs) = join '','' (map (\<lambda>v. if v = JNull then [] else js_string v) vs)"
| "js_string (JObj kvs) = ''[object Object]''"

definition js_string_opt :: "json option \<Rightarrow> string" where
  "js_string_opt v = (case v of None \<Rightarrow> ''undefined'' | Some x \<Rightarrow> js_string x)"

definition stream_object :: "json option \<Rightarrow> string \<Rightarrow> (json_object \<Rightarrow> stream_error option) \<Rightarrow> stream_error option" where
  "stream_object v path k =
     (case v of Some (JObj kvs) \<Rightarrow> k kvs | _ \<Rightarrow> stream_fail path ''must be an object'')"

definition stream_exact :: "json_object \<Rightarrow> string \<Rightarrow> string list \<Rightarrow> string list \<Rightarrow> stream_error option" where
  "stream_exact kvs path required optional =
     first_error
       (map (\<lambda>(k, v). require (k \<in> set (required @ optional))
          (ModelStreamValidationError (key_path path k) ''is not allowed'')) kvs
        @ map (\<lambda>k. require (mhas kvs k) (ModelStreamValidationError (key_path path k) ''is required'')) required)"

definition stream_string :: "json option \<Rightarrow> string \<Rightarrow> bool \<Rightarrow> stream_error option" where
  "stream_string v path allowEmpty =
     require (is_string allowEmpty v) (ModelStreamValidationError path
       (if allowEmpty then ''must be a string'' else ''must be a non-empty string''))"

definition stream_boolean :: "json option \<Rightarrow> string \<Rightarrow> stream_error option" where
  "stream_boolean v path = require (is_boolean v) (ModelStreamValidationError path ''must be a boolean'')"

definition stream_nonNegativeNumber :: "json option \<Rightarrow> string \<Rightarrow> bool \<Rightarrow> stream_error option" where
  "stream_nonNegativeNumber v path integer =
     require (is_nonneg_number v \<and> (integer \<longrightarrow> safe_nonneg_int v \<noteq> None))
       (ModelStreamValidationError path
         (if integer then ''must be a non-negative safe integer'' else ''must be a non-negative number''))"

definition optionalPosition :: "json_object \<Rightarrow> string \<Rightarrow> stream_error option" where
  "optionalPosition kvs path =
     when_some (mget kvs ''contentIndex'') (\<lambda>v. stream_nonNegativeNumber (Some v) (key_path path ''contentIndex'') True)"

lemma indexed_size [termination_simp]: "(i, v) \<in> set (indexed vs) \<Longrightarrow> size v < Suc (size_list size (vs :: json list))"
  by (auto simp: in_set_indexed less_Suc_eq_le intro!: size_list_estimation' [of "vs ! i"])

fun stream_validateJson :: "json \<Rightarrow> string \<Rightarrow> stream_error option" where
  "stream_validateJson (JNum n) path = require (is_finite n) (ModelStreamValidationError path ''must be JSON-compatible'')"
| "stream_validateJson (JArr vs) path =
     first_error (map (\<lambda>(i, v). stream_validateJson v (index_path path i)) (indexed vs))"
| "stream_validateJson (JObj kvs) path =
     first_error (map (\<lambda>(k, v). stream_validateJson v (key_path path k)) kvs)"
| "stream_validateJson _ path = None"

definition stream_validateUsage :: "json option \<Rightarrow> string \<Rightarrow> stream_error option" where
  "stream_validateUsage v path =
     stream_object v path (\<lambda>u.
       first_error
         [stream_exact u path [''inputTokens'', ''outputTokens'', ''cacheReadTokens'', ''cacheWriteTokens'']
            [''reasoningTokens'', ''costUsd''],
          first_error (map (\<lambda>k. stream_nonNegativeNumber (mget u k) (key_path path k) True)
            [''inputTokens'', ''outputTokens'', ''cacheReadTokens'', ''cacheWriteTokens'']),
          when_some (mget u ''reasoningTokens'') (\<lambda>x. stream_nonNegativeNumber (Some x) (key_path path ''reasoningTokens'') True),
          when_some (mget u ''costUsd'') (\<lambda>x. stream_nonNegativeNumber (Some x) (key_path path ''costUsd'') False)])"

definition validateResponse :: "json option \<Rightarrow> string \<Rightarrow> stream_error option" where
  "validateResponse v path =
     stream_object v path (\<lambda>r.
       first_error
         [stream_exact r path [''providerId'', ''requestedModelId'']
            [''routedModelId'', ''responseId'', ''nativeStopReason'', ''latencyMs''],
          stream_string (mget r ''providerId'') (key_path path ''providerId'') False,
          stream_string (mget r ''requestedModelId'') (key_path path ''requestedModelId'') False,
          first_error (map (\<lambda>k. when_some (mget r k) (\<lambda>x. stream_string (Some x) (key_path path k) False))
            [''routedModelId'', ''responseId'', ''nativeStopReason'']),
          when_some (mget r ''latencyMs'') (\<lambda>x. stream_nonNegativeNumber (Some x) (key_path path ''latencyMs'') False)])"

definition validateDiagnostic :: "json \<Rightarrow> string \<Rightarrow> stream_error option" where
  "validateDiagnostic item itemPath =
     stream_object (Some item) itemPath (\<lambda>d.
       first_error
         [stream_exact d itemPath [''code'', ''message'', ''severity''] [],
          stream_string (mget d ''code'') (key_path itemPath ''code'') False,
          stream_string (mget d ''message'') (key_path itemPath ''message'') False,
          require (js_string_opt (mget d ''severity'') \<in> set (map severity_str all_severities))
            (ModelStreamValidationError (key_path itemPath ''severity'') ''must be info, warning, or error'')])"

definition validateDiagnostics :: "json option \<Rightarrow> string \<Rightarrow> stream_error option" where
  "validateDiagnostics v path =
     (case v of
        Some (JArr vs) \<Rightarrow> first_error (map (\<lambda>(i, item). validateDiagnostic item (index_path path i)) (indexed vs))
      | _ \<Rightarrow> stream_fail path ''must be an array'')"

definition validateTerminalMetadata :: "json_object \<Rightarrow> string \<Rightarrow> stream_error option" where
  "validateTerminalMetadata event path =
     first_error
       [when_some (mget event ''partial'') (\<lambda>x. stream_boolean (Some x) (key_path path ''partial'')),
        when_some (mget event ''response'') (\<lambda>x. validateResponse (Some x) (key_path path ''response'')),
        when_some (mget event ''diagnostics'') (\<lambda>x. validateDiagnostics (Some x) (key_path path ''diagnostics''))]"

definition check_replay_metadata :: "json_object \<Rightarrow> string \<Rightarrow> stream_error option" where
  "check_replay_metadata event path =
     (let target = mget event ''target''; redacted = mget event ''redacted''; callId = mget event ''callId'' in
      first_error
        [stream_exact event path [''type'', ''target'', ''contentIndex'', ''providerId'', ''apiDialect'', ''modelId'']
           [''callId'', ''signature'', ''redacted'', ''responseId'', ''itemId'', ''namespace''],
         require (js_string_opt target \<in> set (map target_str all_targets))
           (ModelStreamValidationError (key_path path ''target'') ''must be thinking, text, or tool_call''),
         stream_nonNegativeNumber (mget event ''contentIndex'') (key_path path ''contentIndex'') True,
         stream_string (mget event ''providerId'') (key_path path ''providerId'') False,
         stream_string (mget event ''apiDialect'') (key_path path ''apiDialect'') False,
         stream_string (mget event ''modelId'') (key_path path ''modelId'') False,
         first_error (map (\<lambda>k. when_some (mget event k) (\<lambda>x. stream_string (Some x) (key_path path k) False))
           [''callId'', ''signature'', ''responseId'', ''itemId'', ''namespace'']),
         when_some redacted (\<lambda>x. require (is_boolean (Some x))
           (ModelStreamValidationError (key_path path ''redacted'') ''must be a boolean'')),
         require (target = Some (JStr ''thinking'') \<or> redacted = None)
           (ModelStreamValidationError (key_path path ''redacted'') ''is allowed only for thinking replay metadata''),
         require (redacted \<noteq> Some (JBool True) \<or> mhas event ''signature'')
           (ModelStreamValidationError (key_path path ''redacted'') ''requires signed thinking replay metadata''),
         require (target \<noteq> Some (JStr ''tool_call'') \<or> callId \<noteq> None)
           (ModelStreamValidationError (key_path path ''callId'') ''is required for tool_call replay metadata''),
         require (target = Some (JStr ''tool_call'') \<or> callId = None)
           (ModelStreamValidationError (key_path path ''callId'') ''is allowed only for tool_call replay metadata''),
         require (mhas event ''signature'' \<or> mhas event ''responseId'' \<or> mhas event ''itemId'' \<or> mhas event ''namespace'')
           (ModelStreamValidationError path ''must contain replay data'')])"

definition check_error_event :: "json_object \<Rightarrow> string \<Rightarrow> stream_error option" where
  "check_error_event event path =
     first_error
       [stream_exact event path [''type'', ''code'', ''message'', ''retryable'']
          [''partial'', ''category'', ''requestPhase'', ''retryAfterMs'', ''retry'', ''response'', ''diagnostics''],
        stream_string (mget event ''code'') (key_path path ''code'') False,
        stream_string (mget event ''message'') (key_path path ''message'') False,
        stream_boolean (mget event ''retryable'') (key_path path ''retryable''),
        when_some (mget event ''category'') (\<lambda>x. require (js_string x \<in> set (map category_str all_categories))
          (ModelStreamValidationError (key_path path ''category'') ''is not recognized'')),
        when_some (mget event ''requestPhase'') (\<lambda>x. require (js_string x \<in> set (map phase_str all_phases))
          (ModelStreamValidationError (key_path path ''requestPhase'') ''is not recognized'')),
        when_some (mget event ''retryAfterMs'') (\<lambda>x. stream_nonNegativeNumber (Some x) (key_path path ''retryAfterMs'') True),
        validateTerminalMetadata event path,
        when_some (mget event ''retry'') (\<lambda>x. stream_object (Some x) (key_path path ''retry'') (\<lambda>retry.
          (let retryPath = key_path path ''retry'' in
           first_error
             [stream_exact retry retryPath [] [''retryAfterMs'', ''resetAtEpochMs''],
              when_some (mget retry ''retryAfterMs'') (\<lambda>y. stream_nonNegativeNumber (Some y) (key_path retryPath ''retryAfterMs'') True),
              when_some (mget retry ''resetAtEpochMs'') (\<lambda>y. stream_nonNegativeNumber (Some y) (key_path retryPath ''resetAtEpochMs'') True),
              require (mhas retry ''retryAfterMs'' \<or> mhas retry ''resetAtEpochMs'')
                (ModelStreamValidationError retryPath ''must contain retryAfterMs or resetAtEpochMs'')])))]"

definition check_stream_event :: "json_object \<Rightarrow> string \<Rightarrow> stream_error option" where
  "check_stream_event event path =
     first_error
       [stream_string (mget event ''type'') (key_path path ''type'') False,
        (let type = read_str (mget event ''type'') in
         if type = ''text_delta'' \<or> type = ''thinking_delta'' then
           first_error
             [stream_exact event path [''type'', ''text''] [''contentIndex''],
              stream_string (mget event ''text'') (key_path path ''text'') True,
              optionalPosition event path]
         else if type = ''tool_call_start'' then
           first_error
             [stream_exact event path [''type'', ''contentIndex'', ''callId'', ''name''] [],
              stream_nonNegativeNumber (mget event ''contentIndex'') (key_path path ''contentIndex'') True,
              stream_string (mget event ''callId'') (key_path path ''callId'') False,
              stream_string (mget event ''name'') (key_path path ''name'') False]
         else if type = ''tool_call_delta'' then
           first_error
             [stream_exact event path [''type'', ''contentIndex'', ''callId'', ''argumentsDelta''] [],
              stream_nonNegativeNumber (mget event ''contentIndex'') (key_path path ''contentIndex'') True,
              stream_string (mget event ''callId'') (key_path path ''callId'') False,
              stream_string (mget event ''argumentsDelta'') (key_path path ''argumentsDelta'') True]
         else if type = ''tool_call'' then
           first_error
             [stream_exact event path [''type'', ''callId'', ''name'', ''input''] [''contentIndex''],
              stream_string (mget event ''callId'') (key_path path ''callId'') False,
              stream_string (mget event ''name'') (key_path path ''name'') False,
              stream_object (mget event ''input'') (key_path path ''input'') (\<lambda>input.
                stream_validateJson (JObj input) (key_path path ''input'')),
              optionalPosition event path]
         else if type = ''replay_metadata'' then check_replay_metadata event path
         else if type = ''completed'' then
           first_error
             [stream_exact event path [''type'', ''stopReason'', ''usage''] [''partial'', ''response'', ''diagnostics''],
              require (js_string_opt (mget event ''stopReason'') \<in> set (map stop_str all_stop_reasons))
                (ModelStreamValidationError (key_path path ''stopReason'') ''is not recognized''),
              stream_validateUsage (mget event ''usage'') (key_path path ''usage''),
              validateTerminalMetadata event path]
         else if type = ''error'' then check_error_event event path
         else if type = ''aborted'' then
           first_error
             [stream_exact event path [''type''] [''partial''],
              when_some (mget event ''partial'') (\<lambda>x. stream_boolean (Some x) (key_path path ''partial''))]
         else stream_fail (key_path path ''type'') ''is not recognized'')]"

definition parseModelStreamEvent :: "json \<Rightarrow> string \<Rightarrow> stream_error + json" where
  "parseModelStreamEvent v path =
     run_checks [stream_object (Some v) path (\<lambda>event. check_stream_event event path)] v"

section \<open>The object of a stream event\<close>

definition request_fields :: "tool_call_request \<Rightarrow> json_object" where
  "request_fields r = [(''callId'', JStr (req_callId r)), (''name'', JStr (req_name r)), (''input'', JObj (req_input r))]"

definition response_json :: "provider_response_metadata \<Rightarrow> json" where
  "response_json r =
     JObj ([(''providerId'', JStr (resp_providerId r)), (''requestedModelId'', JStr (resp_requestedModelId r))]
       @ opt_field ''routedModelId'' JStr (resp_routedModelId r) @ opt_field ''responseId'' JStr (resp_responseId r)
       @ opt_field ''nativeStopReason'' JStr (resp_nativeStopReason r) @ opt_field ''latencyMs'' JNum (resp_latencyMs r))"

definition diagnostic_json :: "safe_provider_diagnostic \<Rightarrow> json" where
  "diagnostic_json d = JObj [(''code'', JStr (diag_code d)), (''message'', JStr (diag_message d)),
     (''severity'', JStr (severity_str (diag_severity d)))]"

definition diagnostics_json :: "safe_provider_diagnostic list \<Rightarrow> json" where
  "diagnostics_json ds = JArr (map diagnostic_json ds)"

definition guidance_json :: "provider_retry_guidance \<Rightarrow> json" where
  "guidance_json g = JObj (opt_field ''retryAfterMs'' jint (guide_retryAfterMs g)
     @ opt_field ''resetAtEpochMs'' jint (guide_resetAtEpochMs g))"

fun stream_type :: "model_stream_event \<Rightarrow> string" where
  "stream_type (TextDelta t i) = ''text_delta''"
| "stream_type (ThinkingDelta t i) = ''thinking_delta''"
| "stream_type (ToolCallStart i c n) = ''tool_call_start''"
| "stream_type (ToolCallDelta i c a) = ''tool_call_delta''"
| "stream_type (ToolCallEv r i) = ''tool_call''"
| "stream_type (ReplayMetadata m) = ''replay_metadata''"
| "stream_type (Completed s u p r d) = ''completed''"
| "stream_type (StreamErrorEv e) = ''error''"
| "stream_type (Aborted p) = ''aborted''"

fun stream_fields :: "model_stream_event \<Rightarrow> json_object" where
  "stream_fields (TextDelta t i) = [(''text'', JStr t)] @ opt_field ''contentIndex'' jint i"
| "stream_fields (ThinkingDelta t i) = [(''text'', JStr t)] @ opt_field ''contentIndex'' jint i"
| "stream_fields (ToolCallStart i c n) = [(''contentIndex'', jint i), (''callId'', JStr c), (''name'', JStr n)]"
| "stream_fields (ToolCallDelta i c a) = [(''contentIndex'', jint i), (''callId'', JStr c), (''argumentsDelta'', JStr a)]"
| "stream_fields (ToolCallEv r i) = request_fields r @ opt_field ''contentIndex'' jint i"
| "stream_fields (ReplayMetadata m) =
     [(''target'', JStr (target_str (rep_target m))), (''contentIndex'', jint (rep_contentIndex m)),
      (''providerId'', JStr (rep_providerId m)), (''apiDialect'', JStr (rep_apiDialect m)), (''modelId'', JStr (rep_modelId m))]
     @ opt_field ''callId'' JStr (rep_callId m) @ opt_field ''signature'' JStr (rep_signature m)
     @ opt_field ''redacted'' JBool (rep_redacted m) @ opt_field ''responseId'' JStr (rep_responseId m)
     @ opt_field ''itemId'' JStr (rep_itemId m) @ opt_field ''namespace'' JStr (rep_namespace m)"
| "stream_fields (Completed s u p r d) =
     [(''stopReason'', JStr (stop_str s)), (''usage'', usage_json u)] @ opt_field ''partial'' JBool p
     @ opt_field ''response'' response_json r @ opt_field ''diagnostics'' diagnostics_json d"
| "stream_fields (StreamErrorEv e) =
     [(''code'', JStr (err_code e)), (''message'', JStr (err_message e)), (''retryable'', JBool (err_retryable e))]
     @ opt_field ''partial'' JBool (err_partial e)
     @ opt_field ''category'' (\<lambda>c. JStr (category_str c)) (err_category e)
     @ opt_field ''requestPhase'' (\<lambda>p. JStr (phase_str p)) (err_requestPhase e)
     @ opt_field ''retryAfterMs'' jint (err_retryAfterMs e) @ opt_field ''retry'' guidance_json (err_retry e)
     @ opt_field ''response'' response_json (err_response e) @ opt_field ''diagnostics'' diagnostics_json (err_diagnostics e)"
| "stream_fields (Aborted p) = opt_field ''partial'' JBool p"

definition stream_json :: "model_stream_event \<Rightarrow> json" where
  "stream_json e = JObj ((''type'', JStr (stream_type e)) # stream_fields e)"

section \<open>Well-formed stream events\<close>

fun finite_json :: "json \<Rightarrow> bool" where
  "finite_json (JNum n) = is_finite n"
| "finite_json (JArr vs) = list_all finite_json vs"
| "finite_json (JObj kvs) = list_all (\<lambda>(k, v). finite_json v) kvs"
| "finite_json _ = True"

definition wf_response :: "provider_response_metadata \<Rightarrow> bool" where
  "wf_response r \<longleftrightarrow> nonempty (resp_providerId r) \<and> nonempty (resp_requestedModelId r)
     \<and> opt_ok nonempty (resp_routedModelId r) \<and> opt_ok nonempty (resp_responseId r)
     \<and> opt_ok nonempty (resp_nativeStopReason r) \<and> opt_ok (\<lambda>n. is_finite n \<and> \<not> num_negative n) (resp_latencyMs r)"

definition wf_diagnostic :: "safe_provider_diagnostic \<Rightarrow> bool" where
  "wf_diagnostic d \<longleftrightarrow> nonempty (diag_code d) \<and> nonempty (diag_message d)"

definition wf_guidance :: "provider_retry_guidance \<Rightarrow> bool" where
  "wf_guidance g \<longleftrightarrow> opt_ok safe_nat (guide_retryAfterMs g) \<and> opt_ok safe_nat (guide_resetAtEpochMs g)
     \<and> (guide_retryAfterMs g \<noteq> None \<or> guide_resetAtEpochMs g \<noteq> None)"

definition wf_replay :: "provider_replay_metadata \<Rightarrow> bool" where
  "wf_replay m \<longleftrightarrow> safe_nat (rep_contentIndex m) \<and> nonempty (rep_providerId m) \<and> nonempty (rep_apiDialect m)
     \<and> nonempty (rep_modelId m) \<and> list_all (opt_ok nonempty) [rep_callId m, rep_signature m, rep_responseId m, rep_itemId m, rep_namespace m]
     \<and> (rep_redacted m \<noteq> None \<longrightarrow> rep_target m = TargetThinking)
     \<and> (rep_redacted m = Some True \<longrightarrow> rep_signature m \<noteq> None)
     \<and> (rep_target m = TargetToolCall \<longleftrightarrow> rep_callId m \<noteq> None)
     \<and> (rep_signature m \<noteq> None \<or> rep_responseId m \<noteq> None \<or> rep_itemId m \<noteq> None \<or> rep_namespace m \<noteq> None)"

fun wf_stream_event :: "model_stream_event \<Rightarrow> bool" where
  "wf_stream_event (TextDelta t i) = opt_ok safe_nat i"
| "wf_stream_event (ThinkingDelta t i) = opt_ok safe_nat i"
| "wf_stream_event (ToolCallStart i c n) = (safe_nat i \<and> nonempty c \<and> nonempty n)"
| "wf_stream_event (ToolCallDelta i c a) = (safe_nat i \<and> nonempty c)"
| "wf_stream_event (ToolCallEv r i) =
     (nonempty (req_callId r) \<and> nonempty (req_name r) \<and> finite_json (JObj (req_input r)) \<and> opt_ok safe_nat i)"
| "wf_stream_event (ReplayMetadata m) = wf_replay m"
| "wf_stream_event (Completed s u p r d) = (wf_usage u \<and> opt_ok wf_response r \<and> opt_ok (list_all wf_diagnostic) d)"
| "wf_stream_event (StreamErrorEv e) =
     (nonempty (err_code e) \<and> nonempty (err_message e) \<and> opt_ok safe_nat (err_retryAfterMs e) \<and> opt_ok wf_guidance (err_retry e)
      \<and> opt_ok wf_response (err_response e) \<and> opt_ok (list_all wf_diagnostic) (err_diagnostics e))"
| "wf_stream_event (Aborted p) = True"

section \<open>Token estimates\<close>

fun item_characters :: "content_item \<Rightarrow> nat" where
  "item_characters (Text t) = length t"
| "item_characters (Thinking t) = length t"
| "item_characters (Blob b) = 4800"

definition ceil4 :: "nat \<Rightarrow> nat" where
  "ceil4 n = (n + 3) div 4"

fun estimateModelMessageTokens :: "model_message \<Rightarrow> nat" where
  "estimateModelMessageTokens (UserMsg content) = ceil4 (sum_list (map item_characters content))"
| "estimateModelMessageTokens (AssistantMsg content calls) =
     ceil4 (sum_list (map item_characters content)
       + sum_list (map (\<lambda>c. length (req_name c) + length (json_text (JObj (req_input c))))
           (case calls of None \<Rightarrow> [] | Some cs \<Rightarrow> cs)))"
| "estimateModelMessageTokens (ToolMsg callId name content isError) =
     ceil4 (sum_list (map item_characters content) + length name)"

definition declaration_json :: "tool_declaration \<Rightarrow> json" where
  "declaration_json d = JObj [(''name'', JStr (decl_name d)), (''description'', JStr (decl_description d)),
     (''inputSchema'', JObj (decl_inputSchema d))]"

definition estimateModelInputTokens :: "string option \<Rightarrow> model_message list \<Rightarrow> tool_declaration list option \<Rightarrow> nat" where
  "estimateModelInputTokens system messages tools =
     ceil4 (case system of None \<Rightarrow> 0 | Some s \<Rightarrow> length s)
     + sum_list (map estimateModelMessageTokens messages)
     + (case tools of
          None \<Rightarrow> 0
        | Some ts \<Rightarrow> if ts = [] then 0 else ceil4 (length (json_text (JArr (map declaration_json ts)))))"

section \<open>What the validators accept\<close>

lemma stream_exact_None [check_simps]:
  "stream_exact kvs path req opt = None \<longleftrightarrow> fst ` set kvs \<subseteq> set req \<union> set opt \<and> (\<forall>k \<in> set req. mhas kvs k)"
  by (simp add: stream_exact_def first_error_None ball_Un image_subset_iff case_prod_beta)

lemma stream_string_None [check_simps]:
  "stream_string v path ae = None \<longleftrightarrow> (\<exists>s. v = Some (JStr s) \<and> (ae \<or> s \<noteq> []))"
  by (cases "(ae, v)" rule: is_string.cases) (auto simp: stream_string_def)

lemma stream_boolean_None [check_simps]: "stream_boolean v path = None \<longleftrightarrow> (\<exists>b. v = Some (JBool b))"
  by (cases v rule: is_boolean.cases) (auto simp: stream_boolean_def)

lemma stream_number_None [check_simps]:
  "stream_nonNegativeNumber v path True = None \<longleftrightarrow> (\<exists>i. v = Some (JNum (JInt i)) \<and> safe_nat i)"
  "stream_nonNegativeNumber v path False = None \<longleftrightarrow> (\<exists>n. v = Some (JNum n) \<and> is_finite n \<and> \<not> num_negative n)"
  by (cases v rule: is_nonneg_number.cases; auto simp: stream_nonNegativeNumber_def safe_nonneg_int_Some safe_nat_def)+

lemma stream_object_None [check_simps]:
  "stream_object v path k = None \<longleftrightarrow> (\<exists>kvs. v = Some (JObj kvs) \<and> k kvs = None)"
  by (auto simp: stream_object_def stream_fail_def split: option.splits json.splits)

lemma stream_validateJson_None [check_simps]: "stream_validateJson v path = None \<longleftrightarrow> finite_json v"
proof (induction v arbitrary: path)
  case (JArr vs)
  then show ?case by (simp add: first_error_None ball_indexed list_all_length)
next
  case (JObj kvs)
  then show ?case by (fastforce simp: first_error_None list_all_iff)
qed simp_all

lemmas stream_facts = check_simps Let_def mhas_def jint_def opt_ok_iff nonempty_def safe_nat_def
  optionalPosition_def

lemma stream_usage_json: "stream_validateUsage (Some (usage_json u)) path = None \<longleftrightarrow> wf_usage u"
  by (auto simp: stream_validateUsage_def usage_json_def wf_usage_def stream_facts)

lemma response_json_ok: "validateResponse (Some (response_json r)) path = None \<longleftrightarrow> wf_response r"
  by (auto simp: validateResponse_def response_json_def wf_response_def stream_facts)

lemma diagnostics_json_ok: "validateDiagnostics (Some (diagnostics_json ds)) path = None \<longleftrightarrow> list_all wf_diagnostic ds"
proof -
  have "validateDiagnostic (diagnostic_json d) p = None \<longleftrightarrow> wf_diagnostic d" for d p
    by (cases "diag_severity d")
      (auto simp: validateDiagnostic_def diagnostic_json_def wf_diagnostic_def js_string_opt_def all_severities_def stream_facts)
  then show ?thesis
    by (auto simp: validateDiagnostics_def diagnostics_json_def first_error_None ball_indexed list_all_length)
qed

lemma optional_int_accepted:
  "opt_ok safe_nat x \<Longrightarrow> x = Some i \<Longrightarrow> stream_nonNegativeNumber (Some (jint i)) path True = None"
  by (auto simp: stream_number_None jint_def opt_ok_def)

lemma guidance_accepted:
  assumes "opt_ok wf_guidance x" and "x = Some g"
  shows "stream_object (Some (guidance_json g)) path (\<lambda>retry.
          (let retryPath = path in
           first_error
             [stream_exact retry retryPath [] [''retryAfterMs'', ''resetAtEpochMs''],
              when_some (mget retry ''retryAfterMs'') (\<lambda>y. stream_nonNegativeNumber (Some y) (key_path retryPath ''retryAfterMs'') True),
              when_some (mget retry ''resetAtEpochMs'') (\<lambda>y. stream_nonNegativeNumber (Some y) (key_path retryPath ''resetAtEpochMs'') True),
              require (mhas retry ''retryAfterMs'' \<or> mhas retry ''resetAtEpochMs'')
                (ModelStreamValidationError retryPath ''must contain retryAfterMs or resetAtEpochMs'')])) = None"
  using assms by (auto simp: guidance_json_def wf_guidance_def stream_facts)

lemma terminal_metadata_ok:
  assumes "mget kvs ''partial'' = map_option JBool p" "mget kvs ''response'' = map_option response_json r"
    "mget kvs ''diagnostics'' = map_option diagnostics_json d" "opt_ok wf_response r" "opt_ok (list_all wf_diagnostic) d"
  shows "validateTerminalMetadata kvs path = None"
  using assms by (auto simp: validateTerminalMetadata_def check_simps response_json_ok diagnostics_json_ok opt_ok_iff)

lemma when_some_map [simp]: "when_some (map_option f x) g = when_some x (\<lambda>v. g (f v))"
  by (cases x) simp_all

lemma mhas_map: "mget kvs k = map_option f x \<Longrightarrow> mhas kvs k \<longleftrightarrow> x \<noteq> None"
  by (simp add: mhas_def)

lemma optional_nonempty_ok:
  "opt_ok nonempty x \<Longrightarrow> when_some x (\<lambda>v. stream_string (Some (JStr v)) path False) = None"
  by (cases x) (auto simp: stream_string_None opt_ok_def nonempty_def)

lemma replay_metadata_accepted:
  assumes w: "wf_replay m" and K: "K = (''type'', JStr ''replay_metadata'') # stream_fields (ReplayMetadata m)"
  shows "check_replay_metadata K path = None"
proof -
  have t: "js_string (JStr (target_str (rep_target m))) \<in> target_str ` set all_targets"
    by (cases "rep_target m") (simp_all add: all_targets_def)
  have tt: "target_str (rep_target m) = ''thinking'' \<longleftrightarrow> rep_target m = TargetThinking"
    "target_str (rep_target m) = ''tool_call'' \<longleftrightarrow> rep_target m = TargetToolCall"
    by (cases "rep_target m"; simp)+
  have g: "mget K ''target'' = Some (JStr (target_str (rep_target m)))" "mget K ''contentIndex'' = Some (jint (rep_contentIndex m))"
    "mget K ''providerId'' = Some (JStr (rep_providerId m))" "mget K ''apiDialect'' = Some (JStr (rep_apiDialect m))"
    "mget K ''modelId'' = Some (JStr (rep_modelId m))" by (simp_all add: K)
  have o: "mget K ''callId'' = map_option JStr (rep_callId m)" "mget K ''signature'' = map_option JStr (rep_signature m)"
    "mget K ''redacted'' = map_option JBool (rep_redacted m)" "mget K ''responseId'' = map_option JStr (rep_responseId m)"
    "mget K ''itemId'' = map_option JStr (rep_itemId m)" "mget K ''namespace'' = map_option JStr (rep_namespace m)"
    by (simp_all add: K)
  have x: "stream_exact K path [''type'', ''target'', ''contentIndex'', ''providerId'', ''apiDialect'', ''modelId'']
      [''callId'', ''signature'', ''redacted'', ''responseId'', ''itemId'', ''namespace''] = None"
    by (auto simp: stream_exact_None K mhas_def)
  have r: "when_some (rep_redacted m) (\<lambda>v. None) = None"
    by (cases "rep_redacted m") simp_all
  note mh = o(2,4,5,6) [THEN mhas_map]
  note parts = w [unfolded wf_replay_def list.pred_inject]
  have c: "rep_target m = TargetThinking \<or> rep_redacted m = None" "rep_redacted m \<noteq> Some True \<or> rep_signature m \<noteq> None"
    "rep_target m \<noteq> TargetToolCall \<or> rep_callId m \<noteq> None" "rep_target m = TargetToolCall \<or> rep_callId m = None"
    "rep_signature m \<noteq> None \<or> rep_responseId m \<noteq> None \<or> rep_itemId m \<noteq> None \<or> rep_namespace m \<noteq> None"
    using parts by blast+
  have n: "opt_ok nonempty (rep_callId m)" "opt_ok nonempty (rep_signature m)" "opt_ok nonempty (rep_responseId m)"
    "opt_ok nonempty (rep_itemId m)" "opt_ok nonempty (rep_namespace m)" using parts by simp_all
  have q: "stream_nonNegativeNumber (Some (jint (rep_contentIndex m))) p True = None"
    "stream_string (Some (JStr (rep_providerId m))) p False = None" "stream_string (Some (JStr (rep_apiDialect m))) p False = None"
    "stream_string (Some (JStr (rep_modelId m))) p False = None" for p
    using parts by (simp_all add: stream_number_None stream_string_None jint_def nonempty_def)
  have z: "map_option JBool (rep_redacted m) = Some (JBool True) \<longleftrightarrow> rep_redacted m = Some True" by auto
  show ?thesis
    unfolding check_replay_metadata_def Let_def g o js_string_opt_def option.case mh
    using c by (simp add: first_error_None o x t tt r q n z optional_nonempty_ok del: js_string.simps not_None_eq) metis
qed

lemma error_event_accepted:
  assumes w: "wf_stream_event (StreamErrorEv x)" and K: "K = (''type'', JStr ''error'') # stream_fields (StreamErrorEv x)"
  shows "check_error_event K path = None"
proof -
  have cat: "js_string (JStr (category_str c)) \<in> category_str ` set all_categories" for c
    by (cases c) (simp_all add: all_categories_def)
  have ph: "js_string (JStr (phase_str c)) \<in> phase_str ` set all_phases" for c by (cases c) (simp_all add: all_phases_def)
  have o: "mget K ''category'' = map_option (\<lambda>c. JStr (category_str c)) (err_category x)"
    "mget K ''requestPhase'' = map_option (\<lambda>p. JStr (phase_str p)) (err_requestPhase x)"
    "mget K ''retryAfterMs'' = map_option jint (err_retryAfterMs x)" "mget K ''retry'' = map_option guidance_json (err_retry x)"
    "mget K ''code'' = Some (JStr (err_code x))" "mget K ''message'' = Some (JStr (err_message x))"
    "mget K ''retryable'' = Some (JBool (err_retryable x))"
    by (simp_all add: K)
  have x: "stream_exact K path [''type'', ''code'', ''message'', ''retryable'']
      [''partial'', ''category'', ''requestPhase'', ''retryAfterMs'', ''retry'', ''response'', ''diagnostics''] = None"
    by (auto simp: stream_exact_None mhas_def K)
  have tm: "validateTerminalMetadata K path = None"
    using w by (intro terminal_metadata_ok [of _ "err_partial x" "err_response x" "err_diagnostics x"]) (simp_all add: K)
  have n: "err_code x \<noteq> []" "err_message x \<noteq> []" "opt_ok safe_nat (err_retryAfterMs x)" "opt_ok wf_guidance (err_retry x)"
    using w by (simp_all add: nonempty_def)
  show ?thesis
    unfolding check_error_event_def o when_some_map
    using n by (simp add: first_error_None x tm cat ph stream_string_None stream_boolean_None when_some_None_iff
        guidance_accepted [OF n(4), simplified Let_def] optional_int_accepted [OF n(3)] Let_def del: js_string.simps)
qed

lemma stream_event_accepted:
  assumes "wf_stream_event e"
  shows "check_stream_event ((''type'', JStr (stream_type e)) # stream_fields e) path = None"
proof (cases e)
  case (ReplayMetadata m)
  then show ?thesis using assms replay_metadata_accepted [of m, OF _ refl]
    by (simp add: check_stream_event_def first_error_None stream_string_None del: stream_fields.simps)
next
  case (Completed s u p r d)
  have "stop_str s \<in> set (map stop_str all_stop_reasons)" by (cases s) (simp_all add: all_stop_reasons_def)
  then show ?thesis
    using assms Completed terminal_metadata_ok [of "(''type'', JStr (stream_type e)) # stream_fields e" p r d path]
    by (auto simp: check_stream_event_def js_string_opt_def stream_usage_json stream_facts)
next
  case (StreamErrorEv x)
  then show ?thesis using assms error_event_accepted [of x, OF _ refl]
    by (simp add: check_stream_event_def first_error_None stream_string_None del: stream_fields.simps)
qed (use assms in \<open>auto simp: check_stream_event_def request_fields_def stream_facts list_all_iff\<close>)

lemma parse_stream_json: "wf_stream_event e \<Longrightarrow> parseModelStreamEvent (stream_json e) path = Inr (stream_json e)"
  using stream_event_accepted [of e path]
  by (simp add: parseModelStreamEvent_def stream_json_def stream_object_def run_checks_def)

section \<open>Estimates\<close>

lemma ceil4_mono: "m \<le> n \<Longrightarrow> ceil4 m \<le> ceil4 n"
  by (simp add: ceil4_def div_le_mono)

lemma ceil4_bounds: "n \<le> 4 * ceil4 n" "4 * ceil4 n \<le> n + 3"
  by (simp_all add: ceil4_def)

lemma estimate_append:
  "estimateModelInputTokens sys (ms @ ns) tools =
     estimateModelInputTokens sys ms tools + sum_list (map estimateModelMessageTokens ns)"
  by (simp add: estimateModelInputTokens_def)

section \<open>Properties\<close>

text \<open>
  Every well-formed provider event, of each of the nine kinds and with every optional field, is
  accepted by \<^verbatim>\<open>parseModelStreamEvent\<close>, which hands it on unchanged.
\<close>

theorem stream_event_complete:
  assumes "wf_stream_event e"
  shows "parseModelStreamEvent (stream_json e) path = Inr (stream_json e)"
  using assms by (rule parse_stream_json)

definition ex_failure :: model_stream_event where
  "ex_failure = StreamErrorEv
     \<lparr>err_code = ''rate_limited'', err_message = ''slow down'', err_retryable = True, err_partial = None,
      err_category = Some RateLimit, err_requestPhase = Some AwaitingResponse, err_retryAfterMs = Some 500,
      err_retry = Some \<lparr>guide_retryAfterMs = Some 500, guide_resetAtEpochMs = None\<rparr>,
      err_response = None, err_diagnostics = None\<rparr>"

theorem stream_event_complete_witness:
  "parseModelStreamEvent (stream_json ex_failure) ''event'' = Inr (stream_json ex_failure)"
proof -
  have "wf_stream_event ex_failure" by code_simp
  then show ?thesis by (rule stream_event_complete)
qed

definition ex_array_stop :: json where
  "ex_array_stop = JObj [(''type'', JStr ''completed''), (''stopReason'', JArr [JStr ''stop'']),
     (''usage'', JObj [(''inputTokens'', jint 1), (''outputTokens'', jint 1), (''cacheReadTokens'', jint 0), (''cacheWriteTokens'', jint 0)])]"

text \<open>
  The names of stop reasons are compared after \<^verbatim>\<open>String(x)\<close>, so an array holding the name is
  accepted in its place and reaches the kernel as an array.
\<close>

theorem stop_reason_not_a_string: "parseModelStreamEvent ex_array_stop path = Inr ex_array_stop"
  by (simp add: parseModelStreamEvent_def run_checks_Inr stream_object_def ex_array_stop_def check_stream_event_def
      first_error_None check_simps js_string_opt_def all_stop_reasons_def stream_validateUsage_def validateTerminalMetadata_def
      jint_def safe_nat_def max_safe_integer_def mhas_def)

text \<open>
  The levels offered for a model are among the seven levels in their order; \<^verbatim>\<open>off\<close> alone without
  reasoning; with reasoning, a level mapped to null is never offered and the two highest only when mapped.
\<close>

theorem supported_levels_exact:
  "subseq (supportedThinkingLevels model) THINKING_LEVELS
   \<and> (level \<in> set (supportedThinkingLevels model) \<longleftrightarrow>
       (if mts_reasoning model
        then mapped_level model level \<noteq> Some None \<and> (level \<in> {ThinkXhigh, ThinkMax} \<longrightarrow> mapped_level model level \<noteq> None)
        else level = ThinkOff))"
  using in_thinking_levels [of level]
  by (auto simp: supportedThinkingLevels_def Let_def THINKING_LEVELS_def intro: subseq_filter_left)

definition ex_thinking :: model_thinking_support where
  "ex_thinking = \<lparr>mts_reasoning = True, mts_thinkingLevelMap = Some [(ThinkXhigh, Some ''x''), (ThinkLow, None)]\<rparr>"

theorem supported_levels_exact_witness:
  "ThinkXhigh \<in> set (supportedThinkingLevels ex_thinking) \<and> ThinkLow \<notin> set (supportedThinkingLevels ex_thinking)"
  using supported_levels_exact [of ex_thinking ThinkXhigh] supported_levels_exact [of ex_thinking ThinkLow]
  by (simp add: ex_thinking_def mapped_level_def)

end
