(* ===== verification/Compaction.thy ===== *)
theory Compaction
  imports Model_Stream Session_Tree
begin

text \<open>
  Context projection and compaction (\<^verbatim>\<open>packages/kernel/src/compaction.ts\<close>): how a lineage becomes
  the messages sent to the model, which prefix a compaction replaces, and the prompt and result of
  the summarising request. The group a tool call is added to is an alias into the group list; the
  model keeps its index.
\<close>

section \<open>Definitions\<close>

definition nl :: string where
  "nl = [CHR 0x0A]"

definition DEFAULT_COMPACTION_KEEP_RECENT_TOKENS :: nat where
  "DEFAULT_COMPACTION_KEEP_RECENT_TOKENS = 20000"

definition DEFAULT_COMPACTION_MAX_OUTPUT_TOKENS :: nat where
  "DEFAULT_COMPACTION_MAX_OUTPUT_TOKENS = 4096"

definition TOOL_RESULT_MAX_CHARACTERS :: nat where
  "TOOL_RESULT_MAX_CHARACTERS = 2000"

definition COMPACTION_SUMMARY_PREFIX :: string where
  "COMPACTION_SUMMARY_PREFIX =
     ''Earlier conversation history was compacted into this continuation summary:'' @ nl @ nl @ ''<summary>'' @ nl"

definition COMPACTION_SUMMARY_SUFFIX :: string where
  "COMPACTION_SUMMARY_SUFFIX = nl @ ''</summary>''"

definition SUMMARIZATION_SYSTEM_PROMPT :: string where
  "SUMMARIZATION_SYSTEM_PROMPT =
     ''Summarize the supplied conversation for another assistant. Do not continue the conversation or answer its questions. Return only the requested continuation summary.''"

record context_group =
  ctx_message :: model_message
  ctx_eventIds :: "string list"

record projected_context =
  proj_previous :: "canonical_event option"
  proj_groups :: "context_group list"

record compaction_plan =
  plan_messagesToSummarize :: "model_message list"
  plan_previousSummary :: "string option"
  plan_replacedEventIds :: "string list"
  plan_splitTurn :: bool

fun compacted_ids :: "payload \<Rightarrow> string list option" where
  "compacted_ids (ContextCompacted summary ids u) = Some ids"
| "compacted_ids _ = None"

fun compacted_summary :: "payload \<Rightarrow> string" where
  "compacted_summary (ContextCompacted summary ids u) = summary"
| "compacted_summary _ = []"

definition is_compaction :: "canonical_event \<Rightarrow> bool" where
  "is_compaction e \<longleftrightarrow> compacted_ids (ev_payload e) \<noteq> None"

definition replaced_ids :: "canonical_event \<Rightarrow> string list" where
  "replaced_ids e = (case compacted_ids (ev_payload e) of None \<Rightarrow> [] | Some ids \<Rightarrow> ids)"

text \<open>\<^verbatim>\<open>new Map(events.map(...))\<close>: a later event of the same id would win.\<close>

definition by_id :: "canonical_event list \<Rightarrow> (string, nat \<times> canonical_event) jsmap" where
  "by_id events = foldl (\<lambda>m (i, e). mput m (ev_id e) (i, e)) [] (indexed events)"

definition non_ancestor :: "string \<Rightarrow> string \<Rightarrow> replay_error" where
  "non_ancestor cid eid = ReplayError (''Compaction '' @ cid @ '' replaces non-ancestor event '' @ eid)"

text \<open>
  The work list of \<^verbatim>\<open>replacementClosure\<close>: \<^verbatim>\<open>pop\<close> takes the last pending id, and the ids of a
  replaced compaction are pushed at the end. The head of the list is the end of the array.
\<close>

function closure_loop :: "(string, nat \<times> canonical_event) jsmap \<Rightarrow> string \<Rightarrow> int \<Rightarrow> string list \<Rightarrow> string list \<Rightarrow>
  replay_error + string list" where
  "closure_loop byId cid limit hidden pending =
     (case pending of
        [] \<Rightarrow> Inr hidden
      | eid # rest \<Rightarrow>
          if eid \<in> set hidden then closure_loop byId cid limit hidden rest
          else
            (case mget byId eid of
               None \<Rightarrow> Inl (non_ancestor cid eid)
             | Some (index, event) \<Rightarrow>
                 if limit \<le> int index then Inl (non_ancestor cid eid)
                 else closure_loop byId cid limit (hidden @ [eid]) (rev (replaced_ids event) @ rest)))"
  by pat_completeness auto

termination
proof (relation "measures [\<lambda>(byId, cid, limit, hidden, pending). card (set (mkeys byId) - set hidden),
    \<lambda>(byId, cid, limit, hidden, pending). length pending]", goal_cases)
  case (3 byId cid limit hidden pending eid rest p index event)
  have "eid \<in> set (mkeys byId) - set hidden" using 3 by (simp add: jsmap.keys_get)
  then have "card (set (mkeys byId) - set (hidden @ [eid])) < card (set (mkeys byId) - set hidden)"
    by (intro psubset_card_mono) auto
  then show ?case by simp
qed simp_all

declare closure_loop.simps [simp del]

definition replacementClosure :: "canonical_event list \<Rightarrow> canonical_event \<Rightarrow> replay_error + string list" where
  "replacementClosure events compaction =
     (let byId = by_id events;
          compactionIndex = (case mget byId (ev_id compaction) of None \<Rightarrow> - 1 | Some (i, _) \<Rightarrow> int i) in
      closure_loop byId (ev_id compaction) compactionIndex [] (rev (replaced_ids compaction)))"

type_synonym group_state = "context_group list \<times> nat option"

definition user_group :: "canonical_event \<Rightarrow> content_item list \<Rightarrow> context_group" where
  "user_group event content = \<lparr>ctx_message = UserMsg content, ctx_eventIds = [ev_id event]\<rparr>"

fun item_text :: "content_item \<Rightarrow> string" where
  "item_text (Text t) = t"
| "item_text (Thinking t) = t"
| "item_text (Blob b) = []"

definition is_text :: "content_item \<Rightarrow> bool" where
  "is_text c = (case c of Text _ \<Rightarrow> True | _ \<Rightarrow> False)"

definition is_thinking :: "content_item \<Rightarrow> bool" where
  "is_thinking c = (case c of Thinking _ \<Rightarrow> True | _ \<Rightarrow> False)"

definition model_tool_name :: "string \<Rightarrow> string" where
  "model_tool_name name = (if name = ''shell'' then ''bash'' else name)"

definition add_tool_call :: "tool_call_request \<Rightarrow> string \<Rightarrow> context_group \<Rightarrow> context_group" where
  "add_tool_call call eid g =
     (case ctx_message g of
        AssistantMsg content (Some calls) \<Rightarrow>
          \<lparr>ctx_message = AssistantMsg content (Some (calls @ [call])), ctx_eventIds = ctx_eventIds g @ [eid]\<rparr>
      | _ \<Rightarrow> g\<lparr>ctx_eventIds := ctx_eventIds g @ [eid]\<rparr>)"

definition project_step :: "group_state \<Rightarrow> canonical_event \<Rightarrow> replay_error + group_state" where
  "project_step = (\<lambda>(groups, assistant) event.
     (case ev_payload event of
        UserMessage content \<Rightarrow> Inr (groups @ [user_group event content], None)
      | UserShell command content isError excluded \<Rightarrow>
          Inr (if excluded then groups
               else groups @ [user_group event
                 [Text (''[shell]'' @ nl @ ''$ '' @ command @ nl @ concat (map item_text (filter is_text content)))]], None)
      | AssistantMessage content stopReason u errorMessage \<Rightarrow>
          Inr (groups @ [\<lparr>ctx_message = AssistantMsg content (Some []), ctx_eventIds = [ev_id event]\<rparr>], Some (length groups))
      | ToolCall callId name input \<Rightarrow>
          (case assistant of
             None \<Rightarrow> Inl (ReplayError (''Tool call '' @ ev_id event @ '' has no preceding assistant turn''))
           | Some i \<Rightarrow>
               Inr (groups[i := add_tool_call \<lparr>req_callId = callId, req_name = model_tool_name name, req_input = input\<rparr>
                       (ev_id event) (groups ! i)], Some i))
      | ToolResult callId name content isError details \<Rightarrow>
          Inr (groups @ [\<lparr>ctx_message = ToolMsg callId (model_tool_name name) content isError, ctx_eventIds = [ev_id event]\<rparr>], assistant)
      | ContextInjected source content \<Rightarrow>
          Inr (groups @ [user_group event [Text (''['' @ source @ '']'' @ nl @ content)]], None)
      | ContextCompacted summary ids u \<Rightarrow> Inr (groups, None)
      | _ \<Rightarrow> Inr (groups, assistant)))"

definition project_groups :: "canonical_event list \<Rightarrow> replay_error + context_group list" where
  "project_groups events = bindE (foldE project_step ([], None) events) (\<lambda>(groups, _). Inr groups)"

definition compaction_name :: "canonical_event option \<Rightarrow> string" where
  "compaction_name prev = (case prev of None \<Rightarrow> ''<unknown>'' | Some c \<Rightarrow> ev_id c)"

text \<open>The second loop: the visible groups so far and whether a hidden group was met.\<close>

definition hide_step :: "canonical_event option \<Rightarrow> string set \<Rightarrow> context_group list \<times> bool \<Rightarrow> context_group \<Rightarrow>
  replay_error + (context_group list \<times> bool)" where
  "hide_step prev hidden = (\<lambda>(visible, found) group.
     (let hiddenCount = length (filter (\<lambda>i. i \<in> hidden) (ctx_eventIds group)) in
      if 0 < hiddenCount \<and> hiddenCount < length (ctx_eventIds group) then
        Inl (ReplayError (''Compaction '' @ compaction_name prev @ '' splits a model message group''))
      else if 0 < hiddenCount then
        (if visible \<noteq> [] then Inl (ReplayError (''Compaction '' @ compaction_name prev @ '' replaces a non-prefix message''))
         else Inr (visible, True))
      else Inr (visible @ [group], found)))"

definition last_compaction :: "canonical_event list \<Rightarrow> canonical_event option" where
  "last_compaction events = find is_compaction (rev events)"

definition projectContext :: "canonical_event list \<Rightarrow> replay_error + projected_context" where
  "projectContext events =
     (let previous = last_compaction events in
      bindE (case previous of None \<Rightarrow> Inr [] | Some c \<Rightarrow> replacementClosure events c) (\<lambda>hidden.
      bindE (project_groups events) (\<lambda>groups.
      bindE (foldE (hide_step previous (set hidden)) ([], False) groups) (\<lambda>(visible, found).
      case previous of
        Some c \<Rightarrow>
          if \<not> found then Inl (ReplayError (''Compaction '' @ ev_id c @ '' replaces no model-visible events''))
          else Inr \<lparr>proj_previous = previous, proj_groups = visible\<rparr>
      | None \<Rightarrow> Inr \<lparr>proj_previous = None, proj_groups = visible\<rparr>))))"

definition summary_message :: "canonical_event \<Rightarrow> model_message" where
  "summary_message c =
     UserMsg [Text (COMPACTION_SUMMARY_PREFIX @ compacted_summary (ev_payload c) @ COMPACTION_SUMMARY_SUFFIX)]"

definition empty_assistant :: "model_message \<Rightarrow> bool" where
  "empty_assistant m =
     (case m of AssistantMsg content calls \<Rightarrow> content = [] \<and> (case calls of None \<Rightarrow> True | Some cs \<Rightarrow> cs = []) | _ \<Rightarrow> False)"

definition visible_messages :: "context_group list \<Rightarrow> model_message list" where
  "visible_messages groups = filter (\<lambda>m. \<not> empty_assistant m) (map ctx_message groups)"

definition messagesFromCompactedLineage :: "canonical_event list \<Rightarrow> replay_error + model_message list" where
  "messagesFromCompactedLineage events =
     bindE (projectContext events) (\<lambda>p.
     Inr ((case proj_previous p of None \<Rightarrow> [] | Some c \<Rightarrow> [summary_message c]) @ visible_messages (proj_groups p)))"

section \<open>Planning\<close>

datatype prepare_error = KeepRecentTokensError | PrepareReplay replay_error

text \<open>Scans from the last group down; the argument \<open>n\<close> is one more than the index.\<close>

fun crossed_at :: "context_group list \<Rightarrow> nat \<Rightarrow> nat \<Rightarrow> int \<Rightarrow> nat option" where
  "crossed_at groups 0 accumulated keep = None"
| "crossed_at groups (Suc index) accumulated keep =
     (let accumulated' = accumulated + estimateModelMessageTokens (ctx_message (groups ! index)) in
      if keep \<le> int accumulated' then Some index else crossed_at groups index accumulated' keep)"

definition is_tool_message :: "model_message \<Rightarrow> bool" where
  "is_tool_message m = (case m of ToolMsg _ _ _ _ \<Rightarrow> True | _ \<Rightarrow> False)"

definition first_kept_from :: "context_group list \<Rightarrow> nat \<Rightarrow> nat option" where
  "first_kept_from groups crossed =
     find (\<lambda>i. \<not> is_tool_message (ctx_message (groups ! i))) [crossed..<length groups]"

definition positive_safe_integer :: "jsnum \<Rightarrow> bool" where
  "positive_safe_integer n \<longleftrightarrow> is_safe_integer n \<and> (case n of JInt i \<Rightarrow> 1 \<le> i | _ \<Rightarrow> False)"

fun jsnum_int :: "jsnum \<Rightarrow> int" where
  "jsnum_int (JInt i) = i"
| "jsnum_int _ = 0"

definition prepareCompaction :: "canonical_event list \<Rightarrow> jsnum \<Rightarrow> prepare_error + compaction_plan option" where
  "prepareCompaction events keepRecentTokens =
     (if \<not> positive_safe_integer keepRecentTokens then Inl KeepRecentTokensError
      else if events \<noteq> [] \<and> is_compaction (last events) then Inr None
      else
        (case projectContext events of
           Inl e \<Rightarrow> Inl (PrepareReplay e)
         | Inr projected \<Rightarrow>
             (let groups = proj_groups projected in
              case crossed_at groups (length groups) 0 (jsnum_int keepRecentTokens) of
                None \<Rightarrow> Inr None
              | Some crossed \<Rightarrow>
                  (case first_kept_from groups crossed of
                     None \<Rightarrow> Inr None
                   | Some firstKept \<Rightarrow>
                       if firstKept = 0 then Inr None
                       else
                         (let compacted = take firstKept groups in
                          Inr (Some
                            \<lparr>plan_messagesToSummarize = map ctx_message compacted,
                             plan_previousSummary = map_option (\<lambda>c. compacted_summary (ev_payload c)) (proj_previous projected),
                             plan_replacedEventIds =
                               (case proj_previous projected of None \<Rightarrow> [] | Some c \<Rightarrow> [ev_id c]) @ concat (map ctx_eventIds compacted),
                             plan_splitTurn = (case ctx_message (groups ! firstKept) of AssistantMsg _ _ \<Rightarrow> True | _ \<Rightarrow> False)\<rparr>))))))"

section \<open>Summarising\<close>

fun content_piece :: "content_item \<Rightarrow> string" where
  "content_piece (Text t) = t"
| "content_piece (Thinking t) = t"
| "content_piece (Blob b) = ''[binary attachment omitted]''"

definition contentText :: "content_item list \<Rightarrow> string" where
  "contentText content = join nl (filter (\<lambda>s. s \<noteq> []) (map content_piece content))"

definition truncateToolResult :: "string \<Rightarrow> string" where
  "truncateToolResult t =
     (if length t \<le> TOOL_RESULT_MAX_CHARACTERS then t
      else take TOOL_RESULT_MAX_CHARACTERS t @ nl @ nl @ ''['' @ nat_str (length t - TOOL_RESULT_MAX_CHARACTERS) @ '' characters omitted]'')"

fun serialize_parts :: "model_message \<Rightarrow> string list" where
  "serialize_parts (UserMsg content) = [''[User]'' @ nl @ contentText content]"
| "serialize_parts (AssistantMsg content calls) =
     (let thinking = join nl (map item_text (filter is_thinking content));
          body = join nl (map item_text (filter is_text content));
          cs = (case calls of None \<Rightarrow> [] | Some cs \<Rightarrow> cs) in
      (if thinking \<noteq> [] then [''[Assistant thinking]'' @ nl @ thinking] else [])
      @ (if body \<noteq> [] then [''[Assistant]'' @ nl @ body] else [])
      @ (if cs \<noteq> [] then [''[Assistant tool calls]'' @ nl
           @ join nl (map (\<lambda>c. req_name c @ ''('' @ json_text (JObj (req_input c)) @ '')'') cs)] else []))"
| "serialize_parts (ToolMsg callId name content isError) =
     [''[Tool result: '' @ name @ (if isError then '', error'' else []) @ '']'' @ nl @ truncateToolResult (contentText content)]"

definition serializeCompactionMessages :: "model_message list \<Rightarrow> string" where
  "serializeCompactionMessages messages = join (nl @ nl) (concat (map serialize_parts messages))"

definition summaryPrompt :: "compaction_plan \<Rightarrow> string option \<Rightarrow> string" where
  "summaryPrompt plan customInstructions =
     (let previous = (case plan_previousSummary plan of None \<Rightarrow> []
            | Some s \<Rightarrow> nl @ nl @ ''<previous-summary>'' @ nl @ s @ nl @ ''</previous-summary>'');
          split = (if plan_splitTurn plan then nl @ nl @ ''The retained context begins partway through a turn. Preserve the original request and early work needed to understand that suffix.'' else []);
          focus = (case customInstructions of None \<Rightarrow> []
            | Some c \<Rightarrow> if c = [] then [] else nl @ nl @ ''Additional focus from the user: '' @ c) in
      ''<conversation>'' @ nl @ serializeCompactionMessages (plan_messagesToSummarize plan) @ nl @ ''</conversation>''
      @ previous @ split @ focus @ nl @ nl @ ''Write a concise continuation summary using exactly these sections:'' @ nl @ nl
      @ ''## Goal'' @ nl @ ''## Constraints & Preferences'' @ nl @ ''## Progress'' @ nl @ ''### Done'' @ nl @ ''### In Progress'' @ nl
      @ ''### Blocked'' @ nl @ ''## Key Decisions'' @ nl @ ''## Next Steps'' @ nl @ ''## Critical Context'' @ nl @ nl
      @ ''Preserve exact file paths, function names, commands, and error messages needed to continue.'')"

datatype tool_choice = ChoiceAuto | ChoiceRequired | ChoiceNone

record model_turn_request =
  turn_system :: "string option"
  turn_messages :: "model_message list"
  turn_tools :: "tool_declaration list"
  turn_maxOutputTokens :: "jsnum option"
  turn_estimatedInputTokens :: "nat option"
  turn_toolChoice :: "tool_choice option"

text \<open>
  What a model port does with a request, seen from its caller: it reports configurations through
  \<^verbatim>\<open>onRequestConfigured\<close>, yields events, and then returns or throws. A thrown \<^verbatim>\<open>Error\<close> has a message,
  any other thrown value has none. The port awaits the callback, so a callback that throws ends the
  stream with what it threw.
\<close>

datatype port_action = Configured model_request_configuration | Yield model_stream_event
datatype port_end = PortReturns | PortThrows "string option"
type_synonym port_run = "port_action list \<times> port_end"
type_synonym 's on_configured = "'s \<Rightarrow> model_request_configuration \<Rightarrow> 's \<times> string option option"

definition summary_request :: "compaction_plan \<Rightarrow> string option \<Rightarrow> jsnum \<Rightarrow> model_turn_request" where
  "summary_request plan customInstructions maxOutputTokens =
     (let messages = [UserMsg [Text (summaryPrompt plan customInstructions)]] in
      \<lparr>turn_system = Some SUMMARIZATION_SYSTEM_PROMPT, turn_messages = messages, turn_tools = [],
       turn_maxOutputTokens = Some maxOutputTokens,
       turn_estimatedInputTokens = Some (estimateModelInputTokens (Some SUMMARIZATION_SYSTEM_PROMPT) messages (Some [])),
       turn_toolChoice = Some ChoiceNone\<rparr>)"

datatype summary_error = SummaryAborted | SummaryFailed string | SummaryThrown "string option"

text \<open>The loop over the stream, which leaves at the first \<^verbatim>\<open>completed\<close> event.\<close>

fun summary_loop :: "'s on_configured \<Rightarrow> port_end \<Rightarrow> port_action list \<Rightarrow> string \<Rightarrow> 's \<Rightarrow>
  's \<times> (summary_error + (string \<times> usage option))" where
  "summary_loop cb PortReturns [] summary s = (s, Inr (summary, None))"
| "summary_loop cb (PortThrows e) [] summary s = (s, Inl (SummaryThrown e))"
| "summary_loop cb fin (Configured cfg # rest) summary s =
     (case cb s cfg of (s', None) \<Rightarrow> summary_loop cb fin rest summary s' | (s', Some e) \<Rightarrow> (s', Inl (SummaryThrown e)))"
| "summary_loop cb fin (Yield event # rest) summary s =
     (case event of
        TextDelta t i \<Rightarrow> summary_loop cb fin rest (summary @ t) s
      | ToolCallEv r i \<Rightarrow> (s, Inl (SummaryFailed ''Compaction model attempted a tool call''))
      | StreamErrorEv e \<Rightarrow> (s, Inl (SummaryFailed (''Compaction failed: '' @ err_message e)))
      | Aborted p \<Rightarrow> (s, Inl SummaryAborted)
      | Completed stopReason u p r d \<Rightarrow>
          (s, if stopReason \<noteq> Stop then Inl (SummaryFailed (''Compaction summary ended with '' @ stop_str stopReason))
              else Inr (summary, Some u))
      | _ \<Rightarrow> summary_loop cb fin rest summary s)"

text \<open>The abort signal is read when the request starts and again when the loop has ended.\<close>

definition summarizeCompaction :: "(model_turn_request \<Rightarrow> port_run) \<Rightarrow> 's on_configured \<Rightarrow> compaction_plan \<Rightarrow> string option \<Rightarrow>
  jsnum \<Rightarrow> bool \<Rightarrow> ('s \<Rightarrow> bool) \<Rightarrow> 's \<Rightarrow> 's \<times> (summary_error + (string \<times> usage))" where
  "summarizeCompaction stream cb plan customInstructions maxOutputTokens abortedBefore abortedAfter s =
     (if abortedBefore then (s, Inl SummaryAborted)
      else
        (case stream (summary_request plan customInstructions maxOutputTokens) of (actions, fin) \<Rightarrow>
        (case summary_loop cb fin actions [] s of (s', r) \<Rightarrow>
        (s', bindE r (\<lambda>(summary, terminal).
          if abortedAfter s' then Inl SummaryAborted
          else (case terminal of
            None \<Rightarrow> Inl (SummaryFailed ''Compaction model stream ended without completion'')
          | Some u \<Rightarrow>
              if trim summary = [] then Inl (SummaryFailed ''Compaction model returned an empty summary'')
              else Inr (trim summary, u)))))))"

section \<open>The closure of replaced events\<close>

lemma closure_loop_Nil [simp]: "closure_loop byId cid limit hidden [] = Inr hidden"
  by (simp add: closure_loop.simps)

lemma closure_loop_Cons:
  "closure_loop byId cid limit hidden (eid # rest) =
     (if eid \<in> set hidden then closure_loop byId cid limit hidden rest
      else (case mget byId eid of
          None \<Rightarrow> Inl (non_ancestor cid eid)
        | Some (index, event) \<Rightarrow>
            if limit \<le> int index then Inl (non_ancestor cid eid)
            else closure_loop byId cid limit (hidden @ [eid]) (rev (replaced_ids event) @ rest)))"
  by (subst closure_loop.simps) simp

definition closed_under :: "(string, nat \<times> canonical_event) jsmap \<Rightarrow> string set \<Rightarrow> bool" where
  "closed_under byId S \<longleftrightarrow> (\<forall>x \<in> S. \<forall>i e. mget byId x = Some (i, e) \<longrightarrow> set (replaced_ids e) \<subseteq> S)"

lemma closure_loop_sound:
  assumes "closure_loop byId cid limit hidden pending = Inr H"
    and "\<forall>x \<in> set hidden. \<forall>i e. mget byId x = Some (i, e) \<longrightarrow> set (replaced_ids e) \<subseteq> set hidden \<union> set pending"
    and "\<forall>x \<in> set hidden. \<exists>i e. mget byId x = Some (i, e) \<and> int i < limit"
  shows "set hidden \<union> set pending \<subseteq> set H \<and> closed_under byId (set H)
    \<and> (\<forall>x \<in> set H. \<exists>i e. mget byId x = Some (i, e) \<and> int i < limit)"
  using assms
proof (induction byId cid limit hidden pending rule: closure_loop.induct)
  case (1 byId cid limit hidden pending)
  show ?case
  proof (cases pending)
    case Nil
    then have "H = hidden" using "1.prems"(1) by simp
    then show ?thesis using "1.prems"(2,3) Nil by (auto simp: closed_under_def)
  next
    case (Cons eid rest)
    show ?thesis
    proof (cases "eid \<in> set hidden")
      case True
      have "closure_loop byId cid limit hidden rest = Inr H"
        using "1.prems"(1) Cons True by (simp add: closure_loop_Cons)
      moreover have "\<forall>x \<in> set hidden. \<forall>i e. mget byId x = Some (i, e) \<longrightarrow> set (replaced_ids e) \<subseteq> set hidden \<union> set rest"
        using "1.prems"(2) Cons True by (simp add: insert_absorb)
      ultimately show ?thesis using "1.IH"(1) [OF Cons True] "1.prems"(3) Cons True by auto
    next
      case False
      obtain i e where f: "mget byId eid = Some (i, e)" "int i < limit"
        and r: "closure_loop byId cid limit (hidden @ [eid]) (rev (replaced_ids e) @ rest) = Inr H"
        using "1.prems"(1) Cons False
        by (auto simp: closure_loop_Cons split: option.splits if_splits)
      have "set (hidden @ [eid]) \<union> set (rev (replaced_ids e) @ rest) \<subseteq> set H \<and> closed_under byId (set H)
        \<and> (\<forall>x \<in> set H. \<exists>i e. mget byId x = Some (i, e) \<and> int i < limit)"
      proof (rule "1.IH"(2) [OF Cons False f(1) refl _ r])
        show "\<not> limit \<le> int i" using f(2) by simp
        show "\<forall>x \<in> set (hidden @ [eid]). \<forall>i e'. mget byId x = Some (i, e') \<longrightarrow>
            set (replaced_ids e') \<subseteq> set (hidden @ [eid]) \<union> set (rev (replaced_ids e) @ rest)"
          using "1.prems"(2) Cons f(1) by simp blast
        show "\<forall>x \<in> set (hidden @ [eid]). \<exists>i e. mget byId x = Some (i, e) \<and> int i < limit"
          using "1.prems"(3) f by auto
      qed
      then show ?thesis using Cons by auto
    qed
  qed
qed

lemma closure_loop_total:
  assumes "closed_under byId S" and "set hidden \<union> set pending \<subseteq> S"
    and "\<forall>x \<in> S. \<exists>i e. mget byId x = Some (i, e) \<and> int i < limit"
  shows "\<exists>H. closure_loop byId cid limit hidden pending = Inr H \<and> set H \<subseteq> S"
  using assms
proof (induction byId cid limit hidden pending rule: closure_loop.induct)
  case (1 byId cid limit hidden pending)
  show ?case
  proof (cases pending)
    case Nil
    then show ?thesis using "1.prems"(2) by simp
  next
    case (Cons eid rest)
    show ?thesis
    proof (cases "eid \<in> set hidden")
      case True
      then show ?thesis
        using "1.IH"(1) [OF Cons True "1.prems"(1) _ "1.prems"(3)] "1.prems"(2) Cons
        by (simp add: closure_loop_Cons)
    next
      case False
      have "eid \<in> S" using "1.prems"(2) Cons by simp
      then obtain i e where f: "mget byId eid = Some (i, e)" "int i < limit" using "1.prems"(3) by blast
      have "set (replaced_ids e) \<subseteq> S" using "1.prems"(1) \<open>eid \<in> S\<close> f(1) by (auto simp: closed_under_def)
      then have "set (hidden @ [eid]) \<union> set (rev (replaced_ids e) @ rest) \<subseteq> S"
        using "1.prems"(2) Cons \<open>eid \<in> S\<close> by auto
      then show ?thesis
        using "1.IH"(2) [OF Cons False f(1) refl _ "1.prems"(1) _ "1.prems"(3)] f Cons False
        by (simp add: closure_loop_Cons)
    qed
  qed
qed

lemma closure_loop_min:
  assumes "closure_loop byId cid limit hidden pending = Inr H" and "set hidden \<union> set pending \<subseteq> T" and "closed_under byId T"
  shows "set H \<subseteq> T"
  using assms
proof (induction byId cid limit hidden pending rule: closure_loop.induct)
  case (1 byId cid limit hidden pending)
  show ?case
  proof (cases pending)
    case Nil
    then show ?thesis using "1.prems"(1,2) by simp
  next
    case (Cons eid rest)
    show ?thesis
    proof (cases "eid \<in> set hidden")
      case True
      then show ?thesis using "1.IH"(1) [OF Cons True] "1.prems" Cons by (simp add: closure_loop_Cons)
    next
      case False
      obtain i e where f: "mget byId eid = Some (i, e)" "\<not> limit \<le> int i"
        and r: "closure_loop byId cid limit (hidden @ [eid]) (rev (replaced_ids e) @ rest) = Inr H"
        using "1.prems"(1) Cons False by (auto simp: closure_loop_Cons split: option.splits if_splits)
      have "set (replaced_ids e) \<subseteq> T" using "1.prems"(2,3) Cons f(1) unfolding closed_under_def by auto
      then show ?thesis using "1.IH"(2) [OF Cons False f(1) refl f(2) r _ "1.prems"(3)] "1.prems"(2) Cons by simp
    qed
  qed
qed

lemma by_id_snoc: "by_id (evs @ [e]) = mput (by_id evs) (ev_id e) (length evs, e)"
  by (simp add: by_id_def indexed_snoc)

lemma mget_by_id:
  "distinct (map ev_id evs) \<Longrightarrow> mget (by_id evs) x = Some (i, e) \<longleftrightarrow> i < length evs \<and> evs ! i = e \<and> ev_id e = x"
proof (induction evs arbitrary: i e rule: rev_induct)
  case Nil
  then show ?case by (simp add: by_id_def)
next
  case (snoc a evs)
  have "ev_id (evs ! j) \<noteq> ev_id a" if "j < length evs" for j
    using snoc.prems nth_mem [OF that] by (auto simp: image_iff)
  then show ?case using snoc by (auto simp: by_id_snoc nth_append less_Suc_eq)
qed

lemma replacementClosure_sound:
  assumes "distinct (map ev_id evs)" and "replacementClosure evs c = Inr H"
  shows "set (replaced_ids c) \<subseteq> set H \<and> closed_under (by_id evs) (set H) \<and> set H \<subseteq> ev_id ` set evs"
proof -
  obtain limit where "closure_loop (by_id evs) (ev_id c) limit [] (rev (replaced_ids c)) = Inr H"
    using assms(2) by (simp add: replacementClosure_def Let_def)
  from closure_loop_sound [OF this] have "set (replaced_ids c) \<subseteq> set H" "closed_under (by_id evs) (set H)"
    and f: "\<forall>x \<in> set H. \<exists>i e. mget (by_id evs) x = Some (i, e)" by auto
  moreover have "x \<in> ev_id ` set evs" if "x \<in> set H" for x
    using f that mget_by_id [OF assms(1)] by (metis imageI nth_mem)
  ultimately show ?thesis by blast
qed

section \<open>Groups own distinct events\<close>

definition group_ids :: "context_group list \<Rightarrow> string list" where
  "group_ids groups = concat (map ctx_eventIds groups)"

definition groups_ok :: "canonical_event list \<Rightarrow> group_state \<Rightarrow> bool" where
  "groups_ok evs st \<longleftrightarrow>
     set (group_ids (fst st)) \<subseteq> ev_id ` {e \<in> set evs. \<not> is_compaction e}
   \<and> distinct (group_ids (fst st)) \<and> (\<forall>g \<in> set (fst st). ctx_eventIds g \<noteq> [])
   \<and> (\<forall>i. snd st = Some i \<longrightarrow> i < length (fst st))"

lemma add_call_ids: "ctx_eventIds (add_tool_call call eid g) = ctx_eventIds g @ [eid]"
  by (simp add: add_tool_call_def split: model_message.splits option.splits)

lemma group_ids_update:
  assumes "i < length groups" and "y \<notin> set (group_ids groups)" and "distinct (group_ids groups)"
    and "ctx_eventIds g = ctx_eventIds (groups ! i) @ [y]"
  shows "set (group_ids (groups[i := g])) = insert y (set (group_ids groups)) \<and> distinct (group_ids (groups[i := g]))"
proof -
  have "groups = take i groups @ groups ! i # drop (Suc i) groups" using assms(1) by (rule id_take_nth_drop)
  then have ids: "group_ids groups = group_ids (take i groups) @ ctx_eventIds (groups ! i) @ group_ids (drop (Suc i) groups)"
    unfolding group_ids_def by (metis concat.simps(2) concat_append list.simps(9) map_append)
  have upd: "group_ids (groups[i := g]) = group_ids (take i groups) @ (ctx_eventIds (groups ! i) @ [y]) @ group_ids (drop (Suc i) groups)"
    using assms(1,4) by (simp add: upd_conv_take_nth_drop group_ids_def)
  show ?thesis using assms(2,3) unfolding upd ids by auto
qed

lemma project_step_ok:
  assumes "groups_ok evs st" and "ev_id e \<notin> ev_id ` set evs" and "project_step st e = Inr st'"
  shows "groups_ok (evs @ [e]) st'"
proof -
  obtain groups a where st: "st = (groups, a)" by (cases st)
  have fresh: "ev_id e \<notin> set (group_ids groups)" using assms(1,2) st by (auto simp: groups_ok_def)
  have old: "groups_ok (evs @ [e]) (groups, a)" "groups_ok (evs @ [e]) (groups, None)"
    using assms(1) st by (auto simp: groups_ok_def)
  have push: "groups_ok (evs @ [e]) (groups @ [\<lparr>ctx_message = m, ctx_eventIds = [ev_id e]\<rparr>], b)"
    if "\<not> is_compaction e" "b = None \<or> b = Some (length groups) \<or> b = a" for m b
    using that old(1) fresh by (auto simp: groups_ok_def group_ids_def)
  show ?thesis
  proof (cases "ev_payload e")
    case (ToolCall c n i)
    obtain j where j: "a = Some j" "j < length groups"
      and st': "st' = (groups[j := add_tool_call \<lparr>req_callId = c, req_name = model_tool_name n, req_input = i\<rparr> (ev_id e) (groups ! j)], Some j)"
      using assms(3) st ToolCall assms(1) by (auto simp: project_step_def groups_ok_def split: option.splits)
    have d: "distinct (group_ids groups)" using old(1) by (simp add: groups_ok_def)
    note u = group_ids_update [OF j(2) fresh d add_call_ids]
    show ?thesis
      using old(1) j u unfolding st' groups_ok_def
      by (auto simp: is_compaction_def ToolCall add_call_ids dest!: set_update_subset_insert [THEN subsetD])
  qed (use assms(3) st old push in \<open>auto simp: project_step_def user_group_def is_compaction_def split: if_splits\<close>)
qed

lemma project_fold_ok:
  "distinct (map ev_id evs) \<Longrightarrow> foldE project_step ([], None) evs = Inr st \<Longrightarrow> groups_ok evs st"
proof (induction evs arbitrary: st rule: rev_induct)
  case Nil
  then show ?case by (auto simp: groups_ok_def group_ids_def)
next
  case (snoc e evs)
  then obtain s where "foldE project_step ([], None) evs = Inr s" "project_step s e = Inr st"
    by (auto simp: foldE_append split: sum.splits)
  then show ?case using snoc project_step_ok [of evs s e st] by auto
qed

lemma project_groups_ok:
  assumes "distinct (map ev_id evs)" and "project_groups evs = Inr groups"
  shows "set (group_ids groups) \<subseteq> ev_id ` {e \<in> set evs. \<not> is_compaction e}" and "distinct (group_ids groups)"
    and "\<forall>g \<in> set groups. ctx_eventIds g \<noteq> []"
  using assms project_fold_ok [of evs] by (auto simp: project_groups_def bindE_Inr groups_ok_def)

section \<open>Hiding a prefix\<close>

lemma hide_visible:
  "\<forall>g \<in> set groups. set (ctx_eventIds g) \<inter> H = {} \<Longrightarrow>
   foldE (hide_step prev H) (visible, found) groups = Inr (visible @ groups, found)"
proof (induction groups arbitrary: visible)
  case (Cons g groups)
  have "filter (\<lambda>i. i \<in> H) (ctx_eventIds g) = []" using Cons.prems by (auto simp: filter_empty_conv)
  then show ?case using Cons by (simp add: hide_step_def)
qed simp

lemma hide_hidden:
  "\<forall>g \<in> set groups. set (ctx_eventIds g) \<subseteq> H \<and> ctx_eventIds g \<noteq> [] \<Longrightarrow>
   foldE (hide_step prev H) ([], found) groups = Inr ([], found \<or> groups \<noteq> [])"
proof (induction groups arbitrary: found)
  case (Cons g groups)
  have "filter (\<lambda>i. i \<in> H) (ctx_eventIds g) = ctx_eventIds g" using Cons.prems by (auto simp: filter_id_conv)
  then show ?case using Cons by (simp add: hide_step_def)
qed simp

lemma hide_fold_rest:
  "foldE (hide_step prev H) (vs, f) gs = Inr (r, f') \<Longrightarrow> vs \<noteq> [] \<Longrightarrow>
   r = vs @ gs \<and> (\<forall>g \<in> set gs. set (ctx_eventIds g) \<inter> H = {})"
proof (induction gs arbitrary: vs f)
  case (Cons g gs)
  show ?case
  proof (cases "filter (\<lambda>i. i \<in> H) (ctx_eventIds g) = []")
    case True
    then have "foldE (hide_step prev H) (vs @ [g], f) gs = Inr (r, f')" using Cons.prems(1) by (simp add: hide_step_def)
    from Cons.IH [OF this] show ?thesis using True by (auto simp: filter_empty_conv)
  next
    case False
    then have "\<exists>e. hide_step prev H (vs, f) g = Inl e" using Cons.prems(2) by (auto simp: hide_step_def Let_def)
    then show ?thesis using Cons.prems(1) by auto
  qed
qed simp

lemma hide_fold_split:
  "foldE (hide_step prev H) ([], found) groups = Inr (visible, found') \<Longrightarrow>
   \<exists>pre. groups = pre @ visible \<and> (\<forall>g \<in> set pre. set (ctx_eventIds g) \<subseteq> H)
     \<and> (\<forall>g \<in> set visible. set (ctx_eventIds g) \<inter> H = {})"
proof (induction groups arbitrary: found)
  case (Cons g groups)
  let ?h = "filter (\<lambda>i. i \<in> H) (ctx_eventIds g)"
  show ?case
  proof (cases "?h = []")
    case True
    then have "foldE (hide_step prev H) ([g], found) groups = Inr (visible, found')"
      using Cons.prems by (simp add: hide_step_def)
    from hide_fold_rest [OF this] show ?thesis using True by (intro exI [of _ "[]"]) (auto simp: filter_empty_conv)
  next
    case False
    have "\<exists>e. hide_step prev H ([], found) g = Inl e" if "length ?h < length (ctx_eventIds g)"
      using False that by (simp add: hide_step_def Let_def)
    then have "\<not> length ?h < length (ctx_eventIds g)" using Cons.prems by auto
    then have all: "length ?h = length (ctx_eventIds g)"
      using length_filter_le [of "\<lambda>i. i \<in> H" "ctx_eventIds g"] by linarith
    have "hide_step prev H ([], found) g = Inr ([], True)" using all False
      by (cases "ctx_eventIds g") (simp_all add: hide_step_def Let_def)
    then have rest: "foldE (hide_step prev H) ([], True) groups = Inr (visible, found')" using Cons.prems by simp
    obtain pre where "groups = pre @ visible" "\<forall>g \<in> set pre. set (ctx_eventIds g) \<subseteq> H"
      "\<forall>g \<in> set visible. set (ctx_eventIds g) \<inter> H = {}" using Cons.IH [OF rest] by blast
    moreover have "set (ctx_eventIds g) \<subseteq> H"
      using all length_filter_less [of _ "ctx_eventIds g" "\<lambda>i. i \<in> H"] by fastforce
    ultimately show ?thesis by (intro exI [of _ "g # pre"]) simp
  qed
qed simp

section \<open>Appending a compaction\<close>

lemma last_compaction_snoc: "is_compaction c \<Longrightarrow> last_compaction (evs @ [c]) = Some c"
  by (simp add: last_compaction_def)

lemma last_compaction_in: "last_compaction evs = Some c \<Longrightarrow> c \<in> set evs \<and> is_compaction c"
  by (auto simp: last_compaction_def find_Some_iff in_set_conv_nth rev_nth)
    (metis diff_Suc_less length_greater_0_conv less_nat_zero_code list.size(3))

lemma project_groups_snoc: "is_compaction c \<Longrightarrow> project_groups (evs @ [c]) = project_groups evs"
  by (auto simp: project_groups_def foldE_append project_step_def is_compaction_def bindE_def
      split: sum.splits payload.splits)

lemma project_compaction:
  assumes ids: "distinct (map ev_id (evs @ [c]))" and comp: "is_compaction c"
    and proj: "projectContext evs = Inr p" and n: "0 < n" "n \<le> length (proj_groups p)"
    and rep: "replaced_ids c = (case proj_previous p of None \<Rightarrow> [] | Some d \<Rightarrow> [ev_id d]) @ group_ids (take n (proj_groups p))"
  shows "projectContext (evs @ [c]) = Inr \<lparr>proj_previous = Some c, proj_groups = drop n (proj_groups p)\<rparr>"
proof -
  have d: "distinct (map ev_id evs)" and fresh: "ev_id c \<notin> ev_id ` set evs" using ids by auto
  have same_id: "x = y" if "x \<in> set evs" "y \<in> set evs" "ev_id x = ev_id y" for x y
    using that d by (simp add: distinct_map inj_on_def)
  let ?prev = "last_compaction evs" and ?vis = "proj_groups p"
  obtain H groups found where H: "(case ?prev of None \<Rightarrow> Inr [] | Some c \<Rightarrow> replacementClosure evs c) = Inr H"
    and g: "project_groups evs = Inr groups"
    and h: "foldE (hide_step ?prev (set H)) ([], False) groups = Inr (?vis, found)" and prev: "proj_previous p = ?prev"
    using proj by (auto simp: projectContext_def Let_def bindE_Inr split: option.splits if_splits)
  obtain pre where pre: "groups = pre @ ?vis" "\<forall>g \<in> set pre. set (ctx_eventIds g) \<subseteq> set H"
    "\<forall>g \<in> set ?vis. set (ctx_eventIds g) \<inter> set H = {}" using hide_fold_split [OF h] by blast
  note ok = project_groups_ok [OF d g]
  let ?comp = "take n ?vis" and ?kept = "drop n ?vis"
  let ?P = "(case ?prev of None \<Rightarrow> {} | Some d \<Rightarrow> {ev_id d})"
  define S where "S = ?P \<union> set (group_ids ?comp) \<union> set H"
  have gsplit: "group_ids groups = group_ids pre @ group_ids ?comp @ group_ids ?kept"
    using pre(1) by (metis append_take_drop_id concat_append group_ids_def map_append)
  have Hprops: "closed_under (by_id evs) (set H)" "set H \<subseteq> ev_id ` set evs"
    "\<forall>d. ?prev = Some d \<longrightarrow> set (replaced_ids d) \<subseteq> set H"
    using H replacementClosure_sound [OF d] by (auto simp: closed_under_def split: option.splits)
  have Sin: "S \<subseteq> ev_id ` set evs"
    using Hprops(2) ok(1) last_compaction_in gsplit by (auto simp: S_def split: option.splits)
  have found_id: "\<exists>i e. mget (by_id evs) x = Some (i, e) \<and> i < length evs \<and> e \<in> set evs \<and> ev_id e = x" if "x \<in> ev_id ` set evs" for x
    using that mget_by_id [OF d, of x] by (metis image_iff in_set_conv_nth)
  have same: "mget (by_id (evs @ [c])) x = mget (by_id evs) x" if "x \<in> S" for x
    using that Sin fresh by (auto simp: by_id_snoc)
  have plain: "replaced_ids e = []" if l: "mget (by_id evs) x = Some (i, e)" and x: "x \<in> set (group_ids groups)" for x i e
  proof -
    have e: "e \<in> set evs" "ev_id e = x" using l mget_by_id [OF d] by auto
    obtain e' where "e' \<in> set evs" "\<not> is_compaction e'" "ev_id e' = x" using ok(1) x by auto
    then have "\<not> is_compaction e" using e same_id by blast
    then show ?thesis by (auto simp: is_compaction_def replaced_ids_def)
  qed
  have closed: "closed_under (by_id (evs @ [c])) S"
    unfolding closed_under_def
  proof (intro ballI allI impI)
    fix x i e assume x: "x \<in> S" "mget (by_id (evs @ [c])) x = Some (i, e)"
    then have l: "mget (by_id evs) x = Some (i, e)" using same by simp
    consider d where "?prev = Some d" "x = ev_id d" | "x \<in> set (group_ids ?comp)" | "x \<in> set H"
      using x(1) by (auto simp: S_def split: option.splits)
    then show "set (replaced_ids e) \<subseteq> S"
    proof cases
      case 1
      have "e \<in> set evs" "ev_id e = ev_id d" using l 1(2) mget_by_id [OF \<open>distinct (map ev_id evs)\<close>] by auto
      then have "e = d" using last_compaction_in [OF 1(1)] same_id by blast
      then show ?thesis using Hprops(3) 1 by (auto simp: S_def)
    next
      case 2
      then have "replaced_ids e = []" using plain [OF l] gsplit by simp
      then show ?thesis by simp
    next
      case 3
      then show ?thesis using Hprops(1) l by (auto simp: closed_under_def S_def)
    qed
  qed
  have index: "mget (by_id (evs @ [c])) (ev_id c) = Some (length evs, c)" by (simp add: by_id_snoc)
  have bounded: "\<forall>x \<in> S. \<exists>i e. mget (by_id (evs @ [c])) x = Some (i, e) \<and> int i < int (length evs)"
  proof
    fix x assume x: "x \<in> S"
    then have "x \<in> ev_id ` set evs" using Sin by blast
    from found_id [OF this] show "\<exists>i e. mget (by_id (evs @ [c])) x = Some (i, e) \<and> int i < int (length evs)"
      using same [OF x] by auto
  qed
  have pend: "set [] \<union> set (rev (replaced_ids c)) \<subseteq> S"
    using rep prev by (auto simp: S_def split: option.splits)
  obtain H' where H': "replacementClosure (evs @ [c]) c = Inr H'" "set H' \<subseteq> S"
    using closure_loop_total [OF closed pend bounded, of "ev_id c"] index by (auto simp: replacementClosure_def)
  have sound: "set (replaced_ids c) \<subseteq> set H'" "closed_under (by_id (evs @ [c])) (set H')"
    using replacementClosure_sound [OF ids H'(1)] by simp_all
  have HH: "set H \<subseteq> set H'"
  proof (cases ?prev)
    case None
    then show ?thesis using H by simp
  next
    case (Some q)
    have cl: "closed_under (by_id evs) (set H')"
      unfolding closed_under_def
    proof (intro ballI allI impI)
      fix x i e assume x: "x \<in> set H'" "mget (by_id evs) x = Some (i, e)"
      then have "mget (by_id (evs @ [c])) x = Some (i, e)" using H'(2) same by auto
      then show "set (replaced_ids e) \<subseteq> set H'" using sound(2) x(1) unfolding closed_under_def by blast
    qed
    have q: "ev_id q \<in> set H'" using sound(1) rep prev Some by simp
    obtain i where "mget (by_id evs) (ev_id q) = Some (i, q)"
      using last_compaction_in [OF Some] mget_by_id [OF d] by (metis in_set_conv_nth)
    then have "set (replaced_ids q) \<subseteq> set H'" using cl q by (auto simp: closed_under_def)
    then show ?thesis using H Some closure_loop_min [OF _ _ cl, of "ev_id q" _ "[]" "rev (replaced_ids q)" H]
      by (auto simp: replacementClosure_def Let_def)
  qed
  have hid: "\<forall>g \<in> set (pre @ ?comp). set (ctx_eventIds g) \<subseteq> set H' \<and> ctx_eventIds g \<noteq> []"
  proof
    fix g assume g: "g \<in> set (pre @ ?comp)"
    then have "g \<in> set groups" using pre(1) in_set_takeD [of g n ?vis] by (simp only: set_append Un_iff) blast
    moreover have "set (group_ids ?comp) \<subseteq> set H'" using sound(1) rep by auto
    moreover have "set (ctx_eventIds g) \<subseteq> set (group_ids ?comp)" if "g \<in> set ?comp"
      using that unfolding group_ids_def by auto
    moreover have "g \<in> set pre \<or> g \<in> set ?comp" using g by (simp only: set_append Un_iff)
    ultimately show "set (ctx_eventIds g) \<subseteq> set H' \<and> ctx_eventIds g \<noteq> []"
      using pre(2) HH ok(3) by blast
  qed
  have vis: "\<forall>g \<in> set ?kept. set (ctx_eventIds g) \<inter> set H' = {}"
  proof
    fix g assume g: "g \<in> set ?kept"
    have "x \<notin> S" if x: "x \<in> set (ctx_eventIds g)" for x
    proof -
      have k: "x \<in> set (group_ids ?kept)" using g x by (auto simp: group_ids_def)
      then have "x \<notin> set (group_ids ?comp)" using ok(2) gsplit by auto
      moreover have "x \<notin> set H" using pre(3) in_set_dropD [OF g] x by blast
      moreover have "x \<noteq> ev_id q" if "?prev = Some q" for q
      proof -
        have "x \<in> set (group_ids groups)" using k gsplit by simp
        then obtain e where "e \<in> set evs" "\<not> is_compaction e" "ev_id e = x" using ok(1) by auto
        then show ?thesis using last_compaction_in [OF that] same_id by blast
      qed
      ultimately show ?thesis by (auto simp: S_def split: option.splits)
    qed
    then show "set (ctx_eventIds g) \<inter> set H' = {}" using H'(2) by blast
  qed
  have "?comp \<noteq> []" using n by auto
  have split: "groups = (pre @ ?comp) @ ?kept" using pre(1) by simp
  have "foldE (hide_step (Some c) (set H')) ([], False) (pre @ ?comp) = Inr ([], True)"
    using hide_hidden [OF hid, of "Some c" False] \<open>?comp \<noteq> []\<close> by simp
  then have "foldE (hide_step (Some c) (set H')) ([], False) groups = Inr (?kept, True)"
    unfolding split by (simp only: foldE_append [of _ _ "pre @ ?comp"] hide_visible [OF vis] sum.case append_Nil)
  then show ?thesis
    using H'(1) g comp by (simp add: projectContext_def last_compaction_snoc project_groups_snoc)
qed

section \<open>Planning a prefix\<close>

definition group_tokens :: "context_group list \<Rightarrow> nat" where
  "group_tokens gs = (\<Sum>g\<leftarrow>gs. estimateModelMessageTokens (ctx_message g))"

lemma group_tokens_drop: "i < length gs \<Longrightarrow>
  group_tokens (drop i gs) = estimateModelMessageTokens (ctx_message (gs ! i)) + group_tokens (drop (Suc i) gs)"
  by (simp add: group_tokens_def Cons_nth_drop_Suc [symmetric])

lemma crossed_at_Some:
  "crossed_at gs n (group_tokens (drop n gs)) keep = Some i \<Longrightarrow> n \<le> length gs \<Longrightarrow> int (group_tokens (drop n gs)) < keep \<Longrightarrow>
   i < n \<and> keep \<le> int (group_tokens (drop i gs)) \<and> int (group_tokens (drop (Suc i) gs)) < keep"
proof (induction n)
  case (Suc n)
  have t: "group_tokens (drop (Suc n) gs) + estimateModelMessageTokens (ctx_message (gs ! n)) = group_tokens (drop n gs)"
    using Suc.prems(2) by (simp add: group_tokens_drop)
  show ?case
  proof (cases "keep \<le> int (group_tokens (drop n gs))")
    case True
    then show ?thesis using Suc.prems t by (simp add: Let_def del: of_nat_add)
  next
    case False
    then have "crossed_at gs n (group_tokens (drop n gs)) keep = Some i" using Suc.prems(1) t by (simp add: Let_def del: of_nat_add)
    from Suc.IH [OF this] show ?thesis using Suc.prems(2) False by simp
  qed
qed simp

lemma first_kept_Some:
  assumes "first_kept_from gs c = Some n"
  shows "c \<le> n \<and> n < length gs \<and> \<not> is_tool_message (ctx_message (gs ! n))
    \<and> (\<forall>j. c \<le> j \<and> j < n \<longrightarrow> is_tool_message (ctx_message (gs ! j)))"
proof -
  obtain k where k: "k < length gs - c" "n = c + k" "\<not> is_tool_message (ctx_message (gs ! n))"
    and m: "\<forall>j < k. is_tool_message (ctx_message (gs ! (c + j)))"
    using assms by (auto simp: first_kept_from_def find_Some_iff)
  have "is_tool_message (ctx_message (gs ! j))" if "c \<le> j" "j < n" for j
    using m [rule_format, of "j - c"] that k(2) by simp
  then show ?thesis using k by simp
qed

lemma prepare_Some:
  assumes "prepareCompaction evs k = Inr (Some plan)"
  obtains p c n where "projectContext evs = Inr p"
    and "crossed_at (proj_groups p) (length (proj_groups p)) 0 (jsnum_int k) = Some c"
    and "first_kept_from (proj_groups p) c = Some n" and "0 < n" and "0 < jsnum_int k"
    and "plan_messagesToSummarize plan = map ctx_message (take n (proj_groups p))"
    and "plan_replacedEventIds plan =
      (case proj_previous p of None \<Rightarrow> [] | Some d \<Rightarrow> [ev_id d]) @ group_ids (take n (proj_groups p))"
    and "plan_previousSummary plan = map_option (\<lambda>d. compacted_summary (ev_payload d)) (proj_previous p)"
proof -
  obtain p where p: "projectContext evs = Inr p" and pos: "0 < jsnum_int k"
    and r: "(case crossed_at (proj_groups p) (length (proj_groups p)) 0 (jsnum_int k) of
        None \<Rightarrow> None
      | Some c \<Rightarrow> (case first_kept_from (proj_groups p) c of
          None \<Rightarrow> None
        | Some n \<Rightarrow> if n = 0 then None else Some
            \<lparr>plan_messagesToSummarize = map ctx_message (take n (proj_groups p)),
             plan_previousSummary = map_option (\<lambda>c. compacted_summary (ev_payload c)) (proj_previous p),
             plan_replacedEventIds = (case proj_previous p of None \<Rightarrow> [] | Some c \<Rightarrow> [ev_id c]) @ concat (map ctx_eventIds (take n (proj_groups p))),
             plan_splitTurn = (case ctx_message (proj_groups p ! n) of AssistantMsg _ _ \<Rightarrow> True | _ \<Rightarrow> False)\<rparr>)) = Some plan"
    using assms unfolding prepareCompaction_def Let_def
    by (cases k; cases "projectContext evs") (auto simp: positive_safe_integer_def split: if_splits option.splits)
  from r obtain c n where "crossed_at (proj_groups p) (length (proj_groups p)) 0 (jsnum_int k) = Some c"
    "first_kept_from (proj_groups p) c = Some n" "n \<noteq> 0"
    "plan = \<lparr>plan_messagesToSummarize = map ctx_message (take n (proj_groups p)),
             plan_previousSummary = map_option (\<lambda>c. compacted_summary (ev_payload c)) (proj_previous p),
             plan_replacedEventIds = (case proj_previous p of None \<Rightarrow> [] | Some c \<Rightarrow> [ev_id c]) @ concat (map ctx_eventIds (take n (proj_groups p))),
             plan_splitTurn = (case ctx_message (proj_groups p ! n) of AssistantMsg _ _ \<Rightarrow> True | _ \<Rightarrow> False)\<rparr>"
    by (auto split: option.splits if_splits)
  then show ?thesis using that p pos by (simp add: group_ids_def)
qed

section \<open>The summary\<close>

fun text_of :: "port_action list \<Rightarrow> string" where
  "text_of [] = []"
| "text_of (Yield (TextDelta t i) # rest) = t @ text_of rest"
| "text_of (a # rest) = text_of rest"

definition quiet :: "port_action \<Rightarrow> bool" where
  "quiet a = (case a of Configured _ \<Rightarrow> True
     | Yield e \<Rightarrow> \<not> isTerminalModelStreamEvent e \<and> (case e of ToolCallEv _ _ \<Rightarrow> False | _ \<Rightarrow> True))"

lemma summary_loop_completed:
  "summary_loop cb fin acts acc s = (s', Inr (summary, Some u)) \<Longrightarrow>
   \<exists>before p r d rest. acts = before @ Yield (Completed Stop u p r d) # rest \<and> (\<forall>a \<in> set before. quiet a)
     \<and> summary = acc @ text_of before"
proof (induction cb fin acts acc s rule: summary_loop.induct)
  case (3 cb fin cfg rest acc s)
  then obtain t where "cb s cfg = (t, None)" "summary_loop cb fin rest acc t = (s', Inr (summary, Some u))"
    by (auto split: prod.splits option.splits)
  from "3.IH" [OF this(1) [symmetric] refl this(2)]
  obtain b p r d rest' where "rest = b @ Yield (Completed Stop u p r d) # rest'" "\<forall>a \<in> set b. quiet a" "summary = acc @ text_of b"
    by blast
  then show ?case by (intro exI [of _ "Configured cfg # b"]) (auto simp: quiet_def)
next
  case (4 cb fin event rest acc s)
  have one: ?case if r: "summary_loop cb fin rest (acc @ t) s = (s', Inr (summary, Some u))" and q: "quiet (Yield event)"
    and tx: "\<And>b. text_of (Yield event # b) = t @ text_of b"
    and ih: "\<exists>b p r d rest'. rest = b @ Yield (Completed Stop u p r d) # rest' \<and> (\<forall>a \<in> set b. quiet a) \<and> summary = (acc @ t) @ text_of b" for t
    using ih q tx by (metis append.assoc append_Cons set_ConsD)
  show ?case
  proof (cases event)
    case (TextDelta t i)
    then show ?thesis using one [of t] 4 by (simp add: quiet_def)
  next
    case (Completed sr u' p r d)
    then have "sr = Stop" "u' = u" "summary = acc" using "4.prems" by (auto split: if_splits)
    then show ?thesis using Completed by (intro exI [of _ "[]"]) simp
  qed (use one [of "[]"] 4 in \<open>auto simp: quiet_def\<close>)
qed auto

section \<open>Properties\<close>

text \<open>
  C19: compaction replaces exactly the planned prefix. When a plan is made for a lineage and a
  \<^verbatim>\<open>context.compacted\<close> event with the plan's ids is appended, the messages sent to the model are the
  summary followed by every message that was visible before, from the first kept one on, unchanged and
  in order; a non-empty proper prefix was summarised; the first kept message is never a tool result cut
  off from its call; and a second compaction covers the first one.
\<close>

theorem compaction_preserves_context:
  assumes "distinct (map ev_id (evs @ [c]))" and "prepareCompaction evs k = Inr (Some plan)"
    and "ev_payload c = ContextCompacted summary (plan_replacedEventIds plan) u"
  shows "\<exists>p n. projectContext evs = Inr p \<and> 0 < n \<and> n < length (proj_groups p)
    \<and> plan_messagesToSummarize plan = map ctx_message (take n (proj_groups p))
    \<and> \<not> is_tool_message (ctx_message (proj_groups p ! n))
    \<and> messagesFromCompactedLineage (evs @ [c]) =
        Inr (UserMsg [Text (COMPACTION_SUMMARY_PREFIX @ summary @ COMPACTION_SUMMARY_SUFFIX)]
             # visible_messages (drop n (proj_groups p)))"
proof -
  obtain p i n where p: "projectContext evs = Inr p" and f: "first_kept_from (proj_groups p) i = Some n" and n: "0 < n"
    and m: "plan_messagesToSummarize plan = map ctx_message (take n (proj_groups p))"
    and r: "plan_replacedEventIds plan =
      (case proj_previous p of None \<Rightarrow> [] | Some d \<Rightarrow> [ev_id d]) @ group_ids (take n (proj_groups p))"
    by (rule prepare_Some [OF assms(2)])
  have comp: "is_compaction c" "replaced_ids c = plan_replacedEventIds plan"
    using assms(3) by (simp_all add: is_compaction_def replaced_ids_def)
  have "projectContext (evs @ [c]) = Inr \<lparr>proj_previous = Some c, proj_groups = drop n (proj_groups p)\<rparr>"
    using project_compaction [OF assms(1) comp(1) p n] first_kept_Some [OF f] comp(2) r by simp
  then show ?thesis
    using p n m first_kept_Some [OF f] assms(3) by (auto simp: messagesFromCompactedLineage_def summary_message_def)
qed

text \<open>
  What a plan keeps. With a budget of \<open>k\<close> recent tokens, the groups from the crossing index \<open>c\<close> on
  are estimated at \<open>k\<close> tokens or more while those after it are below \<open>k\<close>; the kept suffix starts at
  \<open>c\<close> or, when the message there is a tool result, right after the run of tool results it starts.
\<close>

theorem plan_keeps_recent:
  assumes "prepareCompaction evs (JInt k) = Inr (Some plan)"
  shows "\<exists>p c n. projectContext evs = Inr p \<and> c \<le> n \<and> n < length (proj_groups p)
    \<and> plan_messagesToSummarize plan = map ctx_message (take n (proj_groups p))
    \<and> k \<le> int (group_tokens (drop c (proj_groups p))) \<and> int (group_tokens (drop (Suc c) (proj_groups p))) < k
    \<and> (\<forall>j. c \<le> j \<and> j < n \<longrightarrow> is_tool_message (ctx_message (proj_groups p ! j)))"
proof -
  obtain p c n where p: "projectContext evs = Inr p"
    and c: "crossed_at (proj_groups p) (length (proj_groups p)) 0 k = Some c"
    and f: "first_kept_from (proj_groups p) c = Some n" and k: "0 < k"
    and m: "plan_messagesToSummarize plan = map ctx_message (take n (proj_groups p))"
    by (rule prepare_Some [OF assms, unfolded jsnum_int.simps])
  have z: "group_tokens (drop (length (proj_groups p)) (proj_groups p)) = 0" by (simp add: group_tokens_def)
  note cr = crossed_at_Some [of "proj_groups p" "length (proj_groups p)" k c, unfolded z]
  show ?thesis using p c k m cr first_kept_Some [OF f] by auto
qed

definition ex_context :: "canonical_event list" where
  "ex_context =
     [ex_event CHR ''1'' None (SessionCreated ''/work'' None None None),
      ex_event CHR ''2'' (Some CHR ''1'') (UserMessage [Text ''first request'']),
      ex_event CHR ''3'' (Some CHR ''2'') (AssistantMessage [Text ''reading''] ToolUse None None),
      ex_event CHR ''4'' (Some CHR ''3'') (ToolCall ''c1'' ''read'' []),
      ex_event CHR ''5'' (Some CHR ''4'') (ToolResult ''c1'' ''read'' [Text ''contents''] False None),
      ex_event CHR ''6'' (Some CHR ''5'') (UserMessage [Text ''second request''])]"

definition ex_plan :: compaction_plan where
  "ex_plan = \<lparr>plan_messagesToSummarize =
       [UserMsg [Text ''first request''],
        AssistantMsg [Text ''reading''] (Some [\<lparr>req_callId = ''c1'', req_name = ''read'', req_input = []\<rparr>]),
        ToolMsg ''c1'' ''read'' [Text ''contents''] False],
     plan_previousSummary = None, plan_replacedEventIds = map ex_id [CHR ''2'', CHR ''3'', CHR ''4'', CHR ''5''],
     plan_splitTurn = False\<rparr>"

definition ex_compacted :: canonical_event where
  "ex_compacted = ex_event CHR ''7'' (Some CHR ''6'') (ContextCompacted ''sum'' (plan_replacedEventIds ex_plan) None)"

lemma ex_plan_made: "prepareCompaction ex_context (JInt 5) = Inr (Some ex_plan)"
  by code_simp

theorem compaction_preserves_context_witness:
  "\<exists>p n. projectContext ex_context = Inr p \<and> 0 < n \<and> n < length (proj_groups p)
    \<and> plan_messagesToSummarize ex_plan = map ctx_message (take n (proj_groups p))
    \<and> \<not> is_tool_message (ctx_message (proj_groups p ! n))
    \<and> messagesFromCompactedLineage (ex_context @ [ex_compacted]) =
        Inr (UserMsg [Text (COMPACTION_SUMMARY_PREFIX @ ''sum'' @ COMPACTION_SUMMARY_SUFFIX)]
             # visible_messages (drop n (proj_groups p)))"
proof (rule compaction_preserves_context)
  show "distinct (map ev_id (ex_context @ [ex_compacted]))" by code_simp
  show "prepareCompaction ex_context (JInt 5) = Inr (Some ex_plan)" by (rule ex_plan_made)
  show "ev_payload ex_compacted = ContextCompacted ''sum'' (plan_replacedEventIds ex_plan) None"
    by (simp add: ex_compacted_def ex_event_def)
qed

theorem plan_keeps_recent_witness:
  "\<exists>p c n. projectContext ex_context = Inr p \<and> c \<le> n \<and> n < length (proj_groups p)
    \<and> plan_messagesToSummarize ex_plan = map ctx_message (take n (proj_groups p))
    \<and> 5 \<le> int (group_tokens (drop c (proj_groups p))) \<and> int (group_tokens (drop (Suc c) (proj_groups p))) < 5"
  using plan_keeps_recent [OF ex_plan_made] by blast

text \<open>
  A summary is only accepted from a run of the model that completed with \<^verbatim>\<open>stop\<close>: the events before
  the completion hold no tool call, error or abort, the summary is the trimmed concatenation of their
  text deltas, it is not empty, and the usage is the one the completion reported. The signal was not
  aborted at either end.
\<close>

theorem summary_from_completed_run:
  assumes "summarizeCompaction stream cb plan instructions maxOut before after s = (s', Inr (summary, u))"
  shows "\<exists>acts p r d rest fin. stream (summary_request plan instructions maxOut) = (acts @ Yield (Completed Stop u p r d) # rest, fin)
    \<and> (\<forall>a \<in> set acts. quiet a) \<and> summary = trim (text_of acts) \<and> summary \<noteq> [] \<and> \<not> before \<and> \<not> after s'"
proof -
  obtain acts fin where st: "stream (summary_request plan instructions maxOut) = (acts, fin)" by fastforce
  then obtain t where "summary_loop cb fin acts [] s = (s', Inr (t, Some u))"
    and "summary = trim t" "summary \<noteq> []" "\<not> before" "\<not> after s'"
    using assms by (auto simp: summarizeCompaction_def bindE_Inr split: prod.splits if_splits option.splits)
  moreover from summary_loop_completed [OF this(1)] obtain b p r d rest
    where "acts = b @ Yield (Completed Stop u p r d) # rest" "\<forall>a \<in> set b. quiet a" "t = text_of b" by auto
  ultimately show ?thesis using st by blast
qed

definition ex_usage :: usage where
  "ex_usage = \<lparr>inputTokens = 3, outputTokens = 2, cacheReadTokens = 0, cacheWriteTokens = 0, reasoningTokens = None, costUsd = None\<rparr>"

definition ex_stream :: "model_turn_request \<Rightarrow> port_run" where
  "ex_stream r = ([Yield (ThinkingDelta ''hm'' None), Yield (TextDelta '' a'' None), Yield (TextDelta ''b '' None),
     Yield (Completed Stop ex_usage None None None)], PortReturns)"

theorem summary_from_completed_run_witness:
  "\<exists>acts p r d rest fin. ex_stream (summary_request ex_plan None (JInt 10)) = (acts @ Yield (Completed Stop ex_usage p r d) # rest, fin)
    \<and> list_all quiet acts \<and> ''ab'' = trim (text_of acts)"
proof -
  have "summarizeCompaction ex_stream (\<lambda>s cfg. (s, None)) ex_plan None (JInt 10) False (\<lambda>_. False) () = ((), Inr (''ab'', ex_usage))"
    by code_simp
  from summary_from_completed_run [OF this] show ?thesis unfolding list_all_iff by blast
qed

end
