(* ===== verification/Effects.thy ===== *)
theory Effects
  imports Prelude
begin

text \<open>
  Stateful code that may throw. An action maps a state to the state afterwards and to a thrown error
  or a result; the state changes made before a throw stay, as they do in the source. The rules of
  \<open>triple\<close> prove a postcondition for a normal end and one for a throw.
\<close>

section \<open>Actions\<close>

type_synonym ('s, 'e, 'a) action = "'s \<Rightarrow> 's \<times> ('e + 'a)"

definition ret :: "'a \<Rightarrow> ('s, 'e, 'a) action" where
  "ret x = (\<lambda>s. (s, Inr x))"

definition throw :: "'e \<Rightarrow> ('s, 'e, 'a) action" where
  "throw e = (\<lambda>s. (s, Inl e))"

definition bindA :: "('s, 'e, 'a) action \<Rightarrow> ('a \<Rightarrow> ('s, 'e, 'b) action) \<Rightarrow> ('s, 'e, 'b) action" where
  "bindA m f = (\<lambda>s. case m s of (s', Inl e) \<Rightarrow> (s', Inl e) | (s', Inr x) \<Rightarrow> f x s')"

definition thenA :: "('s, 'e, 'a) action \<Rightarrow> ('s, 'e, 'b) action \<Rightarrow> ('s, 'e, 'b) action" where
  "thenA m k = bindA m (\<lambda>_. k)"

definition asks :: "('s \<Rightarrow> 'a) \<Rightarrow> ('s, 'e, 'a) action" where
  "asks f = (\<lambda>s. (s, Inr (f s)))"

definition modify :: "('s \<Rightarrow> 's) \<Rightarrow> ('s, 'e, unit) action" where
  "modify f = (\<lambda>s. (f s, Inr ()))"

definition lift :: "'e + 'a \<Rightarrow> ('s, 'e, 'a) action" where
  "lift r = (\<lambda>s. (s, r))"

definition throw_if :: "bool \<Rightarrow> 'e \<Rightarrow> ('s, 'e, unit) action" where
  "throw_if b e = (if b then throw e else ret ())"

definition finallyA :: "('s, 'e, 'a) action \<Rightarrow> ('s \<Rightarrow> 's) \<Rightarrow> ('s, 'e, 'a) action" where
  "finallyA m f = (\<lambda>s. case m s of (s', r) \<Rightarrow> (f s', r))"

text \<open>\<^verbatim>\<open>for (const x of xs) { ... }\<close>.\<close>

fun eachA :: "('a \<Rightarrow> ('s, 'e, unit) action) \<Rightarrow> 'a list \<Rightarrow> ('s, 'e, unit) action" where
  "eachA f [] = ret ()"
| "eachA f (x # xs) = thenA (f x) (eachA f xs)"

definition optA :: "'a option \<Rightarrow> ('a \<Rightarrow> ('s, 'e, unit) action) \<Rightarrow> ('s, 'e, unit) action" where
  "optA x f = (case x of None \<Rightarrow> ret () | Some v \<Rightarrow> f v)"

section \<open>Evaluation\<close>

lemma action_eval [simp]:
  "ret x s = (s, Inr x)" "throw e s = (s, Inl e)" "asks f s = (s, Inr (f s))" "modify g s = (g s, Inr ())" "lift r s = (s, r)"
  by (simp_all add: ret_def throw_def asks_def modify_def lift_def)

lemma bindA_eval: "bindA m f s = (case m s of (s', Inl e) \<Rightarrow> (s', Inl e) | (s', Inr x) \<Rightarrow> f x s')"
  by (simp add: bindA_def)

lemma thenA_eval: "thenA m k s = (case m s of (s', Inl e) \<Rightarrow> (s', Inl e) | (s', Inr x) \<Rightarrow> k s')"
  by (simp add: thenA_def bindA_def)

lemma finallyA_eval: "finallyA m f s = (f (fst (m s)), snd (m s))"
  by (simp add: finallyA_def split: prod.splits)

lemma throw_if_eval [simp]: "throw_if b e s = (s, if b then Inl e else Inr ())"
  by (simp add: throw_if_def)

section \<open>Triples\<close>

definition triple :: "('s \<Rightarrow> bool) \<Rightarrow> ('s, 'e, 'a) action \<Rightarrow> ('a \<Rightarrow> 's \<Rightarrow> bool) \<Rightarrow> ('s \<Rightarrow> bool) \<Rightarrow> bool" where
  "triple P m Q E \<longleftrightarrow> (\<forall>s. P s \<longrightarrow> (case m s of (s', Inr x) \<Rightarrow> Q x s' | (s', Inl e) \<Rightarrow> E s'))"

lemma tripleI:
  assumes "\<And>s s' x. P s \<Longrightarrow> m s = (s', Inr x) \<Longrightarrow> Q x s'" and "\<And>s s' e. P s \<Longrightarrow> m s = (s', Inl e) \<Longrightarrow> E s'"
  shows "triple P m Q E"
  unfolding triple_def by (auto split: prod.splits sum.splits intro: assms)

lemma triple_Inr: "triple P m Q E \<Longrightarrow> P s \<Longrightarrow> m s = (s', Inr x) \<Longrightarrow> Q x s'"
  unfolding triple_def by (drule spec [of _ s]) simp

lemma triple_Inl: "triple P m Q E \<Longrightarrow> P s \<Longrightarrow> m s = (s', Inl e) \<Longrightarrow> E s'"
  unfolding triple_def by (drule spec [of _ s]) simp

lemma triple_weaken:
  assumes "triple P' m Q' E'" and "\<And>s. P s \<Longrightarrow> P' s" and "\<And>x s. Q' x s \<Longrightarrow> Q x s" and "\<And>s. E' s \<Longrightarrow> E s"
  shows "triple P m Q E"
  by (rule tripleI) (auto intro: assms(2-4) dest!: assms(2) dest: triple_Inr [OF assms(1)] triple_Inl [OF assms(1)])

lemma triple_ret: "(\<And>s. P s \<Longrightarrow> Q x s) \<Longrightarrow> triple P (ret x) Q E"
  by (auto intro: tripleI)

lemma triple_throw: "(\<And>s. P s \<Longrightarrow> E s) \<Longrightarrow> triple P (throw e) Q E"
  by (auto intro: tripleI)

lemma triple_asks: "(\<And>s. P s \<Longrightarrow> Q (f s) s) \<Longrightarrow> triple P (asks f) Q E"
  by (auto intro: tripleI)

lemma triple_modify: "(\<And>s. P s \<Longrightarrow> Q () (f s)) \<Longrightarrow> triple P (modify f) Q E"
  by (simp add: triple_def)

lemma triple_lift: "(\<And>s x. P s \<Longrightarrow> r = Inr x \<Longrightarrow> Q x s) \<Longrightarrow> (\<And>s. P s \<Longrightarrow> E s) \<Longrightarrow> triple P (lift r) Q E"
  by (auto intro: tripleI)

lemma triple_throw_if: "(\<And>s. P s \<Longrightarrow> \<not> b \<Longrightarrow> Q () s) \<Longrightarrow> (\<And>s. P s \<Longrightarrow> b \<Longrightarrow> E s) \<Longrightarrow> triple P (throw_if b e) Q E"
  by (auto intro!: tripleI split: if_splits)

lemma triple_bind:
  assumes "triple P m R E" and "\<And>x. triple (R x) (f x) Q E"
  shows "triple P (bindA m f) Q E"
  by (rule tripleI)
    (auto simp: bindA_eval split: prod.splits sum.splits dest: triple_Inr [OF assms(1)] triple_Inl [OF assms(1)]
      triple_Inr [OF assms(2)] triple_Inl [OF assms(2)])

lemma triple_then: "triple P m (\<lambda>_. R) E \<Longrightarrow> triple R k Q E \<Longrightarrow> triple P (thenA m k) Q E"
  unfolding thenA_def by (rule triple_bind)

lemma triple_finally:
  assumes "triple P m Q E" and "\<And>x s. Q x s \<Longrightarrow> Q' x (f s)" and "\<And>s. E s \<Longrightarrow> E' (f s)"
  shows "triple P (finallyA m f) Q' E'"
  by (rule tripleI) (auto simp: finallyA_def split: prod.splits intro: assms(2,3) dest: triple_Inr [OF assms(1)] triple_Inl [OF assms(1)])

lemma triple_each: "(\<And>x. x \<in> set xs \<Longrightarrow> triple P (f x) (\<lambda>_. P) E) \<Longrightarrow> triple P (eachA f xs) (\<lambda>_. P) E"
  by (induction xs) (auto intro: triple_ret triple_then)

lemma triple_opt:
  "(\<And>s. P s \<Longrightarrow> x = None \<Longrightarrow> Q () s) \<Longrightarrow> (\<And>v. x = Some v \<Longrightarrow> triple P (f v) Q E) \<Longrightarrow> triple P (optA x f) Q E"
  by (cases x) (auto simp: optA_def intro: triple_ret)

end
