(* ===== verification/Tools.thy ===== *)
theory Tools
  imports Model_Stream
begin

text \<open>
  The tool registry (\<^verbatim>\<open>packages/kernel/src/tools.ts\<close>). A tool object has an identity, here a number,
  which the disposer of a registration compares; its \<^verbatim>\<open>execute\<close> belongs to the host.
\<close>

section \<open>Definitions\<close>

record tool_execution_result =
  res_content :: "content_item list"
  res_isError :: bool
  res_details :: "json option"

record kernel_tool =
  tool_object :: nat
  tool_declared :: tool_declaration

datatype tool_registry_error = ToolRegistryError string

type_synonym tool_registry = "(string, kernel_tool) jsmap"

definition tool_name :: "kernel_tool \<Rightarrow> string" where
  "tool_name tool = decl_name (tool_declared tool)"

definition registry_register :: "tool_registry \<Rightarrow> kernel_tool \<Rightarrow> tool_registry_error + tool_registry" where
  "registry_register tools tool =
     (if mhas tools (tool_name tool) then Inl (ToolRegistryError (''Tool '' @ tool_name tool @ '' is already registered''))
      else Inr (mput tools (tool_name tool) tool))"

text \<open>The disposer that \<^verbatim>\<open>register\<close> returns for \<open>tool\<close>.\<close>

definition registry_dispose :: "kernel_tool \<Rightarrow> tool_registry \<Rightarrow> tool_registry" where
  "registry_dispose tool tools =
     (case mget tools (tool_name tool) of
        Some current \<Rightarrow> if tool_object current = tool_object tool then mdel tools (tool_name tool) else tools
      | None \<Rightarrow> tools)"

definition registry_get :: "tool_registry \<Rightarrow> string \<Rightarrow> kernel_tool option" where
  "registry_get tools name = mget tools name"

definition declarations :: "tool_registry \<Rightarrow> tool_declaration list" where
  "declarations tools = map tool_declared (mvals tools)"

section \<open>Lemmas\<close>

text \<open>Every entry is stored under its own name, and names do not repeat.\<close>

definition registry_ok :: "tool_registry \<Rightarrow> bool" where
  "registry_ok tools \<longleftrightarrow> mwf tools \<and> (\<forall>(n, t) \<in> set tools. tool_name t = n)"

lemma registry_step_ok:
  "registry_ok tools \<Longrightarrow> registry_register tools tool = Inr tools' \<Longrightarrow> registry_ok tools'"
  "registry_ok tools \<Longrightarrow> registry_ok (registry_dispose tool tools)"
proof -
  show "registry_ok tools \<Longrightarrow> registry_register tools tool = Inr tools' \<Longrightarrow> registry_ok tools'"
    by (auto simp: registry_ok_def registry_register_def mhas_def mput_fresh mwf_def mget_def
        map_of_eq_None_iff split: if_splits)
  assume ok: "registry_ok tools"
  have "registry_ok (mdel tools n)" for n using ok by (auto simp: registry_ok_def mdel_def mwf_def AList.delete_eq distinct_map_filter)
  then show "registry_ok (registry_dispose tool tools)" using ok by (simp add: registry_dispose_def split: option.splits)
qed

interpretation tool_registration: reducer registry_register registry_ok
  by unfold_locales (rule registry_step_ok(1))

lemma registry_declared:
  assumes "registry_ok tools"
  shows "registry_get tools n = Some t \<longleftrightarrow> (n, t) \<in> set tools" and "map decl_name (declarations tools) = map fst tools"
proof -
  show "registry_get tools n = Some t \<longleftrightarrow> (n, t) \<in> set tools"
    using assms by (auto simp: registry_get_def registry_ok_def dest: mget_in in_mget)
  show "map decl_name (declarations tools) = map fst tools"
    using assms by (auto simp: declarations_def mvals_def registry_ok_def tool_name_def)
qed

lemma register_all: "foldE registry_register reg tools = Inr reg' \<Longrightarrow> map snd reg' = map snd reg @ tools"
  by (induction tools arbitrary: reg) (auto simp: registry_register_def mhas_def mput_fresh split: if_splits)

lemma register_dispose:
  assumes "mget reg (tool_name tool) = None"
  shows "registry_dispose tool (mput reg (tool_name tool) tool) = reg"
proof -
  have "AList.delete (tool_name tool) reg = reg"
    using assms by (auto simp: AList.delete_eq filter_id_conv mget_def map_of_eq_None_iff image_iff)
  then show ?thesis by (simp add: registry_dispose_def mput_fresh [OF assms] mget_append assms mdel_def AList.delete_eq)
qed

section \<open>Properties\<close>

text \<open>
  Authority is registry membership, kept by disposers. In a registry built by registrations, no two
  tools share a name, the declared roster lists exactly the callable names in registration order, a
  registration is refused exactly when its name is taken, it makes that tool callable and changes no
  other name, and its disposer takes away that very tool: disposing it right away restores the registry,
  and a disposer called after another tool took the name leaves the other tool in place.
\<close>

theorem registry_authority:
  assumes "foldE registry_register [] tools = Inr reg"
  shows "distinct (map decl_name (declarations reg)) \<and> declarations reg = map tool_declared tools
    \<and> (\<forall>n. registry_get reg n \<noteq> None \<longleftrightarrow> n \<in> set (map decl_name (declarations reg)))
    \<and> (\<forall>tool. case registry_register reg tool of
          Inl e \<Rightarrow> tool_name tool \<in> set (map decl_name (declarations reg))
        | Inr reg' \<Rightarrow> (\<forall>n. registry_get reg' n = (if n = tool_name tool then Some tool else registry_get reg n))
            \<and> registry_dispose tool reg' = reg)
    \<and> (\<forall>tool other. registry_get reg (tool_name tool) = Some other \<and> tool_object other \<noteq> tool_object tool \<longrightarrow>
          registry_dispose tool reg = reg)"
proof -
  have ok: "registry_ok reg" using tool_registration.run_inv [OF _ assms] by (simp add: registry_ok_def)
  note names = registry_declared [OF ok]
  have roster: "distinct (map decl_name (declarations reg))" "declarations reg = map tool_declared tools"
    using ok names(2) register_all [OF assms] by (simp_all add: registry_ok_def mwf_def declarations_def mvals_def)
  have get: "registry_get reg n \<noteq> None \<longleftrightarrow> n \<in> set (map decl_name (declarations reg))" for n
    unfolding names(2) by (auto simp: registry_get_def mget_def map_of_eq_None_iff)
  have reg: "case registry_register reg tool of
      Inl e \<Rightarrow> tool_name tool \<in> set (map decl_name (declarations reg))
    | Inr reg' \<Rightarrow> (\<forall>n. registry_get reg' n = (if n = tool_name tool then Some tool else registry_get reg n))
        \<and> registry_dispose tool reg' = reg" for tool
    using register_dispose get [of "tool_name tool"]
    by (auto simp: registry_register_def mhas_def registry_get_def split: if_splits)
  show ?thesis using roster get reg by (auto simp: registry_dispose_def registry_get_def)
qed

definition ex_tool :: "nat \<Rightarrow> string \<Rightarrow> kernel_tool" where
  "ex_tool i name = \<lparr>tool_object = i, tool_declared = \<lparr>decl_name = name, decl_description = ''d'', decl_inputSchema = []\<rparr>\<rparr>"

theorem registry_authority_witness:
  "distinct (map decl_name (declarations [(''read'', ex_tool 1 ''read''), (''bash'', ex_tool 2 ''bash'')]))"
proof -
  have "foldE registry_register [] [ex_tool 1 ''read'', ex_tool 2 ''bash''] =
      Inr [(''read'', ex_tool 1 ''read''), (''bash'', ex_tool 2 ''bash'')]"
    by code_simp
  from registry_authority [OF this] show ?thesis by blast
qed

end
