(* ===== verification/Agent_Session.thy ===== *)
theory Agent_Session
  imports Complex_Main Event_Log Compaction Effects Tools
begin

text \<open>
  A live session over one branch of an event log (\<^verbatim>\<open>packages/kernel/src/agent-session.ts\<close>): the agent
  loop, tool dispatch, retries, queued input, compaction and operation ownership.

  What the code awaits is an environment of answers indexed by a clock that every await advances:
  identifiers and times, the file system, the abort signal, the model port, the tools, the retry timer,
  and the input that arrives meanwhile through \<^verbatim>\<open>steer\<close> and \<^verbatim>\<open>followUp\<close>. The locals of the running
  turn that its helpers mutate (the event list and the activity counter) are fields of the state. An
  append is one step here; appends of other calls between building an event and storing it are the
  subject of the interleaving section of \<^verbatim>\<open>Session_Turns\<close>. Retry delays are computed exactly, not in
  floating point.
\<close>

section \<open>Errors and policies\<close>

datatype session_error =
    OperationConflictError string
  | CompactionUnavailableError bool
  | SessionTypeError string
  | SessionFailed string
  | SessionProtocol protocol_error
  | SessionLog log_error
  | SessionTreeError tree_error
  | SessionReplay replay_error
  | SessionSummary summary_error
  | SessionThrown "string option"

record model_retry_policy =
  pol_maxAttempts :: jsnum
  pol_initialDelayMs :: jsnum
  pol_maximumDelayMs :: jsnum
  pol_multiplier :: jsnum
  pol_jitterRatio :: jsnum

record model_retry_options =
  ropt_maxAttempts :: "jsnum option"
  ropt_initialDelayMs :: "jsnum option"
  ropt_maximumDelayMs :: "jsnum option"
  ropt_multiplier :: "jsnum option"
  ropt_jitterRatio :: "jsnum option"

definition DEFAULT_MODEL_RETRY_POLICY :: model_retry_policy where
  "DEFAULT_MODEL_RETRY_POLICY =
     \<lparr>pol_maxAttempts = JInt 3, pol_initialDelayMs = JInt 500, pol_maximumDelayMs = JInt 60000,
      pol_multiplier = JInt 2, pol_jitterRatio = JFrac 2 1\<rparr>"

fun num_value :: "jsnum \<Rightarrow> rat" where
  "num_value (JInt i) = of_int i"
| "num_value (JFrac m k) = of_int m / 10 ^ k"
| "num_value _ = 0"

definition or_default :: "'a option \<Rightarrow> 'a \<Rightarrow> 'a" where
  "or_default x d = (case x of None \<Rightarrow> d | Some v \<Rightarrow> v)"

definition modelRetryPolicy :: "model_retry_options option \<Rightarrow> session_error + model_retry_policy" where
  "modelRetryPolicy options =
     (let d = DEFAULT_MODEL_RETRY_POLICY;
          policy = (case options of
              None \<Rightarrow> d
            | Some r \<Rightarrow>
                \<lparr>pol_maxAttempts = or_default (ropt_maxAttempts r) (pol_maxAttempts d),
                 pol_initialDelayMs = or_default (ropt_initialDelayMs r) (pol_initialDelayMs d),
                 pol_maximumDelayMs = or_default (ropt_maximumDelayMs r) (pol_maximumDelayMs d),
                 pol_multiplier = or_default (ropt_multiplier r) (pol_multiplier d),
                 pol_jitterRatio = or_default (ropt_jitterRatio r) (pol_jitterRatio d)\<rparr>);
          positive = (\<lambda>name v. require (positive_safe_integer v)
            (SessionTypeError (''retry.'' @ name @ '' must be a positive safe integer''))) in
      run_checks
        [positive ''maxAttempts'' (pol_maxAttempts policy),
         positive ''initialDelayMs'' (pol_initialDelayMs policy),
         positive ''maximumDelayMs'' (pol_maximumDelayMs policy),
         require (is_finite (pol_multiplier policy) \<and> 1 \<le> num_value (pol_multiplier policy))
           (SessionTypeError ''retry.multiplier must be at least 1''),
         require (is_finite (pol_jitterRatio policy) \<and> 0 \<le> num_value (pol_jitterRatio policy)
             \<and> num_value (pol_jitterRatio policy) \<le> 1)
           (SessionTypeError ''retry.jitterRatio must be between 0 and 1'')]
        policy)"

text \<open>\<^verbatim>\<open>Math.round\<close>.\<close>

definition math_round :: "rat \<Rightarrow> int" where
  "math_round x = \<lfloor>x + 1 / 2\<rfloor>"

definition modelRetryDelay :: "model_stream_error \<Rightarrow> nat \<Rightarrow> model_retry_policy \<Rightarrow> rat \<Rightarrow> int" where
  "modelRetryDelay error failedAttempt policy random =
     (let maximum = jsnum_int (pol_maximumDelayMs policy) in
      case Option.bind (err_retryAfterMs error) (\<lambda>r. if 0 \<le> r then Some r else None) of
        Some r \<Rightarrow> min maximum r
      | None \<Rightarrow>
          (let base = min (of_int maximum)
                 (num_value (pol_initialDelayMs policy) * num_value (pol_multiplier policy) ^ (failedAttempt - 1));
               sample = min 1 (max 0 random);
               jitter = 1 + (sample * 2 - 1) * num_value (pol_jitterRatio policy) in
           min maximum (max 0 (math_round (base * jitter)))))"

definition unanswered_step :: "(string, canonical_event) jsmap \<Rightarrow> canonical_event \<Rightarrow> (string, canonical_event) jsmap" where
  "unanswered_step pending event =
     (case ev_payload event of
        ToolCall callId name input \<Rightarrow> mput pending callId event
      | ToolResult callId name content isError details \<Rightarrow> mdel pending callId
      | _ \<Rightarrow> pending)"

definition unansweredToolCalls :: "canonical_event list \<Rightarrow> canonical_event list" where
  "unansweredToolCalls events = mvals (foldl unanswered_step [] events)"

definition interaction_step :: "(string, canonical_event) jsmap \<Rightarrow> canonical_event \<Rightarrow> (string, canonical_event) jsmap" where
  "interaction_step pending event =
     (case ev_payload event of
        InteractionRequested iid kind title message schema \<Rightarrow> mput pending iid event
      | InteractionResolved iid act content \<Rightarrow> mdel pending iid
      | _ \<Rightarrow> pending)"

definition unansweredInteractions :: "canonical_event list \<Rightarrow> canonical_event list" where
  "unansweredInteractions events = mvals (foldl interaction_step [] events)"

section \<open>The environment and the state\<close>

text \<open>A tool returns, throws an \<^verbatim>\<open>Error\<close> or another value, or throws a sandbox violation.\<close>

datatype tool_outcome =
    ToolReturns tool_execution_result
  | ToolThrows "string option"
  | ToolViolates string string

datatype queued_input = Steer "content_item list" | FollowUp "content_item list"

record env =
  env_uuid :: "nat \<Rightarrow> string"
  env_now :: "nat \<Rightarrow> int"
  env_secrets :: "nat \<Rightarrow> string list"
  env_fs :: "nat \<Rightarrow> fs_behaviour"
  env_aborted :: "nat \<Rightarrow> bool"
  env_stream :: "nat \<Rightarrow> model_turn_request \<Rightarrow> port_run"
  env_execute :: "nat \<Rightarrow> kernel_tool \<Rightarrow> json_object \<Rightarrow> tool_outcome"
  env_random :: "nat \<Rightarrow> rat"
  env_sleep :: "nat \<Rightarrow> int \<Rightarrow> string option option"
  env_arrivals :: "nat \<Rightarrow> queued_input list"

datatype activity_frame =
    TextFrame string nat string
  | ThinkingFrame string nat string
  | ToolCallFrame string nat string string
  | ClearFrame string nat

record agent_session =
  as_log :: event_log
  as_file :: "byte list"
  as_contextUsage :: "(int \<times> nat) option"
  as_tools :: tool_registry
  as_system :: "string option"
  as_retry :: "model_retry_policy option"
  as_keepRecentTokens :: jsnum
  as_maxOutputTokens :: jsnum
  as_tip :: "string option"
  as_messages :: "model_message list"
  as_activeOperation :: "string option"
  as_acceptingQueuedMessages :: bool
  as_steeringMessages :: "content_item list list"
  as_followUpMessages :: "content_item list list"
  as_emitted :: "canonical_event list"
  as_frames :: "activity_frame list"
  as_appended :: "canonical_event list"
  as_sequence :: nat
  as_clock :: nat

type_synonym 'a session_action = "(agent_session, session_error, 'a) action"

definition conflict_owned :: "string \<Rightarrow> session_error" where
  "conflict_owned op = OperationConflictError (''Operation '' @ op @ '' already owns this branch'')"

definition throw_if_owned :: "unit session_action" where
  "throw_if_owned = bindA (asks as_activeOperation) (\<lambda>active.
     case active of None \<Rightarrow> ret () | Some op \<Rightarrow> throw (conflict_owned op))"

section \<open>Queued input\<close>

definition steer :: "content_item list \<Rightarrow> unit session_action" where
  "steer content = bindA (asks as_acceptingQueuedMessages) (\<lambda>accepting.
     if \<not> accepting then throw (OperationConflictError ''No active model turn can receive steering'')
     else modify (\<lambda>s. s\<lparr>as_steeringMessages := as_steeringMessages s @ [content]\<rparr>))"

definition followUp :: "content_item list \<Rightarrow> unit session_action" where
  "followUp content = bindA (asks as_acceptingQueuedMessages) (\<lambda>accepting.
     if \<not> accepting then throw (OperationConflictError ''No active model turn can receive a follow-up'')
     else modify (\<lambda>s. s\<lparr>as_followUpMessages := as_followUpMessages s @ [content]\<rparr>))"

definition hasQueuedMessages :: "agent_session \<Rightarrow> bool" where
  "hasQueuedMessages s \<longleftrightarrow> 0 < length (as_steeringMessages s) \<or> 0 < length (as_followUpMessages s)"

fun arrive :: "queued_input \<Rightarrow> agent_session \<Rightarrow> agent_session" where
  "arrive (Steer content) s = fst (steer content s)"
| "arrive (FollowUp content) s = fst (followUp content s)"

text \<open>One await: the clock advances and the input that arrived meanwhile is queued.\<close>

definition tick :: "env \<Rightarrow> agent_session \<Rightarrow> agent_session" where
  "tick env s = (fold arrive (env_arrivals env (as_clock s)) s)\<lparr>as_clock := Suc (as_clock s)\<rparr>"

definition aborted_now :: "env \<Rightarrow> agent_session \<Rightarrow> bool" where
  "aborted_now env s = env_aborted env (as_clock s)"

section \<open>Appending\<close>

definition new_event :: "env \<Rightarrow> string option \<Rightarrow> payload \<Rightarrow> agent_session \<Rightarrow> canonical_event" where
  "new_event env op p s =
     \<lparr>ev_id = env_uuid env (as_clock s), ev_sessionId = log_sessionId (as_log s), ev_operationId = op,
      ev_parentId = as_tip s, ev_timestamp = env_now env (as_clock s), ev_payload = p\<rparr>"

definition session_append :: "env \<Rightarrow> string option \<Rightarrow> payload \<Rightarrow> canonical_event session_action" where
  "session_append env op p s =
     (case parseEvent (event_json (new_event env op p s)) of
        Inl e \<Rightarrow> (tick env s, Inl (SessionProtocol e))
      | Inr event \<Rightarrow>
          (case log_append (env_fs env (as_clock s)) (as_log s) (env_secrets env (as_clock s)) (event_json event) (as_file s) of
             (Inl e, file) \<Rightarrow> ((tick env s)\<lparr>as_file := file\<rparr>, Inl (SessionLog e))
           | (Inr stored, file) \<Rightarrow>
               ((tick env s)\<lparr>as_file := file, as_tip := Some (ev_id stored), as_emitted := as_emitted s @ [stored]\<rparr>, Inr stored)))"

definition push_appended :: "canonical_event \<Rightarrow> unit session_action" where
  "push_appended event = modify (\<lambda>s. s\<lparr>as_appended := as_appended s @ [event]\<rparr>)"

definition append_pushed :: "env \<Rightarrow> string option \<Rightarrow> payload \<Rightarrow> canonical_event session_action" where
  "append_pushed env op p = bindA (session_append env op p) (\<lambda>event. thenA (push_appended event) (ret event))"

definition push_message :: "model_message \<Rightarrow> unit session_action" where
  "push_message m = modify (\<lambda>s. s\<lparr>as_messages := as_messages s @ [m]\<rparr>)"

fun payload_content :: "payload \<Rightarrow> content_item list" where
  "payload_content (UserMessage content) = content"
| "payload_content (UserShell command content isError excluded) = content"
| "payload_content (AssistantMessage content stopReason u errorMessage) = content"
| "payload_content (ToolResult callId name content isError details) = content"
| "payload_content _ = []"

definition frame_out :: "(nat \<Rightarrow> activity_frame) \<Rightarrow> unit session_action" where
  "frame_out mk = modify (\<lambda>s. s\<lparr>as_sequence := Suc (as_sequence s), as_frames := as_frames s @ [mk (Suc (as_sequence s))]\<rparr>)"

section \<open>One model attempt\<close>

record turn_outcome =
  out_content :: "content_item list"
  out_toolCalls :: "tool_call_request list"
  out_stopReason :: stop_reason
  out_usage :: "usage option"
  out_error :: "model_stream_error option"
  out_exposedOutput :: bool

record attempt_locals =
  loc_thinking :: string
  loc_text :: string
  loc_toolCalls :: "tool_call_request list"
  loc_exposed :: bool

datatype attempt_end = StreamEnded "model_stream_event option" | StreamThrew "string option"

definition stream_request :: "agent_session \<Rightarrow> model_turn_request" where
  "stream_request s =
     (let estimated = (case as_contextUsage s of
            None \<Rightarrow> estimateModelInputTokens (as_system s) (as_messages s) (Some (declarations (as_tools s)))
          | Some (tokens, messageCount) \<Rightarrow>
              nat tokens + sum_list (map estimateModelMessageTokens (drop messageCount (as_messages s)))) in
      \<lparr>turn_system = as_system s, turn_messages = as_messages s, turn_tools = declarations (as_tools s),
       turn_maxOutputTokens = None, turn_estimatedInputTokens = Some estimated, turn_toolChoice = None\<rparr>)"

definition attempt_event :: "string \<Rightarrow> model_stream_event \<Rightarrow> attempt_locals \<Rightarrow> attempt_locals session_action" where
  "attempt_event op event loc =
     (case event of
        TextDelta t i \<Rightarrow>
          thenA (frame_out (\<lambda>n. TextFrame op n t)) (ret (loc\<lparr>loc_exposed := True, loc_text := loc_text loc @ t\<rparr>))
      | ThinkingDelta t i \<Rightarrow>
          thenA (frame_out (\<lambda>n. ThinkingFrame op n t)) (ret (loc\<lparr>loc_exposed := True, loc_thinking := loc_thinking loc @ t\<rparr>))
      | ToolCallEv r i \<Rightarrow>
          thenA (frame_out (\<lambda>n. ToolCallFrame op n (req_callId r) (req_name r)))
            (ret (loc\<lparr>loc_exposed := True, loc_toolCalls := loc_toolCalls loc @ [r]\<rparr>))
      | _ \<Rightarrow> ret loc)"

text \<open>
  The loop over the stream, each action awaited. An append that fails inside \<^verbatim>\<open>onRequestConfigured\<close>
  reaches the loop as a throw of the port.
\<close>

definition thrown_message :: "session_error \<Rightarrow> string option" where
  "thrown_message e = (case e of SessionThrown m \<Rightarrow> m | SessionFailed m \<Rightarrow> Some m | OperationConflictError m \<Rightarrow> Some m
     | SessionTypeError m \<Rightarrow> Some m | _ \<Rightarrow> Some ''append failed'')"

fun attempt_loop :: "env \<Rightarrow> string \<Rightarrow> port_end \<Rightarrow> port_action list \<Rightarrow> attempt_locals \<Rightarrow> (attempt_locals \<times> attempt_end) session_action" where
  "attempt_loop env op PortReturns [] loc = thenA (modify (tick env)) (ret (loc, StreamEnded None))"
| "attempt_loop env op (PortThrows e) [] loc = thenA (modify (tick env)) (ret (loc, StreamThrew e))"
| "attempt_loop env op fin (Configured cfg # rest) loc =
     (\<lambda>s. case append_pushed env (Some op) (ModelRequestConfigured cfg) s of
        (s', Inl e) \<Rightarrow> (s', Inr (loc, StreamThrew (thrown_message e)))
      | (s', Inr _) \<Rightarrow> attempt_loop env op fin rest loc s')"
| "attempt_loop env op fin (Yield event # rest) loc =
     thenA (modify (tick env)) (bindA (attempt_event op event loc) (\<lambda>loc'.
       if isTerminalModelStreamEvent event then ret (loc', StreamEnded (Some event))
       else attempt_loop env op fin rest loc'))"

definition port_error :: "string \<Rightarrow> string \<Rightarrow> model_stream_error" where
  "port_error code message =
     \<lparr>err_code = code, err_message = message, err_retryable = False, err_partial = None, err_category = None,
      err_requestPhase = None, err_retryAfterMs = None, err_retry = None, err_response = None, err_diagnostics = None\<rparr>"

definition attempt_terminal :: "bool \<Rightarrow> attempt_end \<Rightarrow> model_stream_event" where
  "attempt_terminal aborted end1 =
     (case end1 of
        StreamEnded (Some event) \<Rightarrow> event
      | StreamEnded None \<Rightarrow>
          if aborted then Aborted None
          else StreamErrorEv (port_error ''model_stream_truncated'' ''model stream ended without a terminal event'')
      | StreamThrew e \<Rightarrow>
          if aborted then Aborted None
          else StreamErrorEv (port_error ''model_port_failure'' (or_default e ''model port threw a non-Error value'')))"

definition attempt_outcome :: "attempt_locals \<Rightarrow> model_stream_event \<Rightarrow> turn_outcome" where
  "attempt_outcome loc terminal =
     (let content = (if loc_thinking loc \<noteq> [] then [Thinking (loc_thinking loc)] else [])
            @ (if loc_text loc \<noteq> [] then [Text (loc_text loc)] else []) in
      case terminal of
        Completed stopReason u p r d \<Rightarrow>
          \<lparr>out_content = content, out_toolCalls = loc_toolCalls loc, out_stopReason = stopReason, out_usage = Some u,
           out_error = None, out_exposedOutput = loc_exposed loc\<rparr>
      | StreamErrorEv e \<Rightarrow>
          \<lparr>out_content = content, out_toolCalls = [], out_stopReason = StopError, out_usage = None,
           out_error = Some e, out_exposedOutput = loc_exposed loc\<rparr>
      | _ \<Rightarrow>
          \<lparr>out_content = content, out_toolCalls = [], out_stopReason = StopAborted, out_usage = None,
           out_error = None, out_exposedOutput = loc_exposed loc\<rparr>)"

definition modelAttempt :: "env \<Rightarrow> string \<Rightarrow> turn_outcome session_action" where
  "modelAttempt env op =
     bindA (asks (\<lambda>s. env_stream env (as_clock s) (stream_request s))) (\<lambda>(actions, fin).
     bindA (attempt_loop env op fin actions \<lparr>loc_thinking = [], loc_text = [], loc_toolCalls = [], loc_exposed = False\<rparr>)
       (\<lambda>(loc, end1).
     bindA (asks (aborted_now env)) (\<lambda>aborted.
     ret (attempt_outcome loc (attempt_terminal aborted end1)))))"

section \<open>A model turn with retries\<close>

definition aborted_outcome :: turn_outcome where
  "aborted_outcome = \<lparr>out_content = [], out_toolCalls = [], out_stopReason = StopAborted, out_usage = None,
     out_error = None, out_exposedOutput = False\<rparr>"

definition scheduler_failed :: "string option \<Rightarrow> turn_outcome" where
  "scheduler_failed e = \<lparr>out_content = [], out_toolCalls = [], out_stopReason = StopError, out_usage = None,
     out_error = Some ((port_error ''retry_scheduler_failed'' (or_default e ''model retry scheduler failed''))
       \<lparr>err_category := Some UnknownCategory, err_requestPhase := Some BeforeDispatch\<rparr>),
     out_exposedOutput = False\<rparr>"

text \<open>The error a retry is allowed for.\<close>

definition retryable_error :: "turn_outcome \<Rightarrow> model_stream_error option" where
  "retryable_error outcome =
     (case out_error outcome of
        None \<Rightarrow> None
      | Some e \<Rightarrow>
          if \<not> err_retryable e \<or> err_requestPhase e = None \<or> err_requestPhase e = Some UnknownPhase
             \<or> out_exposedOutput outcome
          then None else Some e)"

fun attempt_from :: "env \<Rightarrow> string \<Rightarrow> model_retry_policy \<Rightarrow> nat \<Rightarrow> nat \<Rightarrow> turn_outcome session_action" where
  "attempt_from env op policy attempt 0 = modelAttempt env op"
| "attempt_from env op policy attempt (Suc left) =
     bindA (modelAttempt env op) (\<lambda>outcome.
     case retryable_error outcome of
       None \<Rightarrow> ret outcome
     | Some error \<Rightarrow>
         bindA (asks (\<lambda>s. modelRetryDelay error attempt policy (env_random env (as_clock s)))) (\<lambda>delayMs.
         bindA (append_pushed env (Some op)
           (ModelRetryScheduled (int attempt + 1) (jsnum_int (pol_maxAttempts policy)) delayMs (err_code error))) (\<lambda>_.
         bindA (asks (\<lambda>s. env_sleep env (as_clock s) delayMs)) (\<lambda>slept.
         thenA (modify (tick env)) (bindA (asks (aborted_now env)) (\<lambda>aborted.
           if aborted then ret aborted_outcome
           else (case slept of
             Some e \<Rightarrow> ret (scheduler_failed e)
           | None \<Rightarrow> attempt_from env op policy (Suc attempt) left)))))))"

text \<open>\<open>attempt_from\<close> counts the attempts left after this one, from \<^verbatim>\<open>maxAttempts - 1\<close> down.\<close>

definition modelTurn :: "env \<Rightarrow> string \<Rightarrow> turn_outcome session_action" where
  "modelTurn env op =
     bindA (asks (aborted_now env)) (\<lambda>aborted.
     if aborted then ret aborted_outcome
     else bindA (asks as_retry) (\<lambda>retry.
       case retry of
         None \<Rightarrow> modelAttempt env op
       | Some policy \<Rightarrow> attempt_from env op policy 1 (nat (jsnum_int (pol_maxAttempts policy)) - 1)))"

section \<open>Tools\<close>

definition executeTool :: "env \<Rightarrow> tool_call_request \<Rightarrow> (tool_execution_result \<times> (string \<times> string) option) session_action" where
  "executeTool env call =
     bindA (asks (\<lambda>s. registry_get (as_tools s) (req_name call))) (\<lambda>tool.
     case tool of
       None \<Rightarrow> ret (\<lparr>res_content = [Text (''Tool '' @ req_name call @ '' is not registered'')], res_isError = True, res_details = None\<rparr>, None)
     | Some t \<Rightarrow>
         bindA (asks (\<lambda>s. env_execute env (as_clock s) t (req_input call))) (\<lambda>outcome.
         thenA (modify (tick env))
           (ret (case outcome of
              ToolReturns result \<Rightarrow> (result, None)
            | ToolThrows e \<Rightarrow>
                (\<lparr>res_content = [Text (or_default e ''tool execution failed'')], res_isError = True, res_details = None\<rparr>, None)
            | ToolViolates capability reason \<Rightarrow>
                (\<lparr>res_content = [Text (capability @ '': '' @ reason)], res_isError = True, res_details = None\<rparr>,
                 Some (capability, reason))))))"

fun executeToolCalls :: "env \<Rightarrow> string \<Rightarrow> tool_call_request list \<Rightarrow> bool session_action" where
  "executeToolCalls env op [] = ret False"
| "executeToolCalls env op (call # calls) =
     bindA (append_pushed env (Some op) (ToolCall (req_callId call) (req_name call) (req_input call))) (\<lambda>_.
     bindA (executeTool env call) (\<lambda>(result, violation).
     bindA (case violation of
              None \<Rightarrow> ret ()
            | Some (capability, reason) \<Rightarrow> thenA (append_pushed env (Some op) (SandboxViolation capability reason)) (ret ())) (\<lambda>_.
     bindA (append_pushed env (Some op)
       (ToolResult (req_callId call) (req_name call) (res_content result) (res_isError result) (res_details result))) (\<lambda>resultEvent.
     thenA (push_message (ToolMsg (req_callId call) (req_name call) (payload_content (ev_payload resultEvent)) (res_isError result)))
       (bindA (asks (aborted_now env)) (\<lambda>aborted. if aborted then ret True else executeToolCalls env op calls))))))"

section \<open>User turns\<close>

definition appendUserMessage :: "env \<Rightarrow> string \<Rightarrow> content_item list \<Rightarrow> unit session_action" where
  "appendUserMessage env op content =
     bindA (append_pushed env (Some op) (UserMessage content)) (\<lambda>event.
     push_message (UserMsg (payload_content (ev_payload event))))"

text \<open>The two queues, the head of which is delivered and, once stored, removed.\<close>

datatype queue_kind = SteeringQueue | FollowUpQueue

fun queue_of :: "queue_kind \<Rightarrow> agent_session \<Rightarrow> content_item list list" where
  "queue_of SteeringQueue s = as_steeringMessages s"
| "queue_of FollowUpQueue s = as_followUpMessages s"

fun queue_shift :: "queue_kind \<Rightarrow> agent_session \<Rightarrow> agent_session" where
  "queue_shift SteeringQueue s = s\<lparr>as_steeringMessages := tl (as_steeringMessages s)\<rparr>"
| "queue_shift FollowUpQueue s = s\<lparr>as_followUpMessages := tl (as_followUpMessages s)\<rparr>"

definition appendNextQueuedMessage :: "env \<Rightarrow> queue_kind \<Rightarrow> string \<Rightarrow> bool session_action" where
  "appendNextQueuedMessage env q op =
     bindA (asks (queue_of q)) (\<lambda>queue.
     case queue of
       [] \<Rightarrow> ret False
     | content # _ \<Rightarrow> thenA (appendUserMessage env op content) (thenA (modify (queue_shift q)) (ret True)))"

record turn_result =
  turn_events :: "canonical_event list"
  turn_stopReason :: stop_reason

datatype turn_progress = TurnContinues | TurnReturns turn_result

definition turn_return :: "stop_reason \<Rightarrow> turn_progress session_action" where
  "turn_return reason = bindA (asks as_appended) (\<lambda>events. ret (TurnReturns \<lparr>turn_events = events, turn_stopReason = reason\<rparr>))"

definition note_usage :: "turn_outcome \<Rightarrow> unit session_action" where
  "note_usage outcome =
     (case out_usage outcome of
        None \<Rightarrow> ret ()
      | Some u \<Rightarrow>
          (let tokens = inputTokens u + outputTokens u + cacheReadTokens u + cacheWriteTokens u in
           if 0 < tokens then modify (\<lambda>s. s\<lparr>as_contextUsage := Some (tokens, length (as_messages s))\<rparr>) else ret ()))"

definition append_assistant :: "env \<Rightarrow> string \<Rightarrow> turn_outcome \<Rightarrow> unit session_action" where
  "append_assistant env op outcome =
     bindA (append_pushed env (Some op)
       (AssistantMessage (out_content outcome) (out_stopReason outcome) (out_usage outcome)
         (map_option (\<lambda>e. err_code e @ '': '' @ err_message e) (out_error outcome)))) (\<lambda>event.
     thenA (push_message (AssistantMsg (payload_content (ev_payload event)) (Some (out_toolCalls outcome))))
       (frame_out (ClearFrame op)))"

text \<open>What follows an answer of the model: queued input first, then the tool loop, then follow-ups.\<close>

definition after_answer :: "env \<Rightarrow> string \<Rightarrow> stop_reason \<Rightarrow> turn_progress session_action" where
  "after_answer env op reason =
     bindA (appendNextQueuedMessage env SteeringQueue op) (\<lambda>steered.
     if steered then ret TurnContinues
     else if reason = ToolUse then ret TurnContinues
     else bindA (appendNextQueuedMessage env FollowUpQueue op) (\<lambda>followed.
       if followed then ret TurnContinues else turn_return reason))"

text \<open>One pass of the \<^verbatim>\<open>while (true)\<close> loop.\<close>

definition turn_step :: "env \<Rightarrow> string \<Rightarrow> turn_progress session_action" where
  "turn_step env op =
     bindA (modelTurn env op) (\<lambda>outcome.
     thenA (append_assistant env op outcome)
     (if out_stopReason outcome = StopError \<or> out_stopReason outcome = StopAborted then turn_return (out_stopReason outcome)
      else
        thenA (note_usage outcome)
        (if out_stopReason outcome = ToolUse then
           (if out_toolCalls outcome = [] then
              thenA (append_pushed env (Some op)
                (SessionErrorEv ''missing_tool_call'' ''Model ended with tool_use but supplied no tool call'' False None))
                (turn_return StopError)
            else
              bindA (executeToolCalls env op (out_toolCalls outcome)) (\<lambda>aborted.
              if aborted then ret TurnContinues else after_answer env op (out_stopReason outcome)))
         else after_answer env op (out_stopReason outcome))))"

text \<open>The loop; \<open>None\<close> means it never returns.\<close>

partial_function (option) turn_loop :: "env \<Rightarrow> string \<Rightarrow> agent_session \<Rightarrow> (agent_session \<times> (session_error + turn_result)) option" where
  "turn_loop env op s =
     (case turn_step env op s of
        (s', Inl e) \<Rightarrow> Some (s', Inl e)
      | (s', Inr (TurnReturns r)) \<Rightarrow> Some (s', Inr r)
      | (s', Inr TurnContinues) \<Rightarrow> turn_loop env op s')"

declare turn_loop.simps [code]

definition operation_id :: "env \<Rightarrow> string option \<Rightarrow> string session_action" where
  "operation_id env requested =
     (case requested of
        Some op \<Rightarrow> ret op
      | None \<Rightarrow> bindA (asks (\<lambda>s. env_uuid env (as_clock s))) (\<lambda>u.
          thenA (modify (\<lambda>s. s\<lparr>as_clock := Suc (as_clock s)\<rparr>))
            (lift (map_sum SessionProtocol id (parseOperationId (Some (JStr u)) ''operationId'')))))"

definition start_turn :: "string \<Rightarrow> agent_session \<Rightarrow> agent_session" where
  "start_turn op s = s\<lparr>as_activeOperation := Some op, as_acceptingQueuedMessages := True, as_appended := [], as_sequence := 0\<rparr>"

definition end_turn :: "agent_session \<Rightarrow> agent_session" where
  "end_turn s = s\<lparr>as_acceptingQueuedMessages := False, as_activeOperation := None\<rparr>"

definition runTurn :: "env \<Rightarrow> content_item list \<Rightarrow> string option \<Rightarrow> agent_session \<Rightarrow>
  (agent_session \<times> (session_error + turn_result)) option" where
  "runTurn env content requestedOperationId s =
     (case thenA throw_if_owned (operation_id env requestedOperationId) s of
        (s0, Inl e) \<Rightarrow> Some (s0, Inl e)
      | (s0, Inr op) \<Rightarrow>
          (case appendUserMessage env op content (start_turn op s0) of
             (s1, Inl e) \<Rightarrow> Some (end_turn s1, Inl e)
           | (s1, Inr _) \<Rightarrow> map_option (\<lambda>(s2, r). (end_turn s2, r)) (turn_loop env op s1)))"

definition continueQueued :: "env \<Rightarrow> agent_session \<Rightarrow> (agent_session \<times> (session_error + turn_result option)) option" where
  "continueQueued env s =
     (let q = (if 0 < length (as_steeringMessages s) then SteeringQueue else FollowUpQueue) in
      case queue_of q s of
        [] \<Rightarrow> Some (s, Inr None)
      | content # _ \<Rightarrow> map_option (\<lambda>(s', r). (s', map_sum id Some r)) (runTurn env content None (queue_shift q s)))"

section \<open>Other operations\<close>

definition set_active :: "string option \<Rightarrow> agent_session \<Rightarrow> agent_session" where
  "set_active op s = s\<lparr>as_activeOperation := op\<rparr>"

definition requestInteraction :: "env \<Rightarrow> payload \<Rightarrow> canonical_event session_action" where
  "requestInteraction env p = bindA (asks as_activeOperation) (\<lambda>active.
     case active of
       None \<Rightarrow> throw (OperationConflictError ''Interactions require an active session operation'')
     | Some op \<Rightarrow> session_append env (Some op) p)"

definition resolveInteraction :: "env \<Rightarrow> payload \<Rightarrow> string option \<Rightarrow> canonical_event session_action" where
  "resolveInteraction env p operationId = bindA (asks as_activeOperation) (\<lambda>active.
     case active of
       None \<Rightarrow> throw (OperationConflictError ''No active operation can receive this interaction response'')
     | Some op \<Rightarrow> session_append env (Some (or_default operationId op)) p)"

definition injectContext :: "env \<Rightarrow> string \<Rightarrow> string \<Rightarrow> canonical_event session_action" where
  "injectContext env source content = bindA (asks as_activeOperation) (\<lambda>active.
     case active of
       Some op \<Rightarrow> throw (OperationConflictError (''Operation '' @ op @ '' owns this branch; steering lands after it''))
     | None \<Rightarrow> bindA (session_append env None (ContextInjected source content)) (\<lambda>event.
         thenA (push_message (UserMsg [Text (''['' @ source @ '']'' @ nl @ content)])) (ret event)))"

definition is_blob :: "content_item \<Rightarrow> bool" where
  "is_blob c = (case c of Blob _ \<Rightarrow> True | _ \<Rightarrow> False)"

fun shellModelContent :: "payload \<Rightarrow> content_item list" where
  "shellModelContent (UserShell command content isError excluded) =
     Text (''[shell]'' @ nl @ ''$ '' @ command @ nl @ concat (map item_text (filter is_text content))) # filter is_blob content"
| "shellModelContent _ = []"

definition runShell :: "env \<Rightarrow> string \<Rightarrow> bool \<Rightarrow> string option \<Rightarrow> canonical_event session_action" where
  "runShell env command excluded requestedOperationId =
     thenA throw_if_owned
     (bindA (asks (\<lambda>s. registry_get (as_tools s) ''bash'')) (\<lambda>tool.
     case tool of
       None \<Rightarrow> throw (SessionFailed ''The bash tool is unavailable in this session'')
     | Some shell \<Rightarrow>
         bindA (operation_id env requestedOperationId) (\<lambda>op.
         thenA (modify (set_active (Some op)))
         (finallyA
           (bindA (asks (\<lambda>s. env_execute env (as_clock s) shell [(''command'', JStr command)])) (\<lambda>outcome.
            thenA (modify (tick env))
            (case outcome of
               ToolReturns result \<Rightarrow>
                 bindA (session_append env (Some op) (UserShell command (res_content result) (res_isError result) excluded)) (\<lambda>event.
                 thenA (if excluded then ret () else push_message (UserMsg (shellModelContent (ev_payload event)))) (ret event))
             | ToolThrows e \<Rightarrow> throw (SessionThrown e)
             | ToolViolates capability reason \<Rightarrow> throw (SessionThrown (Some (capability @ '': '' @ reason))))))
           (set_active None)))))"

text \<open>\<^verbatim>\<open>messagesFromLineage\<close> and the summarising request of \<^verbatim>\<open>compact\<close>, whose callback appends.\<close>

definition messagesFromLineage :: "canonical_event list \<Rightarrow> replay_error + model_message list" where
  "messagesFromLineage events = messagesFromCompactedLineage events"

definition append_configured :: "env \<Rightarrow> string \<Rightarrow> agent_session on_configured" where
  "append_configured env op s cfg =
     (case session_append env (Some op) (ModelRequestConfigured cfg) s of
        (s', Inl e) \<Rightarrow> (s', Some (thrown_message e))
      | (s', Inr _) \<Rightarrow> (s', None))"

definition read_lineage :: "canonical_event list session_action" where
  "read_lineage = (\<lambda>s.
     (case log_read (as_log s) (as_file s) of
        Inl e \<Rightarrow> (s, Inl (SessionLog e))
      | Inr ((events, _), file) \<Rightarrow>
          (s\<lparr>as_file := file\<rparr>,
           (case fromEvents (Some (JStr (log_sessionId (as_log s)))) events of
              Inl e \<Rightarrow> Inl (SessionTreeError e)
            | Inr tree \<Rightarrow>
                (case as_tip s of None \<Rightarrow> Inr [] | Some tip \<Rightarrow> map_sum SessionTreeError id (lineage tree tip))))))"

definition summarize :: "env \<Rightarrow> string \<Rightarrow> compaction_plan \<Rightarrow> string option \<Rightarrow> (string \<times> usage) session_action" where
  "summarize env op plan instructions = (\<lambda>s.
     (case summarizeCompaction (env_stream env (as_clock s)) (append_configured env op) plan instructions (as_maxOutputTokens s)
             (aborted_now env s) (aborted_now env) (tick env s) of
        (s', r) \<Rightarrow> (s', map_sum SessionSummary id r)))"

definition session_prepare :: "canonical_event list \<Rightarrow> jsnum \<Rightarrow> session_error + compaction_plan" where
  "session_prepare path keep =
     (case prepareCompaction path keep of
        Inl KeepRecentTokensError \<Rightarrow> Inl (SessionTypeError ''keepRecentTokens must be a positive safe integer'')
      | Inl (PrepareReplay e) \<Rightarrow> Inl (SessionReplay e)
      | Inr None \<Rightarrow> Inl (CompactionUnavailableError (path \<noteq> [] \<and> is_compaction (last path)))
      | Inr (Some plan) \<Rightarrow> Inr plan)"

definition session_compact :: "env \<Rightarrow> string option \<Rightarrow> string option \<Rightarrow> canonical_event session_action" where
  "session_compact env customInstructions requestedOperationId =
     thenA throw_if_owned
     (let instructions = map_option trim customInstructions in
      thenA (throw_if (instructions = Some []) (SessionTypeError ''Compaction instructions must not be empty''))
      (bindA (operation_id env requestedOperationId) (\<lambda>op.
       thenA (modify (set_active (Some op)))
       (finallyA
         (bindA read_lineage (\<lambda>path.
          bindA (asks as_keepRecentTokens) (\<lambda>keep.
          bindA (lift (session_prepare path keep)) (\<lambda>plan.
          bindA (summarize env op plan instructions) (\<lambda>(summary, u).
          bindA (asks (aborted_now env)) (\<lambda>aborted.
          thenA (throw_if aborted (SessionSummary SummaryAborted))
          (bindA (session_append env (Some op) (ContextCompacted summary (plan_replacedEventIds plan) (Some u))) (\<lambda>event.
           bindA (lift (map_sum SessionReplay id (messagesFromLineage (path @ [event])))) (\<lambda>messages.
           thenA (modify (\<lambda>s. s\<lparr>as_messages := messages, as_contextUsage := None\<rparr>)) (ret event))))))))))
         (set_active None)))))"

definition abortRecoveredTurn :: "env \<Rightarrow> string \<Rightarrow> canonical_event session_action" where
  "abortRecoveredTurn env op = thenA throw_if_owned
     (session_append env (Some op) (AssistantMessage [] StopAborted None
       (Some ''Operation was aborted because the daemon restarted before recording completion.'')))"

definition abortRecoveredDelivery :: "env \<Rightarrow> string \<Rightarrow> content_item list \<Rightarrow> (canonical_event \<times> canonical_event) session_action" where
  "abortRecoveredDelivery env op content = thenA throw_if_owned
     (bindA (session_append env (Some op) (UserMessage content)) (\<lambda>message.
      thenA (push_message (UserMsg (payload_content (ev_payload message))))
      (if payload_type (ev_payload message) \<noteq> ''user.message'' then
         throw (SessionFailed ''Recovered delivery did not append its user message'')
       else bindA (abortRecoveredTurn env op) (\<lambda>terminal. ret (message, terminal)))))"

definition session_close :: "env \<Rightarrow> string \<Rightarrow> canonical_event session_action" where
  "session_close env op = thenA throw_if_owned (session_append env (Some op) (SessionClosed CloseDisposed))"

definition recordQueueEvent :: "env \<Rightarrow> string \<Rightarrow> payload \<Rightarrow> canonical_event session_action" where
  "recordQueueEvent env op p = session_append env (Some op) p"

definition recordInterruptEvent :: "env \<Rightarrow> string \<Rightarrow> payload \<Rightarrow> canonical_event session_action" where
  "recordInterruptEvent env op p = session_append env (Some op) p"

definition rename_session :: "env \<Rightarrow> string \<Rightarrow> string \<Rightarrow> canonical_event session_action" where
  "rename_session env op title = bindA (asks as_activeOperation) (\<lambda>active.
     case active of
       Some owner \<Rightarrow> throw (OperationConflictError (''Operation '' @ owner @ '' owns this branch''))
     | None \<Rightarrow> session_append env (Some op) (SessionRenamed title))"

definition recordSessionError :: "env \<Rightarrow> string \<Rightarrow> payload \<Rightarrow> canonical_event session_action" where
  "recordSessionError env op p = session_append env (Some op) p"

section \<open>Opening a session\<close>

record prompt_section =
  sec_name :: string
  sec_source :: string
  sec_content :: string

record stable_prompt =
  prompt_text :: string
  prompt_sections :: "prompt_section list"

datatype retry_setting = RetryOff | RetryWith "model_retry_options option"

record session_options =
  so_tools :: tool_registry
  so_prompt :: "stable_prompt option"
  so_system :: "string option"
  so_cwd :: string
  so_retry :: retry_setting
  so_keepRecentTokens :: "jsnum option"
  so_maxOutputTokens :: "jsnum option"
  so_log :: log_options
  so_sandbox :: "(string \<times> bool \<times> string list \<times> json_object option) option"
  so_configProvider :: "string option"
  so_configRequest :: "model_request_settings option"
  so_configModel :: "string option"
  so_configThinking :: "(thinking_level \<times> thinking_level \<times> bool) option"
  so_configProfile :: "session_profile option"
  so_configTools :: "(bool \<times> bool) option"
  so_configDialect :: "(string \<times> string \<times> dialect_reason) option"
  so_creationOperationId :: "string option"
  so_boundaryOperationId :: "string option"
  so_activate :: "string option option"

text \<open>The constructor over the events of the branch.\<close>

definition newSession :: "event_log \<Rightarrow> byte list \<Rightarrow> canonical_event list \<Rightarrow> session_options \<Rightarrow> session_error + agent_session" where
  "newSession eventLog file events options =
     bindE (case so_retry options of RetryOff \<Rightarrow> Inr None | RetryWith r \<Rightarrow> map_sum id Some (modelRetryPolicy r)) (\<lambda>retry.
     (let keep = or_default (so_keepRecentTokens options) (JInt (int DEFAULT_COMPACTION_KEEP_RECENT_TOKENS));
          maxOut = or_default (so_maxOutputTokens options) (JInt (int DEFAULT_COMPACTION_MAX_OUTPUT_TOKENS));
          positive = (\<lambda>name v. require (positive_safe_integer v)
            (SessionTypeError (''compaction.'' @ name @ '' must be a positive safe integer''))) in
      bindE (run_checks [positive ''keepRecentTokens'' keep, positive ''maxOutputTokens'' maxOut] ()) (\<lambda>_.
      bindE (map_sum SessionReplay id (messagesFromLineage events)) (\<lambda>messages.
      Inr \<lparr>as_log = eventLog, as_file = file, as_contextUsage = None, as_tools = so_tools options,
        as_system = (case so_prompt options of Some p \<Rightarrow> Some (prompt_text p) | None \<Rightarrow> so_system options),
        as_retry = retry, as_keepRecentTokens = keep, as_maxOutputTokens = maxOut,
        as_tip = (if events = [] then None else Some (ev_id (last events))), as_messages = messages,
        as_activeOperation = None, as_acceptingQueuedMessages = False, as_steeringMessages = [], as_followUpMessages = [],
        as_emitted = [], as_frames = [], as_appended = [], as_sequence = 0, as_clock = 0\<rparr>))))"

definition ABORTED_RESULT :: string where
  "ABORTED_RESULT = ''Tool execution was aborted because the daemon stopped before recording a result.''"

fun interaction_id :: "payload \<Rightarrow> string" where
  "interaction_id (InteractionRequested iid kind title message schema) = iid"
| "interaction_id _ = []"

fun call_id_name :: "payload \<Rightarrow> string \<times> string" where
  "call_id_name (ToolCall callId name input) = (callId, name)"
| "call_id_name _ = ([], [])"

definition cancel_interaction :: "env \<Rightarrow> canonical_event \<Rightarrow> unit session_action" where
  "cancel_interaction env interaction =
     thenA (session_append env (ev_operationId interaction)
       (InteractionResolved (interaction_id (ev_payload interaction)) Cancel None)) (ret ())"

definition abort_call :: "env \<Rightarrow> canonical_event \<Rightarrow> unit session_action" where
  "abort_call env call =
     (let (callId, name) = call_id_name (ev_payload call) in
      bindA (session_append env (ev_operationId call)
        (ToolResult callId name [Text ABORTED_RESULT] True
          (Some (JObj [(''endedBy'', JStr ''abort''), (''reason'', JStr ''daemon_restart'')])))) (\<lambda>result.
      push_message (ToolMsg callId name (payload_content (ev_payload result)) True)))"

definition append_for :: "env \<Rightarrow> string option \<Rightarrow> payload \<Rightarrow> unit session_action" where
  "append_for env op p = thenA (session_append env op p) (ret ())"

text \<open>The announcements of a runtime boundary, in order.\<close>

definition boundary_payloads :: "session_options \<Rightarrow> payload list" where
  "boundary_payloads options =
     map (\<lambda>d. ToolSchema (decl_name d) (decl_description d) (decl_inputSchema d)) (declarations (so_tools options))
     @ (case so_sandbox options of None \<Rightarrow> [] | Some (provider, enforced, caps, details) \<Rightarrow> [SandboxConfigured provider enforced caps details])
     @ (case so_configProvider options of None \<Rightarrow> [] | Some p \<Rightarrow> [ConfigProvider p])
     @ (case so_configRequest options of None \<Rightarrow> [] | Some c \<Rightarrow> [ConfigRequest c])
     @ (case so_configModel options of None \<Rightarrow> [] | Some m \<Rightarrow> [ConfigModel m])
     @ (case so_configThinking options of None \<Rightarrow> [] | Some (requested, effective, clamped) \<Rightarrow> [ConfigThinking requested effective clamped])
     @ (case so_configProfile options of None \<Rightarrow> [] | Some p \<Rightarrow> [ConfigProfile p])
     @ (case so_configTools options of None \<Rightarrow> [] | Some (search, fetch) \<Rightarrow> [ConfigTools search fetch])
     @ (case so_configDialect options of None \<Rightarrow> [] | Some (d, m, reason) \<Rightarrow> [ConfigDialect d m reason])"

definition open_steps :: "env \<Rightarrow> session_options \<Rightarrow> bool \<Rightarrow> canonical_event list \<Rightarrow> unit session_action" where
  "open_steps env options fresh path =
     thenA (eachA (cancel_interaction env) (unansweredInteractions path))
     (thenA (eachA (abort_call env) (unansweredToolCalls path))
     (thenA (if fresh then
         thenA (append_for env (so_creationOperationId options) (SessionCreated (so_cwd options) None None None))
           (eachA (\<lambda>s. append_for env None (PromptSection (sec_name s) (sec_source s) (sec_content s)))
             (case so_prompt options of None \<Rightarrow> [] | Some p \<Rightarrow> prompt_sections p))
       else ret ())
     (thenA (eachA (append_for env (so_boundaryOperationId options)) (boundary_payloads options))
       (case so_activate options of None \<Rightarrow> ret () | Some e \<Rightarrow> throw (SessionThrown e)))))"

text \<open>Fails before a session exists, or gives the session and how its first appends ended.\<close>

definition openSession :: "env \<Rightarrow> string \<Rightarrow> json option \<Rightarrow> session_options \<Rightarrow> byte list option \<Rightarrow>
  session_error + (agent_session \<times> (session_error + unit))" where
  "openSession env path sessionId options disk =
     bindE (map_error SessionLog (log_open path sessionId (so_log options) disk)) (\<lambda>(log, (events, _), file).
     bindE (map_error SessionTreeError (fromEvents (Some (JStr (log_sessionId log))) events)) (\<lambda>tree.
     bindE (case verifyToolCallIntegrity tree of None \<Rightarrow> Inr () | Some e \<Rightarrow> Inl (SessionReplay e)) (\<lambda>_.
     bindE (if events = [] then Inr [] else map_error SessionTreeError (lineage tree (ev_id (last events)))) (\<lambda>path'.
     bindE (newSession log file path' options) (\<lambda>s.
     Inr (open_steps env options (events = []) path' s))))))"

end
