(* ===== verification/Session_Log.thy ===== *)
theory Session_Log
  imports Agent_Session
begin

text \<open>
  What an agent session appends. A stored event keeps the place and, up to redaction, the call ids of
  the event that was built; an append extends the log by one event after the tip or not at all; and the
  model side of a turn keeps the invariant that the log grew by exactly the events of the turn.
\<close>

section \<open>What an append stores\<close>

lemma settings_own: "parseModelRequestSettings (settings_json c) path = Inr d \<Longrightarrow> d = c"
  by (cases c; cases "set_maxOutputTokens c")
    (auto simp: throw_iff check_simps jint_def settings_json_def parseModelRequestSettings_def)

lemma parse_own:
  assumes "parsePayload (payload_type p) (payload_json p) path = Some (Inr q)"
  shows "q = p"
  using assms
  by (cases p; simp only: payload_type.simps parsePayload_def payloadParsers_def)
   (auto dest!: settings_own simp: throw_iff check_simps Let_def jint_def mhas_def comp_def configuration_json_def parseModelRequestConfiguration_def map_sum_Inr
     parse_session_created_def parse_session_resumed_def parse_session_renamed_def parse_session_closed_def parse_user_message_def parse_queue_enqueued_def parse_queue_requeued_def parse_queue_started_def parse_queue_paused_def parse_interrupt_requested_def parse_interrupt_updated_def parse_user_shell_def parse_assistant_message_def parse_model_retry_scheduled_def parse_tool_call_def parse_tool_result_def parse_config_request_def parse_model_request_configured_def parse_config_model_def parse_config_provider_def parse_config_entitlement_def parse_config_profile_def parse_config_thinking_def parse_config_tools_def parse_config_dialect_def parse_prompt_section_def parse_tool_schema_def parse_context_injected_def parse_context_extension_def parse_permission_requested_def parse_permission_resolved_def parse_interaction_requested_def parse_interaction_resolved_def parse_sandbox_configured_def parse_sandbox_violation_def parse_context_compacted_def parse_session_error_def parse_child_result_def)


text \<open>An accepted object of a typed event parses to that very event.\<close>

lemma parseEvent_own:
  assumes "parseEvent (event_json e) = Inr e'"
  shows "e' = e"
proof -
  obtain env q where env: "parseEventEnvelope (event_json e) = Inr env"
    and q: "parsePayload (env_type env) (env_payload env) ''event.payload'' = Some (Inr q)"
    and e': "e' = \<lparr>ev_id = env_id env, ev_sessionId = env_sessionId env, ev_operationId = env_operationId env,
      ev_parentId = env_parentId env, ev_timestamp = env_timestamp env, ev_payload = q\<rparr>"
    using assms by (auto simp: parseEvent_eq throw_iff split: option.splits)
  have "env = event_envelope_of e" using env envelope_parse_same unfolding event_json_def by blast
  moreover have "q = ev_payload e" using q calculation by (intro parse_own [of "ev_payload e"]) (simp add: event_envelope_of_def)
  ultimately show ?thesis using e' by (simp add: event_envelope_of_def)
qed

text \<open>The values that reach a payload from a port are ones JSON can represent.\<close>

definition clean_payload :: "payload \<Rightarrow> bool" where
  "clean_payload p \<longleftrightarrow> (\<forall>v \<in> set (raw_parts p). wf_json v) \<and> opt_ok cost_ok (usage_part p)"

lemma parsed_clean_wf:
  assumes "parseEvent v = Inr e" and "clean_payload (ev_payload e)"
  shows "wf_json (event_json e)"
proof -
  have "wf_json (JObj (payload_json (ev_payload e)))"
    using parseEvent_wf(1) [OF assms(1)] assms(2) by (intro payload_json_wf) (simp_all add: clean_payload_def)
  moreover have "wf_envelope (event_envelope_of e)" using parseEvent_wf_event [OF assms(1)] by (simp add: wf_event_def)
  ultimately show ?thesis by (simp only: event_json_def envelope_json_wf) (simp add: event_envelope_of_def)
qed

definition same_place :: "canonical_event \<Rightarrow> canonical_event \<Rightarrow> bool" where
  "same_place e e' \<longleftrightarrow> ev_id e' = ev_id e \<and> ev_parentId e' = ev_parentId e \<and> ev_operationId e' = ev_operationId e"

text \<open>The host's transformations of an event before storage keep its place in the log.\<close>

definition prepares_place :: "log_options \<Rightarrow> bool" where
  "prepares_place opts \<longleftrightarrow>
     (\<forall>f. opt_prepareEvent opts = Some f \<or> opt_prepareOversizedEvent opts = Some f \<longrightarrow>
        (\<forall>e v e'. f e = Inr v \<longrightarrow> parseEvent v = Inr e' \<longrightarrow> same_place e e'))"

lemma same_place_trans: "same_place a b \<Longrightarrow> same_place b c \<Longrightarrow> same_place a c"
  by (simp add: same_place_def)

lemma redacted_place: "redactEventForStorage v secretValues = Inr e \<Longrightarrow> parseEvent v = Inr ev \<Longrightarrow> same_place ev e"
  by (erule redacted_payload) (simp add: same_place_def)

lemma prepared_place:
  assumes "parse_prepared lg (f e) = Inr e'" and "prepares_place opts"
    and "opt_prepareEvent opts = Some f \<or> opt_prepareOversizedEvent opts = Some f"
  shows "same_place e e'"
  using assms unfolding prepares_place_def by (auto simp: parse_prepared_def split: sum.splits)

lemma append_line_place:
  assumes "append_line lg secretValues v = Inr (stored, line)" and "parseEvent v = Inr ev"
    and "prepares_place (log_options lg)"
  shows "same_place ev stored"
proof -
  obtain redacted where r: "redactEventForStorage v secretValues = Inr redacted"
    using assms(1) by (auto simp: append_line_def bindE_Inr split: sum.splits)
  obtain event b where p: "(case opt_prepareEvent (log_options lg) of None \<Rightarrow> Inr redacted
            | Some prepare \<Rightarrow> parse_prepared lg (prepare redacted)) = Inr event"
    and enc: "encode_or_shrink lg event = Inr (stored, b)"
    using assms(1) r by (auto simp: append_line_def bindE_Inr check_session_Inr)
  have "same_place redacted event"
  proof (cases "opt_prepareEvent (log_options lg)")
    case None
    then show ?thesis using p by (simp add: same_place_def)
  next
    case (Some f)
    then have "parse_prepared lg (f redacted) = Inr event" using p by simp
    then show ?thesis using prepared_place [OF _ assms(3)] Some by blast
  qed
  moreover have "same_place event stored"
  proof (cases "encode_for_log event")
    case (Inr b')
    then show ?thesis using enc by (simp add: encode_or_shrink_def same_place_def)
  next
    case (Inl x)
    then obtain f where "opt_prepareOversizedEvent (log_options lg) = Some f" "parse_prepared lg (f event) = Inr stored"
      using enc by (auto simp: encode_or_shrink_def bindE_Inr check_session_Inr
          split: option.splits log_error.splits encode_error.splits)
    then show ?thesis using prepared_place [OF _ assms(3)] by blast
  qed
  ultimately show ?thesis using redacted_place [OF r assms(2)] same_place_trans by blast
qed

text \<open>Without host transformations the stored event is the redacted one.\<close>

lemma append_line_redacted:
  assumes "append_line lg secretValues v = Inr (stored, line)" and "log_options lg = no_options"
  shows "redactEventForStorage v secretValues = Inr stored"
  using assms by (auto simp: append_line_def no_options_def bindE_Inr check_session_Inr encode_or_shrink_def
      split: sum.splits log_error.splits encode_error.splits)

definition stored_call :: "string list \<Rightarrow> payload \<Rightarrow> payload \<Rightarrow> bool" where
  "stored_call secrets p q =
     (case p of
        ToolCall c n i \<Rightarrow> (\<exists>i'. q = ToolCall (redactString c secrets) (redactString n secrets) i')
      | ToolResult c n k er d \<Rightarrow> (\<exists>k' d'. q = ToolResult (redactString c secrets) (redactString n secrets) k' er d')
      | _ \<Rightarrow> payload_type q = payload_type p)"

lemma plain_call_fields: "\<not> isSecretField ''callId''" "\<not> isSecretField ''name''" "\<not> isSecretField ''isError''"
  by code_simp+

lemma parse_call: "parsePayload ''tool.call'' kvs path = Some (parse_tool_call kvs path)"
  "parsePayload ''tool.result'' kvs path = Some (parse_tool_result kvs path)"
  by (simp_all add: parsePayload_def payloadParsers_def)

lemma redacted_call:
  assumes "redactEventForStorage v secretValues = Inr e" and "parseEvent v = Inr ev"
  shows "\<exists>secrets. normalizeSecretValues secretValues = Inr secrets \<and> stored_call secrets (ev_payload ev) (ev_payload e)"
proof -
  from assms obtain secrets where n: "normalizeSecretValues secretValues = Inr secrets"
    and p: "parsePayload (payload_type (ev_payload ev)) (redactPayload secrets (ev_payload ev)) ''event.payload'' = Some (Inr (ev_payload e))"
    by (elim redacted_payload) auto
  have "payload_type (ev_payload e) = payload_type (ev_payload ev)" using parsePayload_sound [OF p] by simp
  have "stored_call secrets (ev_payload ev) (ev_payload e)"
  proof (cases "ev_payload ev")
    case (ToolCall c n i)
    then show ?thesis using p
      by (auto simp: stored_call_def redactPayload_def redactObject_def parse_call parse_tool_call_def run_checks_Inr plain_call_fields)
  next
    case (ToolResult c n k er d)
    then show ?thesis using p
      by (auto simp: stored_call_def redactPayload_def redactObject_def parse_call parse_tool_result_def run_checks_Inr plain_call_fields)
  qed (use \<open>payload_type _ = _\<close> in \<open>auto simp: stored_call_def\<close>)
  then show ?thesis using n by blast
qed

section \<open>Extending the log\<close>

definition clean_action :: "port_action \<Rightarrow> bool" where
  "clean_action a = (case a of
       Yield (ToolCallEv r i) \<Rightarrow> wf_json (JObj (req_input r))
     | Yield (Completed sr u p r d) \<Rightarrow> cost_ok u
     | _ \<Rightarrow> True)"

definition clean_outcome :: "tool_outcome \<Rightarrow> bool" where
  "clean_outcome out = (case out of ToolReturns r \<Rightarrow> opt_ok wf_json (res_details r) | _ \<Rightarrow> True)"

text \<open>
  The environment the log theorems assume: JSON values from the ports, and a file system on which the
  truncation after a failed append works.
\<close>

definition env_ok :: "env \<Rightarrow> bool" where
  "env_ok env \<longleftrightarrow> (\<forall>n. fs_truncate (env_fs env n) = None) \<and> (\<forall>n r. list_all clean_action (fst (env_stream env n r)))
     \<and> (\<forall>n t i. clean_outcome (env_execute env n t i))"

definition log_hooks_ok :: "event_log \<Rightarrow> bool" where
  "log_hooks_ok lg \<longleftrightarrow> prepares_wf (log_options lg) \<and> prepares_place (log_options lg)"

text \<open>The session's log grew by \<open>new\<close>: a chain from the old tip, stored, framed and announced.\<close>

definition grew :: "agent_session \<Rightarrow> agent_session \<Rightarrow> canonical_event list \<Rightarrow> bool" where
  "grew s s' new \<longleftrightarrow> as_log s' = as_log s \<and> as_file s' = as_file s @ event_file new
     \<and> (\<forall>e \<in> set new. storable (log_sessionId (as_log s)) e) \<and> parent_chain (as_tip s) new
     \<and> as_tip s' = (if new = [] then as_tip s else Some (ev_id (last new))) \<and> as_emitted s' = as_emitted s @ new"

lemma parent_chain_append:
  "parent_chain p (xs @ ys) \<longleftrightarrow> parent_chain p xs \<and> parent_chain (if xs = [] then p else Some (ev_id (last xs))) ys"
  by (induction xs arbitrary: p) auto

lemma event_file_append: "event_file (xs @ ys) = event_file xs @ event_file ys"
  by (simp add: event_file_def frame_def)

lemma event_file_Nil [simp]: "event_file [] = []"
  by (simp add: event_file_def)

lemma grew_refl: "grew s s []"
  by (simp add: grew_def)

lemma grew_trans: "grew s s' xs \<Longrightarrow> grew s' s'' ys \<Longrightarrow> grew s s'' (xs @ ys)"
  by (auto simp: grew_def parent_chain_append event_file_append)

text \<open>Only the queues and the clock move with an await.\<close>

lemma arrive_frame: "\<exists>st fu. arrive q s = s\<lparr>as_steeringMessages := st, as_followUpMessages := fu\<rparr>"
proof -
  have "s\<lparr>as_steeringMessages := as_steeringMessages s, as_followUpMessages := as_followUpMessages s\<rparr> = s" by simp
  then show ?thesis
  proof (cases q)
    case (Steer c)
    show ?thesis unfolding Steer
      by (rule exI [of _ "if as_acceptingQueuedMessages s then as_steeringMessages s @ [c] else as_steeringMessages s"],
          rule exI [of _ "as_followUpMessages s"]) (simp add: steer_def bindA_eval)
  next
    case (FollowUp c)
    show ?thesis unfolding FollowUp
      by (rule exI [of _ "as_steeringMessages s"],
          rule exI [of _ "if as_acceptingQueuedMessages s then as_followUpMessages s @ [c] else as_followUpMessages s"])
        (simp add: followUp_def bindA_eval)
  qed
qed

lemma fold_arrive_frame: "\<exists>st fu. fold arrive qs s = s\<lparr>as_steeringMessages := st, as_followUpMessages := fu\<rparr>"
proof (induction qs arbitrary: s)
  case Nil
  have "s = s\<lparr>as_steeringMessages := as_steeringMessages s, as_followUpMessages := as_followUpMessages s\<rparr>" by simp
  then show ?case by (simp, blast)
next
  case (Cons q qs)
  obtain st fu where "arrive q s = s\<lparr>as_steeringMessages := st, as_followUpMessages := fu\<rparr>" using arrive_frame by blast
  moreover obtain st' fu' where "fold arrive qs (s\<lparr>as_steeringMessages := st, as_followUpMessages := fu\<rparr>)
      = s\<lparr>as_steeringMessages := st, as_followUpMessages := fu, as_steeringMessages := st', as_followUpMessages := fu'\<rparr>"
    using Cons.IH by blast
  ultimately show ?case by simp blast
qed

lemma tick_frame [simp]:
  "as_log (tick env s) = as_log s" "as_file (tick env s) = as_file s" "as_tip (tick env s) = as_tip s"
  "as_emitted (tick env s) = as_emitted s" "as_appended (tick env s) = as_appended s" "as_messages (tick env s) = as_messages s"
  "as_activeOperation (tick env s) = as_activeOperation s" "as_acceptingQueuedMessages (tick env s) = as_acceptingQueuedMessages s"
  "as_tools (tick env s) = as_tools s" "as_retry (tick env s) = as_retry s" "as_clock (tick env s) = Suc (as_clock s)"
  "as_contextUsage (tick env s) = as_contextUsage s" "as_sequence (tick env s) = as_sequence s"
  "as_frames (tick env s) = as_frames s"
  using fold_arrive_frame [of "env_arrivals env (as_clock s)" s] by (auto simp: tick_def)

lemma session_append_cases:
  assumes "session_append env op p s = (s', r)" and "env_ok env" and "log_hooks_ok (as_log s)" and "clean_payload p"
  shows "(\<exists>e. r = Inr e \<and> grew s s' [e] \<and> ev_operationId e = op \<and> ev_id e = env_uuid env (as_clock s)
      \<and> (log_options (as_log s) = no_options \<longrightarrow>
          (\<exists>secrets. normalizeSecretValues (env_secrets env (as_clock s)) = Inr secrets \<and> stored_call secrets p (ev_payload e)))
      \<and> s' = (tick env s)\<lparr>as_file := as_file s', as_tip := Some (ev_id e), as_emitted := as_emitted s @ [e]\<rparr>)
    \<or> (\<exists>err. r = Inl err \<and> s' = tick env s)"
proof (cases "parseEvent (event_json (new_event env op p s))")
  case (Inl e)
  then show ?thesis using assms(1) by (auto simp: session_append_def)
next
  case (Inr ev)
  let ?n = "as_clock s" and ?lg = "as_log s"
  have ev: "ev = new_event env op p s" by (rule parseEvent_own [OF Inr])
  have pw: "wf_json (event_json ev)" using parsed_clean_wf [OF Inr] assms(4) ev by (simp add: new_event_def)
  have pe: "parseEvent (event_json ev) = Inr ev" using parseEvent_event_json [OF Inr] .
  obtain r' f' where la: "log_append (env_fs env ?n) ?lg (env_secrets env ?n) (event_json ev) (as_file s) = (r', f')"
    by fastforce
  have hooks: "prepares_wf (log_options ?lg)" "prepares_place (log_options ?lg)" using assms(3) by (simp_all add: log_hooks_ok_def)
  have fs: "fs_truncate (env_fs env ?n) = None" using assms(2) by (simp add: env_ok_def)
  note f = log_append_file [OF pw hooks(1) la]
  show ?thesis
  proof (cases r')
    case Inl': (Inl err)
    then have "f' = as_file s" using f fs by auto
    then have "(tick env s)\<lparr>as_file := f'\<rparr> = tick env s" by simp
    then show ?thesis using assms(1) Inr la Inl' by (auto simp: session_append_def)
  next
    case Inr': (Inr stored)
    have st: "storable (log_sessionId ?lg) stored" "f' = as_file s @ event_bytes stored @ [0x0A]" using f Inr' by auto
    obtain line where al: "append_line ?lg (env_secrets env ?n) (event_json ev) = Inr (stored, line)"
      using la Inr' by (auto simp: log_append_def split: sum.splits prod.splits option.splits)
    have "same_place ev stored" by (rule append_line_place [OF al pe hooks(2)])
    then have place: "ev_parentId stored = as_tip s" "ev_operationId stored = op" "ev_id stored = env_uuid env ?n"
      using ev by (simp_all add: same_place_def new_event_def)
    have call: "\<exists>secrets. normalizeSecretValues (env_secrets env ?n) = Inr secrets \<and> stored_call secrets p (ev_payload stored)"
      if "log_options ?lg = no_options"
      using redacted_call [OF append_line_redacted [OF al that] pe] ev by (simp add: new_event_def)
    have s': "s' = (tick env s)\<lparr>as_file := f', as_tip := Some (ev_id stored), as_emitted := as_emitted s @ [stored]\<rparr>" "r = Inr stored"
      using assms(1) Inr la Inr' by (simp_all add: session_append_def)
    moreover have "grew s s' [stored]"
      unfolding s'(1) using st place by (simp add: grew_def event_file_def)
    ultimately show ?thesis using place call by auto
  qed
qed

section \<open>The invariant of a turn\<close>

text \<open>
  Since the turn started in \<open>s0\<close>, the log grew by exactly the events the turn has collected, all of
  them its own.
\<close>

definition turn_inv :: "env \<Rightarrow> string \<Rightarrow> agent_session \<Rightarrow> agent_session \<Rightarrow> bool" where
  "turn_inv env op s0 s \<longleftrightarrow> env_ok env \<and> log_hooks_ok (as_log s0) \<and> grew s0 s (as_appended s)
     \<and> (\<forall>e \<in> set (as_appended s). ev_operationId e = Some op)
     \<and> as_activeOperation s = Some op \<and> as_tools s = as_tools s0 \<and> as_retry s = as_retry s0"

text \<open>The ids of calls are stored as they come, up to a redaction that does not change meanwhile.\<close>

definition steady :: "env \<Rightarrow> agent_session \<Rightarrow> bool" where
  "steady env s0 \<longleftrightarrow> log_options (as_log s0) = no_options \<and> (\<forall>n. env_secrets env n = env_secrets env 0)"

definition stored_of :: "env \<Rightarrow> agent_session \<Rightarrow> payload \<Rightarrow> canonical_event \<Rightarrow> bool" where
  "stored_of env s0 p e \<longleftrightarrow> (steady env s0 \<longrightarrow>
     (\<exists>secrets. normalizeSecretValues (env_secrets env 0) = Inr secrets \<and> stored_call secrets p (ev_payload e)))"

text \<open>Steps that leave alone everything the invariant looks at.\<close>

definition inert :: "(agent_session \<Rightarrow> agent_session) \<Rightarrow> bool" where
  "inert f \<longleftrightarrow> (\<forall>s. as_log (f s) = as_log s \<and> as_file (f s) = as_file s \<and> as_tip (f s) = as_tip s \<and> as_emitted (f s) = as_emitted s
     \<and> as_appended (f s) = as_appended s \<and> as_activeOperation (f s) = as_activeOperation s
     \<and> as_tools (f s) = as_tools s \<and> as_retry (f s) = as_retry s)"

lemma turn_inert: "inert f \<Longrightarrow> turn_inv env op s0 (f s) \<longleftrightarrow> turn_inv env op s0 s"
  by (simp add: turn_inv_def grew_def inert_def)

lemma inert_appended: "inert f \<Longrightarrow> as_appended (f s) = as_appended s"
  by (simp add: inert_def)

lemma inert_steps [simp]:
  "inert (tick env)" "inert (queue_shift q)" "inert (\<lambda>s. s\<lparr>as_messages := as_messages s @ [m]\<rparr>)"
  "inert (\<lambda>s. s\<lparr>as_sequence := Suc (as_sequence s), as_frames := as_frames s @ [mk (Suc (as_sequence s))]\<rparr>)"
  "inert (\<lambda>s. s\<lparr>as_contextUsage := g s\<rparr>)"
  by (simp_all add: inert_def) (cases q; simp)

lemma turn_append:
  assumes "clean_payload p"
  shows "triple (\<lambda>s. turn_inv env op s0 s \<and> as_appended s = es) (append_pushed env (Some op) p)
    (\<lambda>e s. turn_inv env op s0 s \<and> as_appended s = es @ [e] \<and> stored_of env s0 p e) (\<lambda>s. turn_inv env op s0 s \<and> as_appended s = es)"
proof (rule tripleI)
  fix s s' r assume pre: "turn_inv env op s0 s \<and> as_appended s = es"
  have lg: "as_log s = as_log s0" using pre by (auto simp: turn_inv_def grew_def)
  obtain s1 r1 where a: "session_append env (Some op) p s = (s1, r1)" by fastforce
  have ok: "env_ok env" "log_hooks_ok (as_log s)" using pre lg by (simp_all add: turn_inv_def)
  note c = session_append_cases [OF a ok assms]
  {
    assume "append_pushed env (Some op) p s = (s', Inl r)"
    then have r1: "r1 = Inl r" "s' = s1" using a by (auto simp: append_pushed_def bindA_eval thenA_eval push_appended_def split: sum.splits)
    then have "s' = tick env s" using c by auto
    then show "turn_inv env op s0 s' \<and> as_appended s' = es" using pre by (simp add: turn_inert [of "tick env"])
  }
next
  fix s s' e assume pre: "turn_inv env op s0 s \<and> as_appended s = es"
  have lg: "as_log s = as_log s0" using pre by (auto simp: turn_inv_def grew_def)
  obtain s1 r1 where a: "session_append env (Some op) p s = (s1, r1)" by fastforce
  have ok: "env_ok env" "log_hooks_ok (as_log s)" using pre lg by (simp_all add: turn_inv_def)
  assume "append_pushed env (Some op) p s = (s', Inr e)"
  then have r1: "r1 = Inr e" "s' = s1\<lparr>as_appended := as_appended s1 @ [e]\<rparr>"
    using a by (auto simp: append_pushed_def bindA_eval thenA_eval push_appended_def split: sum.splits)
  have g: "grew s s1 [e]" "ev_operationId e = Some op"
    and st: "log_options (as_log s) = no_options \<longrightarrow>
        (\<exists>secrets. normalizeSecretValues (env_secrets env (as_clock s)) = Inr secrets \<and> stored_call secrets p (ev_payload e))"
    and f: "s1 = (tick env s)\<lparr>as_file := as_file s1, as_tip := Some (ev_id e), as_emitted := as_emitted s @ [e]\<rparr>"
    using session_append_cases [OF a ok assms] r1(1) by auto
  have fr: "as_appended s1 = es" "as_activeOperation s1 = Some op" "as_tools s1 = as_tools s0" "as_retry s1 = as_retry s0"
    using pre by (subst f, simp add: turn_inv_def)+
  have "grew s0 s1 (es @ [e])" using pre g(1) grew_trans [of s0 s es s1 "[e]"] by (auto simp: turn_inv_def)
  then have "turn_inv env op s0 s'" using pre fr g(2) r1(2) by (auto simp: turn_inv_def grew_def)
  moreover have "stored_of env s0 p e"
    unfolding stored_of_def steady_def
  proof
    assume s: "log_options (as_log s0) = no_options \<and> (\<forall>n. env_secrets env n = env_secrets env 0)"
    then have eq: "env_secrets env (as_clock s) = env_secrets env 0" and o: "log_options (as_log s) = no_options" using lg by auto
    show "\<exists>secrets. normalizeSecretValues (env_secrets env 0) = Inr secrets \<and> stored_call secrets p (ev_payload e)"
      using st o unfolding eq by blast
  qed
  ultimately show "turn_inv env op s0 s' \<and> as_appended s' = es @ [e] \<and> stored_of env s0 p e" using fr(1) r1(2) by simp
qed

section \<open>Calls and answers\<close>

definition answered :: "canonical_event list \<Rightarrow> bool" where
  "answered es \<longleftrightarrow> result_ids es = call_ids es
     \<and> (\<forall>i < length es. \<forall>c n k er d. ev_payload (es ! i) = ToolResult c n k er d \<longrightarrow> (c, n) \<in> set (calls_named (take i es)))"

definition no_call :: "payload \<Rightarrow> bool" where
  "no_call p = (case p of ToolCall _ _ _ \<Rightarrow> False | ToolResult _ _ _ _ _ \<Rightarrow> False | _ \<Rightarrow> True)"

lemma call_lists_append:
  "call_ids (xs @ ys) = call_ids xs @ call_ids ys" "result_ids (xs @ ys) = result_ids xs @ result_ids ys"
  "calls_named (xs @ ys) = calls_named xs @ calls_named ys"
  by (simp_all add: call_ids_def result_ids_def calls_named_def)

lemma call_lists_none:
  "no_call (ev_payload e) \<Longrightarrow> call_ids [e] = []" "no_call (ev_payload e) \<Longrightarrow> result_ids [e] = []"
  by (simp_all add: call_ids_def result_ids_def no_call_def split: payload.splits)

lemma results_follow_append:
  assumes "\<forall>i < length xs. \<forall>c n k er d. ev_payload (xs ! i) = ToolResult c n k er d \<longrightarrow> (c, n) \<in> set (calls_named (take i xs))"
    and "\<forall>i < length ys. \<forall>c n k er d. ev_payload (ys ! i) = ToolResult c n k er d \<longrightarrow> (c, n) \<in> set (calls_named (take i ys))"
  shows "\<forall>i < length (xs @ ys). \<forall>c n k er d. ev_payload ((xs @ ys) ! i) = ToolResult c n k er d \<longrightarrow>
    (c, n) \<in> set (calls_named (take i (xs @ ys)))"
proof (intro allI impI)
  fix i c n k er d assume i: "i < length (xs @ ys)" "ev_payload ((xs @ ys) ! i) = ToolResult c n k er d"
  show "(c, n) \<in> set (calls_named (take i (xs @ ys)))"
  proof (cases "i < length xs")
    case True
    then show ?thesis using assms(1) i by (simp add: nth_append)
  next
    case False
    then show ?thesis using assms(2) [rule_format, of "i - length xs"] i by (simp add: nth_append call_lists_append)
  qed
qed

lemma answered_append: "answered xs \<Longrightarrow> answered ys \<Longrightarrow> answered (xs @ ys)"
  unfolding answered_def using results_follow_append [of xs ys] by (simp add: call_lists_append)

lemma answered_none: "no_call (ev_payload e) \<Longrightarrow> answered [e]"
  by (auto simp: answered_def call_lists_none no_call_def)

lemma answered_Nil [simp]: "answered []"
  by (simp add: answered_def call_ids_def result_ids_def)

lemma answered_pair:
  assumes "ev_payload call = ToolCall c n i" and "ev_payload res = ToolResult c n k er d"
    and "\<forall>e \<in> set mid. no_call (ev_payload e)"
  shows "answered (call # mid @ [res])"
proof -
  have none: "call_ids mid = []" "result_ids mid = []"
    using assms(3) by (auto simp: call_ids_def result_ids_def no_call_def split: payload.splits)
  have "result_ids (call # mid @ [res]) = [c]" "call_ids (call # mid @ [res]) = [c]"
    using none assms(1,2) call_lists_append [of "[call]" "mid @ [res]"] call_lists_append [of mid "[res]"]
    by (simp_all add: call_ids_def result_ids_def)
  moreover have "(c', n') \<in> set (calls_named (take j (call # mid @ [res])))"
    if j: "j < length (call # mid @ [res])" "ev_payload ((call # mid @ [res]) ! j) = ToolResult c' n' k' er' d'" for j c' n' k' er' d'
  proof -
    have "j = Suc (length mid)"
    proof (rule ccontr)
      assume ne: "j \<noteq> Suc (length mid)"
      have "j \<noteq> 0" using j(2) assms(1) by (cases j) auto
      then obtain m where m: "j = Suc m" "m < length mid" using ne j(1) by (cases j) auto
      then have "no_call (ev_payload (mid ! m))" using assms(3) nth_mem by blast
      then show False using j(2) m by (simp add: nth_append no_call_def)
    qed
    then show ?thesis using j(2) assms(1,2) by (simp add: calls_named_def)
  qed
  ultimately show ?thesis unfolding answered_def by auto
qed

section \<open>Triples of the turn\<close>

text \<open>At rest between two calls, every call of the turn has its answer.\<close>

definition resting :: "env \<Rightarrow> string \<Rightarrow> agent_session \<Rightarrow> agent_session \<Rightarrow> bool" where
  "resting env op s0 s \<longleftrightarrow> turn_inv env op s0 s \<and> (steady env s0 \<longrightarrow> answered (as_appended s))"

lemma resting_inert: "inert f \<Longrightarrow> resting env op s0 (f s) \<longleftrightarrow> resting env op s0 s"
  by (simp add: resting_def turn_inert inert_appended)

lemma stored_call_type: "stored_call secrets p q \<Longrightarrow> no_call p \<Longrightarrow> no_call q"
  by (cases p; cases q) (auto simp: stored_call_def no_call_def)

lemma resting_append_all:
  assumes "clean_payload p" and "no_call p"
  shows "triple (resting env op s0) (append_pushed env (Some op) p) (\<lambda>_. resting env op s0) (resting env op s0)"
proof (rule tripleI)
  fix s s' e assume s: "resting env op s0 s" "append_pushed env (Some op) p s = (s', Inr e)"
  then have a: "turn_inv env op s0 s' \<and> as_appended s' = as_appended s @ [e] \<and> stored_of env s0 p e"
    using triple_Inr [OF turn_append [OF assms(1), of env op s0 "as_appended s"] _ s(2)] by (simp add: resting_def)
  moreover have "no_call (ev_payload e)" if "steady env s0"
    using that assms(2) a stored_call_type by (auto simp: stored_of_def)
  ultimately show "resting env op s0 s'" using s(1) by (auto simp: resting_def answered_append answered_none)
next
  fix s s' e assume s: "resting env op s0 s" "append_pushed env (Some op) p s = (s', Inl e)"
  then show "resting env op s0 s'"
    using triple_Inl [OF turn_append [OF assms(1), of env op s0 "as_appended s"] _ s(2)] by (simp add: resting_def)
qed

lemma resting_append:
  "clean_payload p \<Longrightarrow> no_call p \<Longrightarrow>
   triple (resting env op s0) (append_pushed env (Some op) p) (\<lambda>_. resting env op s0) (turn_inv env op s0)"
  by (rule triple_weaken [OF resting_append_all]) (auto simp: resting_def)

lemma resting_modify: "inert f \<Longrightarrow> triple (resting env op s0) (modify f) (\<lambda>_. resting env op s0) E"
  by (rule triple_modify) (simp add: resting_inert)

lemma resting_frame: "triple (resting env op s0) (frame_out mk) (\<lambda>_. resting env op s0) E"
  unfolding frame_out_def by (rule resting_modify) simp

lemma resting_message: "triple (resting env op s0) (push_message m) (\<lambda>_. resting env op s0) E"
  unfolding push_message_def by (rule resting_modify) simp

definition clean_calls :: "tool_call_request list \<Rightarrow> bool" where
  "clean_calls calls \<longleftrightarrow> (\<forall>r \<in> set calls. wf_json (JObj (req_input r)))"

definition clean_terminal :: "model_stream_event \<Rightarrow> bool" where
  "clean_terminal t = (case t of Completed sr u p r d \<Rightarrow> cost_ok u | _ \<Rightarrow> True)"

lemma attempt_event_triple:
  assumes "clean_calls (loc_toolCalls loc)" and "clean_action (Yield event)"
  shows "triple (resting env op s0) (attempt_event op event loc)
    (\<lambda>loc' s. resting env op s0 s \<and> clean_calls (loc_toolCalls loc')) E"
  using assms
  by (cases event; simp add: attempt_event_def; intro triple_ret triple_then [OF resting_frame])
    (auto simp: clean_calls_def clean_action_def)

definition clean_ended :: "attempt_locals \<times> attempt_end \<Rightarrow> bool" where
  "clean_ended x = (clean_calls (loc_toolCalls (fst x)) \<and> (case snd x of StreamEnded (Some t) \<Rightarrow> clean_terminal t | _ \<Rightarrow> True))"

lemma clean_config: "clean_payload (ModelRequestConfigured cfg)" "no_call (ModelRequestConfigured cfg)"
  by (simp_all add: clean_payload_def no_call_def opt_ok_def)

lemma attempt_loop_triple:
  "clean_calls (loc_toolCalls loc) \<Longrightarrow> list_all clean_action acts \<Longrightarrow>
   triple (resting env op s0) (attempt_loop env op fin acts loc) (\<lambda>x s. resting env op s0 s \<and> clean_ended x) E"
proof (induction env op fin acts loc rule: attempt_loop.induct)
  case (1 env op loc)
  then show ?case unfolding attempt_loop.simps
    by (intro triple_then [OF resting_modify] triple_ret) (simp_all add: clean_ended_def)
next
  case (2 env op e loc)
  then show ?case unfolding attempt_loop.simps
    by (intro triple_then [OF resting_modify] triple_ret) (simp_all add: clean_ended_def)
next
  case (3 env op fin cfg rest loc)
  note app = resting_append_all [OF clean_config [of cfg], of env op s0]
  have rest: "list_all clean_action rest" using "3.prems"(2) by simp
  show ?case
  proof (rule tripleI)
    fix s s' x assume s: "resting env op s0 s" "attempt_loop env op fin (Configured cfg # rest) loc s = (s', Inr x)"
    obtain s1 q where a: "append_pushed env (Some op) (ModelRequestConfigured cfg) s = (s1, q)" by fastforce
    show "resting env op s0 s' \<and> clean_ended x"
    proof (cases q)
      case (Inl e)
      then show ?thesis using s(2) a triple_Inl [OF app s(1)] "3.prems"(1) by (auto simp: clean_ended_def)
    next
      case (Inr y)
      have "resting env op s0 s1" using triple_Inr [OF app s(1)] a Inr by simp
      moreover have "attempt_loop env op fin rest loc s1 = (s', Inr x)" using s(2) a Inr by simp
      ultimately show ?thesis by (rule triple_Inr [OF "3.IH" [OF a [symmetric] Inr "3.prems"(1) rest]])
    qed
  next
    fix s s' x assume s: "resting env op s0 s" "attempt_loop env op fin (Configured cfg # rest) loc s = (s', Inl x)"
    obtain s1 q where a: "append_pushed env (Some op) (ModelRequestConfigured cfg) s = (s1, q)" by fastforce
    then obtain y where y: "q = Inr y" using s(2) by (cases q) auto
    have "resting env op s0 s1" using triple_Inr [OF app s(1)] a y by simp
    moreover have "attempt_loop env op fin rest loc s1 = (s', Inl x)" using s(2) a y by simp
    ultimately show "E s'" by (rule triple_Inl [OF "3.IH" [OF a [symmetric] y "3.prems"(1) rest]])
  qed
next
  case (4 env op fin event rest loc)
  have ev: "clean_action (Yield event)" "list_all clean_action rest" using "4.prems"(2) by simp_all
  show ?case unfolding attempt_loop.simps
  proof (intro triple_then [OF resting_modify], simp, rule triple_bind [OF attempt_event_triple [OF "4.prems"(1) ev(1)]])
    fix loc'
    show "triple (\<lambda>s. resting env op s0 s \<and> clean_calls (loc_toolCalls loc'))
       (if isTerminalModelStreamEvent event then ret (loc', StreamEnded (Some event)) else attempt_loop env op fin rest loc')
       (\<lambda>x s. resting env op s0 s \<and> clean_ended x) E"
    proof (cases "isTerminalModelStreamEvent event")
      case True
      then have "clean_terminal event" using ev(1) by (cases event) (simp_all add: clean_terminal_def clean_action_def)
      then show ?thesis using True by (auto intro!: triple_ret simp: clean_ended_def)
    next
      case False
      show ?thesis
      proof (cases "clean_calls (loc_toolCalls loc')")
        case True
        then show ?thesis using False "4.IH" [OF False True ev(2)] by simp
      next
        case False
        then show ?thesis by (simp add: triple_def)
      qed
    qed
  qed
qed

definition clean_out :: "turn_outcome \<Rightarrow> bool" where
  "clean_out out \<longleftrightarrow> clean_calls (out_toolCalls out) \<and> opt_ok cost_ok (out_usage out)"

lemma attempt_outcome_clean:
  "clean_ended (loc, fin) \<Longrightarrow> clean_out (attempt_outcome loc (attempt_terminal aborted fin))"
  by (auto simp: clean_out_def attempt_outcome_def attempt_terminal_def clean_ended_def clean_calls_def clean_terminal_def opt_ok_def
      split: attempt_end.splits option.splits model_stream_event.splits)

lemma modelAttempt_triple:
  "triple (resting env op s0) (modelAttempt env op) (\<lambda>out s. resting env op s0 s \<and> clean_out out) E"
  unfolding modelAttempt_def
proof (rule triple_bind [where R = "\<lambda>run s. resting env op s0 s \<and> list_all clean_action (fst run)"])
  show "triple (resting env op s0) (asks (\<lambda>s. env_stream env (as_clock s) (stream_request s)))
     (\<lambda>run s. resting env op s0 s \<and> list_all clean_action (fst run)) E"
    by (rule triple_asks) (simp add: resting_def turn_inv_def env_ok_def)
next
  fix run :: port_run
  obtain acts fin where run: "run = (acts, fin)" by (cases run)
  let ?loc = "\<lparr>loc_thinking = [], loc_text = [], loc_toolCalls = [], loc_exposed = False\<rparr>"
  have "triple (resting env op s0)
     (bindA (attempt_loop env op fin acts ?loc) (\<lambda>(loc, end1). bindA (asks (aborted_now env))
        (\<lambda>aborted. ret (attempt_outcome loc (attempt_terminal aborted end1)))))
     (\<lambda>out s. resting env op s0 s \<and> clean_out out) E" if "list_all clean_action acts"
  proof (rule triple_bind [OF attempt_loop_triple [OF _ that]])
    fix x :: "attempt_locals \<times> attempt_end"
    obtain loc e1 where x: "x = (loc, e1)" by (cases x)
    show "triple (\<lambda>s. resting env op s0 s \<and> clean_ended x)
      (case x of (loc, end1) \<Rightarrow> bindA (asks (aborted_now env)) (\<lambda>aborted. ret (attempt_outcome loc (attempt_terminal aborted end1))))
      (\<lambda>out s. resting env op s0 s \<and> clean_out out) E"
      unfolding x prod.case
      by (rule triple_bind [where R = "\<lambda>_ s. resting env op s0 s \<and> clean_ended (loc, e1)"])
        (auto intro!: triple_asks triple_ret simp: attempt_outcome_clean)
  qed (simp add: clean_calls_def)
  then show "triple (\<lambda>s. resting env op s0 s \<and> list_all clean_action (fst run))
     (case run of (actions, fin) \<Rightarrow> bindA (attempt_loop env op fin actions ?loc) (\<lambda>(loc, end1). bindA (asks (aborted_now env))
        (\<lambda>aborted. ret (attempt_outcome loc (attempt_terminal aborted end1)))))
     (\<lambda>out s. resting env op s0 s \<and> clean_out out) E"
    unfolding run by (cases "list_all clean_action acts") (simp_all add: triple_def)
qed

lemma clean_made: "clean_out aborted_outcome" "clean_out (scheduler_failed e)"
  by (simp_all add: clean_out_def aborted_outcome_def scheduler_failed_def clean_calls_def opt_ok_def)

lemma attempt_from_triple:
  "triple (resting env op s0) (attempt_from env op policy attempt left)
     (\<lambda>out s. resting env op s0 s \<and> clean_out out) (turn_inv env op s0)"
proof (induction left arbitrary: attempt)
  case 0
  show ?case by (simp add: modelAttempt_triple)
next
  case (Suc left)
  have tail: "triple (resting env op s0)
     (bindA (asks (\<lambda>s. modelRetryDelay error attempt policy (env_random env (as_clock s)))) (\<lambda>delayMs.
         bindA (append_pushed env (Some op)
           (ModelRetryScheduled (int attempt + 1) (jsnum_int (pol_maxAttempts policy)) delayMs (err_code error))) (\<lambda>_.
         bindA (asks (\<lambda>s. env_sleep env (as_clock s) delayMs)) (\<lambda>slept.
         thenA (modify (tick env)) (bindA (asks (aborted_now env)) (\<lambda>aborted.
           if aborted then ret aborted_outcome
           else (case slept of
             Some e \<Rightarrow> ret (scheduler_failed e)
           | None \<Rightarrow> attempt_from env op policy (Suc attempt) left)))))))
     (\<lambda>out s. resting env op s0 s \<and> clean_out out) (turn_inv env op s0)" for error
    by (intro triple_bind [where R = "\<lambda>_. resting env op s0"] triple_then [where R = "resting env op s0"] resting_append resting_modify)
      (auto intro!: triple_asks triple_ret Suc.IH simp: clean_made clean_payload_def no_call_def opt_ok_def split: option.splits)
  show ?case unfolding attempt_from.simps
    by (rule triple_bind [OF modelAttempt_triple])
      (auto split: option.splits intro!: triple_ret triple_weaken [OF tail])
qed

lemma modelTurn_triple:
  "triple (resting env op s0) (modelTurn env op) (\<lambda>out s. resting env op s0 s \<and> clean_out out) (turn_inv env op s0)"
  unfolding modelTurn_def
  by (intro triple_bind [where R = "\<lambda>_. resting env op s0"])
    (auto intro!: triple_asks triple_ret modelAttempt_triple attempt_from_triple
      triple_bind [where R = "\<lambda>_. resting env op s0"] simp: clean_made split: option.splits)

end
