(* ===== verification/Session_Turns.thy ===== *)
theory Session_Turns
  imports Session_Log
begin

text \<open>
  What an agent session does to its log and its state: turns extend the log by a chain of events from
  the tip, report exactly those events and release the branch however they end, tool calls are answered,
  retries and delays are bounded, and an aborted turn returns.
\<close>

section \<open>Tools\<close>

lemma turn_append_keep:
  assumes "clean_payload p"
  shows "triple (\<lambda>s. turn_inv env op s0 s \<and> P (as_appended s)) (append_pushed env (Some op) p)
    (\<lambda>e s. turn_inv env op s0 s \<and> (\<exists>es. P es \<and> as_appended s = es @ [e]) \<and> stored_of env s0 p e) (turn_inv env op s0)"
proof (rule tripleI)
  fix s s' e assume s: "turn_inv env op s0 s \<and> P (as_appended s)" "append_pushed env (Some op) p s = (s', Inr e)"
  have "turn_inv env op s0 s' \<and> as_appended s' = as_appended s @ [e] \<and> stored_of env s0 p e"
    by (rule triple_Inr [OF turn_append [OF assms] _ s(2)]) (use s(1) in simp)
  then show "turn_inv env op s0 s' \<and> (\<exists>es. P es \<and> as_appended s' = es @ [e]) \<and> stored_of env s0 p e" using s(1) by auto
next
  fix s s' e assume s: "turn_inv env op s0 s \<and> P (as_appended s)" "append_pushed env (Some op) p s = (s', Inl e)"
  have "turn_inv env op s0 s' \<and> as_appended s' = as_appended s"
    by (rule triple_Inl [OF turn_append [OF assms] _ s(2)]) (use s(1) in simp)
  then show "turn_inv env op s0 s'" by simp
qed

lemma executeTool_triple:
  "triple (\<lambda>s. turn_inv env op s0 s \<and> P (as_appended s)) (executeTool env call)
     (\<lambda>x s. (turn_inv env op s0 s \<and> P (as_appended s)) \<and> opt_ok wf_json (res_details (fst x))) E"
proof (rule tripleI)
  fix s s' x assume s: "turn_inv env op s0 s \<and> P (as_appended s)" "executeTool env call s = (s', Inr x)"
  have "s' = s \<or> s' = tick env s"
    using s(2) by (auto simp: executeTool_def bindA_eval thenA_eval split: option.splits)
  then have "turn_inv env op s0 s' \<and> P (as_appended s')" using s(1) turn_inert [of "tick env"] by auto
  moreover have "opt_ok wf_json (res_details (fst x))"
  proof (cases "registry_get (as_tools s) (req_name call)")
    case None
    then show ?thesis using s(2) by (auto simp: executeTool_def bindA_eval opt_ok_def)
  next
    case (Some t)
    have c: "clean_outcome (env_execute env (as_clock s) t (req_input call))" using s(1) by (simp add: turn_inv_def env_ok_def)
    then show ?thesis
      using s(2) Some
      by (cases "env_execute env (as_clock s) t (req_input call)")
        (auto simp: executeTool_def bindA_eval thenA_eval clean_outcome_def opt_ok_def)
  qed
  ultimately show "(turn_inv env op s0 s' \<and> P (as_appended s')) \<and> opt_ok wf_json (res_details (fst x))" by simp
next
  fix s s' x assume "executeTool env call s = (s', Inl x)"
  then show "E s'" by (auto simp: executeTool_def bindA_eval thenA_eval split: option.splits)
qed

text \<open>A call is open: its event stands after answered ones, followed by events that are no calls.\<close>

definition open_call :: "env \<Rightarrow> agent_session \<Rightarrow> payload \<Rightarrow> canonical_event list \<Rightarrow> bool" where
  "open_call env s0 p l \<longleftrightarrow> (\<exists>es e1 mid. l = es @ e1 # mid \<and> stored_of env s0 p e1
     \<and> (steady env s0 \<longrightarrow> answered es \<and> (\<forall>e \<in> set mid. no_call (ev_payload e))))"

lemma open_call_start:
  "steady env s0 \<longrightarrow> answered es \<Longrightarrow> stored_of env s0 p e \<Longrightarrow> open_call env s0 p (es @ [e])"
  unfolding open_call_def by (intro exI [of _ es] exI [of _ e] exI [of _ "[]"]) simp

lemma open_call_more:
  assumes "open_call env s0 p l" and "stored_of env s0 q e" and "no_call q"
  shows "open_call env s0 p (l @ [e])"
proof -
  obtain es e1 mid where l: "l = es @ e1 # mid" "stored_of env s0 p e1"
    "steady env s0 \<longrightarrow> answered es \<and> (\<forall>e \<in> set mid. no_call (ev_payload e))" using assms(1) unfolding open_call_def by blast
  have "steady env s0 \<longrightarrow> no_call (ev_payload e)" using assms(2,3) stored_call_type by (auto simp: stored_of_def)
  then show ?thesis unfolding open_call_def using l by (intro exI [of _ es] exI [of _ e1] exI [of _ "mid @ [e]"]) auto
qed

lemma open_call_closed:
  assumes "open_call env s0 (ToolCall c n i) l" and "stored_of env s0 (ToolResult c n k er d) e" and "steady env s0"
  shows "answered (l @ [e])"
proof -
  obtain es e1 mid where l: "l = es @ e1 # mid" "stored_of env s0 (ToolCall c n i) e1"
    "answered es" "\<forall>e \<in> set mid. no_call (ev_payload e)" using assms(1,3) unfolding open_call_def by blast
  obtain c' n' i' k' d' where "ev_payload e1 = ToolCall c' n' i'" "ev_payload e = ToolResult c' n' k' er d'"
    using assms(2,3) l(2) by (auto simp: stored_of_def stored_call_def)
  then show ?thesis using answered_append [OF l(3)] answered_pair l(1,4) by fastforce
qed

lemma no_call_violation: "no_call (SandboxViolation cap reason)"
  by (simp add: no_call_def)

lemma executeToolCalls_triple:
  "clean_calls calls \<Longrightarrow>
   triple (resting env op s0) (executeToolCalls env op calls) (\<lambda>_. resting env op s0) (turn_inv env op s0)"
proof (induction calls)
  case Nil
  show ?case unfolding executeToolCalls.simps by (rule triple_ret)
next
  case (Cons call calls)
  let ?call = "ToolCall (req_callId call) (req_name call) (req_input call)"
  let ?open = "\<lambda>s. turn_inv env op s0 s \<and> open_call env s0 ?call (as_appended s)"
  have cl: "clean_payload ?call" and rest: "clean_calls calls"
    using Cons.prems by (simp_all add: clean_calls_def clean_payload_def opt_ok_def)
  have start: "triple (resting env op s0) (append_pushed env (Some op) ?call) (\<lambda>_. ?open) (turn_inv env op s0)"
    by (rule triple_weaken [OF turn_append_keep [OF cl, where P = "\<lambda>l. steady env s0 \<longrightarrow> answered l"]])
      (auto simp: resting_def open_call_start)
  have viol: "triple ?open (case v of None \<Rightarrow> ret ()
      | Some (cap, reason) \<Rightarrow> thenA (append_pushed env (Some op) (SandboxViolation cap reason)) (ret ())) (\<lambda>_. ?open) (turn_inv env op s0)" for v
  proof -
    have "triple ?open (append_pushed env (Some op) (SandboxViolation cap reason)) (\<lambda>_. ?open) (turn_inv env op s0)" for cap reason
      by (rule triple_weaken [OF turn_append_keep [where P = "open_call env s0 ?call"]])
        (auto simp: clean_payload_def opt_ok_def no_call_violation intro: open_call_more [OF _ _ no_call_violation])
    then show ?thesis by (auto split: option.splits intro!: triple_ret triple_then)
  qed
  have result: "triple ?open (append_pushed env (Some op) (ToolResult (req_callId call) (req_name call) k er d))
      (\<lambda>_. resting env op s0) (turn_inv env op s0)" if "opt_ok wf_json d" for k er d
    by (rule triple_weaken [OF turn_append_keep [where P = "open_call env s0 ?call"]])
      (use that in \<open>auto simp: clean_payload_def opt_ok_def resting_def intro: open_call_closed split: option.splits\<close>)
  have tail: "triple (resting env op s0) (bindA (asks (aborted_now env)) (\<lambda>aborted. if aborted then ret True else executeToolCalls env op calls))
      (\<lambda>_. resting env op s0) (turn_inv env op s0)"
    by (rule triple_bind [where R = "\<lambda>_. resting env op s0"]) (auto intro!: triple_asks triple_ret Cons.IH [OF rest])
  show ?case unfolding executeToolCalls.simps
  proof (rule triple_bind [OF start], rule triple_bind [OF executeTool_triple])
    fix x :: "tool_execution_result \<times> (string \<times> string) option"
    obtain res v where x: "x = (res, v)" by (cases x)
    show "triple (\<lambda>s. ?open s \<and> opt_ok wf_json (res_details (fst x)))
      (case x of (result, violation) \<Rightarrow> bindA (case violation of None \<Rightarrow> ret ()
            | Some (capability, reason) \<Rightarrow> thenA (append_pushed env (Some op) (SandboxViolation capability reason)) (ret ())) (\<lambda>_.
         bindA (append_pushed env (Some op)
           (ToolResult (req_callId call) (req_name call) (res_content result) (res_isError result) (res_details result))) (\<lambda>resultEvent.
         thenA (push_message (ToolMsg (req_callId call) (req_name call) (payload_content (ev_payload resultEvent)) (res_isError result)))
           (bindA (asks (aborted_now env)) (\<lambda>aborted. if aborted then ret True else executeToolCalls env op calls)))))
      (\<lambda>_. resting env op s0) (turn_inv env op s0)"
    proof (cases "opt_ok wf_json (res_details res)")
      case True
      show ?thesis unfolding x prod.case
        by (rule triple_weaken [OF triple_bind [OF viol triple_bind [OF result [OF True] triple_then [OF resting_message tail]]]]) auto
    qed (simp add: x triple_def)
  qed
qed

section \<open>The loop\<close>

lemma resting_user:
  "triple (resting env op s0) (appendUserMessage env op content) (\<lambda>_. resting env op s0) (turn_inv env op s0)"
  unfolding appendUserMessage_def
  by (intro triple_bind [OF resting_append] resting_message) (simp_all add: clean_payload_def opt_ok_def no_call_def)

lemma resting_queued:
  "triple (resting env op s0) (appendNextQueuedMessage env q op) (\<lambda>_. resting env op s0) (turn_inv env op s0)"
  unfolding appendNextQueuedMessage_def
  by (rule triple_bind [where R = "\<lambda>_. resting env op s0"])
    (auto split: list.splits intro!: triple_asks triple_ret triple_then [OF resting_user] triple_then [OF resting_modify])

definition reported :: "env \<Rightarrow> string \<Rightarrow> agent_session \<Rightarrow> turn_progress \<Rightarrow> agent_session \<Rightarrow> bool" where
  "reported env op s0 p s \<longleftrightarrow> resting env op s0 s
     \<and> (case p of TurnContinues \<Rightarrow> True | TurnReturns r \<Rightarrow> turn_events r = as_appended s)"

lemma resting_return: "triple (resting env op s0) (turn_return reason) (reported env op s0) E"
  unfolding turn_return_def by (auto intro!: tripleI simp: bindA_eval reported_def)

lemma reported_continues: "triple (resting env op s0) (ret TurnContinues) (reported env op s0) E"
  by (rule triple_ret) (simp add: reported_def)

lemma resting_after: "triple (resting env op s0) (after_answer env op reason) (reported env op s0) (turn_inv env op s0)"
  unfolding after_answer_def
  by (auto intro!: triple_bind [OF resting_queued] reported_continues resting_return)

lemma resting_assistant:
  "clean_out out \<Longrightarrow> triple (resting env op s0) (append_assistant env op out) (\<lambda>_. resting env op s0) (turn_inv env op s0)"
  unfolding append_assistant_def
  by (intro triple_bind [OF resting_append] triple_then [OF resting_message] resting_frame)
    (simp_all add: clean_payload_def no_call_def clean_out_def)

lemma resting_usage: "triple (resting env op s0) (note_usage out) (\<lambda>_. resting env op s0) E"
  unfolding note_usage_def Let_def by (auto split: option.splits intro!: triple_ret resting_modify)

lemma turn_step_triple: "triple (resting env op s0) (turn_step env op) (reported env op s0) (turn_inv env op s0)"
  unfolding turn_step_def
proof (rule triple_bind [OF modelTurn_triple])
  fix out
  let ?rest = "thenA (append_assistant env op out)
     (if out_stopReason out = StopError \<or> out_stopReason out = StopAborted then turn_return (out_stopReason out)
      else thenA (note_usage out)
        (if out_stopReason out = ToolUse then
           (if out_toolCalls out = [] then
              thenA (append_pushed env (Some op)
                (SessionErrorEv ''missing_tool_call'' ''Model ended with tool_use but supplied no tool call'' False None))
                (turn_return StopError)
            else
              bindA (executeToolCalls env op (out_toolCalls out)) (\<lambda>aborted.
              if aborted then ret TurnContinues else after_answer env op (out_stopReason out)))
         else after_answer env op (out_stopReason out)))"
  have "triple (resting env op s0) ?rest (reported env op s0) (turn_inv env op s0)" if c: "clean_out out"
  proof -
    have calls: "clean_calls (out_toolCalls out)" using c by (simp add: clean_out_def)
    have err: "triple (resting env op s0) (append_pushed env (Some op)
        (SessionErrorEv ''missing_tool_call'' ''Model ended with tool_use but supplied no tool call'' False None))
        (\<lambda>_. resting env op s0) (turn_inv env op s0)"
      by (rule resting_append) (simp_all add: clean_payload_def no_call_def opt_ok_def)
    show ?thesis
      by (auto intro!: triple_then [OF resting_assistant [OF c]] triple_then [OF resting_usage] triple_then [OF err]
          triple_bind [OF executeToolCalls_triple [OF calls]] resting_return reported_continues resting_after)
  qed
  then show "triple (\<lambda>s. resting env op s0 s \<and> clean_out out) ?rest (reported env op s0) (turn_inv env op s0)"
    by (cases "clean_out out") (simp_all add: triple_def)
qed

text \<open>Partial correctness of the loop: what a pass keeps holds when the loop returns.\<close>

lemma turn_loop_rule:
  assumes "turn_loop env op s = Some (s', r)"
    and "triple I (turn_step env op) (\<lambda>p s. I s \<and> (case p of TurnContinues \<Rightarrow> True | TurnReturns r \<Rightarrow> Q r s)) E" and "I s"
  shows "case r of Inl e \<Rightarrow> E s' | Inr x \<Rightarrow> I s' \<and> Q x s'"
proof -
  let ?Q = "\<lambda>p s. I s \<and> (case p of TurnContinues \<Rightarrow> True | TurnReturns r \<Rightarrow> Q r s)"
  let ?P = "\<lambda>env op s y. triple I (turn_step env op) ?Q E \<longrightarrow> I s \<longrightarrow>
      (case snd y of Inl e \<Rightarrow> E (fst y) | Inr x \<Rightarrow> I (fst y) \<and> Q x (fst y))"
  have "?P env op s (s', r)"
  proof (rule turn_loop.raw_induct [where P = ?P, OF _ assms(1)])
    fix loop env op s y
    assume ih: "\<And>env op s y. loop env op s = Some y \<Longrightarrow> ?P env op s y"
      and body: "(case turn_step env op s of (s', Inl e) \<Rightarrow> Some (s', Inl e)
        | (s', Inr TurnContinues) \<Rightarrow> loop env op s' | (s', Inr (TurnReturns r)) \<Rightarrow> Some (s', Inr r)) = Some y"
    show "?P env op s y"
    proof (intro impI)
      assume t: "triple I (turn_step env op) ?Q E" and s: "I s"
      obtain s1 q where q: "turn_step env op s = (s1, q)" by fastforce
      show "case snd y of Inl e \<Rightarrow> E (fst y) | Inr x \<Rightarrow> I (fst y) \<and> Q x (fst y)"
      proof (cases q)
        case (Inl e)
        then show ?thesis using body q triple_Inl [OF t s] by auto
      next
        case (Inr p)
        then have "?Q p s1" using triple_Inr [OF t s] q by simp
        then show ?thesis using body q Inr ih t by (cases p) auto
      qed
    qed
  qed
  then show ?thesis using assms(2,3) by (cases r) simp_all
qed

section \<open>Turns\<close>

lemma throw_if_owned_eval:
  "throw_if_owned s = (s, case as_activeOperation s of None \<Rightarrow> Inr () | Some op \<Rightarrow> Inl (conflict_owned op))"
  by (simp add: throw_if_owned_def bindA_eval split: option.splits)

lemma operation_id_frame:
  "operation_id env requested s = (s1, q) \<Longrightarrow>
   s1 = s\<lparr>as_clock := as_clock s1\<rparr> \<and> as_clock s \<le> as_clock s1 \<and> (requested \<noteq> None \<longrightarrow> s1 = s \<and> q = Inr (the requested))"
  by (auto simp: operation_id_def bindA_eval thenA_eval split: option.splits)

lemma grew_same_log:
  "grew a b new \<Longrightarrow> as_log a' = as_log a \<Longrightarrow> as_file a' = as_file a \<Longrightarrow> as_tip a' = as_tip a \<Longrightarrow> as_emitted a' = as_emitted a \<Longrightarrow>
   as_log b' = as_log b \<Longrightarrow> as_file b' = as_file b \<Longrightarrow> as_tip b' = as_tip b \<Longrightarrow> as_emitted b' = as_emitted b \<Longrightarrow> grew a' b' new"
  by (simp add: grew_def)

lemma start_resting:
  assumes "env_ok env" and "log_hooks_ok (as_log s)"
  shows "resting env op (start_turn op s) (start_turn op s)"
  using assms by (simp add: resting_def turn_inv_def start_turn_def grew_refl)

lemma runTurn_cases:
  assumes run: "runTurn env content requested s = Some (s', r)" and free: "as_activeOperation s = None"
    and env: "env_ok env" "log_hooks_ok (as_log s)"
  shows "\<exists>op new. grew s s' new \<and> (\<forall>e \<in> set new. ev_operationId e = Some op) \<and> (requested \<noteq> None \<longrightarrow> requested = Some op)
    \<and> (\<forall>res. r = Inr res \<longrightarrow> turn_events res = new \<and> (steady env s \<longrightarrow> answered new))"
proof -
  obtain s0 q where q: "thenA throw_if_owned (operation_id env requested) s = (s0, q)" by fastforce
  then have opid: "operation_id env requested s = (s0, q)" using free by (simp add: thenA_eval throw_if_owned_eval)
  note f = operation_id_frame [OF opid]
  have lg: "as_log s0 = as_log s" "as_file s0 = as_file s" "as_tip s0 = as_tip s" "as_emitted s0 = as_emitted s"
    by (subst f [THEN conjunct1], simp)+
  show ?thesis
  proof (cases q)
    case (Inl e)
    then have "s' = s0" "r = Inl e" using run q by (simp_all add: runTurn_def)
    moreover have "requested = None" using f [THEN conjunct2] Inl by auto
    ultimately show ?thesis using lg by (intro exI [of _ "[]"]) (simp add: grew_def)
  next
    case (Inr op)
    let ?s0 = "start_turn op s0"
    have req: "requested \<noteq> None \<longrightarrow> requested = Some op" using f [THEN conjunct2] Inr by auto
    have rest: "resting env op ?s0 ?s0" using start_resting env lg by simp
    have fin: ?thesis if t: "turn_inv env op ?s0 t" and s': "s' = end_turn t"
      and res: "\<forall>res. r = Inr res \<longrightarrow> turn_events res = as_appended t \<and> (steady env ?s0 \<longrightarrow> answered (as_appended t))" for t
    proof -
      have "grew s s' (as_appended t)"
        by (rule grew_same_log [of ?s0 t]) (use t in \<open>simp_all add: turn_inv_def start_turn_def end_turn_def lg s'\<close>)
      moreover have "steady env ?s0 = steady env s" by (simp add: steady_def start_turn_def lg)
      moreover have "\<forall>e \<in> set (as_appended t). ev_operationId e = Some op" using t by (simp add: turn_inv_def)
      ultimately show ?thesis using res req by auto
    qed
    obtain s1 u where u: "appendUserMessage env op content ?s0 = (s1, u)" by fastforce
    show ?thesis
    proof (cases u)
      case (Inl e)
      then have "s' = end_turn s1" "r = Inl e" using run q Inr u by (simp_all add: runTurn_def)
      then show ?thesis using fin triple_Inl [OF resting_user rest] u Inl by simp
    next
      case Inr': (Inr x)
      have r1: "resting env op ?s0 s1" using triple_Inr [OF resting_user rest] u Inr' by simp
      obtain s2 where l: "turn_loop env op s1 = Some (s2, r)" "s' = end_turn s2"
        using run q Inr u Inr' by (auto simp: runTurn_def)
      have step: "triple (resting env op ?s0) (turn_step env op) (\<lambda>p s. resting env op ?s0 s
          \<and> (case p of TurnContinues \<Rightarrow> True | TurnReturns r \<Rightarrow> turn_events r = as_appended s)) (turn_inv env op ?s0)"
        using turn_step_triple [of env op ?s0] by (simp add: reported_def [abs_def])
      have "case r of Inl e \<Rightarrow> turn_inv env op ?s0 s2 | Inr x \<Rightarrow> resting env op ?s0 s2 \<and> turn_events x = as_appended s2"
        by (rule turn_loop_rule [OF l(1) step r1])
      then show ?thesis using fin [OF _ l(2)] by (cases r) (auto simp: resting_def)
    qed
  qed
qed

section \<open>The clock\<close>

text \<open>Actions that never turn the clock back, and those that advance it.\<close>

definition advances :: "nat \<Rightarrow> (agent_session, 'e, 'a) action \<Rightarrow> bool" where
  "advances k m \<longleftrightarrow> (\<forall>s. as_clock s + k \<le> as_clock (fst (m s)))"

lemma advances_basic [simp]:
  "advances 0 (ret x)" "advances 0 (throw e)" "advances 0 (asks f)" "advances 0 (lift r)" "advances 0 (throw_if b e)"
  "advances 0 (push_message m)" "advances 0 (frame_out mk)" "advances 0 (push_appended e)" "advances 0 (modify (queue_shift q))"
  "advances 0 (modify (tick env))" "advances 0 (modify (\<lambda>s. s\<lparr>as_contextUsage := g s\<rparr>))"
  by (simp_all add: advances_def push_message_def frame_out_def push_appended_def) (cases q; simp)

lemma advances_bind:
  assumes "advances j m" and "\<And>x. advances k (f x)" and "l \<le> j"
  shows "advances l (bindA m f)"
  unfolding advances_def
proof
  fix s
  obtain s1 r where r: "m s = (s1, r)" by fastforce
  then have "as_clock s + j \<le> as_clock s1" using assms(1) [unfolded advances_def, rule_format, of s] by simp
  moreover have "as_clock s1 \<le> as_clock (fst (f x s1))" for x
    using assms(2) [of x, unfolded advances_def, rule_format, of s1] by simp
  ultimately show "as_clock s + l \<le> as_clock (fst (bindA m f s))"
    using r assms(3) by (cases r) (auto simp: bindA_eval intro: order_trans [of _ "as_clock s1"])
qed

lemma advances_weaken: "advances k m \<Longrightarrow> j \<le> k \<Longrightarrow> advances j m"
  unfolding advances_def by (meson add_left_mono order_trans)

lemmas advances_bind0 = advances_bind [where j = 0 and k = 0 and l = 0, OF _ _ order_refl]

lemma advances_then0: "advances 0 m \<Longrightarrow> advances 0 k \<Longrightarrow> advances 0 (thenA m k)"
  unfolding thenA_def by (rule advances_bind0)

lemma advances_append: "advances 1 (session_append env op p)"
  by (auto simp: advances_def session_append_def split: sum.splits prod.splits)

lemma advances_pushed1: "advances 1 (append_pushed env op p)"
  unfolding append_pushed_def by (rule advances_bind [OF advances_append, of 0]) (auto intro!: advances_then0)

lemma advances_pushed [simp]: "advances 0 (append_pushed env op p)"
  by (rule advances_weaken [OF advances_pushed1]) simp

lemma advances_event [simp]: "advances 0 (attempt_event op event loc)"
  by (cases event) (auto simp: attempt_event_def intro!: advances_then0)

lemma advances_loop [simp]: "advances 0 (attempt_loop env op fin acts loc)"
proof (induction env op fin acts loc rule: attempt_loop.induct)
  case (3 env op fin cfg rest loc)
  show ?case unfolding advances_def
  proof
    fix s
    obtain s1 q where a: "append_pushed env (Some op) (ModelRequestConfigured cfg) s = (s1, q)" by fastforce
    then have "as_clock s \<le> as_clock s1"
      using advances_pushed [of env "Some op" "ModelRequestConfigured cfg", unfolded advances_def, rule_format, of s] by simp
    moreover have "as_clock s1 \<le> as_clock (fst (attempt_loop env op fin rest loc s1))" if "q = Inr y" for y
      using "3.IH" [OF a [symmetric] that, unfolded advances_def, rule_format, of s1] by simp
    ultimately show "as_clock s + 0 \<le> as_clock (fst (attempt_loop env op fin (Configured cfg # rest) loc s))"
      using a by (auto split: sum.splits intro: order_trans)
  qed
next
  case (4 env op fin event rest loc)
  then show ?case by (auto intro!: advances_then0 advances_bind0)
qed (auto intro!: advances_then0)

lemma advances_attempt [simp]: "advances 0 (modelAttempt env op)"
  unfolding modelAttempt_def by (auto intro!: advances_bind0 simp: split_def)

lemma advances_from [simp]: "advances 0 (attempt_from env op policy attempt left)"
  by (induction left arbitrary: attempt)
    (auto intro!: advances_bind0 advances_then0 split: option.splits)

lemma advances_model [simp]: "advances 0 (modelTurn env op)"
  unfolding modelTurn_def by (auto intro!: advances_bind0 split: option.splits)

lemma advances_tool [simp]: "advances 0 (executeTool env call)"
  unfolding executeTool_def by (auto intro!: advances_bind0 advances_then0 split: option.splits)

lemma advances_tools [simp]: "advances 0 (executeToolCalls env op calls)"
proof (induction calls)
  case Nil
  show ?case unfolding executeToolCalls.simps by (rule advances_basic(1))
next
  case (Cons call calls)
  then show ?case by (auto intro!: advances_bind0 advances_then0 simp: split_def split: option.splits)
qed

lemma advances_queued [simp]: "advances 0 (appendNextQueuedMessage env q op)"
  unfolding appendNextQueuedMessage_def appendUserMessage_def
  by (auto intro!: advances_bind0 advances_then0 split: list.splits)

lemma advances_after [simp]: "advances 0 (after_answer env op reason)" "advances 0 (turn_return reason)" "advances 0 (note_usage out)"
  unfolding after_answer_def turn_return_def note_usage_def Let_def
  by (auto intro!: advances_bind0 split: option.splits)

lemma advances_assistant: "advances 1 (append_assistant env op out)"
  unfolding append_assistant_def by (rule advances_bind [OF advances_pushed1, of 0]) (auto intro!: advances_then0)

text \<open>Every pass of the loop awaits at least the append of the assistant's message.\<close>

lemma turn_step_advances: "turn_step env op s = (s', r) \<Longrightarrow> as_clock s < as_clock s' \<or> (\<exists>e. r = Inl e)"
proof -
  assume step: "turn_step env op s = (s', r)"
  obtain s1 q where q: "modelTurn env op s = (s1, q)" by fastforce
  have c1: "as_clock s \<le> as_clock s1" using advances_model [of env op, unfolded advances_def, rule_format, of s] q by simp
  show ?thesis
  proof (cases q)
    case (Inr out)
    have k: "advances 1 (thenA (append_assistant env op out) k)" if "advances 0 k" for k :: "turn_progress session_action"
      unfolding thenA_def by (rule advances_bind [OF advances_assistant that]) simp
    have a: "advances 1 (thenA (append_assistant env op out)
     (if out_stopReason out = StopError \<or> out_stopReason out = StopAborted then turn_return (out_stopReason out)
      else thenA (note_usage out)
        (if out_stopReason out = ToolUse then
           (if out_toolCalls out = [] then
              thenA (append_pushed env (Some op)
                (SessionErrorEv ''missing_tool_call'' ''Model ended with tool_use but supplied no tool call'' False None))
                (turn_return StopError)
            else
              bindA (executeToolCalls env op (out_toolCalls out)) (\<lambda>aborted.
              if aborted then ret TurnContinues else after_answer env op (out_stopReason out)))
         else after_answer env op (out_stopReason out))))"
      by (rule k) (auto intro!: advances_then0 advances_bind0)
    show ?thesis
      using step q Inr c1 a [unfolded advances_def, rule_format, of s1] by (auto simp: turn_step_def bindA_eval)
  qed (use step q in \<open>auto simp: turn_step_def bindA_eval\<close>)
qed

text \<open>A pass that starts aborted is the last one.\<close>

lemma turn_step_aborted:
  assumes "aborted_now env s" and "turn_step env op s = (s', r)"
  shows "r \<noteq> Inr TurnContinues"
proof -
  have "modelTurn env op s = (s, Inr aborted_outcome)" using assms(1) by (simp add: modelTurn_def bindA_eval)
  then show ?thesis using assms(2)
    by (auto simp: turn_step_def bindA_eval thenA_eval aborted_outcome_def turn_return_def split: prod.splits sum.splits)
qed

lemma turn_loop_aborts:
  assumes "\<forall>n \<ge> N. env_aborted env n"
  shows "\<exists>s' r. turn_loop env op s = Some (s', r)"
proof (induction "N - as_clock s" arbitrary: s rule: less_induct)
  case less
  obtain s1 q where q: "turn_step env op s = (s1, q)" by fastforce
  show ?case
  proof (cases "q = Inr TurnContinues")
    case True
    then have c: "as_clock s < as_clock s1" using turn_step_advances [OF q] by auto
    have "\<not> aborted_now env s" using turn_step_aborted [OF _ q] True by blast
    then have "as_clock s < N" using assms by (auto simp: aborted_now_def not_le [symmetric])
    then have "\<exists>s' r. turn_loop env op s1 = Some (s', r)" using less [of s1] c by auto
    then show ?thesis using q True by (subst turn_loop.simps) simp
  next
    case False
    then show ?thesis using q by (subst turn_loop.simps) (auto split: sum.splits turn_progress.splits)
  qed
qed

section \<open>Appends that are known to succeed\<close>

text \<open>A small event without secrets, on a file system that works.\<close>

definition plain_event :: "canonical_event \<Rightarrow> bool" where
  "plain_event e \<longleftrightarrow> wf_event e \<and> wf_json (event_json e) \<and> length (json_text (event_json e)) \<le> 1000
     \<and> redactPayload [] (ev_payload e) = payload_json (ev_payload e)"

lemma plain_storable: "plain_event e \<Longrightarrow> storable (ev_sessionId e) e"
  using utf8_encode_length [of "json_text (event_json e)"]
  by (simp add: plain_event_def storable_def event_bytes_def MAX_CANONICAL_EVENT_BYTES_def)

lemma plain_redacted: "plain_event e \<Longrightarrow> redactEventForStorage (event_json e) [] = Inr e"
proof -
  assume p: "plain_event e"
  have "(event_envelope_of e)\<lparr>env_payload := payload_json (ev_payload e)\<rparr> = event_envelope_of e" by (simp add: event_envelope_of_def)
  then have "JObj (envelope_json ((event_envelope_of e)\<lparr>env_payload := redactPayload [] (ev_payload e)\<rparr>)) = event_json e"
    using p by (simp add: plain_event_def event_json_def)
  then show ?thesis using p event_roundtrip [of e]
    by (simp add: redactEventForStorage_def normalizeSecretValues_def plain_event_def)
qed

lemma plain_append:
  assumes "plain_event (new_event env op p s)" and "env_secrets env (as_clock s) = []" and "healthy (env_fs env (as_clock s))"
    and "as_log s = \<lparr>log_path = path, log_sessionId = sid, log_options = no_options\<rparr>"
  shows "session_append env op p s = ((tick env s)\<lparr>as_file := as_file s @ event_bytes (new_event env op p s) @ [0x0A],
      as_tip := Some (env_uuid env (as_clock s)), as_emitted := as_emitted s @ [new_event env op p s]\<rparr>, Inr (new_event env op p s))"
proof -
  let ?e = "new_event env op p s"
  have "parseEvent (event_json ?e) = Inr ?e" using assms(1) by (simp add: plain_event_def event_roundtrip)
  moreover have "log_append (env_fs env (as_clock s)) (as_log s) [] (event_json ?e) (as_file s) = (Inr ?e, as_file s @ event_bytes ?e @ [0x0A])"
    using append_stored_event [of sid ?e "[]", OF _ plain_redacted [OF assms(1)] assms(3)] plain_storable [OF assms(1)] assms(4)
    by (simp add: new_event_def)
  ultimately show ?thesis using assms(2) by (simp add: session_append_def new_event_def)
qed

definition ex_env :: env where
  "ex_env = \<lparr>env_uuid = (\<lambda>n. ex_id (char_of (49 + n))), env_now = (\<lambda>n. 5), env_secrets = (\<lambda>n. []), env_fs = (\<lambda>n. ex_fs),
     env_aborted = (\<lambda>n. 4 \<le> n),
     env_stream = (\<lambda>n r. ([Yield (ToolCallEv \<lparr>req_callId = ''c1'', req_name = ''read'', req_input = []\<rparr> None),
        Yield (Completed ToolUse ex_usage None None None)], PortReturns)),
     env_execute = (\<lambda>n t i. ToolThrows None), env_random = (\<lambda>n. 0), env_sleep = (\<lambda>n d. None), env_arrivals = (\<lambda>n. [])\<rparr>"

definition ex_state :: agent_session where
  "ex_state = \<lparr>as_log = ex_event_log, as_file = [], as_contextUsage = None, as_tools = [], as_system = None, as_retry = None,
     as_keepRecentTokens = JInt 10, as_maxOutputTokens = JInt 10, as_tip = None, as_messages = [], as_activeOperation = None,
     as_acceptingQueuedMessages = False, as_steeringMessages = [], as_followUpMessages = [], as_emitted = [], as_frames = [],
     as_appended = [], as_sequence = 0, as_clock = 0\<rparr>"

definition ex_turn_event :: "nat \<Rightarrow> nat option \<Rightarrow> payload \<Rightarrow> canonical_event" where
  "ex_turn_event n parent p = \<lparr>ev_id = ex_id (char_of (49 + n)), ev_sessionId = ex_session, ev_operationId = Some (ex_id CHR ''0''),
     ev_parentId = map_option (\<lambda>m. ex_id (char_of (49 + m))) parent, ev_timestamp = 5, ev_payload = p\<rparr>"

lemma ex_plain_user: "plain_event (ex_turn_event 0 None (UserMessage [Text ''hi'']))"
  by code_simp

lemma ex_plain_assistant: "plain_event (ex_turn_event 3 (Some 0) (AssistantMessage [] ToolUse (Some ex_usage) None))"
  by code_simp

lemma ex_plain_call: "plain_event (ex_turn_event 4 (Some 3) (ToolCall ''c1'' ''read'' []))"
  by code_simp

lemma ex_plain_result: "plain_event (ex_turn_event 5 (Some 4) (ToolResult ''c1'' ''read'' [Text ''Tool read is not registered''] True None))"
  by code_simp

lemma ex_plain_aborted: "plain_event (ex_turn_event 6 (Some 5) (AssistantMessage [] StopAborted None None))"
  by code_simp

definition ex_turn :: "canonical_event list" where
  "ex_turn =
     [ex_turn_event 0 None (UserMessage [Text ''hi'']),
      ex_turn_event 3 (Some 0) (AssistantMessage [] ToolUse (Some ex_usage) None),
      ex_turn_event 4 (Some 3) (ToolCall ''c1'' ''read'' []),
      ex_turn_event 5 (Some 4) (ToolResult ''c1'' ''read'' [Text ''Tool read is not registered''] True None),
      ex_turn_event 6 (Some 5) (AssistantMessage [] StopAborted None None)]"

lemma ex_append:
  assumes "as_log s = ex_event_log" and "as_clock s = n" and "as_tip s = map_option (\<lambda>m. ex_id (char_of (49 + m))) parent"
    and "plain_event (ex_turn_event n parent p)"
  shows "append_pushed ex_env (Some (ex_id CHR ''0'')) p s = (s\<lparr>as_clock := Suc n,
      as_file := as_file s @ event_bytes (ex_turn_event n parent p) @ [0x0A],
      as_tip := Some (ex_id (char_of (49 + n))), as_emitted := as_emitted s @ [ex_turn_event n parent p],
      as_appended := as_appended s @ [ex_turn_event n parent p]\<rparr>, Inr (ex_turn_event n parent p))"
proof -
  have e: "new_event ex_env (Some (ex_id CHR ''0'')) p s = ex_turn_event n parent p"
    using assms(1-3) by (simp add: new_event_def ex_turn_event_def ex_env_def ex_event_log_def)
  have "session_append ex_env (Some (ex_id CHR ''0'')) p s = ((tick ex_env s)\<lparr>as_file := as_file s @ event_bytes (ex_turn_event n parent p) @ [0x0A],
      as_tip := Some (env_uuid ex_env n), as_emitted := as_emitted s @ [ex_turn_event n parent p]\<rparr>, Inr (ex_turn_event n parent p))"
    using plain_append [of ex_env "Some (ex_id CHR ''0'')" p s "''/log''" ex_session] assms e
    by (simp add: ex_env_def ex_event_log_def ex_healthy)
  then show ?thesis using assms(2) by (simp add: append_pushed_def bindA_eval thenA_eval push_appended_def tick_def ex_env_def)
qed

text \<open>Where the example turn stands: clock, tip and collected events. It never throws.\<close>

definition ex_at :: "nat \<Rightarrow> nat option \<Rightarrow> canonical_event list \<Rightarrow> agent_session \<Rightarrow> bool" where
  "ex_at n parent es s \<longleftrightarrow> as_log s = ex_event_log \<and> as_clock s = n \<and> as_tip s = map_option (\<lambda>m. ex_id (char_of (49 + m))) parent
     \<and> as_appended s = es \<and> as_tools s = [] \<and> as_retry s = None"

lemma ex_at_append:
  assumes "plain_event (ex_turn_event n parent p)"
  shows "triple (ex_at n parent es) (append_pushed ex_env (Some (ex_id CHR ''0'')) p)
    (\<lambda>e s. ex_at (Suc n) (Some n) (es @ [ex_turn_event n parent p]) s) (\<lambda>_. False)"
  by (rule tripleI) (auto simp: ex_append [OF _ _ _ assms] ex_at_def)

lemma ex_at_inert:
  "triple (ex_at n parent es) (push_message m) (\<lambda>_. ex_at n parent es) E"
  "triple (ex_at n parent es) (frame_out mk) (\<lambda>_. ex_at n parent es) E"
  "triple (ex_at n parent es) (note_usage out) (\<lambda>_. ex_at n parent es) E"
  by (auto intro!: tripleI simp: push_message_def frame_out_def note_usage_def Let_def ex_at_def split: option.splits if_splits)

lemma ex_at_model:
  "triple (ex_at 1 (Some 0) es) (modelTurn ex_env op) (\<lambda>out s. ex_at 3 (Some 0) es s \<and>
     out = \<lparr>out_content = [], out_toolCalls = [\<lparr>req_callId = ''c1'', req_name = ''read'', req_input = []\<rparr>], out_stopReason = ToolUse,
       out_usage = Some ex_usage, out_error = None, out_exposedOutput = True\<rparr>) (\<lambda>_. False)"
  by (rule tripleI)
    (auto simp: modelTurn_def bindA_eval thenA_eval aborted_now_def ex_env_def ex_at_def modelAttempt_def attempt_event_def frame_out_def
      attempt_terminal_def attempt_outcome_def tick_def split: prod.splits)

lemma bindA_ret: "bindA (ret x) f = f x"
  by (simp add: bindA_def)

lemma triple_pure: "(b \<Longrightarrow> triple P m Q E) \<Longrightarrow> triple (\<lambda>s. P s \<and> b) m Q E"
  by (cases b) (simp_all add: triple_def)

lemma ex_step1:
  "triple (ex_at 1 (Some 0) (take 1 ex_turn)) (turn_step ex_env (ex_id CHR ''0''))
     (\<lambda>p s. p = TurnContinues \<and> ex_at 6 (Some 5) (take 4 ex_turn) s) (\<lambda>_. False)"
proof -
  let ?op = "ex_id CHR ''0''" and ?r = "\<lparr>req_callId = ''c1'', req_name = ''read'', req_input = []\<rparr>"
  let ?out = "\<lparr>out_content = [], out_toolCalls = [?r], out_stopReason = ToolUse,
       out_usage = Some ex_usage, out_error = None, out_exposedOutput = True\<rparr>"
  have assistant: "triple (ex_at 3 (Some 0) (take 1 ex_turn)) (append_assistant ex_env ?op ?out) (\<lambda>_. ex_at 4 (Some 3) (take 2 ex_turn)) (\<lambda>_. False)"
    unfolding append_assistant_def
    using ex_at_append [OF ex_plain_assistant, of "take 1 ex_turn"]
    by (intro triple_bind [where R = "\<lambda>_. ex_at 4 (Some 3) (take 2 ex_turn)"] triple_then [OF ex_at_inert(1)] ex_at_inert(2))
      (simp add: ex_turn_def)
  have call: "triple (ex_at 4 (Some 3) (take 2 ex_turn)) (append_pushed ex_env (Some ?op) (ToolCall ''c1'' ''read'' []))
      (\<lambda>_. ex_at 5 (Some 4) (take 3 ex_turn)) (\<lambda>_. False)"
    using ex_at_append [OF ex_plain_call, of "take 2 ex_turn"] by (simp add: ex_turn_def numeral_3_eq_3)
  have tool: "triple (ex_at 5 (Some 4) (take 3 ex_turn)) (executeTool ex_env ?r) (\<lambda>x s. ex_at 5 (Some 4) (take 3 ex_turn) s
      \<and> x = (\<lparr>res_content = [Text ''Tool read is not registered''], res_isError = True, res_details = None\<rparr>, None)) (\<lambda>_. False)"
    by (rule tripleI) (auto simp: executeTool_def bindA_eval ex_at_def registry_get_def)
  have result: "triple (ex_at 5 (Some 4) (take 3 ex_turn))
      (append_pushed ex_env (Some ?op) (ToolResult ''c1'' ''read'' [Text ''Tool read is not registered''] True None))
      (\<lambda>_. ex_at 6 (Some 5) (take 4 ex_turn)) (\<lambda>_. False)"
    using ex_at_append [OF ex_plain_result, of "take 3 ex_turn"] by (simp add: ex_turn_def numeral_3_eq_3)
  have tail: "triple (ex_at 6 (Some 5) (take 4 ex_turn)) (bindA (asks (aborted_now ex_env)) (\<lambda>aborted.
      if aborted then ret True else executeToolCalls ex_env ?op [])) (\<lambda>b s. ex_at 6 (Some 5) (take 4 ex_turn) s \<and> b) (\<lambda>_. False)"
    by (rule tripleI) (auto simp: bindA_eval aborted_now_def ex_env_def ex_at_def)
  have calls: "triple (ex_at 4 (Some 3) (take 2 ex_turn)) (executeToolCalls ex_env ?op [?r])
      (\<lambda>b s. ex_at 6 (Some 5) (take 4 ex_turn) s \<and> b) (\<lambda>_. False)"
    unfolding executeToolCalls.simps(2) tool_call_request.select_convs
    by (rule triple_bind [OF call], rule triple_bind [OF tool], rule triple_pure)
      (simp only: prod.case option.case bindA_ret tool_execution_result.select_convs triple_bind [OF result triple_then [OF ex_at_inert(1) tail]])
  have fin: "triple (\<lambda>s. ex_at 6 (Some 5) (take 4 ex_turn) s \<and> b) (if b then ret TurnContinues else after_answer ex_env ?op ToolUse)
      (\<lambda>p s. p = TurnContinues \<and> ex_at 6 (Some 5) (take 4 ex_turn) s) (\<lambda>_. False)" for b
    by (rule triple_pure) (auto intro: triple_ret)
  note all = triple_then [OF assistant triple_then [OF ex_at_inert(3) triple_bind [OF calls fin]]]
  show ?thesis unfolding turn_step_def
    by (rule triple_bind [OF ex_at_model], rule triple_pure)
      (simp only: turn_outcome.select_convs stop_reason.simps simp_thms if_True if_False list.simps all)
qed

lemma ex_step2:
  "triple (ex_at 6 (Some 5) (take 4 ex_turn)) (turn_step ex_env (ex_id CHR ''0''))
     (\<lambda>p s. p = TurnReturns \<lparr>turn_events = ex_turn, turn_stopReason = StopAborted\<rparr>) (\<lambda>_. False)"
proof -
  let ?op = "ex_id CHR ''0''"
  have model: "triple (ex_at 6 (Some 5) es) (modelTurn ex_env ?op) (\<lambda>out s. ex_at 6 (Some 5) es s \<and> out = aborted_outcome) (\<lambda>_. False)" for es
    by (rule tripleI) (auto simp: modelTurn_def bindA_eval aborted_now_def ex_env_def ex_at_def)
  have assistant: "triple (ex_at 6 (Some 5) (take 4 ex_turn)) (append_assistant ex_env ?op aborted_outcome) (\<lambda>_. ex_at 7 (Some 6) ex_turn) (\<lambda>_. False)"
    unfolding append_assistant_def
    using ex_at_append [OF ex_plain_aborted, of "take 4 ex_turn"]
    by (intro triple_bind [where R = "\<lambda>_. ex_at 7 (Some 6) ex_turn"] triple_then [OF ex_at_inert(1)] ex_at_inert(2))
      (simp add: ex_turn_def aborted_outcome_def)
  have ret: "triple (ex_at 7 (Some 6) ex_turn) (turn_return StopAborted)
      (\<lambda>p s. p = TurnReturns \<lparr>turn_events = ex_turn, turn_stopReason = StopAborted\<rparr>) (\<lambda>_. False)"
    by (rule tripleI) (auto simp: turn_return_def bindA_eval ex_at_def)
  show ?thesis unfolding turn_step_def
    by (rule triple_bind [OF model], rule triple_pure) (use triple_then [OF assistant ret] in \<open>simp add: aborted_outcome_def\<close>)
qed

lemma triple_run: "triple P m Q (\<lambda>_. False) \<Longrightarrow> P s \<Longrightarrow> \<exists>s' x. m s = (s', Inr x) \<and> Q x s'"
  by (cases "m s"; cases "snd (m s)") (auto dest: triple_Inr triple_Inl)

lemma ex_turn_run:
  "\<exists>s'. runTurn ex_env [Text ''hi''] (Some (ex_id CHR ''0'')) ex_state = Some (s', Inr \<lparr>turn_events = ex_turn, turn_stopReason = StopAborted\<rparr>)"
proof -
  let ?op = "ex_id CHR ''0''"
  have user: "triple (ex_at 0 None []) (appendUserMessage ex_env ?op [Text ''hi'']) (\<lambda>_. ex_at 1 (Some 0) (take 1 ex_turn)) (\<lambda>_. False)"
    unfolding appendUserMessage_def
    using ex_at_append [OF ex_plain_user, of "[]"]
    by (intro triple_bind [where R = "\<lambda>_. ex_at 1 (Some 0) (take 1 ex_turn)"] ex_at_inert(1)) (simp add: ex_turn_def)
  have "ex_at 0 None [] (start_turn ?op ex_state)" by (simp add: ex_at_def start_turn_def ex_state_def)
  then obtain s1 where s1: "appendUserMessage ex_env ?op [Text ''hi''] (start_turn ?op ex_state) = (s1, Inr ())"
    "ex_at 1 (Some 0) (take 1 ex_turn) s1" using triple_run [OF user] by auto
  obtain s2 where s2: "turn_step ex_env ?op s1 = (s2, Inr TurnContinues)" "ex_at 6 (Some 5) (take 4 ex_turn) s2"
    using triple_run [OF ex_step1 s1(2)] by auto
  obtain s3 where "turn_step ex_env ?op s2 = (s3, Inr (TurnReturns \<lparr>turn_events = ex_turn, turn_stopReason = StopAborted\<rparr>))"
    using triple_run [OF ex_step2 s2(2)] by auto
  then have "turn_loop ex_env ?op s1 = Some (s3, Inr \<lparr>turn_events = ex_turn, turn_stopReason = StopAborted\<rparr>)"
    using s2(1) by (simp add: turn_loop.simps)
  moreover have "thenA throw_if_owned (operation_id ex_env (Some ?op)) ex_state = (ex_state, Inr ?op)"
    by (simp add: thenA_eval throw_if_owned_eval operation_id_def ex_state_def)
  ultimately show ?thesis using s1(1) by (simp add: runTurn_def)
qed

lemma ex_input_wf: "wf_json (JObj [])"
  by code_simp

lemma ex_env_ok: "env_ok ex_env" "log_hooks_ok (as_log ex_state)" "steady ex_env ex_state"
  using ex_input_wf by (simp_all add: env_ok_def ex_env_def ex_fs_def ex_state_def ex_event_log_def no_options_def log_hooks_ok_def prepares_wf_def
      prepares_place_def steady_def clean_action_def clean_outcome_def cost_ok_def ex_usage_def opt_ok_def)

section \<open>Releasing the branch\<close>

lemma operation_id_active: "as_activeOperation (fst (operation_id env req s)) = as_activeOperation s"
  by (auto simp: operation_id_def bindA_eval thenA_eval split: option.splits)

lemma runTurn_releases:
  assumes "runTurn env content req s = Some (s', r)" and "as_activeOperation s = None"
  shows "as_activeOperation s' = None"
proof -
  obtain s0 q where q: "operation_id env req s = (s0, q)" by fastforce
  then have "as_activeOperation s0 = None" using operation_id_active [of env req s] assms(2) by simp
  then show ?thesis using assms q
    by (auto simp: runTurn_def thenA_eval throw_if_owned_eval end_turn_def split: sum.splits prod.splits option.splits)
qed

lemma active_then:
  "as_activeOperation s = None \<Longrightarrow> as_activeOperation (fst (thenA throw_if_owned m s)) = as_activeOperation (fst (m s))"
  by (simp add: thenA_eval throw_if_owned_eval)

lemma finally_releases: "as_activeOperation (fst (finallyA m (set_active None) s)) = None"
  by (simp add: finallyA_eval set_active_def)

lemma owned_then_releases:
  "as_activeOperation s = None \<Longrightarrow> as_activeOperation (fst (bindA (operation_id env req) (\<lambda>op.
     thenA (modify (set_active (Some op))) (finallyA (m op) (set_active None))) s)) = None"
  using operation_id_active [of env req s] by (auto simp: bindA_eval thenA_eval finally_releases split: prod.splits sum.splits)

section \<open>Delays and queues\<close>

lemma math_round_bounds: "0 \<le> x \<Longrightarrow> 0 \<le> math_round x"
  by (simp add: math_round_def)

lemma policy_ok:
  assumes "modelRetryPolicy options = Inr policy"
  shows "1 \<le> jsnum_int (pol_maximumDelayMs policy)" "1 \<le> jsnum_int (pol_maxAttempts policy)"
    "0 \<le> num_value (pol_initialDelayMs policy)" "1 \<le> num_value (pol_multiplier policy)"
    "0 \<le> num_value (pol_jitterRatio policy)" "num_value (pol_jitterRatio policy) \<le> 1"
proof -
  have c: "positive_safe_integer (pol_maximumDelayMs policy)" "positive_safe_integer (pol_maxAttempts policy)"
    "positive_safe_integer (pol_initialDelayMs policy)" "1 \<le> num_value (pol_multiplier policy)"
    "0 \<le> num_value (pol_jitterRatio policy)" "num_value (pol_jitterRatio policy) \<le> 1"
    using assms by (auto simp: modelRetryPolicy_def Let_def run_checks_Inr)
  have pos: "1 \<le> jsnum_int n" "0 \<le> num_value n" if "positive_safe_integer n" for n
    using that by (cases n; simp add: positive_safe_integer_def)+
  show "1 \<le> jsnum_int (pol_maximumDelayMs policy)" "1 \<le> jsnum_int (pol_maxAttempts policy)"
    "0 \<le> num_value (pol_initialDelayMs policy)" "1 \<le> num_value (pol_multiplier policy)"
    "0 \<le> num_value (pol_jitterRatio policy)" "num_value (pol_jitterRatio policy) \<le> 1"
    using c pos by simp_all
qed

lemma queue_frame:
  "prefix (queue_of q s) (queue_of q (tick env s))"
proof -
  have a: "prefix (queue_of q t) (queue_of q (arrive x t))" for x t
    by (cases x; cases q) (simp_all add: steer_def followUp_def bindA_eval)
  have "prefix (queue_of q t) (queue_of q (fold arrive xs t))" for xs t
    by (induction xs arbitrary: t) (auto intro: prefix_order.trans [OF a])
  moreover have "queue_of q (t\<lparr>as_clock := n\<rparr>) = queue_of q t" for t n by (cases q) simp_all
  ultimately show ?thesis by (simp add: tick_def)
qed

lemma queue_append:
  assumes "session_append env op p s = (s', r)"
  shows "queue_of q s' = queue_of q (tick env s)"
proof -
  have "queue_of q (t\<lparr>as_file := f\<rparr>) = queue_of q t" "queue_of q (t\<lparr>as_file := f, as_tip := p', as_emitted := e\<rparr>) = queue_of q t" for t f p' e
    by (cases q; simp)+
  then show ?thesis using assms by (auto simp: session_append_def split: sum.splits prod.splits)
qed

lemma queue_user:
  assumes "appendUserMessage env op content s = (s', r)"
  shows "queue_of q s' = queue_of q (tick env s)"
proof -
  obtain s1 x where x: "session_append env (Some op) (UserMessage content) s = (s1, x)" by fastforce
  have "queue_of q (t\<lparr>as_messages := m\<rparr>) = queue_of q t" "queue_of q (t\<lparr>as_appended := l\<rparr>) = queue_of q t"
    "queue_of q (t\<lparr>as_appended := l, as_messages := m\<rparr>) = queue_of q t" for t m l
    by (cases q; simp)+
  then show ?thesis using assms x queue_append [OF x, of q]
    by (auto simp: appendUserMessage_def append_pushed_def bindA_eval thenA_eval push_appended_def push_message_def split: sum.splits)
qed

section \<open>Properties\<close>





text \<open>
  C23: abort ends a turn. If the signal stays aborted from some moment on, the turn loop returns, whatever
  the model streams and however many tool calls or queued messages there are.
\<close>

theorem abort_ends_turn:
  assumes "\<forall>n \<ge> N. env_aborted env n"
  shows "\<exists>s' r. runTurn env content requested s = Some (s', r)"
proof -
  obtain s0 q where q: "thenA throw_if_owned (operation_id env requested) s = (s0, q)" by fastforce
  show ?thesis
  proof (cases q)
    case (Inl e)
    then show ?thesis using q by (simp add: runTurn_def)
  next
    case (Inr op)
    obtain s1 u where u: "appendUserMessage env op content (start_turn op s0) = (s1, u)" by fastforce
    obtain s2 r where "turn_loop env op s1 = Some (s2, r)" using turn_loop_aborts [OF assms] by blast
    then show ?thesis using q Inr u by (cases u) (auto simp: runTurn_def)
  qed
qed

theorem abort_ends_turn_witness: "\<exists>s' r. runTurn ex_env [Text ''hi''] None ex_state = Some (s', r)"
  by (rule abort_ends_turn [of 4]) (simp add: ex_env_def)


text \<open>
  Queued input is delivered first in, first out, and not lost. Delivering from a queue takes its head,
  leaves the rest in order with what arrives meanwhile at the end, and says so; with an empty queue it
  does nothing; and when the append fails the message stays at the head.
\<close>

theorem queued_input_kept:
  "case appendNextQueuedMessage env q op s of
     (s', Inr True) \<Rightarrow> queue_of q s \<noteq> [] \<and> prefix (tl (queue_of q s)) (queue_of q s')
       \<and> appendUserMessage env op (hd (queue_of q s)) s = (fst (appendUserMessage env op (hd (queue_of q s)) s), Inr ())
       \<and> s' = queue_shift q (fst (appendUserMessage env op (hd (queue_of q s)) s))
   | (s', Inr False) \<Rightarrow> queue_of q s = [] \<and> s' = s
   | (s', Inl e) \<Rightarrow> queue_of q s \<noteq> [] \<and> prefix (queue_of q s) (queue_of q s')"
proof (cases "queue_of q s")
  case Nil
  then show ?thesis by (simp add: appendNextQueuedMessage_def bindA_eval)
next
  case (Cons c rest)
  obtain s1 r where u: "appendUserMessage env op c s = (s1, r)" by fastforce
  obtain new where new: "queue_of q s1 = c # rest @ new"
    using queue_user [OF u, of q] queue_frame [of q s env] Cons by (auto elim!: prefixE)
  moreover have "queue_of q (queue_shift q s1) = tl (queue_of q s1)" by (cases q) simp_all
  ultimately show ?thesis using Cons u by (cases r) (auto simp: appendNextQueuedMessage_def bindA_eval thenA_eval)
qed



end
