(* ===== verification/Append_Race.thy ===== *)
theory Append_Race
  imports Session_Turns
begin

text \<open>
  Appends of different calls on one session. \<^verbatim>\<open>AgentSession.append\<close> builds its event on the tip it sees
  when it is called and moves the tip when the log has stored the event; in between, the log's queue may
  hold other events. \<^verbatim>\<open>recordQueueEvent\<close>, \<^verbatim>\<open>recordInterruptEvent\<close> and \<^verbatim>\<open>resolveInteraction\<close> call it
  while a turn is running.
\<close>

section \<open>Definitions\<close>

datatype race_op = BeginAppend "string option" payload | StoreNext

type_synonym race_state = "agent_session \<times> canonical_event list"

text \<open>The log stores the events in the order of the calls.\<close>

fun race_step :: "env \<Rightarrow> race_state \<Rightarrow> race_op \<Rightarrow> race_state" where
  "race_step env (s, pending) (BeginAppend op p) =
     (case parseEvent (event_json (new_event env op p s)) of
        Inl e \<Rightarrow> (s\<lparr>as_clock := Suc (as_clock s)\<rparr>, pending)
      | Inr event \<Rightarrow> (s\<lparr>as_clock := Suc (as_clock s)\<rparr>, pending @ [event]))"
| "race_step env (s, []) StoreNext = (s, [])"
| "race_step env (s, event # pending) StoreNext =
     (case log_append (env_fs env (as_clock s)) (as_log s) (env_secrets env (as_clock s)) (event_json event) (as_file s) of
        (Inl e, file) \<Rightarrow> (s\<lparr>as_file := file\<rparr>, pending)
      | (Inr stored, file) \<Rightarrow>
          (s\<lparr>as_file := file, as_tip := Some (ev_id stored), as_emitted := as_emitted s @ [stored]\<rparr>, pending))"

text \<open>Runs in which no append begins while another one is pending.\<close>

inductive serial :: "env \<Rightarrow> agent_session \<Rightarrow> race_state \<Rightarrow> bool" for env s0 where
  start: "serial env s0 (s0, [])"
| begins: "serial env s0 (s, []) \<Longrightarrow> clean_payload p \<Longrightarrow> serial env s0 (race_step env (s, []) (BeginAppend op p))"
| stores: "serial env s0 (s, pending) \<Longrightarrow> serial env s0 (race_step env (s, pending) StoreNext)"

section \<open>Serial appends\<close>

definition serial_inv :: "agent_session \<Rightarrow> race_state \<Rightarrow> bool" where
  "serial_inv s0 st \<longleftrightarrow> (\<exists>new. grew s0 (fst st) new)
     \<and> (snd st = [] \<or> (\<exists>e. snd st = [e] \<and> ev_parentId e = as_tip (fst st) \<and> parseEvent (event_json e) = Inr e \<and> wf_json (event_json e)))"

lemma grew_clock: "grew s0 (s\<lparr>as_clock := n\<rparr>) new \<longleftrightarrow> grew s0 s new"
  by (simp add: grew_def)

lemma store_grows:
  assumes "env_ok env" and "log_hooks_ok (as_log s)" and e: "ev_parentId e = as_tip s" "parseEvent (event_json e) = Inr e" "wf_json (event_json e)"
    and step: "race_step env (s, [e]) StoreNext = (s', pend)"
  shows "pend = [] \<and> (\<exists>new. grew s s' new)"
proof -
  obtain r f where la: "log_append (env_fs env (as_clock s)) (as_log s) (env_secrets env (as_clock s)) (event_json e) (as_file s) = (r, f)"
    by fastforce
  have hooks: "prepares_wf (log_options (as_log s))" "prepares_place (log_options (as_log s))"
    and fs: "fs_truncate (env_fs env (as_clock s)) = None"
    using assms(1,2) by (simp_all add: log_hooks_ok_def env_ok_def)
  note c = log_append_file [OF e(3) hooks(1) la]
  show ?thesis
  proof (cases r)
    case (Inl err)
    then have "f = as_file s" using c fs by auto
    then show ?thesis using step la Inl grew_refl [of s] by auto
  next
    case (Inr stored)
    obtain line where al: "append_line (as_log s) (env_secrets env (as_clock s)) (event_json e) = Inr (stored, line)"
      using la Inr by (auto simp: log_append_def split: sum.splits prod.splits option.splits)
    have "ev_parentId stored = as_tip s" using append_line_place [OF al e(2) hooks(2)] e(1) by (simp add: same_place_def)
    then have "grew s s' [stored]" using step la Inr c by (auto simp: grew_def event_file_def)
    then show ?thesis using step la Inr by auto
  qed
qed

lemma serial_keeps:
  assumes "serial env s0 st" and "env_ok env" and "log_hooks_ok (as_log s0)"
  shows "serial_inv s0 st"
  using assms(1)
proof (induction rule: serial.induct)
  case start
  then show ?case using grew_refl [of s0] by (auto simp: serial_inv_def)
next
  case (begins s p op)
  obtain new where g: "grew s0 s new" using begins.IH by (auto simp: serial_inv_def)
  show ?case
  proof (cases "parseEvent (event_json (new_event env op p s))")
    case (Inl e)
    then show ?thesis using g by (auto simp: serial_inv_def grew_clock)
  next
    case (Inr ev)
    have ev: "ev = new_event env op p s" by (rule parseEvent_own [OF Inr])
    then have "parseEvent (event_json ev) = Inr ev" "ev_parentId ev = as_tip s" using Inr by (simp_all add: new_event_def)
    moreover have "wf_json (event_json ev)" using parsed_clean_wf [OF Inr] begins.hyps(2) ev by (simp add: new_event_def)
    ultimately show ?thesis using g Inr by (auto simp: serial_inv_def grew_clock)
  qed
next
  case (stores s pending)
  obtain new where g: "grew s0 s new" using stores.IH by (auto simp: serial_inv_def)
  show ?case
  proof (cases pending)
    case Nil
    then show ?thesis using stores.IH by (simp add: serial_inv_def)
  next
    case (Cons e rest)
    then have e: "rest = []" "ev_parentId e = as_tip s" "parseEvent (event_json e) = Inr e" "wf_json (event_json e)"
      using stores.IH by (auto simp: serial_inv_def)
    obtain s' pend where step: "race_step env (s, [e]) StoreNext = (s', pend)" by fastforce
    have "log_hooks_ok (as_log s)" using g assms(3) by (simp add: grew_def)
    from store_grows [OF assms(2) this e(2-4) step] show ?thesis
      using g grew_trans Cons e(1) step by (auto simp: serial_inv_def) blast
  qed
qed

section \<open>Interleaved appends\<close>

definition ex_race_log :: "canonical_event list" where
  "ex_race_log =
     [ex_turn_event 0 None (SessionCreated ''/work'' None None None),
      ex_turn_event 1 (Some 0) (AssistantMessage [] ToolUse None None)]"

definition ex_raced :: "canonical_event list" where
  "ex_raced =
     [ex_turn_event 2 (Some 1) (ToolCall ''c1'' ''read'' []),
      ex_turn_event 3 (Some 1) (QueueEnqueued [Text ''next''] Back),
      ex_turn_event 4 (Some 3) (ToolResult ''c1'' ''read'' [Text ''ok''] False None)]"

definition ex_race_state :: agent_session where
  "ex_race_state = ex_state\<lparr>as_file := event_file ex_race_log, as_tip := Some (ex_id (char_of (50 :: nat))), as_clock := 2\<rparr>"

definition ex_schedule :: "race_op list" where
  "ex_schedule = (let op = Some (ex_id CHR ''0'') in
     [BeginAppend op (ToolCall ''c1'' ''read'' []), BeginAppend op (QueueEnqueued [Text ''next''] Back), StoreNext, StoreNext,
      BeginAppend op (ToolResult ''c1'' ''read'' [Text ''ok''] False None), StoreNext])"

lemma ex_race_created: "plain_event (ex_turn_event 0 None (SessionCreated ''/work'' None None None))"
  by code_simp

lemma ex_race_assistant: "plain_event (ex_turn_event 1 (Some 0) (AssistantMessage [] ToolUse None None))"
  by code_simp

lemma ex_race_rejected:
  "case fromEvents (Some (JStr ex_session)) (ex_race_log @ ex_raced) of Inl e \<Rightarrow> False | Inr tree \<Rightarrow> verifyToolCallIntegrity tree \<noteq> None"
  by code_simp

lemma ex_race_call: "plain_event (ex_turn_event 2 (Some 1) (ToolCall ''c1'' ''read'' []))"
  by code_simp

lemma ex_race_queue: "plain_event (ex_turn_event 3 (Some 1) (QueueEnqueued [Text ''next''] Back))"
  by code_simp

lemma ex_race_result: "plain_event (ex_turn_event 4 (Some 3) (ToolResult ''c1'' ''read'' [Text ''ok''] False None))"
  by code_simp

lemma ex_begin:
  assumes "as_log s = ex_event_log" "as_clock s = n" "as_tip s = map_option (\<lambda>m. ex_id (char_of (49 + m))) parent"
    and "plain_event (ex_turn_event n parent p)"
  shows "race_step ex_env (s, pend) (BeginAppend (Some (ex_id CHR ''0'')) p) = (s\<lparr>as_clock := Suc n\<rparr>, pend @ [ex_turn_event n parent p])"
proof -
  have "new_event ex_env (Some (ex_id CHR ''0'')) p s = ex_turn_event n parent p"
    using assms(1-3) by (simp add: new_event_def ex_turn_event_def ex_env_def ex_event_log_def)
  moreover have "parseEvent (event_json (ex_turn_event n parent p)) = Inr (ex_turn_event n parent p)"
    using assms(4) by (simp add: plain_event_def event_roundtrip)
  ultimately show ?thesis using assms(2) by simp
qed

lemma ex_store:
  assumes "as_log s = ex_event_log" and "plain_event e" and "ev_sessionId e = ex_session"
  shows "race_step ex_env (s, e # pend) StoreNext =
    (s\<lparr>as_file := as_file s @ event_bytes e @ [0x0A], as_tip := Some (ev_id e), as_emitted := as_emitted s @ [e]\<rparr>, pend)"
proof -
  have "log_append ex_fs ex_event_log [] (event_json e) (as_file s) = (Inr e, as_file s @ event_bytes e @ [0x0A])"
    using append_stored_event [of ex_session e "[]", OF _ plain_redacted [OF assms(2)] ex_healthy] plain_storable [OF assms(2)] assms(3)
    by (simp add: ex_event_log_def)
  then show ?thesis using assms(1) by (simp add: ex_env_def)
qed

lemma ex_race_run:
  "as_file (fst (foldl (race_step ex_env) (ex_race_state, []) ex_schedule)) = event_file (ex_race_log @ ex_raced)"
proof -
  have sid: "ev_sessionId (ex_turn_event n parent p) = ex_session" "ev_id (ex_turn_event n parent p) = ex_id (char_of (49 + n))" for n parent p
    by (simp_all add: ex_turn_event_def)
  have "as_log ex_race_state = ex_event_log" "as_clock ex_race_state = 2" by (simp_all add: ex_race_state_def ex_state_def)
  then show ?thesis
    using ex_begin [OF _ _ _ ex_race_call, of ex_race_state "[]"] ex_begin [OF _ _ _ ex_race_queue] ex_begin [OF _ _ _ ex_race_result]
      ex_store [OF _ ex_race_call sid(1)] ex_store [OF _ ex_race_queue sid(1)] ex_store [OF _ ex_race_result sid(1)]
    by (simp add: ex_schedule_def Let_def ex_raced_def sid event_file_append event_file_def ex_race_state_def del: race_step.simps)
qed

section \<open>Properties\<close>

text \<open>
  Appends that do not overlap form a chain. In every run in which an append begins only when none is
  pending, the log has grown by a chain of stored events from the old tip to the new one.
\<close>

theorem serial_appends_chain:
  assumes "serial env s0 (s, pending)" and "env_ok env" and "log_hooks_ok (as_log s0)"
  shows "\<exists>new. as_file s = as_file s0 @ event_file new \<and> parent_chain (as_tip s0) new
    \<and> as_tip s = (if new = [] then as_tip s0 else Some (ev_id (last new)))"
  using serial_keeps [OF assms] by (auto simp: serial_inv_def grew_def)

theorem serial_appends_chain_witness:
  "\<exists>new. as_file (fst (race_step ex_env (race_step ex_env (ex_race_state, []) (BeginAppend None SessionResumed)) StoreNext))
     = as_file ex_race_state @ event_file new"
proof -
  obtain s1 p1 where s1: "race_step ex_env (ex_race_state, []) (BeginAppend None SessionResumed) = (s1, p1)" by fastforce
  obtain s2 p2 where s2: "race_step ex_env (s1, p1) StoreNext = (s2, p2)" by fastforce
  have "serial ex_env ex_race_state (s2, p2)"
    using serial.stores [of ex_env ex_race_state s1 p1] serial.begins [OF serial.start, of SessionResumed ex_env ex_race_state None] s1 s2
    by (simp add: clean_payload_def opt_ok_def)
  moreover have "log_hooks_ok (as_log ex_race_state)" using ex_env_ok(2) by (simp add: ex_race_state_def)
  ultimately have "\<exists>new. as_file s2 = as_file ex_race_state @ event_file new"
    using serial_appends_chain [OF _ ex_env_ok(1)] by blast
  then show ?thesis using s1 s2 by simp
qed

text \<open>
  C31: overlapping appends can make a session unopenable. On a branch waiting for a tool, let the turn begin
  to append a call and the daemon, before the call is stored, a queued prompt; both are stored, and the
  turn then appends the result. Every append succeeds, but call and prompt are siblings, the result hangs
  from the prompt, and the integrity check of the next open rejects the log the file holds.
\<close>

theorem overlapping_appends_break_session:
  "\<exists>events tree. log_read ex_event_log (as_file (fst (foldl (race_step ex_env) (ex_race_state, []) ex_schedule))) = Inr ((events, 0), event_file events)
     \<and> fromEvents (Some (JStr ex_session)) events = Inr tree \<and> verifyToolCallIntegrity tree \<noteq> None
     \<and> ev_parentId (events ! 2) = ev_parentId (events ! 3)"
proof -
  let ?evs = "ex_race_log @ ex_raced"
  have "storable ex_session e" if "e \<in> set ?evs" for e
    using that plain_storable [OF ex_race_created] plain_storable [OF ex_race_assistant] plain_storable [OF ex_race_call]
      plain_storable [OF ex_race_queue] plain_storable [OF ex_race_result]
    by (auto simp: ex_race_log_def ex_raced_def ex_turn_event_def)
  then have "log_read ex_event_log (event_file ?evs) = Inr ((?evs, 0), event_file ?evs)"
    using read_file [of ?evs ex_session "[]"] by (simp add: log_read_def ex_event_log_def)
  moreover have "\<exists>tree. fromEvents (Some (JStr ex_session)) ?evs = Inr tree \<and> verifyToolCallIntegrity tree \<noteq> None"
    using ex_race_rejected by (auto split: sum.splits)
  moreover have "ev_parentId (?evs ! 2) = ev_parentId (?evs ! 3)" by code_simp
  ultimately show ?thesis unfolding ex_race_run by blast
qed

end
