(* ===== verification/Path_Policy.thy ===== *)
theory Path_Policy
  imports Js_Text
begin

text \<open>
  The filesystem policy of the tools (\<^verbatim>\<open>packages/kernel/src/path-policy.ts\<close>) on POSIX paths, with
  what it uses of \<^verbatim>\<open>node:path\<close>. The operating system's \<^verbatim>\<open>realpath\<close> is a parameter: it answers the
  canonical path or the error code. A path check reads it as one function, so a file system that
  changes during the check is outside the model.

  The lemmas show that containment of canonical paths is containment of their segments, that a path
  canonicalizes to its deepest existing ancestor followed by the missing segments, and that the two
  checks then decide exactly what the policy describes.
\<close>

section \<open>POSIX paths\<close>

type_synonym realpath = "string \<Rightarrow> string + string"

definition sep :: char where
  "sep = CHR ''/''"

definition segments :: "string \<Rightarrow> string list" where
  "segments p = split_str p [sep]"

definition normal_step :: "string list \<Rightarrow> string \<Rightarrow> string list" where
  "normal_step acc s =
     (if s = [] \<or> s = ''.'' then acc else if s = ''..'' then butlast acc else acc @ [s])"

definition normalize :: "string list \<Rightarrow> string list" where
  "normalize ss = foldl normal_step [] ss"

definition tail_of :: "string list \<Rightarrow> string" where
  "tail_of ss = concat (map ((#) sep) ss)"

definition path_of :: "string list \<Rightarrow> string" where
  "path_of ss = (if ss = [] then [sep] else tail_of ss)"

text \<open>
  \<^verbatim>\<open>resolve(base, path)\<close>: the arguments from the right up to the first absolute one, then the working
  directory of the process, which is absolute.
\<close>

definition is_absolute :: "string \<Rightarrow> bool" where
  "is_absolute p \<longleftrightarrow> p \<noteq> [] \<and> hd p = sep"

definition resolve_path :: "string \<Rightarrow> string \<Rightarrow> string" where
  "resolve_path base p =
     path_of (normalize (if is_absolute p then segments p else segments base @ segments p))"

definition dirname :: "string \<Rightarrow> string" where
  "dirname p =
     (let rest = dropWhile (\<lambda>c. c \<noteq> sep) (dropWhile (\<lambda>c. c = sep) (rev (tl p))) in
      if p = [] then ''.''
      else if rest = [] then (if hd p = sep then [sep] else ''.'')
      else if hd p = sep \<and> length rest = 1 then [sep, sep]
      else take (length rest) p)"

section \<open>The policy\<close>

datatype policy_error =
    SandboxViolationError (capability: string) (reason: string)
  | PolicyTypeError string
  | RealpathError string

record workspace_policy =
  workspace :: string
  readableRoots :: "string list"
  protectedPaths :: "string list"

definition isWithin :: "string \<Rightarrow> string \<Rightarrow> bool" where
  "isWithin candidate root \<longleftrightarrow> candidate = root \<or> starts_with candidate (root @ [sep])"

lemma dirname_shrinks:
  assumes "dirname p \<noteq> p"
  shows "dirname p = ''.'' \<and> p \<noteq> ''.'' \<or> length (dirname p) < length p"
proof -
  define skip where "skip = dropWhile (\<lambda>c. c = sep) (rev (tl p))"
  define rest where "rest = dropWhile (\<lambda>c. c \<noteq> sep) skip"
  have short: "length skip \<le> length (tl p)"
    unfolding skip_def by (metis length_dropWhile_le length_rev)
  have less: "rest \<noteq> [] \<Longrightarrow> length rest < length skip"
  proof (cases skip)
    case (Cons c cs)
    then have "c \<noteq> sep"
      using hd_dropWhile [of "\<lambda>c. c = sep" "rev (tl p)"] by (simp add: skip_def)
    then show ?thesis
      using Cons by (simp add: rest_def le_imp_less_Suc length_dropWhile_le)
  qed (simp add: rest_def)
  have "dirname p =
     (if p = [] then ''.'' else if rest = [] then (if hd p = sep then [sep] else ''.'')
      else if hd p = sep \<and> length rest = 1 then [sep, sep] else take (length rest) p)"
    unfolding dirname_def rest_def skip_def Let_def by (rule refl)
  then show ?thesis
    using assms short less by (cases p) (auto split: if_splits)
qed

lemma dirname_dot [simp]: "dirname ''.'' = ''.''"
  by (simp add: dirname_def sep_def)

function canonicalize_loop :: "realpath \<Rightarrow> string \<Rightarrow> string \<Rightarrow> policy_error + string" where
  "canonicalize_loop rp existing remainder =
     (case rp existing of
        Inr real \<Rightarrow> Inr (if remainder = [] then real else real @ remainder)
      | Inl code \<Rightarrow>
          if code \<noteq> ''ENOENT'' then Inl (RealpathError code)
          else
            let parent = dirname existing in
            if parent = existing then Inr (existing @ remainder)
            else canonicalize_loop rp parent
                   (sep # drop (length parent + 1) existing @ remainder))"
  by pat_completeness auto
termination
  by (relation "measure (\<lambda>(rp, existing, remainder).
        if existing = ''.'' then 0 else Suc (length existing))")
     (auto dest: dirname_shrinks)

declare canonicalize_loop.simps [simp del]

definition canonicalizeForPolicy :: "realpath \<Rightarrow> string \<Rightarrow> string \<Rightarrow> policy_error + string" where
  "canonicalizeForPolicy rp cwd p = canonicalize_loop rp (resolve_path cwd p) []"

definition canonicalPolicy :: "realpath \<Rightarrow> string \<Rightarrow> workspace_policy \<Rightarrow> policy_error + workspace_policy" where
  "canonicalPolicy rp cwd policy =
     (if readableRoots policy = [] then
        Inl (PolicyTypeError ''WorkspacePolicy.readableRoots must not be empty'')
      else
        bindE (canonicalizeForPolicy rp cwd (workspace policy)) (\<lambda>w.
        bindE (mapE (canonicalizeForPolicy rp cwd) (readableRoots policy)) (\<lambda>rs.
        bindE (mapE (canonicalizeForPolicy rp cwd) (protectedPaths policy)) (\<lambda>ps.
        Inr \<lparr>workspace = w, readableRoots = rs, protectedPaths = ps\<rparr>))))"

definition protected_check :: "string \<Rightarrow> string \<Rightarrow> string \<Rightarrow> policy_error option" where
  "protected_check cap canonical protected =
     (if isWithin canonical protected
      then Some (SandboxViolationError cap (canonical @ '' is inside the protected path '' @ protected))
      else None)"

definition assertReadAllowed :: "realpath \<Rightarrow> string \<Rightarrow> workspace_policy \<Rightarrow> string \<Rightarrow> policy_error + string" where
  "assertReadAllowed rp cwd policy p =
     bindE (canonicalizeForPolicy rp cwd p) (\<lambda>canonical.
     bindE (canonicalPolicy rp cwd policy) (\<lambda>resolved.
     run_checks
       (map (protected_check ''filesystem.read'' canonical) (protectedPaths resolved) @
        [require (list_ex (isWithin canonical) (readableRoots resolved))
           (SandboxViolationError ''filesystem.read''
              (canonical @ '' is outside the readable roots '' @ join '', '' (readableRoots resolved)))])
       canonical))"

definition assertWriteAllowed :: "realpath \<Rightarrow> string \<Rightarrow> workspace_policy \<Rightarrow> string \<Rightarrow> policy_error + string" where
  "assertWriteAllowed rp cwd policy p =
     bindE (canonicalizeForPolicy rp cwd p) (\<lambda>canonical.
     bindE (canonicalPolicy rp cwd policy) (\<lambda>resolved.
     run_checks
       (map (protected_check ''filesystem.write'' canonical) (protectedPaths resolved) @
        [require (isWithin canonical (workspace resolved))
           (SandboxViolationError ''filesystem.write''
              (canonical @ '' is outside the workspace '' @ workspace resolved)),
         require (list_ex (isWithin canonical) (readableRoots resolved))
           (PolicyTypeError ''WorkspacePolicy.workspace must be inside a readable root'')])
       canonical))"

section \<open>Segments\<close>

definition proper :: "string list \<Rightarrow> bool" where
  "proper ss \<longleftrightarrow> (\<forall>s \<in> set ss. s \<noteq> [] \<and> s \<noteq> ''.'' \<and> s \<noteq> ''..'' \<and> sep \<notin> set s)"

lemma proper_simps [simp]:
  "proper []"
  "proper (s # ss) \<longleftrightarrow> s \<noteq> [] \<and> s \<noteq> ''.'' \<and> s \<noteq> ''..'' \<and> sep \<notin> set s \<and> proper ss"
  "proper (ss @ ts) \<longleftrightarrow> proper ss \<and> proper ts"
  by (auto simp: proper_def)

lemma tail_of_simps [simp]:
  "tail_of [] = []" "tail_of (s # ss) = sep # s @ tail_of ss" "tail_of (ss @ ts) = tail_of ss @ tail_of ts"
  by (simp_all add: tail_of_def)

lemma tail_of_Nil [simp]: "tail_of ss = [] \<longleftrightarrow> ss = []"
  by (cases ss) simp_all

lemma path_of_append: "as \<noteq> [] \<Longrightarrow> path_of (as @ bs) = path_of as @ tail_of bs"
  by (simp add: path_of_def)

lemma split_sep_free: "sep \<notin> set s \<Longrightarrow> split_from 0 [sep] cur (s @ t) = split_from 0 [sep] (cur @ s) t"
  by (induction s arbitrary: cur) auto

lemma split_sep_append:
  "split_from 0 [sep] cur (s @ sep # t) = split_from 0 [sep] cur s @ split_from 0 [sep] [] t"
  by (induction s arbitrary: cur) auto

lemma segments_sep: "segments (s @ sep # t) = segments s @ segments t"
  by (simp add: segments_def split_str_def split_sep_append)

lemma segments_no_sep: "s \<in> set (segments p) \<Longrightarrow> sep \<notin> set s"
proof -
  have "\<lbrakk>s \<in> set (split_from 0 [sep] cur p); sep \<notin> set cur\<rbrakk> \<Longrightarrow> sep \<notin> set s" for cur
  proof (induction p arbitrary: cur)
    case (Cons c p)
    show ?case
      using Cons.prems Cons.IH [of "[]"] Cons.IH [of "cur @ [c]"] by (cases "c = sep") auto
  qed simp
  then show "s \<in> set (segments p) \<Longrightarrow> sep \<notin> set s"
    by (simp add: segments_def split_str_def)
qed

lemma segments_one: "sep \<notin> set s \<Longrightarrow> segments s = [s]"
  using split_sep_free [of s "[]" "[]"] by (simp add: segments_def split_str_def)

lemma segments_tail: "proper ss \<Longrightarrow> segments (tail_of ss) = [] # ss"
proof (induction ss rule: rev_induct)
  case Nil
  then show ?case by (simp add: segments_one)
next
  case (snoc s ss)
  then show ?case
    using segments_sep [of "tail_of ss" s] by (simp add: segments_one)
qed

lemma tail_of_inj: "proper as \<Longrightarrow> proper bs \<Longrightarrow> tail_of as = tail_of bs \<longleftrightarrow> as = bs"
  by (metis list.inject segments_tail)

lemma path_of_inj:
  assumes "proper as" "proper bs" shows "path_of as = path_of bs \<longleftrightarrow> as = bs"
proof -
  have "tail_of ss \<noteq> [sep]" if "proper ss" for ss
    using that by (cases ss) auto
  then show ?thesis
    using assms by (auto simp: path_of_def tail_of_inj dest: sym)
qed

text \<open>The string test of containment is containment of segments, below a root other than \<^verbatim>\<open>/\<close>.\<close>

lemma isWithin_prefix:
  assumes "proper as" "proper bs" "bs \<noteq> []"
  shows "isWithin (path_of as) (path_of bs) \<longleftrightarrow> prefix bs as"
proof
  assume within: "isWithin (path_of as) (path_of bs)"
  show "prefix bs as"
  proof (cases "path_of as = path_of bs")
    case True
    then show ?thesis using assms by (simp add: path_of_inj)
  next
    case False
    then obtain t where t: "path_of as = path_of bs @ sep # t"
      using within by (auto simp: isWithin_def starts_with_def prefix_def)
    then have as: "as \<noteq> []" using assms by (cases bs) (auto simp: path_of_def)
    then have "[] # as = ([] # bs) @ segments t"
      using t assms segments_sep [of "tail_of bs" t]
      by (metis path_of_def segments_tail)
    then show ?thesis by simp
  qed
next
  assume "prefix bs as"
  then obtain cs where "as = bs @ cs" by (auto simp: prefix_def)
  then show "isWithin (path_of as) (path_of bs)"
    using assms by (cases cs) (auto simp: isWithin_def starts_with_def path_of_append)
qed

lemma proper_butlast: "proper ss \<Longrightarrow> proper (butlast ss)"
  by (auto simp: proper_def dest: in_set_butlastD)

lemma normalize_proper: "\<forall>s \<in> set ss. sep \<notin> set s \<Longrightarrow> proper (normalize ss)"
proof -
  have "\<forall>s \<in> set ss. sep \<notin> set s \<Longrightarrow> proper acc \<Longrightarrow> proper (foldl normal_step acc ss)" for acc
  proof (induction ss arbitrary: acc)
    case (Cons s ss)
    then have "proper (normal_step acc s)"
      by (simp add: normal_step_def proper_butlast)
    then show ?case using Cons by simp
  qed simp
  then show "\<forall>s \<in> set ss. sep \<notin> set s \<Longrightarrow> ?thesis"
    by (simp add: normalize_def)
qed

lemma normalize_id: "proper ss \<Longrightarrow> normalize ss = ss"
proof -
  have "proper ss \<Longrightarrow> foldl normal_step acc ss = acc @ ss" for acc
    by (induction ss arbitrary: acc) (auto simp: normal_step_def)
  then show "proper ss \<Longrightarrow> ?thesis" by (simp add: normalize_def)
qed

definition resolved :: "string \<Rightarrow> string \<Rightarrow> string list" where
  "resolved base p = normalize (if is_absolute p then segments p else segments base @ segments p)"

lemma resolved_proper: "proper (resolved base p)"
  by (auto simp: resolved_def intro!: normalize_proper dest: segments_no_sep)

lemma resolve_path_resolved: "resolve_path base p = path_of (resolved base p)"
  by (simp add: resolve_path_def resolved_def)

lemma resolved_path_of: "proper ss \<Longrightarrow> resolved base (path_of ss) = ss"
proof (cases ss)
  case Nil
  then show ?thesis
    using segments_sep [of "[]" "[]"]
    by (simp add: resolved_def path_of_def is_absolute_def segments_one normalize_def normal_step_def)
next
  case (Cons s ts)
  assume "proper ss"
  then have "normalize ([] # ss) = ss"
    using normalize_id [of ss] by (simp add: normalize_def normal_step_def)
  then show ?thesis
    using \<open>proper ss\<close> Cons segments_tail [of ss]
    by (simp add: resolved_def path_of_def is_absolute_def)
qed

lemma dirname_path_of:
  assumes "proper ss" "proper [s]" shows "dirname (path_of (ss @ [s])) = path_of ss"
proof -
  have s: "s \<noteq> []" "sep \<notin> set s" using assms by auto
  have skip: "dropWhile (\<lambda>c. c = sep) (rev s @ r) = rev s @ r" for r
    using s by (cases s rule: rev_cases) auto
  have rest: "dropWhile (\<lambda>c. c \<noteq> sep) (rev s @ r) = dropWhile (\<lambda>c. c \<noteq> sep) r" for r
    using s by (auto simp: dropWhile_append)
  show ?thesis
  proof (cases ss)
    case Nil
    then show ?thesis
      using skip [of "[]"] rest [of "[]"] by (simp add: dirname_def path_of_def)
  next
    case (Cons t ts)
    then have "t \<noteq> []" using assms by simp
    then show ?thesis
      using Cons skip [of "sep # rev (tail_of ts) @ rev t"] rest [of "sep # rev (tail_of ts) @ rev t"]
      by (simp add: dirname_def path_of_def Let_def)
  qed
qed

section \<open>Canonicalization\<close>

lemma loop_missing:
  assumes "as \<noteq> []" "proper as" "proper [s]" "rp (path_of (as @ [s])) = Inl ''ENOENT''"
  shows "canonicalize_loop rp (path_of (as @ [s])) t = canonicalize_loop rp (path_of as) (sep # s @ t)"
proof -
  have dir: "dirname (path_of (as @ [s])) = path_of as"
    using assms(2,3) by (rule dirname_path_of)
  have split: "path_of (as @ [s]) = path_of as @ sep # s"
    using assms(1) by (simp add: path_of_append)
  show ?thesis
    by (subst canonicalize_loop.simps) (simp add: assms(4) dir, simp add: split)
qed

lemma loop_found: "rp p = Inr r \<Longrightarrow> canonicalize_loop rp p t = Inr (r @ t)"
  by (subst canonicalize_loop.simps) simp

text \<open>
  \<open>located rp base p cs\<close>: some ancestor of \<open>p\<close> other than the root exists, everything below the
  deepest one is missing, and the real path of that ancestor followed by the missing segments is \<open>cs\<close>.
\<close>

definition located :: "realpath \<Rightarrow> string \<Rightarrow> string \<Rightarrow> string list \<Rightarrow> bool" where
  "located rp base p cs \<longleftrightarrow>
     (\<exists>as bs r. resolved base p = as @ bs \<and> as \<noteq> [] \<and> rp (path_of as) = Inr (path_of r) \<and>
        proper r \<and> r \<noteq> [] \<and> cs = r @ bs \<and>
        (\<forall>b \<in> set (prefixes bs). b \<noteq> [] \<longrightarrow> rp (path_of (as @ b)) = Inl ''ENOENT''))"

lemma locatedI:
  "\<lbrakk>resolved base p = cs; cs = as @ bs; as \<noteq> []; rp (path_of as) = Inr (path_of r); proper r; r \<noteq> [];
    \<forall>b \<in> set (prefixes bs). b \<noteq> [] \<longrightarrow> rp (path_of (as @ b)) = Inl ''ENOENT''\<rbrakk>
   \<Longrightarrow> located rp base p (r @ bs)"
  unfolding located_def by blast

lemma canonicalize_missing:
  assumes "as \<noteq> []" "proper (as @ bs)" "rp (path_of as) = Inr r"
    and "\<And>b. prefix b bs \<Longrightarrow> b \<noteq> [] \<Longrightarrow> rp (path_of (as @ b)) = Inl ''ENOENT''"
  shows "canonicalize_loop rp (path_of (as @ bs)) t = Inr (r @ tail_of bs @ t)"
  using assms
proof (induction bs arbitrary: t rule: rev_induct)
  case Nil
  then show ?case by (simp add: loop_found)
next
  case (snoc s bs)
  have "rp (path_of ((as @ bs) @ [s])) = Inl ''ENOENT''"
    using snoc.prems(4) [of "bs @ [s]"] by simp
  moreover have "canonicalize_loop rp (path_of (as @ bs)) (sep # s @ t) = Inr (r @ tail_of bs @ sep # s @ t)"
    using snoc.prems by (intro snoc.IH) auto
  ultimately show ?case
    using loop_missing [of "as @ bs" s rp t] snoc.prems(1,2) by simp
qed

lemma located_canonical:
  assumes "located rp base p cs"
  shows "canonicalizeForPolicy rp base p = Inr (path_of cs) \<and> proper cs \<and> cs \<noteq> []"
proof -
  obtain as bs r where split: "resolved base p = as @ bs" "as \<noteq> []" "rp (path_of as) = Inr (path_of r)"
    and r: "proper r" "r \<noteq> []" "cs = r @ bs"
    and missing: "\<forall>b \<in> set (prefixes bs). b \<noteq> [] \<longrightarrow> rp (path_of (as @ b)) = Inl ''ENOENT''"
    using assms unfolding located_def by blast
  have proper: "proper (as @ bs)"
    using resolved_proper [of base p] split(1) by simp
  have "canonicalize_loop rp (path_of (as @ bs)) [] = Inr (path_of r @ tail_of bs @ [])"
    using split(2,3) proper missing by (intro canonicalize_missing) auto
  then show ?thesis
    using r proper split(1)
    by (simp add: canonicalizeForPolicy_def resolve_path_resolved path_of_append)
qed

lemma mapE_located:
  "list_all2 (located rp base) ps css \<Longrightarrow> mapE (canonicalizeForPolicy rp base) ps = Inr (map path_of css)"
  by (induction ps css rule: list_all2_induct) (auto dest: located_canonical)

lemma list_all2_located: "list_all2 (located rp base) ps css \<Longrightarrow> cs \<in> set css \<Longrightarrow> proper cs \<and> cs \<noteq> []"
  by (induction ps css rule: list_all2_induct) (auto dest: located_canonical)

definition policy_located :: "realpath \<Rightarrow> string \<Rightarrow> workspace_policy \<Rightarrow> string list \<Rightarrow>
    string list list \<Rightarrow> string list list \<Rightarrow> bool" where
  "policy_located rp base policy w rs ps \<longleftrightarrow>
     readableRoots policy \<noteq> [] \<and> located rp base (workspace policy) w \<and>
     list_all2 (located rp base) (readableRoots policy) rs \<and>
     list_all2 (located rp base) (protectedPaths policy) ps"

lemma policy_located_canonical:
  assumes "policy_located rp base policy w rs ps"
  shows "canonicalPolicy rp base policy =
    Inr \<lparr>workspace = path_of w, readableRoots = map path_of rs, protectedPaths = map path_of ps\<rparr>"
proof -
  have "readableRoots policy \<noteq> []"
    "canonicalizeForPolicy rp base (workspace policy) = Inr (path_of w)"
    "mapE (canonicalizeForPolicy rp base) (readableRoots policy) = Inr (map path_of rs)"
    "mapE (canonicalizeForPolicy rp base) (protectedPaths policy) = Inr (map path_of ps)"
    using assms by (auto simp: policy_located_def dest: mapE_located located_canonical)
  then show ?thesis by (simp add: canonicalPolicy_def)
qed

lemma within_located:
  assumes "policy_located rp base policy w rs ps" "located rp base p cs"
  shows "isWithin (path_of cs) (path_of w) \<longleftrightarrow> prefix w cs"
    "r \<in> set rs \<Longrightarrow> isWithin (path_of cs) (path_of r) \<longleftrightarrow> prefix r cs"
    "q \<in> set ps \<Longrightarrow> isWithin (path_of cs) (path_of q) \<longleftrightarrow> prefix q cs"
  using assms located_canonical list_all2_located isWithin_prefix
  unfolding policy_located_def by metis+

lemma protected_checks:
  assumes "policy_located rp base policy w rs ps" "located rp base p cs"
  shows "first_error (map (protected_check cap (path_of cs)) (map path_of ps)) = None \<longleftrightarrow>
      (\<forall>q \<in> set ps. \<not> prefix q cs)"
    "first_error (map (protected_check cap (path_of cs)) (map path_of ps)) = Some e \<Longrightarrow>
      \<exists>why. e = SandboxViolationError cap why"
  using within_located(3) [OF assms]
  by (auto simp: first_error_None protected_check_def split: if_splits dest!: first_error_Some_in)

section \<open>What the policy allows\<close>

text \<open>The read check decides exactly the policy: when the path and the policy's paths have an
  existing ancestor, it returns the canonical path just when the path lies below a readable root and
  below no protected path, and otherwise reports a violation of \<^verbatim>\<open>filesystem.read\<close>.\<close>

theorem read_policy_exact:
  assumes policy: "policy_located rp base policy w rs ps" and path: "located rp base p cs"
  shows "(assertReadAllowed rp base policy p = Inr c \<longleftrightarrow>
      c = path_of cs \<and> (\<exists>r \<in> set rs. prefix r cs) \<and> (\<forall>q \<in> set ps. \<not> prefix q cs)) \<and>
    (assertReadAllowed rp base policy p = Inl e \<longrightarrow>
      (\<exists>why. e = SandboxViolationError ''filesystem.read'' why))"
proof -
  note eval = assertReadAllowed_def policy_located_canonical [OF policy] located_canonical [OF path]
  note within = within_located [OF policy path]
  note checks = protected_checks [OF policy path, of "''filesystem.read''"]
  have "assertReadAllowed rp base policy p = Inr c \<longleftrightarrow>
      c = path_of cs \<and> (\<exists>r \<in> set rs. prefix r cs) \<and> (\<forall>q \<in> set ps. \<not> prefix q cs)"
    using within checks(1) by (auto simp: eval throw_iff list_ex_iff first_error_None)
  moreover have "\<exists>why. e = SandboxViolationError ''filesystem.read'' why"
    if "assertReadAllowed rp base policy p = Inl e"
    using that checks(2) by (auto simp: eval throw_iff first_error_append require_def split: option.splits if_splits)
  ultimately show ?thesis by blast
qed


definition ex_disk :: realpath where
  "ex_disk p =
     (if p \<in> {''/'', ''/srv'', ''/srv/ws'', ''/srv/ws/.axl''} then Inr p
      else if p = ''/srv/ws/out'' then Inr ''/etc''
      else Inl ''ENOENT'')"

definition ex_policy :: workspace_policy where
  "ex_policy = \<lparr>workspace = ''/srv/ws'', readableRoots = [''/srv/ws''], protectedPaths = [''/srv/ws/.axl'']\<rparr>"

lemma ex_resolved:
  "resolved ''/'' ''/srv/ws'' = [''srv'', ''ws'']"
  "resolved ''/'' ''/srv/ws/.axl'' = [''srv'', ''ws'', ''.axl'']"
  "resolved ''/'' ''/srv/ws/new/a.txt'' = [''srv'', ''ws'', ''new'', ''a.txt'']"
  "resolved ''/'' ''/srv/ws/out/passwd'' = [''srv'', ''ws'', ''out'', ''passwd'']"
  by code_simp+

lemma ex_located:
  "located ex_disk ''/'' ''/srv/ws'' [''srv'', ''ws'']"
  "located ex_disk ''/'' ''/srv/ws/.axl'' [''srv'', ''ws'', ''.axl'']"
  "located ex_disk ''/'' ''/srv/ws/new/a.txt'' [''srv'', ''ws'', ''new'', ''a.txt'']"
  "located ex_disk ''/'' ''/srv/ws/out/passwd'' [''etc'', ''passwd'']"
  using locatedI [OF ex_resolved(1), of "[''srv'', ''ws'']" "[]" ex_disk "[''srv'', ''ws'']"]
    locatedI [OF ex_resolved(2), of "[''srv'', ''ws'', ''.axl'']" "[]" ex_disk "[''srv'', ''ws'', ''.axl'']"]
    locatedI [OF ex_resolved(3), of "[''srv'', ''ws'']" "[''new'', ''a.txt'']" ex_disk "[''srv'', ''ws'']"]
    locatedI [OF ex_resolved(4), of "[''srv'', ''ws'', ''out'']" "[''passwd'']" ex_disk "[''etc'']"]
  by (simp_all add: ex_disk_def path_of_def proper_def sep_def)

lemma ex_policy_located:
  "policy_located ex_disk ''/'' ex_policy [''srv'', ''ws''] [[''srv'', ''ws'']] [[''srv'', ''ws'', ''.axl'']]"
  by (simp add: policy_located_def ex_policy_def ex_located)

theorem read_policy_exact_witness:
  "(\<exists>why. assertReadAllowed ex_disk ''/'' ex_policy ''/srv/ws/out/passwd'' =
      Inl (SandboxViolationError ''filesystem.read'' why))"
  using read_policy_exact [OF ex_policy_located ex_located(4)]
  by (cases "assertReadAllowed ex_disk ''/'' ex_policy ''/srv/ws/out/passwd''") auto


text \<open>A missing path directly below the file system root loses the first character of its name:
  the parent \<^verbatim>\<open>/\<close> already ends with the separator that the code skips once more. Different missing
  paths then share one canonical path, and none of them is its own.\<close>

theorem missing_top_level_path_mangled:
  assumes name: "proper [c # cs]" and missing: "rp (path_of [c # cs]) = Inl ''ENOENT''"
    and root: "rp (path_of []) = Inr (path_of [])"
  shows "canonicalizeForPolicy rp base (path_of [c # cs]) = Inr (sep # sep # cs)"
proof -
  have "dirname (path_of [c # cs]) = path_of []"
    using dirname_path_of [of "[]" "c # cs"] name by simp
  moreover have "path_of [] \<noteq> path_of [c # cs]"
    using name by (subst path_of_inj) simp_all
  ultimately have "canonicalize_loop rp (path_of [c # cs]) [] =
      canonicalize_loop rp (path_of []) (sep # drop (length (path_of []) + 1) (path_of [c # cs]) @ [])"
    using missing by (subst canonicalize_loop.simps) (simp add: Let_def)
  also have "\<dots> = Inr (sep # sep # cs)"
    using root by (simp add: loop_found) (simp add: path_of_def)
  finally show ?thesis
    using resolved_path_of [OF name] by (simp add: canonicalizeForPolicy_def resolve_path_resolved)
qed

theorem missing_top_level_path_mangled_witness:
  "canonicalizeForPolicy ex_disk ''/'' (path_of [''data'']) = Inr ''//ata'' \<and>
   canonicalizeForPolicy ex_disk ''/'' (path_of [''Data'']) = Inr ''//ata''"
  using missing_top_level_path_mangled [of "CHR ''d''" "''ata''" ex_disk "''/''"]
    missing_top_level_path_mangled [of "CHR ''D''" "''ata''" ex_disk "''/''"]
  by (simp add: ex_disk_def path_of_def sep_def)

end
