(* ===== verification/File_Tools.thy ===== *)
theory File_Tools
  imports Path_Policy Tools Effects
begin

text \<open>
  The file tools (\<^verbatim>\<open>packages/kernel/src/tools\<close>: \<^verbatim>\<open>validate.ts\<close>, \<^verbatim>\<open>read.ts\<close>, \<^verbatim>\<open>write.ts\<close>,
  \<^verbatim>\<open>edit.ts\<close>) and the queue that serializes their mutations (\<^verbatim>\<open>file-mutation-queue.ts\<close>).

  The disk maps paths to files. Every call of the operating system takes one tick of a clock, and at
  each tick it may fail with a code, a failing write leaving part of its bytes; between calls the
  caller may abort. Directories are not part of the disk: a missing parent is a failing call. The
  lenient decoding of \<^verbatim>\<open>toString("utf8")\<close> is a parameter, because its replacement character lies
  outside the model's code units.
\<close>

section \<open>Validation of tool input\<close>

datatype tool_failure =
    ToolInputError string
  | ToolAborted
  | FsError string
  | PolicyFailure policy_error

definition rejectUnknownFields :: "json_object \<Rightarrow> string \<Rightarrow> string list \<Rightarrow> tool_failure option" where
  "rejectUnknownFields input toolName allowed =
     first_error (map (\<lambda>key. require (key \<in> set allowed)
       (ToolInputError (toolName @ '': unknown input field '' @ quote_str key))) (mkeys input))"

definition requiredString :: "json_object \<Rightarrow> string \<Rightarrow> string \<Rightarrow> tool_failure + string" where
  "requiredString input toolName key =
     (case mget input key of
        Some (JStr v) \<Rightarrow>
          if v \<noteq> [] then Inr v else Inl (ToolInputError (toolName @ '': '' @ key @ '' must be a non-empty string''))
      | _ \<Rightarrow> Inl (ToolInputError (toolName @ '': '' @ key @ '' must be a non-empty string'')))"

definition optionalToolString :: "json_object \<Rightarrow> string \<Rightarrow> string \<Rightarrow> tool_failure + string option" where
  "optionalToolString input toolName key =
     (case mget input key of
        None \<Rightarrow> Inr None
      | Some (JStr v) \<Rightarrow> Inr (Some v)
      | _ \<Rightarrow> Inl (ToolInputError (toolName @ '': '' @ key @ '' must be a string'')))"

definition optionalPositiveInteger :: "json_object \<Rightarrow> string \<Rightarrow> string \<Rightarrow> tool_failure + nat option" where
  "optionalPositiveInteger input toolName key =
     (case mget input key of
        None \<Rightarrow> Inr None
      | Some (JNum (JInt i)) \<Rightarrow>
          if is_safe_integer (JInt i) \<and> 0 < i then Inr (Some (nat i))
          else Inl (ToolInputError (toolName @ '': '' @ key @ '' must be a positive integer''))
      | _ \<Rightarrow> Inl (ToolInputError (toolName @ '': '' @ key @ '' must be a positive integer'')))"

definition optionalBoolean :: "json_object \<Rightarrow> string \<Rightarrow> string \<Rightarrow> tool_failure + bool option" where
  "optionalBoolean input toolName key =
     (case mget input key of
        None \<Rightarrow> Inr None
      | Some (JBool b) \<Rightarrow> Inr (Some b)
      | _ \<Rightarrow> Inl (ToolInputError (toolName @ '': '' @ key @ '' must be a boolean'')))"

section \<open>The disk\<close>

record disk_file =
  file_mode :: nat
  file_bytes :: "byte list"

record disk =
  files :: "string \<Rightarrow> disk_file option"
  ticks :: nat

record tool_host =
  host_realpath :: realpath
  host_cwd :: string
  host_text :: "byte list \<Rightarrow> string"
  host_uuid :: "nat \<Rightarrow> string"
  host_fault :: "nat \<Rightarrow> (string \<times> nat) option"
  host_aborted :: "nat \<Rightarrow> bool"

type_synonym 'a disk_action = "(disk, tool_failure, 'a) action"

definition tick_disk :: "disk \<Rightarrow> disk" where
  "tick_disk d = d\<lparr>ticks := Suc (ticks d)\<rparr>"

definition fs_call :: "tool_host \<Rightarrow> 'a disk_action \<Rightarrow> 'a disk_action" where
  "fs_call host m = (\<lambda>d.
     case host_fault host (ticks d) of
       Some (code, _) \<Rightarrow> (tick_disk d, Inl (FsError code))
     | None \<Rightarrow> m (tick_disk d))"

definition fs_file :: "tool_host \<Rightarrow> string \<Rightarrow> disk_file disk_action" where
  "fs_file host path = fs_call host (\<lambda>d.
     case files d path of None \<Rightarrow> (d, Inl (FsError ''ENOENT'')) | Some f \<Rightarrow> (d, Inr f))"

definition put_file :: "string \<Rightarrow> nat \<Rightarrow> byte list \<Rightarrow> disk \<Rightarrow> disk" where
  "put_file path mode bytes d =
     (let m = (case files d path of None \<Rightarrow> mode | Some f \<Rightarrow> file_mode f) in
      d\<lparr>files := (files d)(path := Some \<lparr>file_mode = m, file_bytes = bytes\<rparr>)\<rparr>)"

definition fs_write :: "tool_host \<Rightarrow> bool \<Rightarrow> string \<Rightarrow> nat \<Rightarrow> byte list \<Rightarrow> unit disk_action" where
  "fs_write host exclusive path mode bytes = (\<lambda>d.
     if exclusive \<and> files d path \<noteq> None then (tick_disk d, Inl (FsError ''EEXIST''))
     else case host_fault host (ticks d) of
       Some (code, n) \<Rightarrow> (put_file path mode (take n bytes) (tick_disk d), Inl (FsError code))
     | None \<Rightarrow> (put_file path mode bytes (tick_disk d), Inr ()))"

definition fs_rename :: "tool_host \<Rightarrow> string \<Rightarrow> string \<Rightarrow> unit disk_action" where
  "fs_rename host from to = fs_call host (\<lambda>d.
     case files d from of
       None \<Rightarrow> (d, Inl (FsError ''ENOENT''))
     | Some f \<Rightarrow> (d\<lparr>files := (files d)(from := None, to := Some f)\<rparr>, Inr ()))"

definition fs_rm :: "tool_host \<Rightarrow> string \<Rightarrow> unit disk_action" where
  "fs_rm host path = fs_call host (modify (\<lambda>d. d\<lparr>files := (files d)(path := None)\<rparr>))"

definition throwIfAborted :: "tool_host \<Rightarrow> unit disk_action" where
  "throwIfAborted host = bindA (asks (\<lambda>d. host_aborted host (ticks d))) (\<lambda>b. throw_if b ToolAborted)"

text \<open>\<^verbatim>\<open>try { m } finally { await k }\<close>, and a \<^verbatim>\<open>catch\<close> that maps the error to another action.\<close>

definition finally_do :: "('s, 'e, 'a) action \<Rightarrow> ('s, 'e, unit) action \<Rightarrow> ('s, 'e, 'a) action" where
  "finally_do m k = (\<lambda>s. case m s of (s', r) \<Rightarrow>
     (case k s' of (s'', Inl e) \<Rightarrow> (s'', Inl e) | (s'', Inr _) \<Rightarrow> (s'', r)))"

definition catchA :: "('s, 'e, 'a) action \<Rightarrow> ('e \<Rightarrow> ('s, 'e, 'a) action) \<Rightarrow> ('s, 'e, 'a) action" where
  "catchA m h = (\<lambda>s. case m s of (s', Inl e) \<Rightarrow> h e s' | (s', Inr x) \<Rightarrow> (s', Inr x))"

fun fs_code :: "tool_failure \<Rightarrow> string" where
  "fs_code (FsError code) = code"
| "fs_code _ = ''unknown error''"

section \<open>Paths of tools\<close>

record tool_options =
  opt_cwd :: string
  opt_policy :: "workspace_policy option"
  opt_maxLines :: nat
  opt_maxBytes :: nat

definition tool_path :: "tool_host \<Rightarrow> tool_options \<Rightarrow> string \<Rightarrow> string" where
  "tool_path host opts requested = resolve_path (resolve_path (host_cwd host) (opt_cwd opts)) requested"

definition read_path :: "tool_host \<Rightarrow> tool_options \<Rightarrow> string \<Rightarrow> tool_failure + string" where
  "read_path host opts requested =
     (let path = tool_path host opts requested in
      case opt_policy opts of
        None \<Rightarrow> Inr path
      | Some policy \<Rightarrow>
          map_sum PolicyFailure id (assertReadAllowed (host_realpath host) (host_cwd host) policy path))"

definition mutation_path :: "tool_host \<Rightarrow> tool_options \<Rightarrow> string \<Rightarrow> tool_failure + string" where
  "mutation_path host opts requested =
     (let absolutePath = tool_path host opts requested in
      map_sum PolicyFailure id
        (case opt_policy opts of
           None \<Rightarrow> canonicalizeForPolicy (host_realpath host) (host_cwd host) absolutePath
         | Some policy \<Rightarrow> assertWriteAllowed (host_realpath host) (host_cwd host) policy absolutePath))"

section \<open>The read tool\<close>

definition DEFAULT_MAX_LINES :: nat where
  "DEFAULT_MAX_LINES = 2000"

definition DEFAULT_READ_BYTES :: nat where
  "DEFAULT_READ_BYTES = 96000"

definition file_lines :: "string \<Rightarrow> string list" where
  "file_lines t = (let ls = split_str t [CHR 0x0A] in if last ls = [] then butlast ls else ls)"

fun keep_lines :: "nat \<Rightarrow> nat \<Rightarrow> string list \<Rightarrow> string list" where
  "keep_lines maxBytes bytes [] = []"
| "keep_lines maxBytes bytes (line # rest) =
     (let lineBytes = utf8_length line + 1 in
      if maxBytes < bytes + lineBytes then [] else line # keep_lines maxBytes (bytes + lineBytes) rest)"

definition page_lines :: "nat \<Rightarrow> nat \<Rightarrow> nat \<Rightarrow> string list \<Rightarrow> string list" where
  "page_lines maxBytes offset limit allLines =
     (let slice = take limit (drop (offset - 1) allLines) in
      if maxBytes < utf8_length (join [CHR 0x0A] slice) then keep_lines maxBytes 0 slice else slice)"

definition read_note :: "nat \<Rightarrow> nat \<Rightarrow> nat \<Rightarrow> string list" where
  "read_note offset lastShown totalLines =
     (if lastShown < totalLines
      then [''[showing lines '' @ nat_str offset @ ''-'' @ nat_str lastShown @ '' of '' @ nat_str totalLines @
            ''; continue with offset '' @ nat_str (lastShown + 1) @ '']'']
      else [])"

definition json_nat :: "nat \<Rightarrow> json" where
  "json_nat n = JNum (JInt (int n))"

definition read_result :: "string \<Rightarrow> nat \<Rightarrow> nat \<Rightarrow> nat \<Rightarrow> string list \<Rightarrow> tool_execution_result" where
  "read_result path maxBytes offset limit allLines =
     (let shown = page_lines maxBytes offset limit allLines;
          lastShown = offset - 1 + length shown in
      \<lparr>res_content = [Text (join [CHR 0x0A]
         (filter (\<lambda>t. t \<noteq> []) (join [CHR 0x0A] shown # read_note offset lastShown (length allLines))))],
       res_isError = False,
       res_details = Some (JObj [(''path'', JStr path), (''totalLines'', json_nat (length allLines)),
         (''shownFrom'', json_nat offset), (''shownTo'', json_nat lastShown)])\<rparr>)"

definition read_tool :: "tool_host \<Rightarrow> tool_options \<Rightarrow> json_object \<Rightarrow> tool_execution_result disk_action" where
  "read_tool host opts input =
     thenA (optA (rejectUnknownFields input ''read'' [''path'', ''offset'', ''limit'']) throw)
    (bindA (lift (requiredString input ''read'' ''path'')) (\<lambda>requested.
     bindA (lift (read_path host opts requested)) (\<lambda>path.
     bindA (lift (optionalPositiveInteger input ''read'' ''offset'')) (\<lambda>offset.
     bindA (lift (optionalPositiveInteger input ''read'' ''limit'')) (\<lambda>limit.
     bindA (catchA (fs_file host path) (\<lambda>e. throw (ToolInputError (''read: cannot read '' @ path @ '': '' @ fs_code e))))
       (\<lambda>raw.
     thenA (throw_if (0 \<in> set (take 8192 (file_bytes raw))) (ToolInputError (''read: '' @ path @ '' is a binary file'')))
       (ret (read_result path (opt_maxBytes opts) (case offset of None \<Rightarrow> 1 | Some n \<Rightarrow> n)
         (min (case limit of None \<Rightarrow> opt_maxLines opts | Some n \<Rightarrow> n) (opt_maxLines opts))
         (file_lines (host_text host (file_bytes raw)))))))))))"

section \<open>The write tool\<close>

definition DEFAULT_WRITE_BYTES :: nat where
  "DEFAULT_WRITE_BYTES = 1000000"

definition temporary_path :: "tool_host \<Rightarrow> string \<Rightarrow> disk \<Rightarrow> string" where
  "temporary_path host path d = path @ ''.'' @ host_uuid host (ticks d) @ ''.axl-tmp''"

definition replace_steps :: "tool_host \<Rightarrow> bool \<Rightarrow> nat disk_action \<Rightarrow> string \<Rightarrow> string \<Rightarrow> byte list \<Rightarrow> unit disk_action" where
  "replace_steps host exclusive modeOf temporary path bytes =
     bindA modeOf (\<lambda>mode.
     thenA (throwIfAborted host)
    (thenA (fs_write host exclusive temporary mode bytes)
    (thenA (throwIfAborted host)
           (fs_rename host temporary path))))"

definition replace_file :: "tool_host \<Rightarrow> bool \<Rightarrow> nat disk_action \<Rightarrow> string \<Rightarrow> byte list \<Rightarrow> unit disk_action" where
  "replace_file host exclusive modeOf path bytes =
     bindA (asks (temporary_path host path)) (\<lambda>temporary.
     finally_do (replace_steps host exclusive modeOf temporary path bytes) (fs_rm host temporary))"

definition write_mode :: "tool_host \<Rightarrow> string \<Rightarrow> nat disk_action" where
  "write_mode host path =
     catchA (bindA (fs_file host path) (\<lambda>f. ret (file_mode f mod 512)))
       (\<lambda>e. if e = FsError ''ENOENT'' then ret 420 else throw e)"

definition write_mutate :: "tool_host \<Rightarrow> string \<Rightarrow> string \<Rightarrow> tool_execution_result disk_action" where
  "write_mutate host content path =
     thenA (throwIfAborted host)
    (thenA (fs_call host (ret ()))
    (thenA (throwIfAborted host)
    (thenA (replace_file host True (write_mode host path) path (utf8_encode content))
       (ret \<lparr>res_content = [Text (''Wrote '' @ nat_str (utf8_length content) @ '' bytes to '' @ path)],
             res_isError = False,
             res_details = Some (JObj [(''path'', JStr path), (''bytes'', json_nat (utf8_length content))])\<rparr>))))"

definition write_tool :: "tool_host \<Rightarrow> tool_options \<Rightarrow> json_object \<Rightarrow> tool_execution_result disk_action" where
  "write_tool host opts input =
     thenA (optA (rejectUnknownFields input ''write'' [''path'', ''content'']) throw)
    (bindA (lift (requiredString input ''write'' ''path'')) (\<lambda>requested.
     case mget input ''content'' of
       Some (JStr content) \<Rightarrow>
         thenA (throw_if (opt_maxBytes opts < utf8_length content)
           (ToolInputError (''write: content is '' @ nat_str (utf8_length content) @ '' bytes; maximum is '' @
              nat_str (opt_maxBytes opts))))
        (bindA (lift (mutation_path host opts requested)) (write_mutate host content))
     | _ \<Rightarrow> throw (ToolInputError ''write: content must be a string'')))"

section \<open>The edit tool\<close>

text \<open>\<^verbatim>\<open>countOccurrences\<close>: left to right, without overlap; the first argument as in \<open>replace_from\<close>.\<close>

fun count_from :: "nat \<Rightarrow> string \<Rightarrow> string \<Rightarrow> nat" where
  "count_from n needle [] = 0"
| "count_from (Suc n) needle (c # s) = count_from n needle s"
| "count_from 0 needle (c # s) =
     (if prefix needle (c # s) then Suc (count_from (length needle - 1) needle s)
      else count_from 0 needle s)"

definition countOccurrences :: "string \<Rightarrow> string \<Rightarrow> nat" where
  "countOccurrences haystack needle = count_from 0 needle haystack"

text \<open>
  \<^verbatim>\<open>String.prototype.replace\<close> with a string pattern replaces the first occurrence and expands the
  patterns of the replacement: a doubled dollar is a dollar, \<^verbatim>\<open>$&\<close> the match, and a dollar before a
  back quote or a quote the text before or after the match.
\<close>

fun get_substitution :: "string \<Rightarrow> string \<Rightarrow> string \<Rightarrow> string \<Rightarrow> string" where
  "get_substitution before matched after [] = []"
| "get_substitution before matched after [c] = [c]"
| "get_substitution before matched after (c # d # s) =
     (if c \<noteq> CHR ''$'' then c # get_substitution before matched after (d # s)
      else if d = CHR ''$'' then CHR ''$'' # get_substitution before matched after s
      else if d = CHR ''&'' then matched @ get_substitution before matched after s
      else if d = CHR 0x60 then before @ get_substitution before matched after s
      else if d = CHR 0x27 then after @ get_substitution before matched after s
      else c # get_substitution before matched after (d # s))"

definition replace_first :: "string \<Rightarrow> string \<Rightarrow> string \<Rightarrow> string" where
  "replace_first s old new =
     (case index_of s old of
        None \<Rightarrow> s
      | Some i \<Rightarrow>
          take i s @ get_substitution (take i s) old (drop (i + length old) s) new @ drop (i + length old) s)"

definition edited :: "bool \<Rightarrow> string \<Rightarrow> string \<Rightarrow> string \<Rightarrow> string" where
  "edited replaceAll content oldText newText =
     (if replaceAll then join newText (split_str content oldText) else replace_first content oldText newText)"

definition edit_read :: "tool_host \<Rightarrow> string \<Rightarrow> string disk_action" where
  "edit_read host path =
     catchA (bindA (fs_file host path) (\<lambda>f. ret (host_text host (file_bytes f))))
       (\<lambda>e. bindA (asks (\<lambda>d. host_aborted host (ticks d))) (\<lambda>aborted.
          if aborted then throw ToolAborted
          else throw (ToolInputError (''edit: cannot read '' @ path @ '': '' @ fs_code e))))"

definition edit_result :: "string \<Rightarrow> nat \<Rightarrow> tool_execution_result" where
  "edit_result path replacements =
     \<lparr>res_content = [Text (''Replaced '' @ nat_str replacements @ '' occurrence'' @
        (if replacements = 1 then [] else ''s'') @ '' in '' @ path)],
      res_isError = False,
      res_details = Some (JObj [(''path'', JStr path), (''replacements'', json_nat replacements)])\<rparr>"

definition edit_mutate :: "tool_host \<Rightarrow> string \<Rightarrow> string \<Rightarrow> bool \<Rightarrow> string \<Rightarrow> tool_execution_result disk_action" where
  "edit_mutate host oldText newText replaceAll path =
     thenA (throwIfAborted host)
    (bindA (edit_read host path) (\<lambda>content.
     let occurrences = countOccurrences content oldText in
     thenA (throw_if (occurrences = 0)
       (ToolInputError (''edit: Target changed or no longer matches. Read the file again and retry. Path: '' @ path)))
    (thenA (throw_if (1 < occurrences \<and> \<not> replaceAll)
       (ToolInputError (''edit: oldText occurs '' @ nat_str occurrences @ '' times in '' @ path @
          ''; make it unique or set replaceAll'')))
    (thenA (replace_file host False (bindA (fs_file host path) (\<lambda>f. ret (file_mode f mod 512))) path
              (utf8_encode (edited replaceAll content oldText newText)))
       (ret (edit_result path (if replaceAll then occurrences else 1)))))))"

definition edit_tool :: "tool_host \<Rightarrow> tool_options \<Rightarrow> json_object \<Rightarrow> tool_execution_result disk_action" where
  "edit_tool host opts input =
     thenA (optA (rejectUnknownFields input ''edit'' [''path'', ''oldText'', ''newText'', ''replaceAll'']) throw)
    (bindA (lift (requiredString input ''edit'' ''path'')) (\<lambda>requested.
     bindA (lift (requiredString input ''edit'' ''oldText'')) (\<lambda>oldText.
     case mget input ''newText'' of
       Some (JStr newText) \<Rightarrow>
         thenA (throw_if (oldText = newText) (ToolInputError ''edit: oldText and newText are identical''))
        (bindA (lift (optionalBoolean input ''edit'' ''replaceAll'')) (\<lambda>replaceAll.
         bindA (lift (mutation_path host opts requested))
           (edit_mutate host oldText newText (replaceAll = Some True))))
     | _ \<Rightarrow> throw (ToolInputError ''edit: newText must be a string''))))"

section \<open>Replacing a file\<close>

lemma tick_files [simp]: "files (tick_disk d) = files d"
  by (simp add: tick_disk_def)

lemma bindA_result:
  "bindA m f s = (s', r) \<longleftrightarrow>
     (\<exists>t. (\<exists>e. m s = (t, Inl e) \<and> s' = t \<and> r = Inl e) \<or> (\<exists>x. m s = (t, Inr x) \<and> f x t = (s', r)))"
  by (auto simp: bindA_eval split: prod.splits sum.splits)

lemma thenA_result:
  "thenA m k s = (s', r) \<longleftrightarrow>
     (\<exists>t. (\<exists>e. m s = (t, Inl e) \<and> s' = t \<and> r = Inl e) \<or> (\<exists>x. m s = (t, Inr x) \<and> k t = (s', r)))"
  by (auto simp: thenA_def bindA_result)

lemma throwIfAborted_keeps: "throwIfAborted host d = (d', r) \<Longrightarrow> d' = d"
  by (auto simp: throwIfAborted_def bindA_eval)

lemma fs_file_result:
  "fs_file host path d = (d', r) \<Longrightarrow> files d' = files d \<and> (\<forall>f. r = Inr f \<longrightarrow> files d path = Some f)"
  by (auto simp: fs_file_def fs_call_def split: option.splits)

definition only_at :: "string set \<Rightarrow> disk \<Rightarrow> disk \<Rightarrow> bool" where
  "only_at S d d' \<longleftrightarrow> (\<forall>q. q \<notin> S \<longrightarrow> files d' q = files d q)"

definition holds_bytes :: "string \<Rightarrow> byte list \<Rightarrow> disk \<Rightarrow> bool" where
  "holds_bytes path bytes d \<longleftrightarrow> map_option file_bytes (files d path) = Some bytes"

lemma fs_write_result:
  "fs_write host exclusive path mode bytes d = (d', r) \<Longrightarrow>
     only_at {path} d d' \<and> (\<forall>u. r = Inr u \<longrightarrow> holds_bytes path bytes d')"
  by (auto simp: fs_write_def put_file_def Let_def only_at_def holds_bytes_def split: option.splits if_splits)

lemma fs_rename_result:
  "fs_rename host from to d = (d', r) \<Longrightarrow>
     (\<forall>e. r = Inl e \<longrightarrow> files d' = files d) \<and>
     (\<forall>u. r = Inr u \<longrightarrow> only_at {from, to} d d' \<and> files d' to = files d from)"
  by (auto simp: fs_rename_def fs_call_def only_at_def split: option.splits)

lemma fs_rm_result:
  "fs_rm host path d = (d', r) \<Longrightarrow>
     only_at {path} d d' \<and> (\<forall>u. r = Inr u \<longrightarrow> files d' path = None)"
  by (auto simp: fs_rm_def fs_call_def only_at_def split: option.splits)

definition keeps_files :: "'a disk_action \<Rightarrow> bool" where
  "keeps_files m \<longleftrightarrow> (\<forall>d d' r. m d = (d', r) \<longrightarrow> files d' = files d)"

lemma keeps_filesD: "keeps_files m \<Longrightarrow> m d = (d', r) \<Longrightarrow> files d' = files d"
  unfolding keeps_files_def by blast

lemma replace_steps_result:
  assumes run: "replace_steps host exclusive modeOf temporary path bytes d = (d', r)"
    and "keeps_files modeOf" and "temporary \<noteq> path"
  shows "only_at {temporary} d d' \<and> (\<exists>e. r = Inl e) \<or> only_at {temporary, path} d d' \<and> holds_bytes path bytes d'"
  using run \<open>temporary \<noteq> path\<close> unfolding replace_steps_def bindA_result thenA_result
  by (cases r)
     (auto simp: only_at_def holds_bytes_def
       dest!: keeps_filesD [OF assms(2)] throwIfAborted_keeps fs_write_result fs_rename_result)

lemma replace_file_result:
  assumes run: "replace_file host exclusive modeOf path bytes d = (d', r)" and "keeps_files modeOf"
  shows "only_at {temporary_path host path d, path} d d' \<and>
    (files d' path = files d path \<and> (\<exists>e. r = Inl e) \<or> holds_bytes path bytes d') \<and>
    (\<forall>u. r = Inr u \<longrightarrow> files d' (temporary_path host path d) = None)"
proof -
  let ?temp = "temporary_path host path d"
  have temp: "?temp \<noteq> path" by (simp add: temporary_path_def)
  obtain d1 r1 where steps: "replace_steps host exclusive modeOf ?temp path bytes d = (d1, r1)"
    by (cases "replace_steps host exclusive modeOf ?temp path bytes d")
  obtain d2 r2 where rm: "fs_rm host ?temp d1 = (d2, r2)" by (cases "fs_rm host ?temp d1")
  have d': "d' = d2" "r = (case r2 of Inl e \<Rightarrow> Inl e | Inr _ \<Rightarrow> r1)"
    using run steps rm by (auto simp: replace_file_def bindA_eval finally_do_def split: sum.splits)
  show ?thesis
    using replace_steps_result [OF steps assms(2) temp] fs_rm_result [OF rm] d' temp
    by (auto simp: only_at_def holds_bytes_def split: sum.splits)
qed

lemma write_mode_keeps: "keeps_files (write_mode host path)"
  unfolding keeps_files_def write_mode_def
  by (auto simp: catchA_def bindA_eval split: prod.splits sum.splits if_splits dest!: fs_file_result)

lemma edit_mode_keeps: "keeps_files (bindA (fs_file host path) (\<lambda>f. ret (file_mode f mod 512)))"
  unfolding keeps_files_def by (auto simp: bindA_result dest!: fs_file_result)

section \<open>The text that an edit writes\<close>

lemma index_of_Some: "index_of s p = Some i \<Longrightarrow> s = take i s @ p @ drop (i + length p) s"
proof (induction s p arbitrary: i rule: index_of.induct)
  case (2 c s p)
  then show ?case
    by (auto split: if_splits simp: prefix_def)
qed (auto split: if_splits)

lemma count_from_absent: "index_of s p = None \<Longrightarrow> count_from 0 p s = 0"
  by (induction s p rule: index_of.induct) (auto split: if_splits)

lemma substitution_plain: "CHR ''$'' \<notin> set new \<Longrightarrow> get_substitution before matched after new = new"
  by (induction before matched after new rule: get_substitution.induct) auto

lemma join_split_from:
  "old \<noteq> [] \<Longrightarrow> join new (split_from n old cur s) = cur @ replace_from n old new s"
proof (induction n old cur s rule: split_from.induct)
  case (3 sep cur c s)
  have "split_from k sep x s \<noteq> []" for k x
    by (induction k sep x s rule: split_from.induct) auto
  then show ?case
    using 3 by (cases "split_from (length sep - 1) sep [] s") auto
qed auto

lemma edited_all: "old \<noteq> [] \<Longrightarrow> edited True s old new = replace_all s old new"
  by (simp add: edited_def split_str_def replace_all_def join_split_from)

lemma edited_once:
  assumes "CHR ''$'' \<notin> set new" and "countOccurrences s old \<noteq> 0"
  shows "\<exists>pre post. s = pre @ old @ post \<and> edited False s old new = pre @ new @ post"
proof -
  obtain i where i: "index_of s old = Some i"
    using assms(2) count_from_absent by (fastforce simp: countOccurrences_def)
  then show ?thesis
    using index_of_Some [OF i] assms(1) by (auto simp: edited_def replace_first_def substitution_plain)
qed

section \<open>Properties of the tools\<close>

definition temporaries :: "tool_host \<Rightarrow> string \<Rightarrow> string set" where
  "temporaries host path = range (\<lambda>t. path @ ''.'' @ host_uuid host t @ ''.axl-tmp'')"

lemma temporary_in: "temporary_path host path d \<in> temporaries host path"
  by (simp add: temporary_path_def temporaries_def)

definition replaced :: "tool_host \<Rightarrow> string \<Rightarrow> byte list \<Rightarrow> 'r \<Rightarrow> disk \<Rightarrow> disk \<times> (tool_failure + 'r) \<Rightarrow> bool" where
  "replaced host path bytes v d out \<longleftrightarrow>
     only_at (insert path (temporaries host path)) d (fst out) \<and>
     (files (fst out) path = files d path \<or> holds_bytes path bytes (fst out)) \<and>
     (\<forall>w. snd out = Inr w \<longrightarrow> w = v \<and> holds_bytes path bytes (fst out))"

lemma replace_file_replaced:
  assumes "thenA (replace_file host exclusive modeOf path bytes) (ret v) d1 = (d', r)"
    and "keeps_files modeOf" and "files d1 = files d"
  shows "replaced host path bytes v d (d', r)"
proof -
  have "only_at {temporary_path host path d1, path} d1 d' \<Longrightarrow> only_at (insert path (temporaries host path)) d d'"
    using temporary_in [of host path d1] assms(3) unfolding only_at_def by (metis insertE insertI1 insertI2 singletonD)
  then show ?thesis
    using assms(1,3) unfolding thenA_result
    by (auto simp: replaced_def dest!: replace_file_result [OF _ assms(2)])
qed

lemma write_mutate_result:
  assumes "write_mutate host content path d = (d', r)"
  shows "files d' = files d \<and> (\<exists>e. r = Inl e) \<or>
    (\<exists>v. replaced host path (utf8_encode content) v d (d', r))"
proof -
  have call: "fs_call host (ret ()) d = (d', r) \<Longrightarrow> files d' = files d" for d d' r
    by (auto simp: fs_call_def split: option.splits)
  show ?thesis
    using assms unfolding write_mutate_def thenA_result [of "throwIfAborted host"] thenA_result [of "fs_call host (ret ())"]
    by (auto dest!: throwIfAborted_keeps call dest: replace_file_replaced [OF _ write_mode_keeps])
qed

lemma edit_read_result:
  "edit_read host path d = (d', r) \<Longrightarrow>
     files d' = files d \<and> (\<forall>t. r = Inr t \<longrightarrow> (\<exists>f. files d path = Some f \<and> t = host_text host (file_bytes f)))"
  unfolding edit_read_def catchA_def
  by (auto simp: bindA_eval split: prod.splits sum.splits if_splits dest!: fs_file_result)

lemma edit_mutate_result:
  assumes "edit_mutate host oldText newText replaceAll path d = (d', r)"
  shows "files d' = files d \<and> (\<exists>e. r = Inl e) \<or>
    (\<exists>f n. files d path = Some f \<and> n = countOccurrences (host_text host (file_bytes f)) oldText \<and>
       0 < n \<and> (n = 1 \<or> replaceAll) \<and>
       replaced host path (utf8_encode (edited replaceAll (host_text host (file_bytes f)) oldText newText))
         (edit_result path (if replaceAll then n else 1)) d (d', r))"
proof -
  obtain d1 r1 where abort: "throwIfAborted host d = (d1, r1)" by (cases "throwIfAborted host d")
  then have d1: "d1 = d" by (rule throwIfAborted_keeps)
  obtain d2 r2 where read: "edit_read host path d = (d2, r2)" by (cases "edit_read host path d")
  note read' = edit_read_result [OF read]
  show ?thesis
  proof (cases "\<exists>e. r1 = Inl e \<or> r2 = Inl e")
    case True
    then show ?thesis
      using assms abort read read' d1
      by (auto simp: edit_mutate_def thenA_eval bindA_eval split: sum.splits)
  next
    case False
    then obtain f where f: "files d path = Some f" "r2 = Inr (host_text host (file_bytes f))" and r1: "r1 = Inr ()"
      using read' by (cases r1; cases r2) auto
    show ?thesis
      using assms abort read read' d1 r1 f
      by (auto simp: edit_mutate_def thenA_eval [of "throwIfAborted host"] bindA_eval [of "edit_read host path"]
          Let_def thenA_eval [of "throw_if b e" for b e] split: if_splits
          dest!: replace_file_replaced [OF _ edit_mode_keeps])
  qed
qed

lemma utf8_length_simps [simp]:
  "utf8_length [] = 0" "utf8_length (s @ t) = utf8_length s + utf8_length t"
  by (simp_all add: utf8_length_def utf8_encode_def)

lemma utf8_length_newline [simp]: "utf8_length (CHR 0x0A # s) = Suc (utf8_length s)"
  by (simp add: utf8_length_def utf8_encode_def utf8_unit_def code_unit_def)

lemma keep_lines_take: "keep_lines maxBytes bytes ls = take (length (keep_lines maxBytes bytes ls)) ls"
  by (induction maxBytes bytes ls rule: keep_lines.induct) (auto simp: Let_def)

lemma keep_lines_bytes:
  "keep_lines maxBytes bytes ls \<noteq> [] \<Longrightarrow>
     bytes + utf8_length (join [CHR 0x0A] (keep_lines maxBytes bytes ls)) < maxBytes"
proof (induction maxBytes bytes ls rule: keep_lines.induct)
  case (2 maxBytes bytes line rest)
  then show ?case
    by (cases "keep_lines maxBytes (bytes + (utf8_length line + 1)) rest") (auto simp: Let_def split: if_splits)
qed simp

lemma page_lines_take:
  "\<exists>n \<le> limit. page_lines maxBytes offset limit ls = take n (drop (offset - 1) ls)"
proof -
  let ?slice = "take limit (drop (offset - 1) ls)"
  have "keep_lines maxBytes 0 ?slice = take (min (length (keep_lines maxBytes 0 ?slice)) limit) (drop (offset - 1) ls)"
    using keep_lines_take [of maxBytes 0 ?slice] by (simp add: min.commute)
  then show ?thesis
    unfolding page_lines_def Let_def
    by (cases "maxBytes < utf8_length (join [CHR 0x0A] ?slice)") (auto intro: min.cobounded2)
qed

lemma page_lines_bytes: "utf8_length (join [CHR 0x0A] (page_lines maxBytes offset limit ls)) \<le> maxBytes"
  using keep_lines_bytes [of maxBytes 0 "take limit (drop (offset - 1) ls)"]
  by (cases "keep_lines maxBytes 0 (take limit (drop (offset - 1) ls)) = []") (auto simp: page_lines_def Let_def)

lemma slice_Cons:
  "\<lbrakk>0 < offset; offset \<le> length ls; 0 < limit\<rbrakk> \<Longrightarrow>
     take limit (drop (offset - 1) ls) = ls ! (offset - 1) # take (limit - 1) (drop offset ls)"
  by (cases offset; cases limit) (simp_all add: Cons_nth_drop_Suc [symmetric])

lemma page_lines_progress:
  assumes "0 < offset" "offset \<le> length ls" "0 < limit" "utf8_length (ls ! (offset - 1)) < maxBytes"
  shows "page_lines maxBytes offset limit ls \<noteq> []"
  unfolding page_lines_def slice_Cons [OF assms(1-3)] using assms(4) by (simp add: Let_def)

lemma page_lines_overlong:
  assumes "0 < offset" "offset \<le> length ls" "0 < limit" "maxBytes < utf8_length (ls ! (offset - 1))"
  shows "page_lines maxBytes offset limit ls = []"
proof -
  have "utf8_length l \<le> utf8_length (join [CHR 0x0A] (l # ls'))" for l ls'
    by (cases ls') simp_all
  then have "maxBytes < utf8_length (join [CHR 0x0A] (ls ! (offset - 1) # take (limit - 1) (drop offset ls)))"
    using assms(4) less_le_trans by blast
  then show ?thesis
    unfolding page_lines_def slice_Cons [OF assms(1-3)] using assms(4) by (simp add: Let_def)
qed

lemma returns_iff:
  "thenA (optA x throw) k d = (d', Inr v) \<longleftrightarrow> x = None \<and> k d = (d', Inr v)"
  "bindA (lift r) g d = (d', Inr v) \<longleftrightarrow> (\<exists>x. r = Inr x \<and> g x d = (d', Inr v))"
  "bindA (catchA m (\<lambda>e. throw (h e))) g d = (d', Inr v) \<longleftrightarrow> (\<exists>t x. m d = (t, Inr x) \<and> g x t = (d', Inr v))"
  "thenA (throw_if b e) k d = (d', Inr v) \<longleftrightarrow> \<not> b \<and> k d = (d', Inr v)"
  by (auto simp: optA_def thenA_eval bindA_eval catchA_def split: option.splits prod.splits sum.splits)

lemma guards_eval:
  "thenA (optA x throw) k d = (case x of None \<Rightarrow> k d | Some e \<Rightarrow> (d, Inl e))"
  "bindA (lift r) g d = (case r of Inl e \<Rightarrow> (d, Inl e) | Inr y \<Rightarrow> g y d)"
  "thenA (throw_if b e) k d = (if b then (d, Inl e) else k d)"
  by (simp_all add: optA_def thenA_eval bindA_eval split: option.splits sum.splits)

lemma optionalPositiveInteger_positive:
  "optionalPositiveInteger input name key = Inr (Some n) \<Longrightarrow> 0 < n"
  by (auto simp: optionalPositiveInteger_def split: option.splits json.splits jsnum.splits if_splits)

lemma read_tool_returns:
  assumes "read_tool host opts input d = (d', Inr v)"
  shows "\<exists>requested path f offset limit. requiredString input ''read'' ''path'' = Inr requested \<and>
    read_path host opts requested = Inr path \<and> files d path = Some f \<and> files d' = files d \<and>
    0 < offset \<and> limit \<le> opt_maxLines opts \<and>
    v = read_result path (opt_maxBytes opts) offset limit (file_lines (host_text host (file_bytes f)))"
proof -
  obtain requested path o1 l1 f where
    "requiredString input ''read'' ''path'' = Inr requested" "read_path host opts requested = Inr path"
    and o1: "optionalPositiveInteger input ''read'' ''offset'' = Inr o1"
    and f: "fs_file host path d = (d', Inr f)"
    and v: "v = read_result path (opt_maxBytes opts) (case o1 of None \<Rightarrow> 1 | Some n \<Rightarrow> n)
         (min (case l1 of None \<Rightarrow> opt_maxLines opts | Some n \<Rightarrow> n) (opt_maxLines opts))
         (file_lines (host_text host (file_bytes f)))"
    using assms unfolding read_tool_def returns_iff action_eval by blast
  moreover have "0 < (case o1 of None \<Rightarrow> 1 | Some n \<Rightarrow> n)"
    using o1 by (auto split: option.splits dest: optionalPositiveInteger_positive)
  ultimately show ?thesis
    using fs_file_result [OF f] by (metis min.cobounded2)
qed

section \<open>What the tools do\<close>

text \<open>A read shows consecutive lines of the file starting at the requested offset, at most the line
  and byte limits of them, leaves the disk alone, names the last line it showed, and makes progress
  whenever the first line fits the byte limit.\<close>

theorem read_shows_lines:
  assumes "read_tool host opts input d = (d', Inr v)"
  shows "\<exists>path f offset limit shown. files d path = Some f \<and> files d' = files d \<and> 0 < offset \<and>
    (let ls = file_lines (host_text host (file_bytes f)) in
      shown = take (length shown) (drop (offset - 1) ls) \<and> length shown \<le> opt_maxLines opts \<and>
      utf8_length (join [CHR 0x0A] shown) \<le> opt_maxBytes opts \<and>
      (offset \<le> length ls \<and> 0 < limit \<and> utf8_length (ls ! (offset - 1)) < opt_maxBytes opts \<longrightarrow> shown \<noteq> []) \<and>
      v = read_result path (opt_maxBytes opts) offset limit ls \<and>
      res_details v = Some (JObj [(''path'', JStr path), (''totalLines'', json_nat (length ls)),
         (''shownFrom'', json_nat offset), (''shownTo'', json_nat (offset - 1 + length shown))]))"
proof -
  obtain path f offset limit where f: "files d path = Some f" "files d' = files d" "0 < offset" "limit \<le> opt_maxLines opts"
    and v: "v = read_result path (opt_maxBytes opts) offset limit (file_lines (host_text host (file_bytes f)))"
    using read_tool_returns [OF assms] by blast
  let ?ls = "file_lines (host_text host (file_bytes f))"
  let ?shown = "page_lines (opt_maxBytes opts) offset limit ?ls"
  obtain n where "n \<le> limit" "?shown = take n (drop (offset - 1) ?ls)"
    using page_lines_take by blast
  moreover have "xs = take m ys \<Longrightarrow> xs = take (length xs) ys" for m and xs ys :: "string list"
    by (metis append_eq_conv_conj append_take_drop_id)
  ultimately have "?shown = take (length ?shown) (drop (offset - 1) ?ls)" "length ?shown \<le> opt_maxLines opts"
    using f(4) by (blast, simp)
  then show ?thesis
    using f v page_lines_bytes [of "opt_maxBytes opts" offset limit ?ls] page_lines_progress [of offset ?ls limit "opt_maxBytes opts"]
    by (intro exI [of _ path] exI [of _ f] exI [of _ offset] exI [of _ limit] exI [of _ ?shown])
       (simp add: read_result_def Let_def)
qed

text \<open>A line longer than the byte limit stops the reader for good: every read at its offset, with any
  line limit, shows nothing and names the same offset to continue from.\<close>

theorem overlong_line_blocks_reading:
  assumes "0 < offset" "offset \<le> length ls" "0 < limit" "maxBytes < utf8_length (ls ! (offset - 1))"
  shows "res_content (read_result path maxBytes offset limit ls) =
    [Text (''[showing lines '' @ nat_str offset @ ''-'' @ nat_str (offset - 1) @ '' of '' @ nat_str (length ls) @
           ''; continue with offset '' @ nat_str offset @ '']'')]"
  using page_lines_overlong [OF assms] assms(1,2)
  by (cases offset) (simp_all add: read_result_def read_note_def Let_def)

text \<open>Whatever calls fail and whenever the caller aborts, a write leaves the target as it was or with
  the complete new content, touches no other file but its temporaries, and when it succeeds the target
  holds the content.\<close>

theorem write_tool_atomic:
  assumes "write_tool host opts input d = (d', r)"
  shows "files d' = files d \<and> (\<exists>e. r = Inl e) \<or>
    (\<exists>requested content path v. mget input ''path'' = Some (JStr requested) \<and>
       mget input ''content'' = Some (JStr content) \<and> utf8_length content \<le> opt_maxBytes opts \<and>
       mutation_path host opts requested = Inr path \<and>
       replaced host path (utf8_encode content) v d (d', r))"
proof -
  have required: "requiredString input ''write'' ''path'' = Inr q \<Longrightarrow> mget input ''path'' = Some (JStr q)" for q
    by (auto simp: requiredString_def split: option.splits json.splits if_splits)
  show ?thesis
    using assms unfolding write_tool_def
    by (auto simp: guards_eval split: option.splits sum.splits json.splits if_splits
        dest!: write_mutate_result required)
qed


text \<open>The edited text: with \<^verbatim>\<open>replaceAll\<close> every occurrence is replaced, and otherwise the one
  occurrence is, provided the new text has no dollar sign.\<close>

theorem edited_text:
  assumes "oldText \<noteq> []" and "countOccurrences content oldText \<noteq> 0"
  shows "edited True content oldText newText = replace_all content oldText newText \<and>
    (CHR ''$'' \<notin> set newText \<longrightarrow>
       (\<exists>pre post. content = pre @ oldText @ post \<and> edited False content oldText newText = pre @ newText @ post))"
  using edited_all [OF assms(1)] edited_once [OF _ assms(2)] by blast

definition ex_host :: tool_host where
  "ex_host = \<lparr>host_realpath = Inr, host_cwd = ''/'',
     host_text = (\<lambda>bs. case utf8_decode bs of None \<Rightarrow> [] | Some t \<Rightarrow> t),
     host_uuid = nat_str, host_fault = (\<lambda>_. None), host_aborted = (\<lambda>_. False)\<rparr>"

definition ex_options :: tool_options where
  "ex_options = \<lparr>opt_cwd = ''/ws'', opt_policy = None, opt_maxLines = 10, opt_maxBytes = 20\<rparr>"

definition ex_files :: disk where
  "ex_files = \<lparr>files = [''/ws/a'' \<mapsto> \<lparr>file_mode = 420, file_bytes = utf8_encode ''cost 5''\<rparr>], ticks = 0\<rparr>"

definition ex_edit :: "string \<Rightarrow> json_object" where
  "ex_edit new = [(''path'', JStr ''a''), (''oldText'', JStr ''5''), (''newText'', JStr new)]"

definition ex_write :: json_object where
  "ex_write = [(''path'', JStr ''b''), (''content'', JStr ''hi'')]"

text \<open>Without \<^verbatim>\<open>replaceAll\<close> a dollar sign of the new text is not taken literally: an edit that asks for
  \<^verbatim>\<open>$$5\<close> in place of \<^verbatim>\<open>5\<close> reports success and writes \<^verbatim>\<open>$5\<close>.\<close>

theorem edit_expands_dollar:
  "snd (edit_tool ex_host ex_options (ex_edit ''$$5'') ex_files) = Inr (edit_result ''/ws/a'' 1) \<and>
   holds_bytes ''/ws/a'' (utf8_encode ''cost $5'') (fst (edit_tool ex_host ex_options (ex_edit ''$$5'') ex_files))"
  by code_simp


lemma returned: "\<not> isl r \<Longrightarrow> \<exists>v. r = Inr v"
  by (cases r) auto

lemma ex_runs:
  "\<exists>v. snd (write_tool ex_host ex_options ex_write ex_files) = Inr v"
  "\<exists>v. snd (edit_tool ex_host ex_options (ex_edit ''6'') ex_files) = Inr v"
  "\<exists>v. snd (read_tool ex_host ex_options [(''path'', JStr ''a'')] ex_files) = Inr v"
proof -
  show "\<exists>v. snd (write_tool ex_host ex_options ex_write ex_files) = Inr v"
    by (rule returned) code_simp
  show "\<exists>v. snd (edit_tool ex_host ex_options (ex_edit ''6'') ex_files) = Inr v"
    by (rule returned) code_simp
  have "read_path ex_host ex_options ''a'' = Inr ''/ws/a''" "0 \<notin> set (utf8_encode ''cost 5'')"
    "rejectUnknownFields [(''path'', JStr ''a'')] ''read'' [''path'', ''offset'', ''limit''] = None"
    by code_simp+
  then show "\<exists>v. snd (read_tool ex_host ex_options [(''path'', JStr ''a'')] ex_files) = Inr v"
    by (auto simp: read_tool_def guards_eval requiredString_def optionalPositiveInteger_def bindA_eval catchA_def
        fs_file_def fs_call_def tick_disk_def ex_host_def ex_files_def dest: in_set_takeD)
qed

theorem read_shows_lines_witness:
  "files (fst (read_tool ex_host ex_options [(''path'', JStr ''a'')] ex_files)) = files ex_files"
  using ex_runs(3) read_shows_lines [of ex_host ex_options "[(''path'', JStr ''a'')]" ex_files]
  by (metis prod.collapse)

theorem overlong_line_blocks_reading_witness:
  "res_content (read_result ''/ws/a'' 3 2 9 [''a'', ''long'', ''b'']) =
    [Text ''[showing lines 2-1 of 3; continue with offset 2]'']"
proof -
  have "nat_str 1 = ''1''" "nat_str 2 = ''2''" "nat_str (Suc (Suc (Suc 0))) = ''3''" by code_simp+
  moreover have "utf8_length ''long'' = 4" by code_simp
  ultimately show ?thesis
    using overlong_line_blocks_reading [of 2 "[''a'', ''long'', ''b'']" 9 3 "''/ws/a''"] by simp
qed

theorem write_tool_atomic_witness:
  "\<exists>path. only_at (insert path (temporaries ex_host path)) ex_files (fst (write_tool ex_host ex_options ex_write ex_files)) \<and>
     holds_bytes path (utf8_encode ''hi'') (fst (write_tool ex_host ex_options ex_write ex_files))"
  using write_tool_atomic [OF surjective_pairing, of ex_host ex_options ex_write ex_files] ex_runs(1)
  by (auto simp: replaced_def ex_write_def)


theorem edited_text_witness:
  "\<exists>pre post. ''cost 5'' = pre @ ''5'' @ post \<and> edited False ''cost 5'' ''5'' ''6'' = pre @ ''6'' @ post"
proof -
  have "countOccurrences ''cost 5'' ''5'' = 1" by code_simp
  then show ?thesis using edited_text [of "''5''" "''cost 5''" "''6''"] by simp
qed

end
