(* ===== verification/Mutation_Queue.thy ===== *)
theory Mutation_Queue
  imports Prelude
begin

text \<open>
  The queue that serializes file mutations (\<^verbatim>\<open>packages/kernel/src/tools/file-mutation-queue.ts\<close>).

  A mutation is registered under its canonical path, waits for the tail that was current then, runs
  and releases. Registrations are chained, so each one is a single step; the promise of a tail settles
  when the mutation has released and the tail before it has settled. A mutation that throws takes the
  same step as one that returns, because both pass through the \<^verbatim>\<open>finally\<close>. A registration whose path
  is refused leaves the queue alone and is no step.
\<close>

section \<open>Definitions\<close>

datatype mutation_phase = Waiting | Running | Released

record mutation =
  mut_path :: string
  mut_previous :: "nat option"
  mut_phase :: mutation_phase

record mutation_queue =
  queues :: "(string, nat) jsmap"
  mutations :: "mutation list"

definition empty_queue :: mutation_queue where
  "empty_queue = \<lparr>queues = [], mutations = []\<rparr>"

definition register_mutation :: "string \<Rightarrow> mutation_queue \<Rightarrow> mutation_queue" where
  "register_mutation path q =
     \<lparr>queues = mput (queues q) path (length (mutations q)),
      mutations = mutations q @ [\<lparr>mut_path = path, mut_previous = mget (queues q) path, mut_phase = Waiting\<rparr>]\<rparr>"

definition set_phase :: "nat \<Rightarrow> mutation_phase \<Rightarrow> mutation list \<Rightarrow> mutation list" where
  "set_phase i ph ms = ms[i := (ms ! i)\<lparr>mut_phase := ph\<rparr>]"

definition start_mutation :: "nat \<Rightarrow> mutation_queue \<Rightarrow> mutation_queue" where
  "start_mutation i q = q\<lparr>mutations := set_phase i Running (mutations q)\<rparr>"

definition release_mutation :: "nat \<Rightarrow> mutation_queue \<Rightarrow> mutation_queue" where
  "release_mutation i q =
     (let path = mut_path (mutations q ! i) in
      q\<lparr>mutations := set_phase i Released (mutations q),
        queues := (if mget (queues q) path = Some i then mdel (queues q) path else queues q)\<rparr>)"

inductive tail_settled :: "mutation list \<Rightarrow> nat \<Rightarrow> bool" for ms where
  settled: "\<lbrakk>k < length ms; mut_phase (ms ! k) = Released;
     \<And>j. mut_previous (ms ! k) = Some j \<Longrightarrow> tail_settled ms j\<rbrakk> \<Longrightarrow> tail_settled ms k"

definition may_start :: "nat \<Rightarrow> mutation_queue \<Rightarrow> bool" where
  "may_start i q \<longleftrightarrow> i < length (mutations q) \<and> mut_phase (mutations q ! i) = Waiting \<and>
     (\<forall>j. mut_previous (mutations q ! i) = Some j \<longrightarrow> tail_settled (mutations q) j)"

inductive queue_step :: "mutation_queue \<Rightarrow> mutation_queue \<Rightarrow> bool" where
  registers: "queue_step q (register_mutation path q)"
| starts: "may_start i q \<Longrightarrow> queue_step q (start_mutation i q)"
| releases: "\<lbrakk>i < length (mutations q); mut_phase (mutations q ! i) = Running\<rbrakk> \<Longrightarrow> queue_step q (release_mutation i q)"

inductive queue_reachable :: "mutation_queue \<Rightarrow> bool" where
  begins: "queue_reachable empty_queue"
| steps: "queue_reachable q \<Longrightarrow> queue_step q q' \<Longrightarrow> queue_reachable q'"

section \<open>The invariant\<close>

definition on_path :: "mutation list \<Rightarrow> string \<Rightarrow> nat \<Rightarrow> bool" where
  "on_path ms p i \<longleftrightarrow> i < length ms \<and> mut_path (ms ! i) = p"

definition earlier_released :: "mutation list \<Rightarrow> nat \<Rightarrow> bool" where
  "earlier_released ms i \<longleftrightarrow> (\<forall>j < i. on_path ms (mut_path (ms ! i)) j \<longrightarrow> mut_phase (ms ! j) = Released)"

definition chained :: "mutation list \<Rightarrow> nat \<Rightarrow> bool" where
  "chained ms i \<longleftrightarrow>
     (case mut_previous (ms ! i) of
        None \<Rightarrow> earlier_released ms i
      | Some j \<Rightarrow> j < i \<and> on_path ms (mut_path (ms ! i)) j \<and>
          (\<forall>k < i. on_path ms (mut_path (ms ! i)) k \<longrightarrow> k \<le> j))"

definition tail_ok :: "mutation_queue \<Rightarrow> string \<Rightarrow> bool" where
  "tail_ok q p \<longleftrightarrow>
     (case mget (queues q) p of
        None \<Rightarrow> (\<forall>i. on_path (mutations q) p i \<longrightarrow> mut_phase (mutations q ! i) = Released)
      | Some k \<Rightarrow> on_path (mutations q) p k \<and> mut_phase (mutations q ! k) \<noteq> Released \<and>
          (\<forall>i. on_path (mutations q) p i \<longrightarrow> i \<le> k))"

definition queue_inv :: "mutation_queue \<Rightarrow> bool" where
  "queue_inv q \<longleftrightarrow>
     (\<forall>p. tail_ok q p) \<and>
     (\<forall>i < length (mutations q). chained (mutations q) i \<and>
        (mut_phase (mutations q ! i) \<noteq> Waiting \<longrightarrow> earlier_released (mutations q) i))"

lemma set_phase_nth:
  "i < length ms \<Longrightarrow> set_phase i ph ms ! j = (if j = i then (ms ! i)\<lparr>mut_phase := ph\<rparr> else ms ! j)"
  by (simp add: set_phase_def nth_list_update)

lemma set_phase_simps [simp]:
  "length (set_phase i ph ms) = length ms"
  "mut_path (set_phase i ph ms ! j) = mut_path (ms ! j)"
  "mut_previous (set_phase i ph ms ! j) = mut_previous (ms ! j)"
  "on_path (set_phase i ph ms) p j = on_path ms p j"
proof -
  have same: "mut_path (set_phase i ph ms ! j) = mut_path (ms ! j)"
    "mut_previous (set_phase i ph ms ! j) = mut_previous (ms ! j)" for j
  proof -
    have "set_phase i ph ms ! j = ms ! j" if "\<not> i < length ms"
      using that by (simp add: set_phase_def list_update_beyond)
    then show "mut_path (set_phase i ph ms ! j) = mut_path (ms ! j)"
      "mut_previous (set_phase i ph ms ! j) = mut_previous (ms ! j)"
      by (cases "i < length ms"; simp add: set_phase_nth)+
  qed
  then show "mut_path (set_phase i ph ms ! j) = mut_path (ms ! j)"
    "mut_previous (set_phase i ph ms ! j) = mut_previous (ms ! j)" by simp_all
  show "length (set_phase i ph ms) = length ms" by (simp add: set_phase_def)
  then show "on_path (set_phase i ph ms) p j = on_path ms p j" by (simp add: on_path_def same)
qed

lemma queue_parts [simp]:
  "queues (start_mutation i q) = queues q" "mutations (start_mutation i q) = set_phase i Running (mutations q)"
  "mutations (release_mutation i q) = set_phase i Released (mutations q)"
  "queues (register_mutation p q) = mput (queues q) p (length (mutations q))"
  by (simp_all add: start_mutation_def release_mutation_def register_mutation_def Let_def)

text \<open>Releasing or starting a mutation only adds released mutations.\<close>

lemma earlier_released_mono:
  assumes "earlier_released ms i" "j < length ms" "mut_phase (ms ! j) \<noteq> Released"
  shows "earlier_released (set_phase j ph ms) i"
  using assms by (auto simp: earlier_released_def set_phase_nth on_path_def)

lemma chained_mono:
  assumes "chained ms i" "j < length ms" "mut_phase (ms ! j) \<noteq> Released"
  shows "chained (set_phase j ph ms) i"
  using assms earlier_released_mono [OF _ assms(2,3)] by (auto simp: chained_def split: option.splits)

lemma settled_released:
  "tail_settled ms k \<Longrightarrow> k < length ms \<and> mut_phase (ms ! k) = Released"
  by (induction rule: tail_settled.induct) simp

lemma released_settled:
  assumes "queue_inv q" "k < length (mutations q)" "mut_phase (mutations q ! k) = Released"
  shows "tail_settled (mutations q) k"
  using assms(2,3)
proof (induction k rule: less_induct)
  case (less k)
  show ?case
  proof (rule settled)
    fix j assume j: "mut_previous (mutations q ! k) = Some j"
    have "chained (mutations q) k" "earlier_released (mutations q) k"
      using assms(1) less.prems by (auto simp: queue_inv_def)
    then have "j < k" "j < length (mutations q)" "mut_phase (mutations q ! j) = Released"
      using j by (auto simp: chained_def earlier_released_def on_path_def)
    then show "tail_settled (mutations q) j" by (rule less.IH)
  qed (use less.prems in auto)
qed

lemma may_start_earlier:
  assumes "queue_inv q" "may_start i q"
  shows "earlier_released (mutations q) i"
proof (cases "mut_previous (mutations q ! i)")
  case None
  then show ?thesis using assms by (auto simp: queue_inv_def may_start_def chained_def)
next
  case (Some j)
  then have j: "j < length (mutations q)" "mut_phase (mutations q ! j) = Released"
    using assms(2) by (auto simp: may_start_def dest: settled_released)
  have chain: "chained (mutations q) i" and before: "earlier_released (mutations q) j"
    using assms j by (auto simp: queue_inv_def may_start_def)
  show ?thesis
    unfolding earlier_released_def
  proof (intro allI impI)
    fix k assume "k < i" "on_path (mutations q) (mut_path (mutations q ! i)) k"
    then have "k \<le> j" "on_path (mutations q) (mut_path (mutations q ! j)) k"
      using chain Some by (auto simp: chained_def on_path_def)
    then show "mut_phase (mutations q ! k) = Released"
      using before j by (cases "k = j") (auto simp: earlier_released_def)
  qed
qed

lemma on_path_snoc:
  "on_path (ms @ [m]) p i \<longleftrightarrow> on_path ms p i \<or> i = length ms \<and> mut_path m = p"
  by (auto simp: on_path_def nth_append less_Suc_eq)

lemma on_path_bound: "on_path ms p i \<Longrightarrow> i < length ms"
  by (simp add: on_path_def)

lemma earlier_released_snoc: "i < length ms \<Longrightarrow> earlier_released (ms @ [m]) i = earlier_released ms i"
  by (auto simp: earlier_released_def on_path_snoc nth_append)

lemma chained_snoc: "i < length ms \<Longrightarrow> chained (ms @ [m]) i = chained ms i"
  by (auto simp: chained_def on_path_snoc earlier_released_snoc nth_append dest: on_path_bound split: option.splits)

lemma register_inv:
  assumes "queue_inv q"
  shows "queue_inv (register_mutation p q)"
proof -
  define ms where "ms = mutations q"
  define m where "m = \<lparr>mut_path = p, mut_previous = mget (queues q) p, mut_phase = Waiting\<rparr>"
  have new: "mutations (register_mutation p q) = ms @ [m]"
    by (simp add: register_mutation_def ms_def m_def)
  have m: "mut_path m = p" "mut_previous m = mget (queues q) p" "mut_phase m = Waiting" by (simp_all add: m_def)
  have tails: "tail_ok q r" for r using assms by (simp add: queue_inv_def)
  have phase: "on_path ms r i \<Longrightarrow> (ms @ [m]) ! i = ms ! i" for r i by (simp add: nth_append on_path_def)
  have "tail_ok (register_mutation p q) r" for r
    using tails [of r] unfolding tail_ok_def new
    by (auto simp: on_path_snoc m phase ms_def [symmetric] split: option.splits dest: on_path_bound)
  moreover have "chained (ms @ [m]) (length ms)"
    using tails [of p] unfolding tail_ok_def ms_def [symmetric]
    by (auto simp: chained_def m on_path_snoc earlier_released_def phase split: option.splits dest: on_path_bound)
  then have "chained (ms @ [m]) i \<and> (mut_phase ((ms @ [m]) ! i) \<noteq> Waiting \<longrightarrow> earlier_released (ms @ [m]) i)"
    if "i < length (ms @ [m])" for i
    using assms that unfolding queue_inv_def ms_def [symmetric]
    by (cases "i = length ms") (auto simp: m chained_snoc earlier_released_snoc nth_append)
  ultimately show ?thesis unfolding queue_inv_def new by blast
qed

lemma start_inv:
  assumes inv: "queue_inv q" and start: "may_start i q"
  shows "queue_inv (start_mutation i q)"
proof -
  have i: "i < length (mutations q)" "mut_phase (mutations q ! i) = Waiting"
    using start by (auto simp: may_start_def)
  have tails: "tail_ok q p" for p using inv by (simp add: queue_inv_def)
  have "tail_ok (start_mutation i q) p" for p
    using tails [of p] i by (cases "mget (queues q) p") (auto simp: tail_ok_def set_phase_nth)
  moreover have "chained (set_phase i Running (mutations q)) j \<and>
      (mut_phase (set_phase i Running (mutations q) ! j) \<noteq> Waiting \<longrightarrow> earlier_released (set_phase i Running (mutations q)) j)"
    if "j < length (mutations q)" for j
    using inv that i may_start_earlier [OF inv start] unfolding queue_inv_def
    by (auto simp: set_phase_nth intro!: chained_mono earlier_released_mono)
  ultimately show ?thesis unfolding queue_inv_def queue_parts set_phase_simps by blast
qed

lemma release_inv:
  assumes inv: "queue_inv q" and i: "i < length (mutations q)" "mut_phase (mutations q ! i) = Running"
  shows "queue_inv (release_mutation i q)"
proof -
  let ?path = "mut_path (mutations q ! i)"
  have before: "earlier_released (mutations q) i" using inv i by (simp add: queue_inv_def)
  have tails: "tail_ok q p" for p using inv by (simp add: queue_inv_def)
  have "tail_ok (release_mutation i q) p" for p
  proof (cases "mget (queues q) ?path = Some i \<and> p = ?path")
    case True
    then have "mget (queues (release_mutation i q)) p = None"
      by (simp add: release_mutation_def Let_def)
    then show ?thesis
      using True tails [of p] before i
      by (auto simp: tail_ok_def set_phase_nth earlier_released_def)
  next
    case False
    then have "mget (queues (release_mutation i q)) p = mget (queues q) p"
      by (auto simp: release_mutation_def Let_def)
    then show ?thesis
      using False tails [of p] i by (auto simp: tail_ok_def set_phase_nth on_path_def split: option.splits)
  qed
  moreover have "chained (set_phase i Released (mutations q)) j \<and>
      (mut_phase (set_phase i Released (mutations q) ! j) \<noteq> Waiting \<longrightarrow> earlier_released (set_phase i Released (mutations q)) j)"
    if "j < length (mutations q)" for j
    using inv that i before unfolding queue_inv_def
    by (auto simp: set_phase_nth intro!: chained_mono earlier_released_mono split: if_splits)
  ultimately show ?thesis unfolding queue_inv_def queue_parts set_phase_simps by blast
qed

lemma reachable_inv: "queue_reachable q \<Longrightarrow> queue_inv q"
proof (induction rule: queue_reachable.induct)
  case begins
  then show ?case by (simp add: queue_inv_def tail_ok_def empty_queue_def on_path_def)
next
  case (steps q q')
  from steps(2,3) show ?case
    by (cases rule: queue_step.cases) (auto intro: register_inv start_inv release_inv)
qed

section \<open>Properties\<close>

text \<open>C25: Mutations of one file never overlap and run in the order of their registration: when one of
  them runs or has run, every earlier one of the same path has released.\<close>

theorem mutations_serialized:
  assumes "queue_reachable q" and "i < j" and "j < length (mutations q)"
    and "mut_path (mutations q ! i) = mut_path (mutations q ! j)" and "mut_phase (mutations q ! j) \<noteq> Waiting"
  shows "mut_phase (mutations q ! i) = Released"
proof -
  have "earlier_released (mutations q) j"
    using reachable_inv [OF assms(1)] assms(3,5) by (simp add: queue_inv_def)
  then show ?thesis
    using assms by (simp add: earlier_released_def on_path_def)
qed

text \<open>C26: The queue never deadlocks: while a mutation of a path has not released, the earliest such one
  is running or may start, whatever mutations of other files do. The map of tails holds exactly the
  paths with unfinished mutations, so it does not grow with finished work.\<close>

theorem mutations_progress:
  assumes "queue_reachable q"
  shows "((\<exists>i. on_path (mutations q) p i \<and> mut_phase (mutations q ! i) \<noteq> Released) \<longrightarrow>
      (\<exists>i. on_path (mutations q) p i \<and> (mut_phase (mutations q ! i) = Running \<or> may_start i q))) \<and>
    (mhas (queues q) p \<longleftrightarrow> (\<exists>i. on_path (mutations q) p i \<and> mut_phase (mutations q ! i) \<noteq> Released))"
proof
  have inv: "queue_inv q" by (rule reachable_inv [OF assms])
  then show "mhas (queues q) p \<longleftrightarrow> (\<exists>i. on_path (mutations q) p i \<and> mut_phase (mutations q ! i) \<noteq> Released)"
    unfolding queue_inv_def tail_ok_def mhas_def by (auto split: option.splits)
  show "(\<exists>i. on_path (mutations q) p i \<and> mut_phase (mutations q ! i) \<noteq> Released) \<longrightarrow>
      (\<exists>i. on_path (mutations q) p i \<and> (mut_phase (mutations q ! i) = Running \<or> may_start i q))"
  proof
    let ?open = "\<lambda>i. on_path (mutations q) p i \<and> mut_phase (mutations q ! i) \<noteq> Released"
    assume "\<exists>i. ?open i"
    then have first: "?open (LEAST i. ?open i)" by (rule LeastI_ex)
    define i where "i = (LEAST i. ?open i)"
    have i: "?open i" using first by (simp add: i_def)
    have least: "j < i \<Longrightarrow> \<not> ?open j" for j unfolding i_def by (rule not_less_Least)
    have "may_start i q" if waiting: "mut_phase (mutations q ! i) = Waiting"
      unfolding may_start_def
    proof (intro conjI allI impI)
      fix j assume "mut_previous (mutations q ! i) = Some j"
      moreover have "chained (mutations q) i" using inv i by (simp add: queue_inv_def on_path_def)
      ultimately have "j < i" "on_path (mutations q) p j" using i by (auto simp: chained_def on_path_def)
      then show "tail_settled (mutations q) j"
        using least [of j] by (intro released_settled [OF inv]) (auto simp: on_path_def)
    qed (use i waiting in \<open>auto simp: on_path_def\<close>)
    then show "\<exists>i. on_path (mutations q) p i \<and> (mut_phase (mutations q ! i) = Running \<or> may_start i q)"
      using i by (cases "mut_phase (mutations q ! i)") auto
  qed
qed

definition ex_queue :: mutation_queue where
  "ex_queue = start_mutation 0 (register_mutation ''a'' (register_mutation ''a'' empty_queue))"

lemma ex_queue_eval:
  "ex_queue = \<lparr>queues = [(''a'', 1)], mutations =
     [\<lparr>mut_path = ''a'', mut_previous = None, mut_phase = Running\<rparr>,
      \<lparr>mut_path = ''a'', mut_previous = Some 0, mut_phase = Waiting\<rparr>]\<rparr>"
  by (simp add: ex_queue_def start_mutation_def register_mutation_def set_phase_def empty_queue_def)

lemma ex_queue_reachable: "queue_reachable ex_queue"
proof -
  have two: "queue_reachable (register_mutation ''a'' (register_mutation ''a'' empty_queue))"
    by (intro steps [OF steps [OF begins registers] registers])
  have "may_start 0 (register_mutation ''a'' (register_mutation ''a'' empty_queue))"
    by (simp add: may_start_def register_mutation_def empty_queue_def)
  then show ?thesis
    unfolding ex_queue_def by (rule steps [OF two starts])
qed

lemma ex_released: "queue_reachable (release_mutation 0 ex_queue)"
  by (rule steps [OF ex_queue_reachable releases]) (simp_all add: ex_queue_eval)

lemma ex_next: "queue_reachable (start_mutation 1 (release_mutation 0 ex_queue))"
proof (rule steps [OF ex_released starts])
  show "may_start 1 (release_mutation 0 ex_queue)"
    using released_settled [OF reachable_inv [OF ex_released], of 0]
    by (simp add: may_start_def ex_queue_eval release_mutation_def set_phase_def Let_def)
qed

theorem mutations_serialized_witness:
  "mut_phase (mutations (start_mutation 1 (release_mutation 0 ex_queue)) ! 0) = Released"
  by (rule mutations_serialized [OF ex_next, of 0 1])
     (simp_all add: ex_queue_eval release_mutation_def start_mutation_def set_phase_def Let_def)

theorem mutations_progress_witness:
  "\<exists>i. on_path (mutations ex_queue) ''a'' i \<and> (mut_phase (mutations ex_queue ! i) = Running \<or> may_start i ex_queue)"
proof -
  have "on_path (mutations ex_queue) ''a'' 1 \<and> mut_phase (mutations ex_queue ! 1) \<noteq> Released"
    by (simp add: ex_queue_eval on_path_def)
  then show ?thesis using mutations_progress [OF ex_queue_reachable, of "''a''"] by blast
qed

end
