(* ===== verification/Command_Journal.thy ===== *)
theory Command_Journal
  imports Framing Event_Envelope
begin

text \<open>
  The daemon's command journal (\<^verbatim>\<open>packages/daemon/src/command-journal.ts\<close>), which makes mutating
  requests idempotent across retries and restarts: a request is accepted durably under its idempotency
  key, its effect runs once, and the outcome is stored and answered to every retry.

  The journal file is a sequence of bytes. Appends are queued, so each is one step; it succeeds, or it
  fails with some of its bytes in the file. Parameters: the lenient UTF-8 decoder \<open>toText\<close>, and the
  validator \<open>parseRpcResult\<close> of the wire schemas, which the journal only calls.
\<close>

section \<open>Records\<close>

definition RETRYABLE_MUTATION_METHODS :: "string list" where
  "RETRYABLE_MUTATION_METHODS =
     [''session.create'', ''session.fork'', ''session.clone'', ''session.rename'', ''session.delete'',
      ''session.import'', ''session.send'', ''session.interruptAndDeliver'', ''session.queue.enqueue'',
      ''session.queue.requeue'', ''session.interrupt'', ''session.reload'', ''session.configure'',
      ''session.interaction.respond'', ''session.dispose'']"

definition isRetryableMutationMethod :: "string \<Rightarrow> bool" where
  "isRetryableMutationMethod method \<longleftrightarrow> method \<in> set RETRYABLE_MUTATION_METHODS"

definition RETRYABLE_RPC_ERROR_CODES :: "string list" where
  "RETRYABLE_RPC_ERROR_CODES =
     [''rate_limited'', ''git_timeout'', ''too_many_uploads'', ''blob_write_failed'', ''blob_read_failed'']"

definition isRpcErrorRetryable :: "string \<Rightarrow> bool" where
  "isRpcErrorRetryable code \<longleftrightarrow> code \<in> set RETRYABLE_RPC_ERROR_CODES"

record command_failure =
  fail_code :: string
  fail_message :: string
  fail_retryable :: bool
  fail_details :: "json_object option"

record command_acceptance =
  acc_key :: string
  acc_method :: string
  acc_requestHash :: string
  acc_targetSessionId :: "string option"
  acc_intendedSessionId :: "string option"
  acc_affectedOperationId :: "string option"
  acc_interactionId :: "string option"
  acc_operationId :: string
  acc_acceptedAt :: int

datatype command_completion =
    Succeeded (comp_key: string) (comp_result: "json option") (comp_completedAt: int)
  | Failed (comp_key: string) (comp_error: command_failure) (comp_completedAt: int)

datatype command_record = Accepted command_acceptance | Completion command_completion

datatype effect_phase = Executing | Settled

record command_entry =
  entry_acceptance :: command_acceptance
  entry_completion :: "command_completion option"
  entry_running :: "effect_phase option"

datatype record_error = RecordError string | RecordInvalid protocol_error

datatype journal_error =
    CorruptJournal record_error
  | DuplicateAcceptance string
  | UnmatchedCompletion string
  | StoredResultInvalid protocol_error
  | JournalIo string
  | CommandJournalError (cj_code: string) (cj_message: string) (cj_retryable: bool) (cj_details: "json_object option")

section \<open>Parsing records\<close>

definition journal_object :: "json option \<Rightarrow> string \<Rightarrow> record_error + json_object" where
  "journal_object v path =
     (case v of Some (JObj kvs) \<Rightarrow> Inr kvs | _ \<Rightarrow> Inl (RecordError (path @ '' must be an object'')))"

definition journal_exact :: "json_object \<Rightarrow> string \<Rightarrow> string list \<Rightarrow> record_error option" where
  "journal_exact v path keys =
     first_error (map (\<lambda>k. require (k \<in> set keys) (RecordError (path @ ''.'' @ k @ '' is not allowed''))) (mkeys v))"

definition journal_timestamp :: "json option \<Rightarrow> string \<Rightarrow> record_error + int" where
  "journal_timestamp v path =
     (case v of
        Some (JNum (JInt i)) \<Rightarrow>
          if is_safe_integer (JInt i) \<and> 0 \<le> i then Inr i
          else Inl (RecordError (path @ '' must be a non-negative safe integer''))
      | _ \<Rightarrow> Inl (RecordError (path @ '' must be a non-negative safe integer'')))"

definition non_empty_string :: "json option \<Rightarrow> string \<Rightarrow> record_error + string" where
  "non_empty_string v path =
     (case v of
        Some (JStr s) \<Rightarrow> if s \<noteq> [] then Inr s else Inl (RecordError (path @ '' must be a non-empty string''))
      | _ \<Rightarrow> Inl (RecordError (path @ '' must be a non-empty string'')))"

definition parseFailure :: "json option \<Rightarrow> string \<Rightarrow> record_error + command_failure" where
  "parseFailure v path =
     bindE (journal_object v path) (\<lambda>error.
     bindE (run_checks [journal_exact error path [''code'', ''message'', ''retryable'', ''details'']] ()) (\<lambda>_.
     bindE (non_empty_string (mget error ''code'') (path @ ''.code'')) (\<lambda>code.
     bindE (non_empty_string (mget error ''message'') (path @ ''.message'')) (\<lambda>message.
     bindE (case mget error ''retryable'' of
              Some (JBool b) \<Rightarrow> Inr ()
            | _ \<Rightarrow> Inl (RecordError (path @ ''.retryable must be boolean''))) (\<lambda>_.
     bindE (case mget error ''details'' of
              None \<Rightarrow> Inr None
            | Some (JObj d) \<Rightarrow> Inr (Some d)
            | _ \<Rightarrow> Inl (RecordError (path @ ''.details must be an object''))) (\<lambda>details.
     Inr \<lparr>fail_code = code, fail_message = message, fail_retryable = isRpcErrorRetryable code,
          fail_details = details\<rparr>))))))"

definition is_request_hash :: "string \<Rightarrow> bool" where
  "is_request_hash s \<longleftrightarrow> length s = 64 \<and> list_all is_lower_hex s"

definition optional_field :: "(json option \<Rightarrow> record_error + 'a) \<Rightarrow> json option \<Rightarrow> record_error + 'a option" where
  "optional_field parse v = (case v of None \<Rightarrow> Inr None | Some _ \<Rightarrow> map_sum id Some (parse v))"

definition record_id :: "string \<Rightarrow> json option \<Rightarrow> record_error + string" where
  "record_id path v = map_sum RecordInvalid id (parseOperationId v path)"

definition record_session :: "string \<Rightarrow> json option \<Rightarrow> record_error + string" where
  "record_session path v = map_sum RecordInvalid id (parseSessionId v path)"

definition record_string :: "(string \<Rightarrow> bool) \<Rightarrow> string \<Rightarrow> json option \<Rightarrow> record_error + string" where
  "record_string ok message v =
     (case v of Some (JStr s) \<Rightarrow> if ok s then Inr s else Inl (RecordError message) | _ \<Rightarrow> Inl (RecordError message))"

definition parse_acceptance :: "json_object \<Rightarrow> string \<Rightarrow> string \<Rightarrow> record_error + command_record" where
  "parse_acceptance rec path key =
     bindE (run_checks [journal_exact rec path [''version'', ''type'', ''idempotencyKey'', ''method'', ''requestHash'',
       ''targetSessionId'', ''intendedSessionId'', ''affectedOperationId'', ''interactionId'', ''operationId'',
       ''acceptedAt'']] ()) (\<lambda>_.
     bindE (record_string isRetryableMutationMethod (path @ ''.method must be a retryable mutation'') (mget rec ''method'')) (\<lambda>method.
     bindE (record_string is_request_hash (path @ ''.requestHash must be a lowercase SHA-256 digest'') (mget rec ''requestHash'')) (\<lambda>hash.
     bindE (optional_field (record_session (path @ ''.targetSessionId'')) (mget rec ''targetSessionId'')) (\<lambda>target.
     bindE (optional_field (record_session (path @ ''.intendedSessionId'')) (mget rec ''intendedSessionId'')) (\<lambda>intended.
     bindE (optional_field (record_id (path @ ''.affectedOperationId'')) (mget rec ''affectedOperationId'')) (\<lambda>affected.
     bindE (optional_field (\<lambda>v. non_empty_string v (path @ ''.interactionId'')) (mget rec ''interactionId'')) (\<lambda>interaction.
     bindE (record_id (path @ ''.operationId'') (mget rec ''operationId'')) (\<lambda>operation.
     bindE (journal_timestamp (mget rec ''acceptedAt'') (path @ ''.acceptedAt'')) (\<lambda>at.
     Inr (Accepted \<lparr>acc_key = key, acc_method = method, acc_requestHash = hash, acc_targetSessionId = target,
       acc_intendedSessionId = intended, acc_affectedOperationId = affected, acc_interactionId = interaction,
       acc_operationId = operation, acc_acceptedAt = at\<rparr>))))))))))"

definition record_path :: "nat \<Rightarrow> string" where
  "record_path line = ''command journal line '' @ nat_str line"

definition parseRecord :: "json \<Rightarrow> nat \<Rightarrow> record_error + command_record" where
  "parseRecord v line =
     (let path = record_path line in
      bindE (journal_object (Some v) path) (\<lambda>rec.
      bindE (run_checks [require (mget rec ''version'' = Some (JNum (JInt 1))) (RecordError (path @ ''.version must be 1''))] ()) (\<lambda>_.
      bindE (record_id (path @ ''.idempotencyKey'') (mget rec ''idempotencyKey'')) (\<lambda>key.
      if mget rec ''type'' = Some (JStr ''accepted'') then parse_acceptance rec path key
      else if mget rec ''type'' = Some (JStr ''succeeded'') then
        bindE (run_checks [journal_exact rec path [''version'', ''type'', ''idempotencyKey'', ''result'', ''completedAt'']] ()) (\<lambda>_.
        bindE (journal_timestamp (mget rec ''completedAt'') (path @ ''.completedAt'')) (\<lambda>at.
        Inr (Completion (Succeeded key (mget rec ''result'') at))))
      else if mget rec ''type'' = Some (JStr ''failed'') then
        bindE (run_checks [journal_exact rec path [''version'', ''type'', ''idempotencyKey'', ''error'', ''completedAt'']] ()) (\<lambda>_.
        bindE (parseFailure (mget rec ''error'') (path @ ''.error'')) (\<lambda>failure.
        bindE (journal_timestamp (mget rec ''completedAt'') (path @ ''.completedAt'')) (\<lambda>at.
        Inr (Completion (Failed key failure at)))))
      else Inl (RecordError (path @ ''.type is unknown''))))))"

section \<open>Writing records\<close>

definition opt_member :: "string \<Rightarrow> json option \<Rightarrow> json_object" where
  "opt_member k v = (case v of None \<Rightarrow> [] | Some j \<Rightarrow> [(k, j)])"

definition failure_json :: "command_failure \<Rightarrow> json_object" where
  "failure_json f =
     [(''code'', JStr (fail_code f)), (''message'', JStr (fail_message f)), (''retryable'', JBool (fail_retryable f))] @
     opt_member ''details'' (map_option JObj (fail_details f))"

fun record_json :: "command_record \<Rightarrow> json_object" where
  "record_json (Accepted a) =
     [(''version'', JNum (JInt 1)), (''type'', JStr ''accepted''), (''idempotencyKey'', JStr (acc_key a)),
      (''method'', JStr (acc_method a)), (''requestHash'', JStr (acc_requestHash a))] @
     opt_member ''targetSessionId'' (map_option JStr (acc_targetSessionId a)) @
     opt_member ''intendedSessionId'' (map_option JStr (acc_intendedSessionId a)) @
     opt_member ''affectedOperationId'' (map_option JStr (acc_affectedOperationId a)) @
     opt_member ''interactionId'' (map_option JStr (acc_interactionId a)) @
     [(''operationId'', JStr (acc_operationId a)), (''acceptedAt'', JNum (JInt (acc_acceptedAt a)))]"
| "record_json (Completion (Succeeded key result at)) =
     [(''version'', JNum (JInt 1)), (''type'', JStr ''succeeded''), (''idempotencyKey'', JStr key)] @
     opt_member ''result'' result @ [(''completedAt'', JNum (JInt at))]"
| "record_json (Completion (Failed key failure at)) =
     [(''version'', JNum (JInt 1)), (''type'', JStr ''failed''), (''idempotencyKey'', JStr key),
      (''error'', JObj (failure_json failure)), (''completedAt'', JNum (JInt at))]"

definition record_bytes :: "command_record \<Rightarrow> byte list" where
  "record_bytes r = utf8_encode (json_text (JObj (record_json r)))"

datatype append_outcome = AppendOk | AppendFails string nat

definition appendSynced :: "append_outcome \<Rightarrow> command_record \<Rightarrow> byte list \<Rightarrow> journal_error option \<times> byte list" where
  "appendSynced outcome r file =
     (let line = record_bytes r @ [0x0A] in
      case outcome of
        AppendOk \<Rightarrow> (None, file @ line)
      | AppendFails e n \<Rightarrow> (Some (JournalIo e), file @ take n line))"

section \<open>The journal\<close>

record command_journal =
  jr_entries :: "(string, command_entry) jsmap"
  jr_file :: "byte list"
  jr_started :: "string list"

type_synonym rpc_validator = "string \<Rightarrow> json option \<Rightarrow> protocol_error + json option"

definition replay_record :: "rpc_validator \<Rightarrow> (string, command_entry) jsmap \<Rightarrow> command_record \<Rightarrow>
    journal_error + (string, command_entry) jsmap" where
  "replay_record parseRpcResult entries r =
     (case r of
        Accepted a \<Rightarrow>
          if mhas entries (acc_key a) then Inl (DuplicateAcceptance (acc_key a))
          else Inr (mput entries (acc_key a) \<lparr>entry_acceptance = a, entry_completion = None, entry_running = None\<rparr>)
      | Completion c \<Rightarrow>
          (case mget entries (comp_key c) of
             None \<Rightarrow> Inl (UnmatchedCompletion (comp_key c))
           | Some entry \<Rightarrow>
               if entry_completion entry \<noteq> None then Inl (UnmatchedCompletion (comp_key c))
               else
                 bindE (case c of
                          Succeeded _ result _ \<Rightarrow>
                            map_sum StoredResultInvalid (\<lambda>_. ()) (parseRpcResult (acc_method (entry_acceptance entry)) result)
                        | Failed _ _ _ \<Rightarrow> Inr ()) (\<lambda>_.
                 Inr (mput entries (comp_key c) (entry\<lparr>entry_completion := Some c\<rparr>)))))"

definition decode_record :: "(byte list \<Rightarrow> string) \<Rightarrow> nat \<Rightarrow> byte list \<Rightarrow> journal_error + command_record" where
  "decode_record toText line bytes =
     (case json_parse (toText bytes) of
        None \<Rightarrow> Inl (CorruptJournal (RecordError ''JSON''))
      | Some v \<Rightarrow> map_sum CorruptJournal id (parseRecord v line))"

definition replay_line :: "(byte list \<Rightarrow> string) \<Rightarrow> rpc_validator \<Rightarrow> (string, command_entry) jsmap \<Rightarrow> nat \<times> byte list \<Rightarrow>
    journal_error + (string, command_entry) jsmap" where
  "replay_line toText parseRpcResult entries = (\<lambda>(index, line).
     if line = [] then Inr entries
     else bindE (decode_record toText (index + 1) line) (replay_record parseRpcResult entries))"

text \<open>The complete lines of a file; what follows the last newline is cut off.\<close>

fun complete_lines :: "byte list \<Rightarrow> byte list \<Rightarrow> byte list list" where
  "complete_lines cur [] = []"
| "complete_lines cur (b # bs) =
     (if b = 0x0A then cur # complete_lines [] bs else complete_lines (cur @ [b]) bs)"

definition clean_length :: "byte list \<Rightarrow> nat" where
  "clean_length bytes = length bytes - length (takeWhile (\<lambda>b. b \<noteq> 0x0A) (rev bytes))"

definition journal_open :: "(byte list \<Rightarrow> string) \<Rightarrow> rpc_validator \<Rightarrow> byte list \<Rightarrow> journal_error + command_journal" where
  "journal_open toText parseRpcResult bytes =
     bindE (foldE (replay_line toText parseRpcResult) [] (indexed (complete_lines [] bytes))) (\<lambda>entries.
     Inr \<lparr>jr_entries = entries, jr_file = take (clean_length bytes) bytes, jr_started = []\<rparr>)"

record command_input =
  in_key :: string
  in_method :: string
  in_requestHash :: string
  in_targetSessionId :: "string option"
  in_intendedSessionId :: "string option"
  in_affectedOperationId :: "string option"
  in_interactionId :: "string option"

definition acceptance_of :: "command_input \<Rightarrow> int \<Rightarrow> command_acceptance" where
  "acceptance_of input now =
     \<lparr>acc_key = in_key input, acc_method = in_method input, acc_requestHash = in_requestHash input,
      acc_targetSessionId = in_targetSessionId input, acc_intendedSessionId = in_intendedSessionId input,
      acc_affectedOperationId = in_affectedOperationId input, acc_interactionId = in_interactionId input,
      acc_operationId = in_key input, acc_acceptedAt = now\<rparr>"

definition journal_accept :: "command_input \<Rightarrow> int \<Rightarrow> append_outcome \<Rightarrow> command_journal \<Rightarrow>
    command_journal \<times> (journal_error + command_entry)" where
  "journal_accept input now outcome j =
     (case mget (jr_entries j) (in_key input) of
        Some existing \<Rightarrow>
          if acc_method (entry_acceptance existing) \<noteq> in_method input \<or>
             acc_requestHash (entry_acceptance existing) \<noteq> in_requestHash input
          then (j, Inl (CommandJournalError ''idempotency_conflict''
                 ''The idempotency key is already bound to another request'' False None))
          else (j, Inr existing)
      | None \<Rightarrow>
          (let acceptance = acceptance_of input now;
               entry = \<lparr>entry_acceptance = acceptance, entry_completion = None, entry_running = None\<rparr> in
           case appendSynced outcome (Accepted acceptance) (jr_file j) of
             (Some e, file) \<Rightarrow> (j\<lparr>jr_file := file\<rparr>, Inl e)
           | (None, file) \<Rightarrow> (j\<lparr>jr_file := file, jr_entries := mput (jr_entries j) (in_key input) entry\<rparr>, Inr entry)))"

text \<open>What the continuation of \<^verbatim>\<open>accept\<close> does with the entry it got.\<close>

datatype command_answer = Answered "journal_error + json option" | Joined | Started

definition failure_error :: "command_failure \<Rightarrow> journal_error" where
  "failure_error f = CommandJournalError (fail_code f) (fail_message f) (fail_retryable f) (fail_details f)"

definition journal_dispatch :: "rpc_validator \<Rightarrow> string \<Rightarrow> string \<Rightarrow> command_entry \<Rightarrow> command_journal \<Rightarrow>
    command_journal \<times> command_answer" where
  "journal_dispatch parseRpcResult key method entry j =
     (case entry_completion entry of
        Some (Succeeded _ result _) \<Rightarrow> (j, Answered (map_sum StoredResultInvalid id (parseRpcResult method result)))
      | Some (Failed _ f _) \<Rightarrow> (j, Answered (Inl (failure_error f)))
      | None \<Rightarrow>
          (if entry_running entry \<noteq> None then (j, Joined)
           else (j\<lparr>jr_entries := mput (jr_entries j) key (entry\<lparr>entry_running := Some Executing\<rparr>),
                   jr_started := jr_started j @ [key]\<rparr>, Started)))"

text \<open>How the effect ends: it returns a value, or throws an error with what it carries.\<close>

datatype effect_end =
    Returns "json option"
  | Throws (thrown_code: "string option") (thrown_message: "string option") (thrown_details: "json_object option")

definition failure_of :: "string option \<Rightarrow> string option \<Rightarrow> json_object option \<Rightarrow> command_failure" where
  "failure_of code message details =
     (let c = (case code of None \<Rightarrow> ''internal_error'' | Some x \<Rightarrow> x) in
      \<lparr>fail_code = c, fail_message = (case message of None \<Rightarrow> ''Request failed'' | Some m \<Rightarrow> m),
       fail_retryable = isRpcErrorRetryable c, fail_details = details\<rparr>)"

definition store_completion :: "command_completion \<Rightarrow> append_outcome \<Rightarrow> command_entry \<Rightarrow> command_journal \<Rightarrow>
    command_journal \<times> journal_error option" where
  "store_completion c outcome entry j =
     (case appendSynced outcome (Completion c) (jr_file j) of
        (Some e, file) \<Rightarrow> (j\<lparr>jr_file := file, jr_entries := mput (jr_entries j) (comp_key c) entry\<rparr>, Some e)
      | (None, file) \<Rightarrow>
          (j\<lparr>jr_file := file, jr_entries := mput (jr_entries j) (comp_key c) (entry\<lparr>entry_completion := Some c\<rparr>)\<rparr>, None))"

definition journal_settle :: "rpc_validator \<Rightarrow> string \<Rightarrow> effect_end \<Rightarrow> int \<Rightarrow> append_outcome \<Rightarrow> command_entry \<Rightarrow> command_journal \<Rightarrow>
    command_journal \<times> (journal_error + json option)" where
  "journal_settle parseRpcResult key fin now outcome entry j =
     (let settled = entry\<lparr>entry_running := Some Settled\<rparr> in
      case fin of
        Returns v \<Rightarrow>
          (case parseRpcResult (acc_method (entry_acceptance entry)) v of
             Inl e \<Rightarrow> (j\<lparr>jr_entries := mput (jr_entries j) key settled\<rparr>, Inl (StoredResultInvalid e))
           | Inr validated \<Rightarrow>
               (case store_completion (Succeeded key validated now) outcome settled j of
                  (j', None) \<Rightarrow> (j', Inr validated)
                | (j', Some e) \<Rightarrow> (j', Inl e)))
      | Throws code message details \<Rightarrow>
          (let f = failure_of code message details in
           case store_completion (Failed key f now) outcome settled j of
             (j', None) \<Rightarrow> (j', Inl (failure_error f))
           | (j', Some e) \<Rightarrow> (j', Inl e)))"

definition clear_running :: "string \<Rightarrow> command_entry \<Rightarrow> command_journal \<Rightarrow> command_journal" where
  "clear_running key entry j = j\<lparr>jr_entries := mput (jr_entries j) key (entry\<lparr>entry_running := None\<rparr>)\<rparr>"

section \<open>Reconciliation\<close>

datatype recovery = Recovered "json option" | RecoveryFailed command_failure

fun reconcile_entries :: "rpc_validator \<Rightarrow> (command_acceptance \<Rightarrow> recovery option) \<Rightarrow> (string \<Rightarrow> int) \<Rightarrow> (string \<Rightarrow> append_outcome) \<Rightarrow>
    string list \<Rightarrow> command_journal \<Rightarrow> command_journal \<times> journal_error option" where
  "reconcile_entries parseRpcResult recover now outcome [] j = (j, None)"
| "reconcile_entries parseRpcResult recover now outcome (key # keys) j =
     (case mget (jr_entries j) key of
        None \<Rightarrow> reconcile_entries parseRpcResult recover now outcome keys j
      | Some entry \<Rightarrow>
          if entry_completion entry \<noteq> None then reconcile_entries parseRpcResult recover now outcome keys j
          else
            (case recover (entry_acceptance entry) of
               None \<Rightarrow> reconcile_entries parseRpcResult recover now outcome keys j
             | Some rec \<Rightarrow>
                 (case (case rec of
                          Recovered v \<Rightarrow> map_sum StoredResultInvalid (\<lambda>validated. Succeeded key validated (now key))
                            (parseRpcResult (acc_method (entry_acceptance entry)) v)
                        | RecoveryFailed f \<Rightarrow> Inr (Failed key f (now key))) of
                    Inl e \<Rightarrow> (j, Some e)
                  | Inr c \<Rightarrow>
                      (case store_completion c (outcome key) entry j of
                         (j', Some e) \<Rightarrow> (j', Some e)
                       | (j', None) \<Rightarrow> reconcile_entries parseRpcResult recover now outcome keys j'))))"

definition reconcile :: "rpc_validator \<Rightarrow> (command_acceptance \<Rightarrow> recovery option) \<Rightarrow> (string \<Rightarrow> int) \<Rightarrow> (string \<Rightarrow> append_outcome) \<Rightarrow>
    command_journal \<Rightarrow> command_journal \<times> journal_error option" where
  "reconcile parseRpcResult recover now outcome j =
     reconcile_entries parseRpcResult recover now outcome (mkeys (jr_entries j)) j"

section \<open>Well-formed records read back\<close>

definition time_ok :: "int \<Rightarrow> bool" where
  "time_ok at \<longleftrightarrow> 0 \<le> at \<and> at \<le> max_safe_integer"

definition opt_ok :: "('a \<Rightarrow> bool) \<Rightarrow> 'a option \<Rightarrow> bool" where
  "opt_ok P x \<longleftrightarrow> (case x of None \<Rightarrow> True | Some v \<Rightarrow> P v)"

definition wf_acceptance :: "command_acceptance \<Rightarrow> bool" where
  "wf_acceptance a \<longleftrightarrow> is_uuid (acc_key a) \<and> isRetryableMutationMethod (acc_method a) \<and> is_request_hash (acc_requestHash a) \<and>
     opt_ok is_uuid (acc_targetSessionId a) \<and> opt_ok is_uuid (acc_intendedSessionId a) \<and>
     opt_ok is_uuid (acc_affectedOperationId a) \<and> opt_ok (\<lambda>s. s \<noteq> []) (acc_interactionId a) \<and>
     is_uuid (acc_operationId a) \<and> time_ok (acc_acceptedAt a)"

definition wf_failure :: "command_failure \<Rightarrow> bool" where
  "wf_failure f \<longleftrightarrow> fail_code f \<noteq> [] \<and> fail_message f \<noteq> [] \<and> fail_retryable f = isRpcErrorRetryable (fail_code f) \<and>
     opt_ok (\<lambda>d. wf_json (JObj d)) (fail_details f)"

fun wf_record :: "command_record \<Rightarrow> bool" where
  "wf_record (Accepted a) \<longleftrightarrow> wf_acceptance a"
| "wf_record (Completion (Succeeded key result at)) \<longleftrightarrow> is_uuid key \<and> opt_ok wf_json result \<and> time_ok at"
| "wf_record (Completion (Failed key f at)) \<longleftrightarrow> is_uuid key \<and> wf_failure f \<and> time_ok at"

lemmas record_eval = record_id_def record_session_def parseOperationId_def parseSessionId_def parseId_def
  record_string_def non_empty_string_def journal_timestamp_def optional_field_def opt_ok_def time_ok_def
  journal_exact_def mkeys_def opt_member_def run_checks_def journal_object_def

lemma failure_parses: "wf_failure f \<Longrightarrow> parseFailure (Some (JObj (failure_json f))) path = Inr f"
  by (cases "fail_details f")
     (auto simp: parseFailure_def failure_json_def wf_failure_def record_eval max_safe_integer_def)

lemma acceptance_parses:
  assumes "wf_acceptance a"
  shows "parse_acceptance (record_json (Accepted a)) path (acc_key a) = Inr (Accepted a)"
  using assms
  by (cases "acc_targetSessionId a"; cases "acc_intendedSessionId a"; cases "acc_affectedOperationId a"; cases "acc_interactionId a")
     (simp_all add: parse_acceptance_def wf_acceptance_def record_eval)

lemma record_parses: "wf_record r \<Longrightarrow> parseRecord (JObj (record_json r)) n = Inr r"
proof (induction r rule: wf_record.induct)
  case (1 a)
  then have key: "is_uuid (acc_key a)" by (simp add: wf_acceptance_def)
  have "mget (record_json (Accepted a)) ''idempotencyKey'' = Some (JStr (acc_key a))"
    "mget (record_json (Accepted a)) ''version'' = Some (JNum (JInt 1))"
    "mget (record_json (Accepted a)) ''type'' = Some (JStr ''accepted'')" by simp_all
  then show ?case
    using acceptance_parses [of a] 1 key
    by (simp add: parseRecord_def Let_def journal_object_def run_checks_def record_id_def parseOperationId_def parseId_def
        del: record_json.simps)
next
  case (2 key result at)
  then show ?case
    by (cases result) (simp_all add: parseRecord_def Let_def record_eval)
next
  case (3 key f at)
  then show ?case
    using failure_parses [of f] by (simp add: parseRecord_def Let_def record_eval)
qed

fun json_record :: "command_record \<Rightarrow> bool" where
  "json_record (Accepted a) \<longleftrightarrow> time_ok (acc_acceptedAt a)"
| "json_record (Completion (Succeeded key result at)) \<longleftrightarrow> opt_ok wf_json result \<and> time_ok at"
| "json_record (Completion (Failed key f at)) \<longleftrightarrow> opt_ok (\<lambda>d. wf_json (JObj d)) (fail_details f) \<and> time_ok at"

lemma record_wf: "json_record r \<Longrightarrow> wf_json (JObj (record_json r))"
proof -
  have keys: "wf_keys kvs" if "distinct (map fst kvs)" "\<forall>k \<in> set (map fst kvs). k \<noteq> [] \<and> is_lower (hd k)" for kvs :: json_object
    by (rule wf_keysI [OF that(1)]) (use that(2) not_index_lower in blast)
  have lower: "is_lower CHR ''v''" "is_lower CHR ''t''" "is_lower CHR ''i''" "is_lower CHR ''m''" "is_lower CHR ''r''"
    "is_lower CHR ''a''" "is_lower CHR ''o''" "is_lower CHR ''c''" "is_lower CHR ''e''" "is_lower CHR ''d''"
    by (simp_all add: is_lower_def code_unit_def)
  have time: "time_ok at \<Longrightarrow> \<bar>at\<bar> < 1000000000000000000000" for at
    by (simp add: time_ok_def max_safe_integer_def)
  have failure: "wf_json (JObj (failure_json f))" if "opt_ok (\<lambda>d. wf_json (JObj d)) (fail_details f)" for f
    using that by (cases "fail_details f") (auto simp: failure_json_def opt_member_def opt_ok_def lower intro!: keys)
  show "json_record r \<Longrightarrow> wf_json (JObj (record_json r))"
  proof (induction r rule: json_record.induct)
    case (1 a)
    then show ?case
      by (cases "acc_targetSessionId a"; cases "acc_intendedSessionId a"; cases "acc_affectedOperationId a"; cases "acc_interactionId a")
         (auto simp: opt_member_def lower time intro!: keys)
  next
    case (2 key result at)
    then show ?case by (cases result) (auto simp: opt_member_def opt_ok_def lower time intro!: keys)
  next
    case (3 key f at)
    then show ?case using failure [of f] by (auto simp: lower time intro!: keys)
  qed
qed

lemma wf_json_record: "wf_record r \<Longrightarrow> json_record r"
  by (induction r rule: json_record.induct) (auto simp: wf_acceptance_def wf_failure_def)

text \<open>A decoder of texts; on what the encoder writes it gives the text back.\<close>

definition decodes :: "(byte list \<Rightarrow> string) \<Rightarrow> bool" where
  "decodes toText \<longleftrightarrow> (\<forall>t. toText (utf8_encode t) = t)"

lemma record_decodes: "decodes toText \<Longrightarrow> wf_record r \<Longrightarrow> decode_record toText n (record_bytes r) = Inr r"
  using json_roundtrip [OF record_wf, of r] wf_json_record [of r]
  by (simp add: decode_record_def record_bytes_def decodes_def record_parses del: json_text.simps)

lemma record_newline: "(0x0A :: byte) \<notin> set (record_bytes r)"
  by (simp add: record_bytes_def newline_byte_encode json_text_no_newline del: json_text.simps)

lemma record_nonempty: "record_bytes r \<noteq> []"
  by (simp add: record_bytes_def utf8_encode_def utf8_unit_def Let_def)

section \<open>Reading a file back\<close>

lemma complete_lines_frame:
  "complete_lines [] (frame 0x0A record_bytes rs @ torn) = map record_bytes rs @ complete_lines [] torn"
proof (induction rs)
  case (Cons r rs)
  have "(0x0A :: byte) \<notin> set l \<Longrightarrow> complete_lines cur (l @ 0x0A # bs) = (cur @ l) # complete_lines [] bs" for l cur bs
    by (induction l arbitrary: cur) auto
  from this [OF record_newline, of "[]" r] show ?case using Cons.IH by simp
qed simp

lemma complete_lines_torn: "(0x0A :: byte) \<notin> set torn \<Longrightarrow> complete_lines cur torn = []"
  by (induction torn arbitrary: cur) auto

lemma clean_length_frame:
  assumes "(0x0A :: byte) \<notin> set torn"
  shows "clean_length (frame 0x0A record_bytes rs @ torn) = length (frame 0x0A record_bytes rs)"
proof -
  have torn: "(0x0A :: byte) \<notin> set (rev torn)" using assms by simp
  have "takeWhile (\<lambda>b. b \<noteq> 0x0A) (rev torn @ rev (frame 0x0A record_bytes rs)) = rev torn"
    using takeWhile_line [OF torn] by (cases rs rule: rev_cases) simp_all
  then show ?thesis by (simp add: clean_length_def)
qed

lemma replay_lines:
  assumes "decodes toText" and "\<forall>r \<in> set rs. wf_record r"
  shows "foldE (replay_line toText P) entries (zip [k..<k + length rs] (map record_bytes rs)) =
    foldE (replay_record P) entries rs"
  using assms(2)
proof (induction rs arbitrary: entries k)
  case (Cons r rs)
  have "[k..<k + length (r # rs)] = k # [Suc k..<Suc k + length rs]"
    by (simp add: upt_conv_Cons del: upt_Suc)
  moreover have "replay_line toText P entries (k, record_bytes r) = replay_record P entries r"
    using Cons.prems record_decodes [OF assms(1), of r] record_nonempty [of r] by (simp add: replay_line_def)
  ultimately show ?case
    using Cons.IH [of _ "Suc k"] Cons.prems by (simp split: sum.splits del: upt_Suc)
qed simp

lemma open_frame:
  assumes "decodes toText" and "\<forall>r \<in> set rs. wf_record r" and "(0x0A :: byte) \<notin> set torn"
  shows "journal_open toText P (frame 0x0A record_bytes rs @ torn) =
    bindE (foldE (replay_record P) [] rs) (\<lambda>entries.
      Inr \<lparr>jr_entries = entries, jr_file = frame 0x0A record_bytes rs, jr_started = []\<rparr>)"
  using replay_lines [OF assms(1,2), of P "[]" 0]
  by (simp add: journal_open_def complete_lines_frame complete_lines_torn assms(3) clean_length_frame indexed_def)

section \<open>Runs\<close>

text \<open>
  What can happen to a journal, in any order: an acceptance, the continuation of an accepted request,
  the end of an effect, and the removal of the settled promise.
\<close>

datatype journal_action =
    ActAccept command_input int append_outcome
  | ActDispatch string
  | ActSettle string effect_end int append_outcome
  | ActClear string

fun journal_act :: "rpc_validator \<Rightarrow> journal_action \<Rightarrow> command_journal \<Rightarrow> command_journal" where
  "journal_act P (ActAccept input now outcome) j = fst (journal_accept input now outcome j)"
| "journal_act P (ActDispatch key) j =
     (case mget (jr_entries j) key of
        None \<Rightarrow> j
      | Some e \<Rightarrow> fst (journal_dispatch P key (acc_method (entry_acceptance e)) e j))"
| "journal_act P (ActSettle key fin now outcome) j =
     (case mget (jr_entries j) key of
        None \<Rightarrow> j
      | Some e \<Rightarrow> if entry_running e = Some Executing then fst (journal_settle P key fin now outcome e j) else j)"
| "journal_act P (ActClear key) j =
     (case mget (jr_entries j) key of
        None \<Rightarrow> j
      | Some e \<Rightarrow> if entry_running e = Some Settled then clear_running key e j else j)"

definition journal_run :: "rpc_validator \<Rightarrow> journal_action list \<Rightarrow> command_journal \<Rightarrow> command_journal" where
  "journal_run P acts j = foldl (\<lambda>j a. journal_act P a j) j acts"

lemma journal_run_simps [simp]:
  "journal_run P [] j = j" "journal_run P (a # acts) j = journal_run P acts (journal_act P a j)"
  by (simp_all add: journal_run_def)

lemma run_induct:
  assumes "I j" and "\<And>a j. a \<in> set acts \<Longrightarrow> I j \<Longrightarrow> I (journal_act P a j)"
  shows "I (journal_run P acts j)"
  using assms by (induction acts arbitrary: j) auto

section \<open>The file follows the entries\<close>

definition stored_entry :: "command_entry \<Rightarrow> command_entry" where
  "stored_entry e = e\<lparr>entry_running := None\<rparr>"

lemma stored_entry_simps [simp]:
  "stored_entry (e\<lparr>entry_running := x\<rparr>) = stored_entry e"
  "stored_entry (e\<lparr>entry_completion := c\<rparr>) = (stored_entry e)\<lparr>entry_completion := c\<rparr>"
  "entry_acceptance (stored_entry e) = entry_acceptance e" "entry_completion (stored_entry e) = entry_completion e"
  by (cases e; simp add: stored_entry_def)+

definition stored_entries :: "(string, command_entry) jsmap \<Rightarrow> (string, command_entry) jsmap" where
  "stored_entries m = map (\<lambda>(k, e). (k, stored_entry e)) m"

lemma stored_mput [simp]: "stored_entries (mput m k e) = mput (stored_entries m) k (stored_entry e)"
  by (induction m) (auto simp: stored_entries_def)

lemma stored_mget [simp]: "mget (stored_entries m) k = map_option stored_entry (mget m k)"
  by (induction m) (auto simp: stored_entries_def)

lemma mput_same: "mget m k = Some v \<Longrightarrow> mput m k v = m"
  by (induction m) auto

definition entries_wf :: "(string, command_entry) jsmap \<Rightarrow> bool" where
  "entries_wf m \<longleftrightarrow> (\<forall>k e. mget m k = Some e \<longrightarrow>
     is_uuid k \<and> (entry_running e = Some Executing \<longrightarrow> entry_completion e = None))"

lemma entries_wfD: "entries_wf m \<Longrightarrow> mget m k = Some e \<Longrightarrow>
    is_uuid k \<and> (entry_running e = Some Executing \<longrightarrow> entry_completion e = None)"
  unfolding entries_wf_def by blast

lemma entries_wf_mput:
  "entries_wf m \<Longrightarrow> is_uuid k \<Longrightarrow> (entry_running e = Some Executing \<longrightarrow> entry_completion e = None) \<Longrightarrow>
   entries_wf (mput m k e)"
  by (auto simp: entries_wf_def split: if_splits)

definition validator_ok :: "rpc_validator \<Rightarrow> bool" where
  "validator_ok P \<longleftrightarrow> (\<forall>m v w. P m v = Inr w \<longrightarrow> (\<exists>w'. P m w = Inr w') \<and> opt_ok wf_json w)"

fun clean :: "append_outcome \<Rightarrow> bool" where
  "clean AppendOk = True"
| "clean (AppendFails e n) = (n = 0)"

fun end_ok :: "effect_end \<Rightarrow> bool" where
  "end_ok (Returns v) = True"
| "end_ok (Throws code message details) =
     (code \<noteq> Some [] \<and> message \<noteq> Some [] \<and> opt_ok (\<lambda>d. wf_json (JObj d)) details)"

fun ok_action :: "journal_action \<Rightarrow> bool" where
  "ok_action (ActAccept input now outcome) \<longleftrightarrow> wf_acceptance (acceptance_of input now) \<and> clean outcome"
| "ok_action (ActSettle key fin now outcome) \<longleftrightarrow> end_ok fin \<and> time_ok now \<and> clean outcome"
| "ok_action _ \<longleftrightarrow> True"

definition follows :: "rpc_validator \<Rightarrow> command_record list \<Rightarrow> command_journal \<Rightarrow> bool" where
  "follows P rs j \<longleftrightarrow> jr_file j = frame 0x0A record_bytes rs \<and> (\<forall>r \<in> set rs. wf_record r) \<and>
     foldE (replay_record P) [] rs = Inr (stored_entries (jr_entries j)) \<and> entries_wf (jr_entries j)"

lemma follows_update:
  assumes "follows P rs j" and "mget (jr_entries j) k = Some e" and "stored_entry e' = stored_entry e"
    and "entry_running e' = Some Executing \<longrightarrow> entry_completion e' = None"
  shows "follows P rs (j\<lparr>jr_entries := mput (jr_entries j) k e'\<rparr>)"
  using assms entries_wfD [of "jr_entries j" k e]
  by (auto simp: follows_def mput_same intro!: entries_wf_mput)

lemma follows_started [simp]: "follows P rs (j\<lparr>jr_started := x\<rparr>) = follows P rs j"
  by (simp add: follows_def)

lemma follows_append:
  assumes "follows P rs j" and "wf_record r" and "replay_record P (stored_entries (jr_entries j)) r = Inr (stored_entries m)"
    and "entries_wf m"
  shows "follows P (rs @ [r]) (j\<lparr>jr_file := jr_file j @ record_bytes r @ [0x0A], jr_entries := m\<rparr>)"
  using assms by (simp add: follows_def foldE_append)

lemma accept_follows:
  assumes "follows P rs j" and ok: "wf_acceptance (acceptance_of input now)" "clean outcome"
  shows "\<exists>rs'. follows P rs' (fst (journal_accept input now outcome j))"
proof (cases "mget (jr_entries j) (in_key input)")
  case (Some e)
  then show ?thesis using assms by (auto simp: journal_accept_def)
next
  case None
  let ?a = "acceptance_of input now"
  have key: "acc_key ?a = in_key input" "is_uuid (in_key input)"
    using ok by (simp_all add: acceptance_of_def wf_acceptance_def)
  show ?thesis
  proof (cases outcome)
    case AppendOk
    let ?e = "\<lparr>entry_acceptance = ?a, entry_completion = None, entry_running = None\<rparr>"
    have "follows P (rs @ [Accepted ?a])
        (j\<lparr>jr_file := jr_file j @ record_bytes (Accepted ?a) @ [0x0A], jr_entries := mput (jr_entries j) (in_key input) ?e\<rparr>)"
      using assms None key
      by (intro follows_append) (auto simp: replay_record_def mhas_def stored_entry_def follows_def intro!: entries_wf_mput)
    then show ?thesis using None AppendOk by (auto simp: journal_accept_def appendSynced_def Let_def)
  next
    case (AppendFails e n)
    then show ?thesis using assms None by (auto simp: journal_accept_def appendSynced_def Let_def)
  qed
qed

lemma store_follows:
  assumes "follows P rs j" and e: "mget (jr_entries j) k = Some e" "entry_completion e = None"
    and c: "comp_key c = k" "wf_record (Completion c)"
    and valid: "\<forall>v at. c = Succeeded k v at \<longrightarrow> (\<exists>w. P (acc_method (entry_acceptance e)) v = Inr w)"
    and "clean outcome"
  shows "\<exists>rs'. follows P rs' (fst (store_completion c outcome (e\<lparr>entry_running := Some Settled\<rparr>) j))"
proof (cases outcome)
  case AppendOk
  let ?e = "e\<lparr>entry_running := Some Settled, entry_completion := Some c\<rparr>"
  have "is_uuid k" using assms(1) entries_wfD [OF _ e(1)] by (auto simp: follows_def)
  then have "follows P (rs @ [Completion c])
      (j\<lparr>jr_file := jr_file j @ record_bytes (Completion c) @ [0x0A], jr_entries := mput (jr_entries j) k ?e\<rparr>)"
    using assms
    by (intro follows_append; cases c) (auto simp: replay_record_def follows_def intro!: entries_wf_mput)
  then show ?thesis using AppendOk c(1) by (auto simp: store_completion_def appendSynced_def Let_def)
next
  case (AppendFails err n)
  then have "follows P rs (j\<lparr>jr_entries := mput (jr_entries j) k (e\<lparr>entry_running := Some Settled\<rparr>)\<rparr>)"
    using assms by (intro follows_update [OF assms(1) e(1)]) auto
  then show ?thesis using AppendFails assms by (auto simp: store_completion_def appendSynced_def Let_def)
qed

lemma failure_of_wf: "end_ok (Throws code message details) \<Longrightarrow> wf_failure (failure_of code message details)"
  by (auto simp: failure_of_def wf_failure_def Let_def split: option.splits)

lemma act_follows:
  assumes "validator_ok P" and j: "follows P rs j" and ok: "ok_action a"
  shows "\<exists>rs'. follows P rs' (journal_act P a j)"
proof (cases a)
  case (ActAccept input now outcome)
  then show ?thesis using accept_follows [OF j, of input now outcome] ok by simp
next
  case (ActDispatch key)
  show ?thesis
  proof (cases "mget (jr_entries j) key")
    case (Some e)
    have "follows P rs (j\<lparr>jr_entries := mput (jr_entries j) key (e\<lparr>entry_running := Some Executing\<rparr>)\<rparr>)"
      if "entry_completion e = None"
      using that by (intro follows_update [OF j Some]) auto
    then show ?thesis
      using ActDispatch Some j
      by (auto simp: journal_dispatch_def split: option.splits command_completion.splits)
  qed (use ActDispatch j in auto)
next
  case (ActSettle key fin now outcome)
  show ?thesis
  proof (cases "\<exists>e. mget (jr_entries j) key = Some e \<and> entry_running e = Some Executing")
    case True
    then obtain e where e: "mget (jr_entries j) key = Some e" "entry_running e = Some Executing" by blast
    then have wf: "is_uuid key" "entry_completion e = None"
      using j entries_wfD [of "jr_entries j" key e] by (auto simp: follows_def)
    note store = store_follows [OF j e(1) wf(2)]
    show ?thesis
    proof (cases fin)
      case (Returns v)
      show ?thesis
      proof (cases "P (acc_method (entry_acceptance e)) v")
        case (Inl err)
        have "follows P rs (j\<lparr>jr_entries := mput (jr_entries j) key (e\<lparr>entry_running := Some Settled\<rparr>)\<rparr>)"
          by (intro follows_update [OF j e(1)]) auto
        then show ?thesis using ActSettle Returns Inl e by (auto simp: journal_settle_def Let_def)
      next
        case (Inr w)
        then have "\<exists>w'. P (acc_method (entry_acceptance e)) w = Inr w'" "opt_ok wf_json w"
          using assms(1) unfolding validator_ok_def by blast+
        then show ?thesis
          using store [of "Succeeded key w now" outcome] wf ok ActSettle Returns Inr e
          by (auto simp: journal_settle_def Let_def split: prod.splits option.splits)
      qed
    next
      case (Throws code message details)
      then show ?thesis
        using store [of "Failed key (failure_of code message details) now" outcome] wf ok ActSettle e
          failure_of_wf [of code message details]
        by (auto simp: journal_settle_def Let_def split: prod.splits option.splits)
    qed
  qed (use ActSettle j in \<open>auto split: option.splits\<close>)
next
  case (ActClear key)
  show ?thesis
  proof (cases "mget (jr_entries j) key")
    case (Some e)
    have "follows P rs (clear_running key e j)"
      unfolding clear_running_def by (intro follows_update [OF j Some]) auto
    then show ?thesis using ActClear Some j by auto
  qed (use ActClear j in auto)
qed

lemma run_follows:
  assumes "validator_ok P" and "follows P rs j" and "\<forall>a \<in> set acts. ok_action a"
  shows "\<exists>rs'. follows P rs' (journal_run P acts j)"
  by (rule run_induct [where I = "\<lambda>j. \<exists>rs. follows P rs j"]) (use assms act_follows in blast)+

lemma replay_wf:
  assumes "foldE (replay_record P) m rs = Inr m'" and "\<forall>r \<in> set rs. wf_record r" and "entries_wf m"
    and "stored_entries m = m"
  shows "entries_wf m' \<and> stored_entries m' = m'"
  using assms
proof (induction rs arbitrary: m)
  case (Cons r rs)
  then obtain m1 where m1: "replay_record P m r = Inr m1" "foldE (replay_record P) m1 rs = Inr m'"
    by (auto split: sum.splits)
  have same: "mget m k = Some e \<Longrightarrow> stored_entry e = e" for k e
    using Cons.prems(4) stored_mget [of m k] by auto
  have "entries_wf m1 \<and> stored_entries m1 = m1"
  proof (cases r)
    case (Accepted a)
    then show ?thesis
      using m1(1) Cons.prems
      by (auto simp: replay_record_def stored_entry_def wf_acceptance_def split: if_splits intro!: entries_wf_mput)
  next
    case (Completion c)
    then obtain e where e: "mget m (comp_key c) = Some e" "m1 = mput m (comp_key c) (e\<lparr>entry_completion := Some c\<rparr>)"
      using m1(1) by (auto simp: replay_record_def throw_iff split: option.splits if_splits)
    then have "entry_running e = None" using same by (metis command_entry.select_convs(3) command_entry.surjective
        command_entry.update_convs(3) stored_entry_def)
    then show ?thesis
      using e Cons.prems(3,4) entries_wfD [OF Cons.prems(3) e(1)] same [OF e(1)] by (auto intro!: entries_wf_mput)
  qed
  then show ?case using Cons.IH [OF m1(2)] Cons.prems by simp
qed simp


section \<open>Outcomes are final\<close>

definition completed :: "string \<Rightarrow> command_acceptance \<Rightarrow> command_completion \<Rightarrow> nat \<Rightarrow> command_journal \<Rightarrow> bool" where
  "completed key a c n j \<longleftrightarrow>
     (\<exists>e. mget (jr_entries j) key = Some e \<and> entry_acceptance e = a \<and> entry_completion e = Some c \<and>
        entry_running e \<noteq> Some Executing) \<and> count_list (jr_started j) key = n"

lemma store_completion_parts:
  "mget (jr_entries (fst (store_completion c outcome e j))) k =
     (if k = comp_key c then
        Some (if outcome = AppendOk then e\<lparr>entry_completion := Some c\<rparr> else e)
      else mget (jr_entries j) k)"
  "jr_started (fst (store_completion c outcome e j)) = jr_started j"
  by (cases outcome; simp add: store_completion_def appendSynced_def Let_def)+

lemma settle_other:
  "k \<noteq> key \<Longrightarrow> mget (jr_entries (fst (journal_settle P key fin now outcome e j))) k = mget (jr_entries j) k"
  "jr_started (fst (journal_settle P key fin now outcome e j)) = jr_started j"
proof -
  have eq: "fst (case m of (j', None) \<Rightarrow> (j', x) | (j', Some err) \<Rightarrow> (j', y err)) = fst m" for m :: "command_journal \<times> journal_error option" and x y
    by (auto split: prod.splits option.splits)
  show "k \<noteq> key \<Longrightarrow> mget (jr_entries (fst (journal_settle P key fin now outcome e j))) k = mget (jr_entries j) k"
    "jr_started (fst (journal_settle P key fin now outcome e j)) = jr_started j"
    by (cases fin; simp add: journal_settle_def Let_def eq store_completion_parts split: sum.splits)+
qed

lemma accept_other:
  assumes "mget (jr_entries j) k = Some e"
  shows "mget (jr_entries (fst (journal_accept input now outcome j))) k = Some e \<and>
    jr_started (fst (journal_accept input now outcome j)) = jr_started j"
  using assms by (auto simp: journal_accept_def Let_def appendSynced_def split: option.splits append_outcome.splits)

lemma act_completed:
  assumes "completed key a c n j" shows "completed key a c n (journal_act P act j)"
proof -
  obtain e where e: "mget (jr_entries j) key = Some e" "entry_acceptance e = a" "entry_completion e = Some c"
      "entry_running e \<noteq> Some Executing" and n: "count_list (jr_started j) key = n"
    using assms by (auto simp: completed_def)
  show ?thesis
  proof (cases act)
    case (ActAccept input now outcome)
    then show ?thesis using e n accept_other [OF e(1), of input now outcome] by (auto simp: completed_def)
  next
    case (ActDispatch k)
    show ?thesis
      using e n ActDispatch
      by (cases "k = key")
         (auto simp: completed_def journal_dispatch_def split: option.splits command_completion.splits)
  next
    case (ActSettle k fin now outcome)
    then show ?thesis
      using e n by (cases "k = key") (auto simp: completed_def settle_other split: option.splits)
  next
    case (ActClear k)
    then show ?thesis
      using e n by (cases "k = key") (auto simp: completed_def clear_running_def split: option.splits)
  qed
qed

definition stored_answer :: "rpc_validator \<Rightarrow> string \<Rightarrow> command_completion \<Rightarrow> command_answer" where
  "stored_answer P method c =
     (case c of
        Succeeded _ v _ \<Rightarrow> Answered (map_sum StoredResultInvalid id (P method v))
      | Failed _ f _ \<Rightarrow> Answered (Inl (failure_error f)))"

text \<open>C7: A stored outcome is final. Once the outcome of a key is stored, then after anything else that
  happens the effect has not started again, and every retry with the same method and request hash is
  answered with that outcome, without writing to the file, while a request that differs in either is
  refused as a conflict.\<close>

theorem stored_outcome_is_final:
  assumes "completed key a c n j" and "acc_key a = key" and "in_key input = key"
  shows "completed key a c n (journal_run P acts j) \<and>
    (let j' = journal_run P acts j in
     if in_method input = acc_method a \<and> in_requestHash input = acc_requestHash a
     then (\<exists>e. journal_accept input now outcome j' = (j', Inr e) \<and>
            journal_dispatch P key (in_method input) e j' = (j', stored_answer P (acc_method a) c))
     else journal_accept input now outcome j' =
            (j', Inl (CommandJournalError ''idempotency_conflict''
               ''The idempotency key is already bound to another request'' False None)))"
proof -
  have "completed key a c n (journal_run P acts j)"
    by (rule run_induct [where I = "completed key a c n"]) (use assms(1) act_completed in blast)+
  then show ?thesis
    using assms(3)
    by (auto simp: completed_def journal_accept_def journal_dispatch_def stored_answer_def Let_def
        split: command_completion.splits)
qed

section \<open>What breaks the journal\<close>

definition empty_journal :: command_journal where
  "empty_journal = \<lparr>jr_entries = [], jr_file = [], jr_started = []\<rparr>"

text \<open>An acceptance whose bytes all reached the file but whose sync failed is not remembered, so the
  retry is written again, and the next start of the daemon refuses the file for a duplicate acceptance.\<close>

theorem unsynced_acceptance_breaks_journal:
  assumes "decodes toText" and "wf_acceptance (acceptance_of input t1)" and "wf_acceptance (acceptance_of input t2)"
    and "length (record_bytes (Accepted (acceptance_of input t1))) < n"
  shows "journal_open toText P (jr_file (journal_run P
      [ActAccept input t1 (AppendFails e n), ActAccept input t2 AppendOk] empty_journal)) =
    Inl (DuplicateAcceptance (in_key input))"
proof -
  let ?rs = "[Accepted (acceptance_of input t1), Accepted (acceptance_of input t2)]"
  have "jr_file (journal_run P [ActAccept input t1 (AppendFails e n), ActAccept input t2 AppendOk] empty_journal) =
      frame 0x0A record_bytes ?rs @ []"
    using assms(4) by (simp add: empty_journal_def journal_accept_def appendSynced_def Let_def)
  moreover have "foldE (replay_record P) [] ?rs = Inl (DuplicateAcceptance (in_key input))"
    by (simp add: replay_record_def acceptance_of_def mhas_def)
  ultimately show ?thesis
    using open_frame [OF assms(1), of ?rs "[]" P] assms(2,3) by simp
qed

text \<open>An effect that fails with an error without a message is stored as a failure that the parser of
  the journal rejects, so the next start of the daemon refuses the file as corrupt.\<close>

theorem empty_message_breaks_journal:
  assumes "decodes toText" and "wf_acceptance (acceptance_of input t1)" and "time_ok t2"
    and "in_key input = key" and "code \<noteq> Some []"
  shows "journal_open toText P (jr_file (journal_run P
      [ActAccept input t1 AppendOk, ActDispatch key, ActSettle key (Throws code (Some []) None) t2 AppendOk] empty_journal)) =
    Inl (CorruptJournal (RecordError (record_path 2 @ ''.error.message must be a non-empty string'')))"
proof -
  let ?a = "acceptance_of input t1"
  define c where "c = Completion (Failed key (failure_of code (Some []) None) t2)"
  have bytes: "jr_file (journal_run P
      [ActAccept input t1 AppendOk, ActDispatch key, ActSettle key (Throws code (Some []) None) t2 AppendOk] empty_journal) =
      frame 0x0A record_bytes [Accepted ?a, c]"
    using assms(4) by (simp add: empty_journal_def journal_accept_def journal_dispatch_def journal_settle_def
        store_completion_def appendSynced_def Let_def c_def)
  have key: "is_uuid key" using assms(2,4) by (simp add: wf_acceptance_def acceptance_of_def)
  have code: "fail_code (failure_of code (Some []) None) \<noteq> []"
    using assms(5) by (auto simp: failure_of_def Let_def split: option.splits)
  have "wf_json (JObj (record_json c))"
    using assms(3) by (intro record_wf) (auto simp: c_def failure_of_def opt_ok_def Let_def)
  moreover have "parseRecord (JObj (record_json c)) 2 =
      Inl (RecordError (record_path 2 @ ''.error.message must be a non-empty string''))"
    using key code assms(3)
    by (simp add: c_def parseRecord_def Let_def record_eval parseFailure_def failure_json_def failure_of_def)
  ultimately have "decode_record toText 2 (record_bytes c) =
      Inl (CorruptJournal (RecordError (record_path 2 @ ''.error.message must be a non-empty string'')))"
    using assms(1) json_roundtrip by (simp add: decode_record_def record_bytes_def decodes_def del: json_text.simps)
  moreover have "decode_record toText 1 (record_bytes (Accepted ?a)) = Inr (Accepted ?a)"
    using record_decodes [OF assms(1), of "Accepted ?a"] assms(2) by simp
  ultimately show ?thesis
    using complete_lines_frame [of "[Accepted ?a, c]" "[]"]
    unfolding bytes journal_open_def
    by (simp add: indexed_def upt_rec [of 0] upt_rec [of "Suc 0"] replay_line_def record_nonempty replay_record_def numeral_2_eq_2)
qed

section \<open>Examples\<close>

definition ex_text :: "byte list \<Rightarrow> string" where
  "ex_text bs = (case utf8_decode bs of None \<Rightarrow> [] | Some t \<Rightarrow> t)"

definition ex_validator :: rpc_validator where
  "ex_validator m v = Inr None"

definition ex_command :: command_input where
  "ex_command = \<lparr>in_key = ''00000000-0000-4000-8000-000000000001'', in_method = ''session.send'',
     in_requestHash = replicate 64 CHR ''a'', in_targetSessionId = None, in_intendedSessionId = None,
     in_affectedOperationId = None, in_interactionId = None\<rparr>"

lemma ex_text_decodes: "decodes ex_text"
  by (simp add: decodes_def ex_text_def utf8_roundtrip)

lemma ex_command_wf: "time_ok t \<Longrightarrow> wf_acceptance (acceptance_of ex_command t)"
proof -
  have "is_uuid (in_key ex_command)" "is_request_hash (in_requestHash ex_command)" "isRetryableMutationMethod (in_method ex_command)"
    by code_simp+
  then show "time_ok t \<Longrightarrow> ?thesis"
    by (simp add: wf_acceptance_def acceptance_of_def opt_ok_def ex_command_def)
qed

definition ex_acts :: "journal_action list" where
  "ex_acts = [ActAccept ex_command 1 AppendOk, ActDispatch (in_key ex_command),
     ActSettle (in_key ex_command) (Returns None) 2 AppendOk]"

lemma ex_acts_ok: "\<forall>a \<in> set ex_acts. ok_action a"
  by (simp add: ex_acts_def ex_command_wf time_ok_def max_safe_integer_def)

lemma ex_completed:
  "completed (in_key ex_command) (acceptance_of ex_command 1) (Succeeded (in_key ex_command) None 2) 1
     (journal_run ex_validator ex_acts empty_journal)"
  by (simp add: ex_acts_def completed_def empty_journal_def journal_accept_def journal_dispatch_def journal_settle_def
      store_completion_def appendSynced_def Let_def ex_validator_def acceptance_of_def)


theorem stored_outcome_is_final_witness:
  "completed (in_key ex_command) (acceptance_of ex_command 1) (Succeeded (in_key ex_command) None 2) 1
     (journal_run ex_validator ex_acts (journal_run ex_validator ex_acts empty_journal))"
  using stored_outcome_is_final [OF ex_completed, of ex_command ex_validator ex_acts 3 AppendOk]
  by (simp add: acceptance_of_def)

theorem unsynced_acceptance_breaks_journal_witness:
  "\<exists>n. journal_open ex_text ex_validator (jr_file (journal_run ex_validator
      [ActAccept ex_command 1 (AppendFails ''EIO'' n), ActAccept ex_command 2 AppendOk] empty_journal)) =
    Inl (DuplicateAcceptance (in_key ex_command))"
  using unsynced_acceptance_breaks_journal [OF ex_text_decodes ex_command_wf ex_command_wf lessI, of 1 2]
  by (auto simp: time_ok_def max_safe_integer_def)

theorem empty_message_breaks_journal_witness:
  "journal_open ex_text ex_validator (jr_file (journal_run ex_validator
      [ActAccept ex_command 1 AppendOk, ActDispatch (in_key ex_command),
       ActSettle (in_key ex_command) (Throws None (Some []) None) 2 AppendOk] empty_journal)) =
    Inl (CorruptJournal (RecordError (record_path 2 @ ''.error.message must be a non-empty string'')))"
  using empty_message_breaks_journal [OF ex_text_decodes ex_command_wf _ refl, of 1 2 None]
  by (simp add: time_ok_def max_safe_integer_def)

end
