(* ===== verification/Prompt_Queue.thy ===== *)
theory Prompt_Queue
  imports Session_Tree
begin

text \<open>
  The prompt queue of a managed session (\<^verbatim>\<open>packages/daemon/src/session-manager.ts\<close>): prompts are
  recorded in the session's log, wait in memory, and are sent one after the other by a drain that
  shares the session with direct sends, shells, compactions, rebuilds and interrupt deliveries.

  The daemon runs one piece of code at a time, up to its next \<^verbatim>\<open>await\<close>. A state holds where every task
  is waiting, and an action lets one of them go on, so that a list of actions is an interleaving. An
  action that nothing waits for changes nothing. Appending to the log and checking blobs may fail.
\<close>

section \<open>The state\<close>

record queued_turn =
  qt_queueItemId :: string
  qt_operationId :: string
  qt_content :: "content_item list"
  qt_priority :: queue_priority

text \<open>Where a \<^verbatim>\<open>send\<close> waits: for the blob checks, for the abort of a recovered turn, for its own turn.\<close>

datatype send_point = SendChecking | SendAborting | SendRunning

record send_task =
  sd_operationId :: string
  sd_content :: "content_item list"
  sd_point :: send_point

text \<open>Where \<^verbatim>\<open>drainQueue\<close> waits. \<open>DrainSettled q ok\<close>: its send has ended and its loop is yet to go on.\<close>

datatype drain_point =
    DrainIdle
  | DrainStarting queued_turn
  | DrainStarted queued_turn
  | DrainSending queued_turn send_point
  | DrainSettled queued_turn bool
  | DrainFailing queued_turn

text \<open>Where \<^verbatim>\<open>enqueue\<close> and \<^verbatim>\<open>requeue\<close> wait; a recorded one is yet to put its entry into the queue.\<close>

datatype record_task =
    EnqueueChecking string "content_item list" queue_priority
  | EnqueueRecording string "content_item list" queue_priority
  | RequeueRecording string queued_turn
  | Recorded queued_turn

record managed_session =
  ms_events :: "canonical_event list"
  ms_queue :: "queued_turn list"
  ms_tasks :: "record_task list"
  ms_sends :: "send_task list"
  ms_queueDraining :: bool
  ms_drain :: drain_point
  ms_rejected :: nat
  ms_activeTurn :: "string option"
  ms_interruptDelivery :: "(string \<times> string option) option"
  ms_rebuilding :: bool
  ms_disposing :: bool
  ms_stopping :: bool

text \<open>A session that has just been opened on its log.\<close>

definition opened_session :: "canonical_event list \<Rightarrow> managed_session" where
  "opened_session events =
     \<lparr>ms_events = events, ms_queue = [], ms_tasks = [], ms_sends = [], ms_queueDraining = False, ms_drain = DrainIdle,
      ms_rejected = 0, ms_activeTurn = None, ms_interruptDelivery = None, ms_rebuilding = False,
      ms_disposing = False, ms_stopping = False\<rparr>"

section \<open>What the log says about the queue\<close>

definition find_enqueued :: "canonical_event list \<Rightarrow> string \<Rightarrow> canonical_event option" where
  "find_enqueued events itemId =
     List.find (\<lambda>e. (case ev_payload e of QueueEnqueued _ _ \<Rightarrow> ev_id e = itemId | _ \<Rightarrow> False)) events"

definition pending_step :: "canonical_event list \<Rightarrow> (string, string) jsmap \<Rightarrow> canonical_event \<Rightarrow> (string, string) jsmap" where
  "pending_step events pending event =
     (case ev_payload event of
        QueueEnqueued _ _ \<Rightarrow>
          (case ev_operationId event of None \<Rightarrow> pending | Some op \<Rightarrow> mput pending (ev_id event) op)
      | QueueStarted itemId \<Rightarrow> mdel pending itemId
      | QueuePaused itemId \<Rightarrow> mdel pending itemId
      | QueueRequeued itemId _ \<Rightarrow>
          (case find_enqueued events itemId of
             None \<Rightarrow> pending
           | Some queued \<Rightarrow>
               (case ev_operationId queued of None \<Rightarrow> pending | Some op \<Rightarrow> mput pending (ev_id queued) op))
      | _ \<Rightarrow> pending)"

definition recovered_pending :: "canonical_event list \<Rightarrow> (string, string) jsmap" where
  "recovered_pending events = foldl (pending_step events) [] events"

text \<open>\<^verbatim>\<open>pauseRecoveredQueue\<close>; the event that records a pause is the argument \<open>paused_event\<close>.\<close>

definition pauseRecoveredQueue :: "(string \<times> string \<Rightarrow> canonical_event) \<Rightarrow> canonical_event list \<Rightarrow> canonical_event list" where
  "pauseRecoveredQueue paused_event events = events @ map paused_event (recovered_pending events)"

definition latest_state :: "canonical_event list \<Rightarrow> string \<Rightarrow> canonical_event option" where
  "latest_state events itemId =
     List.find (\<lambda>e. (case ev_payload e of
         QueueRequeued i _ \<Rightarrow> i = itemId | QueueStarted i \<Rightarrow> i = itemId | QueuePaused i \<Rightarrow> i = itemId | _ \<Rightarrow> False)) (rev events)"

definition terminal_of :: "canonical_event list \<Rightarrow> string \<Rightarrow> canonical_event option" where
  "terminal_of events op =
     List.find (\<lambda>e. ev_operationId e = Some op \<and>
       (case ev_payload e of AssistantMessage _ stop _ _ \<Rightarrow> stop \<noteq> ToolUse | SessionErrorEv _ _ _ _ \<Rightarrow> True | _ \<Rightarrow> False)) (rev events)"

definition has_user_message :: "canonical_event list \<Rightarrow> string \<Rightarrow> bool" where
  "has_user_message events op =
     list_ex (\<lambda>e. ev_operationId e = Some op \<and> (case ev_payload e of UserMessage _ \<Rightarrow> True | _ \<Rightarrow> False)) events"

definition has_blob :: "content_item list \<Rightarrow> bool" where
  "has_blob content = list_ex (\<lambda>c. case c of Blob _ \<Rightarrow> True | _ \<Rightarrow> False) content"

text \<open>The log takes an event with a new identifier, the operation and the payload asked for.\<close>

definition takes :: "string \<Rightarrow> payload \<Rightarrow> canonical_event \<Rightarrow> managed_session \<Rightarrow> bool" where
  "takes op payload event s \<longleftrightarrow>
     ev_operationId event = Some op \<and> ev_payload event = payload \<and> ev_id event \<notin> ev_id ` set (ms_events s)"

definition log_event :: "canonical_event \<Rightarrow> managed_session \<Rightarrow> managed_session" where
  "log_event event s = s\<lparr>ms_events := ms_events s @ [event]\<rparr>"

section \<open>Draining\<close>

text \<open>The head of the loop, up to the recording of the next start.\<close>

definition drain_loop :: "managed_session \<Rightarrow> managed_session" where
  "drain_loop s =
     (if \<not> ms_stopping s \<and> \<not> ms_disposing s \<and> ms_activeTurn s = None \<and> \<not> ms_rebuilding s then
        (case ms_queue s of
           [] \<Rightarrow> s\<lparr>ms_drain := DrainIdle, ms_queueDraining := False\<rparr>
         | queued # rest \<Rightarrow> s\<lparr>ms_queue := rest, ms_drain := DrainStarting queued\<rparr>)
      else s\<lparr>ms_drain := DrainIdle, ms_queueDraining := False\<rparr>)"

definition drainQueue :: "managed_session \<Rightarrow> managed_session" where
  "drainQueue s =
     (if ms_stopping s \<or> ms_queueDraining s \<or> ms_activeTurn s \<noteq> None \<or> ms_rebuilding s \<or> ms_disposing s then s
      else drain_loop (s\<lparr>ms_queueDraining := True\<rparr>))"

definition startQueueDrain :: "managed_session \<Rightarrow> managed_session" where
  "startQueueDrain s =
     (if ms_stopping s \<or> ms_disposing s \<or> ms_queueDraining s \<or> ms_interruptDelivery s \<noteq> None then s
      else drainQueue s)"

text \<open>A drain that throws clears its flag; the handler that \<^verbatim>\<open>startQueueDrain\<close> attached runs later.\<close>

definition drain_rejects :: "managed_session \<Rightarrow> managed_session" where
  "drain_rejects s = s\<lparr>ms_drain := DrainIdle, ms_queueDraining := False, ms_rejected := Suc (ms_rejected s)\<rparr>"

section \<open>Sending\<close>

datatype daemon_error = DaemonError (de_code: string) (de_message: string)

datatype send_result = SendThrows daemon_error | SendReturns | SendWaits send_point

definition shutting_down :: daemon_error where
  "shutting_down = DaemonError ''cancelled'' ''Daemon is shutting down''"

definition delivery_blocks :: "string \<Rightarrow> managed_session \<Rightarrow> bool" where
  "delivery_blocks op s \<longleftrightarrow>
     (case ms_interruptDelivery s of None \<Rightarrow> False | Some (owner, target) \<Rightarrow> owner \<noteq> op \<and> target \<noteq> Some op)"

text \<open>The part of \<^verbatim>\<open>send\<close> between the blob checks and its turn.\<close>

definition send_claim :: "string \<Rightarrow> managed_session \<Rightarrow> managed_session \<times> send_result" where
  "send_claim op s =
     (if ms_stopping s then (s, SendThrows shutting_down)
      else if ms_disposing s then (s, SendThrows (DaemonError ''cancelled'' ''Session is being disposed''))
      else if ms_activeTurn s \<noteq> None \<or> ms_rebuilding s \<or> delivery_blocks op s
      then (s, SendThrows (DaemonError ''operation_active'' ''An operation already owns this branch''))
      else (s\<lparr>ms_activeTurn := Some op\<rparr>, SendWaits SendRunning))"

definition send_begin :: "string \<Rightarrow> content_item list \<Rightarrow> managed_session \<Rightarrow> managed_session \<times> send_result" where
  "send_begin op content s =
     (if ms_stopping s then (s, SendThrows shutting_down)
      else if terminal_of (ms_events s) op \<noteq> None then (s, SendReturns)
      else if has_user_message (ms_events s) op then (s, SendWaits SendAborting)
      else if has_blob content then (s, SendWaits SendChecking)
      else send_claim op s)"

text \<open>The \<^verbatim>\<open>finally\<close> of a turn, a shell or a compaction.\<close>

definition turn_finally :: "managed_session \<Rightarrow> managed_session" where
  "turn_finally s = startQueueDrain (s\<lparr>ms_activeTurn := None\<rparr>)"

definition drain_send_result :: "queued_turn \<Rightarrow> managed_session \<times> send_result \<Rightarrow> managed_session" where
  "drain_send_result queued r =
     (case r of
        (s, SendThrows _) \<Rightarrow> s\<lparr>ms_drain := DrainSettled queued False\<rparr>
      | (s, SendReturns) \<Rightarrow> s\<lparr>ms_drain := DrainSettled queued True\<rparr>
      | (s, SendWaits point) \<Rightarrow> s\<lparr>ms_drain := DrainSending queued point\<rparr>)"

definition direct_send_result :: "string \<Rightarrow> content_item list \<Rightarrow> managed_session \<times> send_result \<Rightarrow> managed_session" where
  "direct_send_result op content r =
     (case r of
        (s, SendWaits point) \<Rightarrow> s\<lparr>ms_sends := ms_sends s @ [\<lparr>sd_operationId = op, sd_content = content, sd_point = point\<rparr>]\<rparr>
      | (s, _) \<Rightarrow> s)"

section \<open>Recording\<close>

definition push_entry :: "queued_turn \<Rightarrow> managed_session \<Rightarrow> managed_session" where
  "push_entry entry s =
     startQueueDrain (s\<lparr>ms_queue := (if qt_priority entry = Front then entry # ms_queue s else ms_queue s @ [entry])\<rparr>)"

definition drop_nth :: "nat \<Rightarrow> 'a list \<Rightarrow> 'a list" where
  "drop_nth i xs = take i xs @ drop (Suc i) xs"

definition enqueue :: "string \<Rightarrow> content_item list \<Rightarrow> queue_priority \<Rightarrow> managed_session \<Rightarrow> managed_session" where
  "enqueue op content priority s =
     (if list_ex (\<lambda>e. (case ev_payload e of QueueEnqueued _ _ \<Rightarrow> ev_operationId e = Some op | _ \<Rightarrow> False)) (ms_events s)
      then s
      else s\<lparr>ms_tasks := ms_tasks s @
        [if has_blob content then EnqueueChecking op content priority else EnqueueRecording op content priority]\<rparr>)"

text \<open>The checks of \<^verbatim>\<open>requeue\<close>: \<open>None\<close> when the same operation has been recorded before.\<close>

definition requeue_check :: "canonical_event list \<Rightarrow> string \<Rightarrow> string \<Rightarrow> queue_priority \<Rightarrow> daemon_error + queued_turn option" where
  "requeue_check events op itemId priority =
     (if list_ex (\<lambda>e. (case ev_payload e of QueueRequeued _ _ \<Rightarrow> ev_operationId e = Some op | _ \<Rightarrow> False)) events
      then Inr None
      else
        (case find_enqueued events itemId of
           None \<Rightarrow> Inl (DaemonError ''unknown_queue_item'' ''The queued prompt does not exist'')
         | Some queued \<Rightarrow>
             (case ev_operationId queued of
                None \<Rightarrow> Inl (DaemonError ''unknown_queue_item'' ''The queued prompt does not exist'')
              | Some queuedOp \<Rightarrow>
                  if (case latest_state events itemId of
                        Some latest \<Rightarrow> (case ev_payload latest of QueuePaused _ \<Rightarrow> True | _ \<Rightarrow> False)
                      | None \<Rightarrow> False)
                  then Inr (Some \<lparr>qt_queueItemId = itemId, qt_operationId = queuedOp,
                      qt_content = (case ev_payload queued of QueueEnqueued content _ \<Rightarrow> content | _ \<Rightarrow> []), qt_priority = priority\<rparr>)
                  else Inl (DaemonError ''queue_not_paused'' ''Only a paused queued prompt can be re-queued''))))"

definition requeue :: "string \<Rightarrow> string \<Rightarrow> queue_priority \<Rightarrow> managed_session \<Rightarrow> managed_session" where
  "requeue op itemId priority s =
     (case requeue_check (ms_events s) op itemId priority of
        Inr (Some entry) \<Rightarrow> s\<lparr>ms_tasks := ms_tasks s @ [RequeueRecording op entry]\<rparr>
      | _ \<Rightarrow> s)"

definition task_appended :: "nat \<Rightarrow> canonical_event \<Rightarrow> managed_session \<Rightarrow> managed_session" where
  "task_appended i event s =
     (if i < length (ms_tasks s) then
        (case ms_tasks s ! i of
           EnqueueRecording op content priority \<Rightarrow>
             if takes op (QueueEnqueued content priority) event s then
               (log_event event s)\<lparr>ms_tasks := (ms_tasks s)[i := Recorded
                  \<lparr>qt_queueItemId = ev_id event, qt_operationId = op, qt_content = content, qt_priority = priority\<rparr>]\<rparr>
             else s
         | RequeueRecording op entry \<Rightarrow>
             if takes op (QueueRequeued (qt_queueItemId entry) (qt_priority entry)) event s then
               (log_event event s)\<lparr>ms_tasks := (ms_tasks s)[i := Recorded entry]\<rparr>
             else s
         | _ \<Rightarrow> s)
      else s)"

section \<open>Interleavings\<close>

definition queue_payload :: "payload \<Rightarrow> bool" where
  "queue_payload p \<longleftrightarrow> (case p of QueueEnqueued _ _ \<Rightarrow> True | QueueRequeued _ _ \<Rightarrow> True | QueueStarted _ \<Rightarrow> True
     | QueuePaused _ \<Rightarrow> True | _ \<Rightarrow> False)"

datatype queue_action =
    CallEnqueue string "content_item list" queue_priority
  | CallRequeue string string queue_priority
  | TaskChecked nat
  | TaskAppended nat canonical_event
  | TaskFailed nat
  | TaskContinues nat
  | CallSend string "content_item list"
  | CallOwner string
  | SendChecked nat bool
  | SendAborted nat "canonical_event option"
  | SendEnded nat
  | DrainAppended canonical_event
  | DrainAppendFails
  | DrainSends
  | DrainChecked bool
  | DrainAborted "canonical_event option"
  | DrainTurnEnds bool
  | DrainContinues
  | DrainErrorAppended canonical_event
  | DrainErrorFails
  | DrainHandled
  | BeginRebuild
  | EndRebuild
  | ReserveInterrupt string "string option"
  | ReleaseInterrupt string
  | OtherEvent canonical_event
  | BeginDispose
  | BeginShutdown

text \<open>A recovered turn that is aborted leaves its assistant message in the log.\<close>

definition abort_event :: "string \<Rightarrow> payload" where
  "abort_event message = AssistantMessage [] StopAborted None (Some message)"

definition recovered_message :: string where
  "recovered_message = ''Operation was aborted because the daemon restarted before recording completion.''"

definition queued_prompt_failed :: payload where
  "queued_prompt_failed = SessionErrorEv ''queued_prompt_failed'' ''Queued prompt execution failed'' False None"

definition owner_free :: "managed_session \<Rightarrow> bool" where
  "owner_free s \<longleftrightarrow> ms_activeTurn s = None \<and> \<not> ms_rebuilding s \<and> ms_interruptDelivery s = None"

definition begin_rebuild :: "managed_session \<Rightarrow> managed_session" where
  "begin_rebuild s = (if owner_free s then s\<lparr>ms_rebuilding := True\<rparr> else s)"

definition end_rebuild :: "managed_session \<Rightarrow> managed_session" where
  "end_rebuild s = s\<lparr>ms_rebuilding := False\<rparr>"

definition reserveInterruptDelivery :: "string \<Rightarrow> string option \<Rightarrow> managed_session \<Rightarrow> managed_session" where
  "reserveInterruptDelivery op target s =
     (case ms_interruptDelivery s of
        None \<Rightarrow> s\<lparr>ms_interruptDelivery := Some (op, target)\<rparr>
      | Some (owner, _) \<Rightarrow> if owner \<noteq> op then s else s\<lparr>ms_interruptDelivery := Some (op, target)\<rparr>)"

definition releaseInterruptDelivery :: "string \<Rightarrow> managed_session \<Rightarrow> managed_session" where
  "releaseInterruptDelivery op s =
     (case ms_interruptDelivery s of
        None \<Rightarrow> s
      | Some (owner, _) \<Rightarrow> if owner \<noteq> op then s else startQueueDrain (s\<lparr>ms_interruptDelivery := None\<rparr>))"

definition on_send :: "nat \<Rightarrow> send_point \<Rightarrow> (send_task \<Rightarrow> managed_session \<Rightarrow> managed_session) \<Rightarrow> managed_session \<Rightarrow> managed_session" where
  "on_send i point f s =
     (if i < length (ms_sends s) \<and> sd_point (ms_sends s ! i) = point
      then f (ms_sends s ! i) (s\<lparr>ms_sends := drop_nth i (ms_sends s)\<rparr>) else s)"

fun perform :: "queue_action \<Rightarrow> managed_session \<Rightarrow> managed_session" where
  "perform (CallEnqueue op content priority) s = enqueue op content priority s"
| "perform (CallRequeue op itemId priority) s = requeue op itemId priority s"
| "perform (TaskChecked i) s =
     (if i < length (ms_tasks s) then
        (case ms_tasks s ! i of
           EnqueueChecking op content priority \<Rightarrow> s\<lparr>ms_tasks := (ms_tasks s)[i := EnqueueRecording op content priority]\<rparr>
         | _ \<Rightarrow> s)
      else s)"
| "perform (TaskAppended i event) s = task_appended i event s"
| "perform (TaskFailed i) s =
     (if i < length (ms_tasks s) then
        (case ms_tasks s ! i of Recorded _ \<Rightarrow> s | _ \<Rightarrow> s\<lparr>ms_tasks := drop_nth i (ms_tasks s)\<rparr>)
      else s)"
| "perform (TaskContinues i) s =
     (if i < length (ms_tasks s) then
        (case ms_tasks s ! i of
           Recorded entry \<Rightarrow> push_entry entry (s\<lparr>ms_tasks := drop_nth i (ms_tasks s)\<rparr>)
         | _ \<Rightarrow> s)
      else s)"
| "perform (CallSend op content) s = direct_send_result op content (send_begin op content s)"
| "perform (CallOwner op) s =
     (if owner_free s then direct_send_result op [] (s\<lparr>ms_activeTurn := Some op\<rparr>, SendWaits SendRunning) else s)"
| "perform (SendChecked i ok) s =
     on_send i SendChecking (\<lambda>t s'. if ok then direct_send_result (sd_operationId t) (sd_content t) (send_claim (sd_operationId t) s') else s') s"
| "perform (SendAborted i recorded) s =
     on_send i SendAborting (\<lambda>t s'.
       (case recorded of
          None \<Rightarrow> s'
        | Some event \<Rightarrow> if takes (sd_operationId t) (abort_event recovered_message) event s then log_event event s' else s)) s"
| "perform (SendEnded i) s = on_send i SendRunning (\<lambda>t s'. turn_finally s') s"
| "perform (DrainAppended event) s =
     (case ms_drain s of
        DrainStarting queued \<Rightarrow>
          if takes (qt_operationId queued) (QueueStarted (qt_queueItemId queued)) event s
          then (log_event event s)\<lparr>ms_drain := DrainStarted queued\<rparr> else s
      | _ \<Rightarrow> s)"
| "perform DrainAppendFails s = (case ms_drain s of DrainStarting queued \<Rightarrow> drain_rejects s | _ \<Rightarrow> s)"
| "perform DrainSends s =
     (case ms_drain s of
        DrainStarted queued \<Rightarrow> drain_send_result queued (send_begin (qt_operationId queued) (qt_content queued) s)
      | _ \<Rightarrow> s)"
| "perform (DrainChecked ok) s =
     (case ms_drain s of
        DrainSending queued SendChecking \<Rightarrow>
          (if ok then drain_send_result queued (send_claim (qt_operationId queued) s)
           else s\<lparr>ms_drain := DrainSettled queued False\<rparr>)
      | _ \<Rightarrow> s)"
| "perform (DrainAborted recorded) s =
     (case ms_drain s of
        DrainSending queued SendAborting \<Rightarrow>
          (case recorded of
             None \<Rightarrow> s\<lparr>ms_drain := DrainSettled queued False\<rparr>
           | Some event \<Rightarrow>
               if takes (qt_operationId queued) (abort_event recovered_message) event s
               then drain_send_result queued (log_event event s, SendReturns) else s)
      | _ \<Rightarrow> s)"
| "perform (DrainTurnEnds ok) s =
     (case ms_drain s of
        DrainSending queued SendRunning \<Rightarrow> (turn_finally s)\<lparr>ms_drain := DrainSettled queued ok\<rparr>
      | _ \<Rightarrow> s)"
| "perform DrainContinues s =
     (case ms_drain s of
        DrainSettled queued True \<Rightarrow> drain_loop s
      | DrainSettled queued False \<Rightarrow> s\<lparr>ms_drain := DrainFailing queued\<rparr>
      | _ \<Rightarrow> s)"
| "perform (DrainErrorAppended event) s =
     (case ms_drain s of
        DrainFailing queued \<Rightarrow>
          if takes (qt_operationId queued) queued_prompt_failed event s
          then (log_event event s)\<lparr>ms_drain := DrainSettled queued True\<rparr> else s
      | _ \<Rightarrow> s)"
| "perform DrainErrorFails s = (case ms_drain s of DrainFailing queued \<Rightarrow> drain_rejects s | _ \<Rightarrow> s)"
| "perform DrainHandled s =
     (if ms_rejected s = 0 then s else s\<lparr>ms_rejected := ms_rejected s - 1, ms_disposing := True\<rparr>)"
| "perform BeginRebuild s = begin_rebuild s"
| "perform EndRebuild s = end_rebuild s"
| "perform (ReserveInterrupt op target) s = reserveInterruptDelivery op target s"
| "perform (ReleaseInterrupt op) s = releaseInterruptDelivery op s"
| "perform (OtherEvent event) s =
     (if queue_payload (ev_payload event) \<or> ev_id event \<in> ev_id ` set (ms_events s) then s else log_event event s)"
| "perform BeginDispose s = s\<lparr>ms_disposing := True\<rparr>"
| "perform BeginShutdown s = s\<lparr>ms_stopping := True\<rparr>"

definition perform_all :: "queue_action list \<Rightarrow> managed_session \<Rightarrow> managed_session" where
  "perform_all actions s = foldl (\<lambda>s a. perform a s) s actions"

section \<open>Logs that speak of enqueued prompts\<close>

fun mentions :: "payload \<Rightarrow> string option" where
  "mentions (QueueRequeued i _) = Some i"
| "mentions (QueueStarted i) = Some i"
| "mentions (QueuePaused i) = Some i"
| "mentions _ = None"

fun is_enqueued :: "payload \<Rightarrow> bool" where
  "is_enqueued (QueueEnqueued _ _) = True"
| "is_enqueued _ = False"

definition enqueued_ids :: "canonical_event list \<Rightarrow> string set" where
  "enqueued_ids events = ev_id ` {e \<in> set events. is_enqueued (ev_payload e)}"

definition queue_log_ok :: "canonical_event list \<Rightarrow> bool" where
  "queue_log_ok events \<longleftrightarrow> distinct (map ev_id events) \<and>
     (\<forall>i < length events. \<forall>k. mentions (ev_payload (events ! i)) = Some k \<longrightarrow> k \<in> enqueued_ids (take i events))"

lemma enqueued_snoc: "enqueued_ids (es @ [e]) = enqueued_ids es \<union> (if is_enqueued (ev_payload e) then {ev_id e} else {})"
  by (auto simp: enqueued_ids_def)

lemma enqueued_sub: "enqueued_ids es \<subseteq> ev_id ` set es"
  by (auto simp: enqueued_ids_def)

lemma queue_log_Nil [simp]: "queue_log_ok []"
  by (simp add: queue_log_ok_def)

lemma queue_log_snoc:
  "queue_log_ok (es @ [e]) \<longleftrightarrow> queue_log_ok es \<and> ev_id e \<notin> ev_id ` set es \<and>
     (\<forall>k. mentions (ev_payload e) = Some k \<longrightarrow> k \<in> enqueued_ids es)"
  by (auto simp: queue_log_ok_def nth_append less_Suc_eq)

lemma is_enqueued_case: "(case p of QueueEnqueued _ _ \<Rightarrow> b | _ \<Rightarrow> False) \<longleftrightarrow> is_enqueued p \<and> b"
  by (cases p) simp_all

lemma find_enqueued_iff: "find_enqueued es k = List.find (\<lambda>e. is_enqueued (ev_payload e) \<and> ev_id e = k) es"
  by (simp add: find_enqueued_def is_enqueued_case)

lemma find_None: "find_enqueued es k = None \<longleftrightarrow> k \<notin> enqueued_ids es"
  by (auto simp: find_enqueued_iff find_None_iff enqueued_ids_def)

lemma find_SomeD: "find_enqueued es k = Some q \<Longrightarrow> ev_id q = k \<and> is_enqueued (ev_payload q) \<and> q \<in> set es"
  by (auto simp: find_enqueued_iff find_Some_iff)

lemma find_append: "List.find P (xs @ ys) = (case List.find P xs of None \<Rightarrow> List.find P ys | Some x \<Rightarrow> Some x)"
  by (induction xs) auto

lemma find_snoc: "k \<in> enqueued_ids es \<Longrightarrow> find_enqueued (es @ ys) k = find_enqueued es k"
  using find_None [of es k] by (auto simp: find_enqueued_iff find_append split: option.split)

lemma find_snoc_Some: "find_enqueued es k = Some q \<Longrightarrow> find_enqueued (es @ ys) k = Some q"
  by (simp add: find_enqueued_iff find_append)

section \<open>The pending prompts, event by event\<close>

lemma pending_step_cong:
  "(\<And>k. mentions (ev_payload e) = Some k \<Longrightarrow> find_enqueued es k = find_enqueued es' k) \<Longrightarrow>
   pending_step es m e = pending_step es' m e"
  by (cases "ev_payload e") (simp_all add: pending_step_def)

lemma queue_log_mentions:
  assumes "queue_log_ok es" "e \<in> set es" "mentions (ev_payload e) = Some k" shows "k \<in> enqueued_ids es"
proof -
  obtain i where i: "i < length es" "e = es ! i" using assms(2) by (auto simp: in_set_conv_nth)
  then have "k \<in> enqueued_ids (take i es)" using assms by (auto simp: queue_log_ok_def)
  then show ?thesis using set_take_subset [of i es] by (auto simp: enqueued_ids_def)
qed

lemma pending_snoc:
  assumes "queue_log_ok (es @ [e])"
  shows "recovered_pending (es @ [e]) = pending_step es (recovered_pending es) e"
proof -
  have ok: "queue_log_ok es" and m: "\<And>k. mentions (ev_payload e) = Some k \<Longrightarrow> k \<in> enqueued_ids es"
    using assms by (auto simp: queue_log_snoc)
  have "foldl (pending_step (es @ [e])) m es = foldl (pending_step es) m es" for m
  proof (rule foldl_cong [OF refl refl])
    fix x a assume "x \<in> set es"
    then show "pending_step (es @ [e]) a x = pending_step es a x"
      using queue_log_mentions [OF ok] find_snoc by (intro pending_step_cong) blast
  qed
  moreover have "pending_step (es @ [e]) a e = pending_step es a e" for a
    using m find_snoc by (intro pending_step_cong) blast
  ultimately show ?thesis by (simp add: recovered_pending_def)
qed

definition pending_ids :: "canonical_event list \<Rightarrow> string set" where
  "pending_ids es = set (mkeys (recovered_pending es))"

lemma pending_ids_Nil [simp]: "pending_ids [] = {}"
  by (simp add: pending_ids_def recovered_pending_def mkeys_def)

lemma pending_ids_snoc:
  assumes "queue_log_ok (es @ [e])"
  shows "pending_ids (es @ [e]) =
    (case ev_payload e of
       QueueEnqueued _ _ \<Rightarrow> if ev_operationId e = None then pending_ids es else insert (ev_id e) (pending_ids es)
     | QueueStarted k \<Rightarrow> pending_ids es - {k}
     | QueuePaused k \<Rightarrow> pending_ids es - {k}
     | QueueRequeued k _ \<Rightarrow>
         (case find_enqueued es k of None \<Rightarrow> pending_ids es
          | Some q \<Rightarrow> if ev_operationId q = None then pending_ids es else insert k (pending_ids es))
     | _ \<Rightarrow> pending_ids es)"
  unfolding pending_ids_def pending_snoc [OF assms]
  by (cases "ev_payload e")
    (auto simp: pending_step_def jsmap.keys_put_set jsmap.keys_del dest: find_SomeD split: option.split)

lemma pending_other:
  assumes "queue_log_ok es" "\<not> queue_payload (ev_payload e)" "ev_id e \<notin> ev_id ` set es"
  shows "queue_log_ok (es @ [e])" "pending_ids (es @ [e]) = pending_ids es"
proof -
  have "mentions (ev_payload e) = None" using assms(2) by (cases "ev_payload e") (simp_all add: queue_payload_def)
  then show ok: "queue_log_ok (es @ [e])" using assms by (simp add: queue_log_snoc)
  show "pending_ids (es @ [e]) = pending_ids es"
    using assms(2) by (cases "ev_payload e") (simp_all add: pending_ids_snoc [OF ok] queue_payload_def)
qed

lemma pending_sub: "queue_log_ok es \<Longrightarrow> pending_ids es \<subseteq> enqueued_ids es"
proof (induction es rule: rev_induct)
  case (snoc e es)
  then have ih: "pending_ids es \<subseteq> enqueued_ids es" by (simp add: queue_log_snoc)
  show ?case
    using ih snoc.prems find_None [of es] unfolding pending_ids_snoc [OF snoc.prems] enqueued_snoc
    by (cases "ev_payload e") (auto simp: queue_log_snoc split: option.splits)
qed simp

lemma latest_snoc:
  "latest_state (es @ [e]) k = (if mentions (ev_payload e) = Some k then Some e else latest_state es k)"
  by (cases "ev_payload e") (auto simp: latest_state_def)

lemma latest_enqueued:
  assumes "queue_log_ok es" "latest_state es k = Some e" shows "k \<in> enqueued_ids es"
  using assms
proof (induction es rule: rev_induct)
  case Nil
  then show ?case by (simp add: latest_state_def)
next
  case (snoc x es)
  then show ?case by (auto simp: latest_snoc queue_log_snoc enqueued_snoc split: if_splits)
qed

lemma paused_not_pending:
  assumes "queue_log_ok es" "latest_state es k = Some e" "ev_payload e = QueuePaused j"
  shows "k \<notin> pending_ids es"
  using assms
proof (induction es rule: rev_induct)
  case (snoc x es)
  have ok: "queue_log_ok es" "ev_id x \<notin> ev_id ` set es" using snoc.prems(1) by (simp_all add: queue_log_snoc)
  show ?case
  proof (cases "mentions (ev_payload x) = Some k")
    case True
    then have "e = x" using snoc.prems(2) by (simp add: latest_snoc)
    then have "ev_payload x = QueuePaused k" using True snoc.prems(3) by simp
    then show ?thesis by (simp add: pending_ids_snoc [OF snoc.prems(1)])
  next
    case False
    then have l: "latest_state es k = Some e" using snoc.prems(2) by (simp add: latest_snoc)
    then have "k \<notin> pending_ids es" and "k \<in> ev_id ` set es"
      using snoc.IH ok snoc.prems(3) latest_enqueued [OF ok(1) l] enqueued_sub by blast+
    moreover from this(2) have "k \<noteq> ev_id x" using ok(2) by metis
    ultimately show ?thesis using False unfolding pending_ids_snoc [OF snoc.prems(1)]
      by (cases "ev_payload x") (auto split: option.splits)
  qed
qed simp

end
