(* ===== verification/Projector.thy ===== *)
theory Projector
  imports Session_Tree
begin

text \<open>
  The conversation projector of the SDK (\<^verbatim>\<open>packages/sdk/src/projector.ts\<close>): the reduction of one
  session lineage, event by event, to what a client shows, and of the transient activity frames
  between the events.

  \<^verbatim>\<open>applyEvent\<close> may throw after it has already changed the projector; the model returns the state
  reached next to the error. A set of identifiers is a set, a \<^verbatim>\<open>Map\<close> an insertion-ordered one.
\<close>

section \<open>The state\<close>

datatype projection_error = ProjectionError (pe_code: string) (pe_message: string)

record generic_event =
  gen_id :: string
  gen_sessionId :: string
  gen_parentId :: "string option"
  gen_json :: json_object

datatype conversation_record = EventRecord canonical_event | UnknownRecord generic_event

datatype render_intent =
  RenderShell | RenderRead | RenderEdit | RenderSearch | RenderWeb | RenderMcp | RenderWorkflow | RenderGeneric

record projected_result =
  prs_eventId :: string
  prs_content :: "content_item list"
  prs_isError :: bool
  prs_details :: "json option"

record projected_tool_call =
  pt_callId :: string
  pt_name :: string
  pt_input :: json_object
  pt_callEventId :: string
  pt_operationId :: "string option"
  pt_result :: "projected_result option"
  pt_renderIntent :: render_intent

record projected_interaction =
  pi_interactionId :: string
  pi_request :: canonical_event
  pi_resolution :: "canonical_event option"

record projected_activity =
  act_operationId :: string
  act_sequence :: int
  act_text :: string
  act_thinking :: string
  act_toolCalls :: "(string \<times> string) list"

record usage_totals =
  tot_input :: int
  tot_output :: int
  tot_cacheRead :: int
  tot_cacheWrite :: int
  tot_reasoning :: int
  tot_costUsd :: jsnum

datatype operation_status = OpRunning | OpWaitingInteraction | OpSucceeded | OpFailed | OpAborted

datatype queue_status = QQueued | QRunning | QPaused | QCompleted | QFailed | QAborted

record projected_queue_item =
  pq_queueItemId :: string
  pq_operationId :: "string option"
  pq_content :: "content_item list"
  pq_priority :: queue_priority
  pq_status :: queue_status

datatype delivery_status = DeliveryQueued | DeliveryState interrupt_state

record projected_interrupt =
  pd_requestEventId :: string
  pd_operationId :: "string option"
  pd_content :: "content_item list"
  pd_targetOperationId :: "string option"
  pd_reason :: "string option"
  pd_status :: delivery_status

record projector =
  pj_sessionId :: "string option"
  pj_selectedNodeId :: "string option"
  pj_records :: "conversation_record list"
  pj_events :: "(string, string) jsmap"
  pj_tools :: "(string, projected_tool_call) jsmap"
  pj_interactions :: "(string, projected_interaction) jsmap"
  pj_operations :: "(string, operation_status) jsmap"
  pj_uncertainShells :: "(string, string) jsmap"
  pj_queue :: "(string, projected_queue_item) jsmap"
  pj_interrupts :: "(string, projected_interrupt) jsmap"
  pj_activeOperationId :: "string option"
  pj_model :: "string option"
  pj_provider :: "string option"
  pj_entitlement :: "string option"
  pj_thinking :: "thinking_level option"
  pj_requestSettings :: "model_request_settings option"
  pj_lastRequest :: "model_request_configuration option"
  pj_profile :: "session_profile option"
  pj_webFetch :: "bool option"
  pj_webSearch :: "bool option"
  pj_sandbox :: "(string \<times> bool) option"
  pj_usage :: usage_totals
  pj_activity :: "projected_activity option"
  pj_sequences :: "(string, int) jsmap"
  pj_retired :: "string set"
  pj_latestActivity :: "string option"
  pj_closed :: bool
  pj_lastError :: "canonical_event option"
  pj_lastCompaction :: "canonical_event option"
  pj_compacted :: "string list"

definition EMPTY_USAGE :: usage_totals where
  "EMPTY_USAGE = \<lparr>tot_input = 0, tot_output = 0, tot_cacheRead = 0, tot_cacheWrite = 0, tot_reasoning = 0,
     tot_costUsd = JInt 0\<rparr>"

definition MAX_PROJECTED_ACTIVITY_CHARACTERS :: nat where
  "MAX_PROJECTED_ACTIVITY_CHARACTERS = 131072"

definition ACTIVITY_TRIM_BATCH_CHARACTERS :: nat where
  "ACTIVITY_TRIM_BATCH_CHARACTERS = 16384"

definition new_projector :: "string option \<Rightarrow> string option \<Rightarrow> projector" where
  "new_projector sessionId selectedNodeId =
     \<lparr>pj_sessionId = sessionId, pj_selectedNodeId = selectedNodeId, pj_records = [], pj_events = [], pj_tools = [],
      pj_interactions = [], pj_operations = [], pj_uncertainShells = [], pj_queue = [], pj_interrupts = [],
      pj_activeOperationId = None, pj_model = None, pj_provider = None, pj_entitlement = None, pj_thinking = None,
      pj_requestSettings = None, pj_lastRequest = None, pj_profile = None, pj_webFetch = None, pj_webSearch = None,
      pj_sandbox = None, pj_usage = EMPTY_USAGE, pj_activity = None, pj_sequences = [], pj_retired = {},
      pj_latestActivity = None, pj_closed = False, pj_lastError = None, pj_lastCompaction = None, pj_compacted = []\<rparr>"

definition isEventCompacted :: "string \<Rightarrow> projector \<Rightarrow> bool" where
  "isEventCompacted eventId p \<longleftrightarrow> eventId \<in> set (pj_compacted p)"

text \<open>
  \<^verbatim>\<open>reset\<close>: everything but the uncertain shells of an unchanged selection. An argument that is left out
  stands for the value the projector has.
\<close>

definition projector_reset :: "string option \<Rightarrow> string option \<Rightarrow> projector \<Rightarrow> projector" where
  "projector_reset sessionId selectedNodeId p =
     (let s = (if sessionId = None then pj_sessionId p else sessionId);
          n = (if selectedNodeId = None then pj_selectedNodeId p else selectedNodeId) in
      (new_projector s n)
       \<lparr>pj_uncertainShells := if s = pj_sessionId p \<and> n = pj_selectedNodeId p then pj_uncertainShells p else []\<rparr>)"

section \<open>Helpers\<close>

definition renderIntent :: "string \<Rightarrow> render_intent" where
  "renderIntent name =
     (let n = to_lower name in
      if n = ''bash'' \<or> n = ''shell'' \<or> str_includes n ''terminal'' then RenderShell
      else if n = ''read'' \<or> str_includes n ''read_file'' then RenderRead
      else if n = ''edit'' \<or> str_includes n ''write'' \<or> str_includes n ''diff'' then RenderEdit
      else if str_includes n ''search'' \<or> str_includes n ''grep'' then RenderSearch
      else if str_includes n ''web'' \<or> str_includes n ''fetch'' then RenderWeb
      else if starts_with n ''mcp'' \<or> str_includes n ''__'' then RenderMcp
      else if str_includes n ''workflow'' then RenderWorkflow
      else RenderGeneric)"

definition boundedActivityText :: "string \<Rightarrow> string \<Rightarrow> string" where
  "boundedActivityText current addition =
     (let combined = current @ addition in
      if length combined \<le> MAX_PROJECTED_ACTIVITY_CHARACTERS + ACTIVITY_TRIM_BATCH_CHARACTERS then combined
      else drop (length combined - MAX_PROJECTED_ACTIVITY_CHARACTERS) combined)"

definition addUsage :: "usage_totals \<Rightarrow> usage option \<Rightarrow> usage_totals" where
  "addUsage tot u =
     (case u of
        None \<Rightarrow> tot
      | Some v \<Rightarrow>
          \<lparr>tot_input = tot_input tot + inputTokens v, tot_output = tot_output tot + outputTokens v,
           tot_cacheRead = tot_cacheRead tot + cacheReadTokens v, tot_cacheWrite = tot_cacheWrite tot + cacheWriteTokens v,
           tot_reasoning = tot_reasoning tot + (case reasoningTokens v of None \<Rightarrow> 0 | Some r \<Rightarrow> r),
           tot_costUsd = num_add (tot_costUsd tot) (case costUsd v of None \<Rightarrow> JInt 0 | Some c \<Rightarrow> c)\<rparr>)"

lemma length_mdel: "length (mdel m k) \<le> length m"
  by (simp add: mdel_def AList.delete_eq)

text \<open>\<^verbatim>\<open>rememberActivitySequence\<close>: the newest 128 operations, with the retirement of those dropped.\<close>

function trim_sequences :: "projector \<Rightarrow> projector" where
  "trim_sequences p =
     (case pj_sequences p of
        [] \<Rightarrow> p
      | (oldest, _) # rest \<Rightarrow>
          if 128 < length (pj_sequences p)
          then trim_sequences (p\<lparr>pj_sequences := mdel (pj_sequences p) oldest, pj_retired := pj_retired p - {oldest}\<rparr>)
          else p)"
  by pat_completeness auto

termination
proof (relation "measure (\<lambda>p. length (pj_sequences p))")
  fix p :: projector and x oldest b rest
  assume "pj_sequences p = x # rest" "(oldest, b) = x"
  then show "(p\<lparr>pj_sequences := mdel (pj_sequences p) oldest, pj_retired := pj_retired p - {oldest}\<rparr>, p)
      \<in> measure (\<lambda>p. length (pj_sequences p))"
    using length_mdel [of rest oldest] by auto
qed simp

declare trim_sequences.simps [simp del]

definition rememberActivitySequence :: "string \<Rightarrow> int \<Rightarrow> projector \<Rightarrow> projector" where
  "rememberActivitySequence op n p =
     trim_sequences (p\<lparr>pj_sequences := mput (mdel (pj_sequences p) op) op n\<rparr>)"

definition retireActivity :: "string \<Rightarrow> projector \<Rightarrow> projector" where
  "retireActivity op p =
     rememberActivitySequence op
       (case mget (pj_sequences p) op of
          Some n \<Rightarrow> n
        | None \<Rightarrow> (case pj_activity p of Some a \<Rightarrow> act_sequence a | None \<Rightarrow> 0))
       (p\<lparr>pj_retired := insert op (pj_retired p)\<rparr>)"

definition resetActivity :: "projector \<Rightarrow> projector" where
  "resetActivity p = p\<lparr>pj_activity := None, pj_sequences := [], pj_retired := {}, pj_latestActivity := None\<rparr>"

definition activity_of :: "string \<Rightarrow> projector \<Rightarrow> bool" where
  "activity_of op p \<longleftrightarrow> (case pj_activity p of Some a \<Rightarrow> act_operationId a = op | None \<Rightarrow> False)"

definition clearActivity :: "string option \<Rightarrow> projector \<Rightarrow> projector" where
  "clearActivity operationId p =
     (case operationId of
        None \<Rightarrow>
          (let p1 = (case pj_latestActivity p of Some latest \<Rightarrow> retireActivity latest p | None \<Rightarrow> p) in
           p1\<lparr>pj_activity := None, pj_latestActivity := None\<rparr>)
      | Some op \<Rightarrow>
          (let p1 = (if activity_of op p then p\<lparr>pj_activity := None\<rparr> else p);
               p2 = retireActivity op p1 in
           if pj_latestActivity p2 = Some op then p2\<lparr>pj_latestActivity := None\<rparr> else p2))"

definition markShellUncertain :: "string \<Rightarrow> string \<Rightarrow> projector \<Rightarrow> projector" where
  "markShellUncertain op command p = p\<lparr>pj_uncertainShells := mput (pj_uncertainShells p) op command\<rparr>"

definition operation_open :: "operation_status \<Rightarrow> bool" where
  "operation_open s \<longleftrightarrow> s = OpRunning \<or> s = OpWaitingInteraction"

definition updateOperation :: "string option \<Rightarrow> operation_status \<Rightarrow> projector \<Rightarrow> projector" where
  "updateOperation operationId status p =
     (case operationId of
        None \<Rightarrow> p
      | Some op \<Rightarrow>
          p\<lparr>pj_operations := mput (pj_operations p) op status,
            pj_activeOperationId :=
              if operation_open status then Some op
              else if pj_activeOperationId p = Some op then None
              else pj_activeOperationId p\<rparr>)"

definition completeQueuedOperation :: "string option \<Rightarrow> queue_status \<Rightarrow> projector \<Rightarrow> projector" where
  "completeQueuedOperation operationId status p =
     (case operationId of
        None \<Rightarrow> p
      | Some op \<Rightarrow>
          p\<lparr>pj_queue := map (\<lambda>(k, item).
             (k, if pq_operationId item = Some op \<and> pq_status item = QRunning then item\<lparr>pq_status := status\<rparr> else item))
             (pj_queue p)\<rparr>)"

type_synonym projection_result = "projector \<times> projection_error option"

definition updateQueueItem :: "string \<Rightarrow> queue_status \<Rightarrow> queue_priority option \<Rightarrow> projector \<Rightarrow> projection_result" where
  "updateQueueItem itemId status priority p =
     (case mget (pj_queue p) itemId of
        None \<Rightarrow> (p, Some (ProjectionError ''queue_identity_conflict'' (''Unknown queue item '' @ itemId)))
      | Some current \<Rightarrow>
          (p\<lparr>pj_queue := mput (pj_queue p) itemId
               (current\<lparr>pq_status := status,
                  pq_priority := (case priority of None \<Rightarrow> pq_priority current | Some x \<Rightarrow> x)\<rparr>)\<rparr>, None))"

section \<open>Events\<close>

definition ok_result :: "projector \<Rightarrow> projection_result" where
  "ok_result p = (p, None)"

definition stop_status :: "stop_reason \<Rightarrow> operation_status \<times> queue_status" where
  "stop_status reason =
     (case reason of
        StopAborted \<Rightarrow> (OpAborted, QAborted)
      | StopError \<Rightarrow> (OpFailed, QFailed)
      | _ \<Rightarrow> (OpSucceeded, QCompleted))"

definition end_operation :: "string option \<Rightarrow> operation_status \<Rightarrow> queue_status \<Rightarrow> projector \<Rightarrow> projector" where
  "end_operation op status queued p =
     clearActivity op (completeQueuedOperation op queued (updateOperation op status p))"

definition identity_conflict :: "string \<Rightarrow> string \<Rightarrow> projector \<Rightarrow> projection_result" where
  "identity_conflict code message p = (p, Some (ProjectionError code message))"

definition project_interrupt_request :: "canonical_event \<Rightarrow> content_item list \<Rightarrow> string option \<Rightarrow> projector \<Rightarrow> projection_result" where
  "project_interrupt_request event content target p =
     (case ev_operationId event of
        None \<Rightarrow> identity_conflict ''interrupt_identity_conflict''
          (''Interrupt request '' @ ev_id event @ '' has no operation identity'') p
      | Some op \<Rightarrow> ok_result (p\<lparr>pj_interrupts := mput (pj_interrupts p) op
          \<lparr>pd_requestEventId = ev_id event, pd_operationId = Some op, pd_content = content,
           pd_targetOperationId = target, pd_reason = None, pd_status = DeliveryQueued\<rparr>\<rparr>))"

definition project_interrupt_update :: "canonical_event \<Rightarrow> interrupt_state \<Rightarrow> string option \<Rightarrow> string option \<Rightarrow> projector \<Rightarrow> projection_result" where
  "project_interrupt_update event st target reason p =
     (case ev_operationId event of
        None \<Rightarrow> identity_conflict ''interrupt_identity_conflict''
          (''Interrupt update '' @ ev_id event @ '' has no operation identity'') p
      | Some op \<Rightarrow>
          (case mget (pj_interrupts p) op of
             None \<Rightarrow> identity_conflict ''interrupt_identity_conflict''
               (''Interrupt update '' @ ev_id event @ '' has no matching request'') p
           | Some delivery \<Rightarrow> ok_result (p\<lparr>pj_interrupts := mput (pj_interrupts p) op
               (delivery\<lparr>pd_status := DeliveryState st,
                  pd_targetOperationId := (if target = None then pd_targetOperationId delivery else target),
                  pd_reason := (if reason = None then pd_reason delivery else reason)\<rparr>)\<rparr>)))"

definition project_tool_call :: "canonical_event \<Rightarrow> string \<Rightarrow> string \<Rightarrow> json_object \<Rightarrow> projector \<Rightarrow> projection_result" where
  "project_tool_call event callId name input p0 =
     (let p = updateOperation (ev_operationId event) OpRunning p0 in
      if mhas (pj_tools p) callId then
        identity_conflict ''tool_identity_conflict'' (''Duplicate tool call '' @ callId) p
      else ok_result (p\<lparr>pj_tools := mput (pj_tools p) callId
             \<lparr>pt_callId = callId, pt_name = name, pt_input = input, pt_callEventId = ev_id event,
              pt_operationId = ev_operationId event, pt_result = None, pt_renderIntent = renderIntent name\<rparr>,
           pj_activity := map_option (\<lambda>a.
             if Some (act_operationId a) = ev_operationId event
             then a\<lparr>act_toolCalls := filter (\<lambda>c. fst c \<noteq> callId) (act_toolCalls a)\<rparr> else a) (pj_activity p)\<rparr>))"

definition project_tool_result :: "canonical_event \<Rightarrow> string \<Rightarrow> string \<Rightarrow> content_item list \<Rightarrow> bool \<Rightarrow> json option \<Rightarrow>
    projector \<Rightarrow> projection_result" where
  "project_tool_result event callId name content isError details p =
     (let conflict = identity_conflict ''tool_identity_conflict'' (''Tool result '' @ callId @ '' has no matching call'') p in
      case mget (pj_tools p) callId of
        None \<Rightarrow> conflict
      | Some call \<Rightarrow>
          if pt_name call \<noteq> name \<or> pt_result call \<noteq> None then conflict
          else ok_result (p\<lparr>pj_tools := mput (pj_tools p) callId (call\<lparr>pt_result :=
            Some \<lparr>prs_eventId = ev_id event, prs_content = content, prs_isError = isError, prs_details = details\<rparr>\<rparr>)\<rparr>))"

definition project_interaction :: "canonical_event \<Rightarrow> string \<Rightarrow> projector \<Rightarrow> projection_result" where
  "project_interaction event interactionId p =
     (if mhas (pj_interactions p) interactionId then
        identity_conflict ''interaction_identity_conflict'' (''Duplicate interaction '' @ interactionId) p
      else ok_result (updateOperation (ev_operationId event) OpWaitingInteraction
             (p\<lparr>pj_interactions := mput (pj_interactions p) interactionId
                \<lparr>pi_interactionId = interactionId, pi_request = event, pi_resolution = None\<rparr>\<rparr>)))"

definition project_resolution :: "canonical_event \<Rightarrow> string \<Rightarrow> projector \<Rightarrow> projection_result" where
  "project_resolution event interactionId p =
     (let conflict = identity_conflict ''interaction_identity_conflict''
            (''Interaction '' @ interactionId @ '' cannot be resolved'') p in
      case mget (pj_interactions p) interactionId of
        None \<Rightarrow> conflict
      | Some interaction \<Rightarrow>
          if pi_resolution interaction \<noteq> None then conflict
          else ok_result (updateOperation (ev_operationId event) OpRunning
                 (p\<lparr>pj_interactions := mput (pj_interactions p) interactionId (interaction\<lparr>pi_resolution := Some event\<rparr>)\<rparr>)))"

definition add_compacted :: "string list \<Rightarrow> string list \<Rightarrow> string list" where
  "add_compacted have ids = foldl (\<lambda>acc i. if i \<in> set acc then acc else acc @ [i]) have ids"

text \<open>The \<^verbatim>\<open>switch\<close> of \<^verbatim>\<open>applyEvent\<close>.\<close>

definition project_payload :: "canonical_event \<Rightarrow> projector \<Rightarrow> projection_result" where
  "project_payload event p =
     (let op = ev_operationId event in
      case ev_payload event of
        UserMessage _ \<Rightarrow> ok_result (updateOperation op OpRunning p)
      | QueueEnqueued content priority \<Rightarrow> ok_result (p\<lparr>pj_queue := mput (pj_queue p) (ev_id event)
          \<lparr>pq_queueItemId = ev_id event, pq_operationId = op, pq_content = content, pq_priority = priority,
           pq_status = QQueued\<rparr>\<rparr>)
      | QueueRequeued item priority \<Rightarrow> updateQueueItem item QQueued (Some priority) p
      | QueueStarted item \<Rightarrow>
          (case updateQueueItem item QRunning None p of
             (p', Some e) \<Rightarrow> (p', Some e)
           | (p', None) \<Rightarrow> ok_result (updateOperation op OpRunning p'))
      | QueuePaused item \<Rightarrow> updateQueueItem item QPaused None p
      | InterruptRequested content target \<Rightarrow> project_interrupt_request event content target p
      | InterruptUpdated st target reason \<Rightarrow> project_interrupt_update event st target reason p
      | UserShell _ _ isError _ \<Rightarrow>
          (let p' = updateOperation op (if isError then OpFailed else OpSucceeded) p in
           ok_result (case op of None \<Rightarrow> p' | Some x \<Rightarrow> p'\<lparr>pj_uncertainShells := mdel (pj_uncertainShells p') x\<rparr>))
      | ToolCall callId name input \<Rightarrow> project_tool_call event callId name input p
      | ToolResult callId name content isError details \<Rightarrow> project_tool_result event callId name content isError details p
      | InteractionRequested interactionId _ _ _ _ \<Rightarrow> project_interaction event interactionId p
      | InteractionResolved interactionId _ _ \<Rightarrow> project_resolution event interactionId p
      | ConfigModel modelId \<Rightarrow> ok_result (p\<lparr>pj_model := Some modelId\<rparr>)
      | ConfigProvider providerId \<Rightarrow> ok_result (p\<lparr>pj_provider := Some providerId\<rparr>)
      | ConfigEntitlement entitlementId \<Rightarrow> ok_result (p\<lparr>pj_entitlement := Some entitlementId\<rparr>)
      | ConfigRequest settings \<Rightarrow> ok_result (p\<lparr>pj_requestSettings := Some settings\<rparr>)
      | ModelRequestConfigured configuration \<Rightarrow> ok_result (p\<lparr>pj_lastRequest := Some configuration\<rparr>)
      | ConfigThinking _ effective _ \<Rightarrow> ok_result (p\<lparr>pj_thinking := Some effective\<rparr>)
      | ConfigProfile profile \<Rightarrow> ok_result (p\<lparr>pj_profile := Some profile\<rparr>)
      | ConfigTools webFetch webSearch \<Rightarrow> ok_result (p\<lparr>pj_webFetch := Some webFetch, pj_webSearch := Some webSearch\<rparr>)
      | SandboxConfigured provider enforced _ _ \<Rightarrow> ok_result (p\<lparr>pj_sandbox := Some (provider, enforced)\<rparr>)
      | AssistantMessage _ stopReason u _ \<Rightarrow>
          (let p' = p\<lparr>pj_usage := addUsage (pj_usage p) u\<rparr> in
           ok_result (if stopReason = ToolUse then updateOperation op OpRunning p'
             else (case stop_status stopReason of (status, queued) \<Rightarrow> end_operation op status queued p')))
      | ContextCompacted _ replaced u \<Rightarrow>
          ok_result (p\<lparr>pj_usage := addUsage (pj_usage p) u, pj_lastCompaction := Some event,
            pj_compacted := add_compacted (pj_compacted p) replaced\<rparr>)
      | SessionErrorEv _ _ _ _ \<Rightarrow> ok_result (end_operation op OpFailed QFailed (p\<lparr>pj_lastError := Some event\<rparr>))
      | SessionClosed _ \<Rightarrow>
          ok_result (clearActivity op ((updateOperation op OpSucceeded (p\<lparr>pj_closed := True\<rparr>))\<lparr>pj_activeOperationId := None\<rparr>))
      | _ \<Rightarrow> ok_result p)"

definition encoded_event :: "canonical_event \<Rightarrow> string" where
  "encoded_event event = json_text (event_json event)"

text \<open>The part that known and unknown events share: identity, duplicates, parents, recording.\<close>

datatype admission = Rejected projection_error | Duplicate | Admitted projector

definition admit :: "string \<Rightarrow> string \<Rightarrow> string option \<Rightarrow> string \<Rightarrow> conversation_record \<Rightarrow> string \<Rightarrow> projector \<Rightarrow> admission" where
  "admit eventId sessionId parentId encoded record_of altered p =
     (if pj_sessionId p \<noteq> None \<and> pj_sessionId p \<noteq> Some sessionId then
        Rejected (ProjectionError ''session_mismatch'' ''Event belongs to another session'')
      else
        (case mget (pj_events p) eventId of
           Some prior \<Rightarrow>
             if prior \<noteq> encoded then Rejected (ProjectionError ''altered_duplicate'' altered) else Duplicate
         | None \<Rightarrow>
             if parentId \<noteq> None \<and> \<not> mhas (pj_events p) (the parentId) then
               Rejected (ProjectionError ''missing_parent'' (''Event '' @ eventId @ '' has a missing parent''))
             else Admitted (p\<lparr>pj_events := mput (pj_events p) eventId encoded, pj_records := pj_records p @ [record_of]\<rparr>)))"

definition applyEvent :: "canonical_event \<Rightarrow> projector \<Rightarrow> projector \<times> (projection_error + bool)" where
  "applyEvent event p0 =
     (let p = (if pj_sessionId p0 = None then p0\<lparr>pj_sessionId := Some (ev_sessionId event)\<rparr> else p0) in
      case admit (ev_id event) (ev_sessionId event) (ev_parentId event) (encoded_event event) (EventRecord event)
             (''Event '' @ ev_id event @ '' changed in transit'') p of
        Rejected e \<Rightarrow> (p, Inl e)
      | Duplicate \<Rightarrow> (p, Inr False)
      | Admitted p' \<Rightarrow> (case project_payload event p' of (p2, Some e) \<Rightarrow> (p2, Inl e) | (p2, None) \<Rightarrow> (p2, Inr True)))"

definition applyUnknownEvent :: "generic_event \<Rightarrow> projector \<Rightarrow> projector \<times> (projection_error + bool)" where
  "applyUnknownEvent event p =
     (case admit (gen_id event) (gen_sessionId event) (gen_parentId event) (json_text (JObj (gen_json event)))
             (UnknownRecord event) ''Unknown event changed'' p of
        Rejected e \<Rightarrow> (p, Inl e)
      | Duplicate \<Rightarrow> (p, Inr False)
      | Admitted p' \<Rightarrow> (p', Inr True))"

text \<open>Events one after the other, up to the first that throws.\<close>

fun applyEvents :: "canonical_event list \<Rightarrow> projector \<Rightarrow> projector \<times> projection_error option" where
  "applyEvents [] p = (p, None)"
| "applyEvents (event # events) p =
     (case applyEvent event p of (p', Inl e) \<Rightarrow> (p', Some e) | (p', Inr _) \<Rightarrow> applyEvents events p')"

definition projector_replace :: "canonical_event list \<Rightarrow> string option \<Rightarrow> string option \<Rightarrow> projector \<Rightarrow>
    projector \<times> projection_error option" where
  "projector_replace events sessionId selectedNodeId p =
     applyEvents events (projector_reset sessionId selectedNodeId p)"

section \<open>Activity\<close>

datatype session_activity_frame =
    TextFrame (fr_operationId: string) (fr_sequence: int) string
  | ThinkingFrame (fr_operationId: string) (fr_sequence: int) string
  | ToolCallFrame (fr_operationId: string) (fr_sequence: int) "string \<times> string"
  | SnapshotFrame (fr_operationId: string) (fr_sequence: int) string string "(string \<times> string) list"
  | ClearFrame (fr_operationId: string) (fr_sequence: int)

definition is_snapshot :: "session_activity_frame \<Rightarrow> bool" where
  "is_snapshot frame \<longleftrightarrow> (case frame of SnapshotFrame _ _ _ _ _ \<Rightarrow> True | _ \<Rightarrow> False)"

definition drop_activity :: "bool \<Rightarrow> projector \<Rightarrow> projector" where
  "drop_activity b p = (if b then p\<lparr>pj_activity := None\<rparr> else p)"

definition next_activity :: "session_activity_frame \<Rightarrow> projected_activity \<Rightarrow> projected_activity option" where
  "next_activity frame base =
     (case frame of
        ClearFrame _ _ \<Rightarrow> None
      | SnapshotFrame op n t th calls \<Rightarrow>
          Some \<lparr>act_operationId = op, act_sequence = n, act_text = boundedActivityText [] t,
                act_thinking = boundedActivityText [] th, act_toolCalls = calls\<rparr>
      | TextFrame _ n t \<Rightarrow> Some (base\<lparr>act_sequence := n, act_text := boundedActivityText (act_text base) t\<rparr>)
      | ThinkingFrame _ n t \<Rightarrow> Some (base\<lparr>act_sequence := n, act_thinking := boundedActivityText (act_thinking base) t\<rparr>)
      | ToolCallFrame _ n call \<Rightarrow>
          Some (if list_ex (\<lambda>c. fst c = fst call) (act_toolCalls base) then base\<lparr>act_sequence := n\<rparr>
                else base\<lparr>act_sequence := n, act_toolCalls := act_toolCalls base @ [call]\<rparr>))"

definition sequence_gap :: "string \<Rightarrow> projection_error" where
  "sequence_gap message = ProjectionError ''activity_sequence_gap'' message"

definition accept_activity :: "session_activity_frame \<Rightarrow> projector \<Rightarrow> projector" where
  "accept_activity frame p =
     (let op = fr_operationId frame;
          p1 = (case pj_latestActivity p of
                  Some latest \<Rightarrow> if latest \<noteq> op then retireActivity latest p else p
                | None \<Rightarrow> p);
          p2 = p1\<lparr>pj_latestActivity := Some op\<rparr>;
          base = (case pj_activity p2 of
                    Some a \<Rightarrow> if act_operationId a = op then a
                      else \<lparr>act_operationId = op, act_sequence = fr_sequence frame - 1, act_text = [], act_thinking = [], act_toolCalls = []\<rparr>
                  | None \<Rightarrow> \<lparr>act_operationId = op, act_sequence = fr_sequence frame - 1, act_text = [], act_thinking = [], act_toolCalls = []\<rparr>);
          p3 = rememberActivitySequence op (fr_sequence frame) p2 in
      p3\<lparr>pj_activity := next_activity frame base\<rparr>)"

definition applyActivity :: "session_activity_frame \<Rightarrow> projector \<Rightarrow> projector \<times> (projection_error + bool)" where
  "applyActivity frame p =
     (let op = fr_operationId frame; n = fr_sequence frame in
      if op \<in> pj_retired p then (p, Inr False)
      else
        (case mget (pj_sequences p) op of
           Some prior \<Rightarrow>
             if n \<le> prior then (p, Inr False)
             else if n \<noteq> prior + 1 then
               (drop_activity (activity_of op p) p,
                Inl (sequence_gap (''Transient activity sequence gap: expected '' @ int_str (prior + 1) @ '', received '' @ int_str n)))
             else (accept_activity frame p, Inr True)
         | None \<Rightarrow>
             if \<not> is_snapshot frame \<and> n \<noteq> 0 \<and> n \<noteq> 1 then
               (drop_activity True p,
                Inl (sequence_gap (''Transient activity must start at sequence 0 or 1, received '' @ int_str n)))
             else (accept_activity frame p, Inr True)))"

section \<open>Pending inputs\<close>

datatype input_mode = SteerMode | FollowUpMode | FollowUpWireMode | InterruptMode

fun mode_rank :: "input_mode \<Rightarrow> nat" where
  "mode_rank InterruptMode = 0"
| "mode_rank SteerMode = 1"
| "mode_rank FollowUpMode = 2"
| "mode_rank FollowUpWireMode = 2"

definition orderPendingTurnInputs :: "('a \<Rightarrow> input_mode) \<Rightarrow> 'a list \<Rightarrow> 'a list" where
  "orderPendingTurnInputs mode inputs = sort_key (\<lambda>x. mode_rank (mode x)) inputs"

section \<open>What the activity functions leave alone\<close>

lemma reset_fields [simp]:
  "pj_records (resetActivity p) = pj_records p" "pj_events (resetActivity p) = pj_events p"
  "pj_tools (resetActivity p) = pj_tools p" "pj_operations (resetActivity p) = pj_operations p"
  "pj_activeOperationId (resetActivity p) = pj_activeOperationId p" "pj_sessionId (resetActivity p) = pj_sessionId p"
  "pj_usage (resetActivity p) = pj_usage p"
  by (simp_all add: resetActivity_def)

lemma reset_updates [simp]:
  "resetActivity (p\<lparr>pj_activity := a\<rparr>) = resetActivity p" "resetActivity (p\<lparr>pj_sequences := s\<rparr>) = resetActivity p"
  "resetActivity (p\<lparr>pj_retired := r\<rparr>) = resetActivity p" "resetActivity (p\<lparr>pj_latestActivity := l\<rparr>) = resetActivity p"
  by (simp_all add: resetActivity_def)

lemma reset_trim [simp]: "resetActivity (trim_sequences p) = resetActivity p"
  by (induction p rule: trim_sequences.induct) (subst trim_sequences.simps, auto split: list.splits)

lemma reset_remember [simp]: "resetActivity (rememberActivitySequence op n p) = resetActivity p"
  by (simp add: rememberActivitySequence_def)

lemma reset_retire [simp]: "resetActivity (retireActivity op p) = resetActivity p"
  by (simp add: retireActivity_def)

lemma reset_clear [simp]: "resetActivity (clearActivity op p) = resetActivity p"
  by (auto simp: clearActivity_def Let_def split: option.splits)

lemma reset_accept [simp]: "resetActivity (accept_activity frame p) = resetActivity p"
  by (auto simp: accept_activity_def Let_def split: option.splits)

lemma reset_applyActivity [simp]: "resetActivity (fst (applyActivity frame p)) = resetActivity p"
  by (auto simp: applyActivity_def Let_def drop_activity_def split: option.splits)

lemma same_core:
  assumes "resetActivity q = resetActivity p"
  shows "pj_records q = pj_records p" "pj_events q = pj_events p" "pj_tools q = pj_tools p"
    "pj_operations q = pj_operations p" "pj_activeOperationId q = pj_activeOperationId p" "pj_sessionId q = pj_sessionId p"
    "pj_usage q = pj_usage p"
  using assms by (metis reset_fields)+

lemmas clear_fields [simp] = same_core [OF reset_clear]
lemmas activity_fields [simp] = same_core [OF reset_applyActivity]

section \<open>The activity invariant\<close>

definition activity_bound :: nat where
  "activity_bound = MAX_PROJECTED_ACTIVITY_CHARACTERS + ACTIVITY_TRIM_BATCH_CHARACTERS"

definition activity_ok :: "projector \<Rightarrow> bool" where
  "activity_ok p \<longleftrightarrow> mwf (pj_sequences p) \<and> length (pj_sequences p) \<le> 128 \<and>
     pj_retired p \<subseteq> set (mkeys (pj_sequences p)) \<and>
     (case pj_activity p of None \<Rightarrow> True
      | Some a \<Rightarrow> length (act_text a) \<le> activity_bound \<and> length (act_thinking a) \<le> activity_bound)"

lemma bounded_length: "length (boundedActivityText s t) \<le> activity_bound"
  unfolding boundedActivityText_def activity_bound_def Let_def by (simp del: drop_append)

lemma trim_ok:
  assumes "mwf (pj_sequences p)" and "pj_retired p \<subseteq> set (mkeys (pj_sequences p))"
  shows "mwf (pj_sequences (trim_sequences p)) \<and> length (pj_sequences (trim_sequences p)) \<le> 128 \<and>
    pj_retired (trim_sequences p) \<subseteq> set (mkeys (pj_sequences (trim_sequences p))) \<and>
    pj_activity (trim_sequences p) = pj_activity p \<and> pj_latestActivity (trim_sequences p) = pj_latestActivity p"
  using assms
proof (induction p rule: trim_sequences.induct)
  case (1 p)
  show ?case
  proof (cases "pj_sequences p")
    case Nil
    then show ?thesis using "1.prems" by (subst (1 2 3 4 5 6) trim_sequences.simps) simp
  next
    case (Cons x rest)
    obtain oldest n where x: "x = (oldest, n)" by (cases x)
    show ?thesis
    proof (cases "128 < length (pj_sequences p)")
      case True
      let ?q = "p\<lparr>pj_sequences := mdel (pj_sequences p) oldest, pj_retired := pj_retired p - {oldest}\<rparr>"
      have "trim_sequences p = trim_sequences ?q"
        using Cons x True by (subst trim_sequences.simps) simp
      moreover have "pj_retired ?q \<subseteq> set (mkeys (pj_sequences ?q))" "mwf (pj_sequences ?q)"
        using "1.prems" by (auto simp: jsmap.keys_del)
      ultimately show ?thesis
        using "1.IH" [OF Cons x [symmetric] True] Cons x by simp
    next
      case False
      then have "trim_sequences p = p" using Cons x by (subst trim_sequences.simps) simp
      then show ?thesis using False "1.prems" by simp
    qed
  qed
qed

lemma remember_ok:
  assumes "mwf (pj_sequences p)" and "pj_retired p \<subseteq> insert op (set (mkeys (pj_sequences p)))"
  shows "mwf (pj_sequences (rememberActivitySequence op n p)) \<and> length (pj_sequences (rememberActivitySequence op n p)) \<le> 128 \<and>
    pj_retired (rememberActivitySequence op n p) \<subseteq> set (mkeys (pj_sequences (rememberActivitySequence op n p))) \<and>
    pj_activity (rememberActivitySequence op n p) = pj_activity p \<and>
    pj_latestActivity (rememberActivitySequence op n p) = pj_latestActivity p"
  unfolding rememberActivitySequence_def
  using trim_ok [of "p\<lparr>pj_sequences := mput (mdel (pj_sequences p) op) op n\<rparr>"] assms
  by (auto simp: jsmap.keys_refresh)

lemma retire_ok:
  assumes "activity_ok p"
  shows "activity_ok (retireActivity op p)" "pj_activity (retireActivity op p) = pj_activity p"
proof -
  obtain n where n: "retireActivity op p = rememberActivitySequence op n (p\<lparr>pj_retired := insert op (pj_retired p)\<rparr>)"
    by (simp add: retireActivity_def)
  let ?p = "p\<lparr>pj_retired := insert op (pj_retired p)\<rparr>"
  have wf: "mwf (pj_sequences ?p)" and sub: "pj_retired ?p \<subseteq> insert op (set (mkeys (pj_sequences ?p)))"
    using assms by (auto simp: activity_ok_def)
  have r: "activity_ok (retireActivity op p) \<and> pj_activity (retireActivity op p) = pj_activity p"
    unfolding n using remember_ok [OF wf sub, of n] assms by (simp add: activity_ok_def)
  then show "activity_ok (retireActivity op p)" "pj_activity (retireActivity op p) = pj_activity p" by simp_all
qed

lemma activity_ok_updates [simp]:
  "activity_ok p \<Longrightarrow> activity_ok (p\<lparr>pj_activity := None\<rparr>)"
  "activity_ok (p\<lparr>pj_latestActivity := l\<rparr>) = activity_ok p"
  by (simp_all add: activity_ok_def)

lemma clear_ok: "activity_ok p \<Longrightarrow> activity_ok (clearActivity op p)"
  by (auto simp: clearActivity_def Let_def retire_ok split: option.splits)

lemma activity_ok_cong:
  "\<lbrakk>pj_sequences q = pj_sequences p; pj_retired q = pj_retired p; pj_activity q = pj_activity p\<rbrakk> \<Longrightarrow> activity_ok q = activity_ok p"
  by (simp add: activity_ok_def)

lemma accept_ok:
  assumes "activity_ok p" shows "activity_ok (accept_activity frame p)"
proof -
  let ?op = "fr_operationId frame"
  define p1 where "p1 = (case pj_latestActivity p of
      Some latest \<Rightarrow> if latest \<noteq> ?op then retireActivity latest p else p | None \<Rightarrow> p)"
  define base where "base = (case pj_activity p1 of
      Some a \<Rightarrow> if act_operationId a = ?op then a
        else \<lparr>act_operationId = ?op, act_sequence = fr_sequence frame - 1, act_text = [], act_thinking = [], act_toolCalls = []\<rparr>
    | None \<Rightarrow> \<lparr>act_operationId = ?op, act_sequence = fr_sequence frame - 1, act_text = [], act_thinking = [], act_toolCalls = []\<rparr>)"
  define p3 where "p3 = rememberActivitySequence ?op (fr_sequence frame) (p1\<lparr>pj_latestActivity := Some ?op\<rparr>)"
  have eq: "accept_activity frame p = p3\<lparr>pj_activity := next_activity frame base\<rparr>"
    by (simp add: accept_activity_def Let_def p1_def base_def p3_def)
  have p1: "activity_ok p1" using assms retire_ok by (auto simp: p1_def split: option.splits)
  then have base: "length (act_text base) \<le> activity_bound" "length (act_thinking base) \<le> activity_bound"
    by (auto simp: base_def activity_ok_def split: option.splits)
  have "case next_activity frame base of None \<Rightarrow> True
      | Some a \<Rightarrow> length (act_text a) \<le> activity_bound \<and> length (act_thinking a) \<le> activity_bound"
    using base by (cases frame) (simp_all add: next_activity_def bounded_length)
  moreover have "mwf (pj_sequences p3) \<and> length (pj_sequences p3) \<le> 128 \<and> pj_retired p3 \<subseteq> set (mkeys (pj_sequences p3))"
    using p1 remember_ok [of "p1\<lparr>pj_latestActivity := Some ?op\<rparr>" ?op "fr_sequence frame"]
    by (auto simp: p3_def activity_ok_def)
  ultimately show ?thesis unfolding eq by (simp add: activity_ok_def)
qed

lemma applyActivity_ok: "activity_ok p \<Longrightarrow> activity_ok (fst (applyActivity frame p))"
  by (auto simp: applyActivity_def Let_def drop_activity_def accept_ok split: option.splits)

section \<open>What an event changes\<close>

lemma update_fields [simp]:
  "pj_records (updateOperation op s p) = pj_records p" "pj_events (updateOperation op s p) = pj_events p"
  "pj_sessionId (updateOperation op s p) = pj_sessionId p" "pj_tools (updateOperation op s p) = pj_tools p"
  "pj_activity (updateOperation op s p) = pj_activity p" "pj_sequences (updateOperation op s p) = pj_sequences p"
  "pj_retired (updateOperation op s p) = pj_retired p" "pj_interactions (updateOperation op s p) = pj_interactions p"
  by (simp_all add: updateOperation_def split: option.split)

lemma complete_fields [simp]:
  "pj_records (completeQueuedOperation op s p) = pj_records p" "pj_events (completeQueuedOperation op s p) = pj_events p"
  "pj_sessionId (completeQueuedOperation op s p) = pj_sessionId p" "pj_tools (completeQueuedOperation op s p) = pj_tools p"
  "pj_operations (completeQueuedOperation op s p) = pj_operations p"
  "pj_activeOperationId (completeQueuedOperation op s p) = pj_activeOperationId p"
  "pj_activity (completeQueuedOperation op s p) = pj_activity p" "pj_sequences (completeQueuedOperation op s p) = pj_sequences p"
  "pj_retired (completeQueuedOperation op s p) = pj_retired p"
  by (simp_all add: completeQueuedOperation_def split: option.split)

lemma end_fields [simp]:
  "pj_records (end_operation op s c p) = pj_records p" "pj_events (end_operation op s c p) = pj_events p"
  "pj_sessionId (end_operation op s c p) = pj_sessionId p" "pj_tools (end_operation op s c p) = pj_tools p"
  by (simp_all add: end_operation_def)

lemmas payload_defs = project_payload_def Let_def ok_result_def identity_conflict_def project_tool_call_def
  project_tool_result_def project_interaction_def project_resolution_def project_interrupt_request_def
  project_interrupt_update_def updateQueueItem_def

lemma payload_fields [simp]:
  "pj_records (fst (project_payload event p)) = pj_records p"
  "pj_events (fst (project_payload event p)) = pj_events p"
  "pj_sessionId (fst (project_payload event p)) = pj_sessionId p"
  by (cases "ev_payload event"; simp add: payload_defs split: option.split prod.split)+

text \<open>The tools change by the two tool events only.\<close>

lemma payload_tools:
  assumes "\<And>c n i. ev_payload event \<noteq> ToolCall c n i" and "\<And>c n k e d. ev_payload event \<noteq> ToolResult c n k e d"
  shows "pj_tools (fst (project_payload event p)) = pj_tools p"
proof (cases "ev_payload event")
  case (ToolCall c n i)
  then show ?thesis using assms(1) by blast
next
  case (ToolResult c n k e d)
  then show ?thesis using assms(2) by blast
qed (simp_all add: payload_defs split: option.split prod.split)

section \<open>The active operation\<close>

definition active_ok :: "projector \<Rightarrow> bool" where
  "active_ok p \<longleftrightarrow> (\<forall>op. pj_activeOperationId p = Some op \<longrightarrow>
     (\<exists>s. mget (pj_operations p) op = Some s \<and> operation_open s))"

lemma active_ok_cong:
  "\<lbrakk>pj_operations q = pj_operations p; pj_activeOperationId q = pj_activeOperationId p\<rbrakk> \<Longrightarrow> active_ok q = active_ok p"
  by (simp add: active_ok_def)

lemma update_active [simp]: "active_ok p \<Longrightarrow> active_ok (updateOperation op s p)"
  by (auto simp: updateOperation_def active_ok_def split: option.splits)

lemma clear_active [simp]: "active_ok (clearActivity op p) = active_ok p"
  by (rule active_ok_cong) simp_all

lemma end_active [simp]: "active_ok p \<Longrightarrow> active_ok (end_operation op s c p)"
  unfolding end_operation_def clear_active
  by (subst active_ok_cong [where p = "updateOperation op s p"]) simp_all

lemma active_updates [simp]:
  "active_ok (p\<lparr>pj_events := a\<rparr>) = active_ok p" "active_ok (p\<lparr>pj_records := b\<rparr>) = active_ok p"
  "active_ok (p\<lparr>pj_tools := c\<rparr>) = active_ok p" "active_ok (p\<lparr>pj_activity := d\<rparr>) = active_ok p"
  "active_ok (p\<lparr>pj_usage := e\<rparr>) = active_ok p" "active_ok (p\<lparr>pj_queue := f\<rparr>) = active_ok p"
  "active_ok (p\<lparr>pj_interactions := g\<rparr>) = active_ok p" "active_ok (p\<lparr>pj_interrupts := h\<rparr>) = active_ok p"
  "active_ok (p\<lparr>pj_lastError := i\<rparr>) = active_ok p" "active_ok (p\<lparr>pj_closed := j\<rparr>) = active_ok p"
  "active_ok (p\<lparr>pj_uncertainShells := k\<rparr>) = active_ok p" "active_ok (p\<lparr>pj_model := l\<rparr>) = active_ok p"
  "active_ok (p\<lparr>pj_provider := l\<rparr>) = active_ok p" "active_ok (p\<lparr>pj_entitlement := l\<rparr>) = active_ok p"
  "active_ok (p\<lparr>pj_requestSettings := m\<rparr>) = active_ok p" "active_ok (p\<lparr>pj_lastRequest := n\<rparr>) = active_ok p"
  "active_ok (p\<lparr>pj_thinking := q\<rparr>) = active_ok p" "active_ok (p\<lparr>pj_profile := r\<rparr>) = active_ok p"
  "active_ok (p\<lparr>pj_webFetch := s\<rparr>) = active_ok p" "active_ok (p\<lparr>pj_webSearch := s\<rparr>) = active_ok p"
  "active_ok (p\<lparr>pj_sandbox := t\<rparr>) = active_ok p" "active_ok (p\<lparr>pj_lastCompaction := u\<rparr>) = active_ok p"
  "active_ok (p\<lparr>pj_compacted := v\<rparr>) = active_ok p" "active_ok (p\<lparr>pj_sessionId := w\<rparr>) = active_ok p"
  by (simp_all add: active_ok_def)

lemma active_none [simp]: "active_ok (p\<lparr>pj_activeOperationId := None\<rparr>)"
  by (simp add: active_ok_def)

lemma payload_active: "active_ok p \<Longrightarrow> active_ok (fst (project_payload event p))"
  by (cases "ev_payload event"; simp add: payload_defs split: option.split prod.split)

section \<open>Activity under events\<close>

lemma update_activity [simp]: "activity_ok (updateOperation op s p) = activity_ok p"
  by (rule activity_ok_cong) simp_all

lemma complete_activity [simp]: "activity_ok (completeQueuedOperation op s p) = activity_ok p"
  by (rule activity_ok_cong) simp_all

lemma end_activity [simp]: "activity_ok p \<Longrightarrow> activity_ok (end_operation op s c p)"
  by (simp add: end_operation_def clear_ok)

lemma activity_updates [simp]:
  "activity_ok (p\<lparr>pj_events := a\<rparr>) = activity_ok p" "activity_ok (p\<lparr>pj_records := b\<rparr>) = activity_ok p"
  "activity_ok (p\<lparr>pj_tools := c\<rparr>) = activity_ok p" "activity_ok (p\<lparr>pj_activeOperationId := d\<rparr>) = activity_ok p"
  "activity_ok (p\<lparr>pj_usage := e\<rparr>) = activity_ok p" "activity_ok (p\<lparr>pj_queue := f\<rparr>) = activity_ok p"
  "activity_ok (p\<lparr>pj_interactions := g\<rparr>) = activity_ok p" "activity_ok (p\<lparr>pj_interrupts := h\<rparr>) = activity_ok p"
  "activity_ok (p\<lparr>pj_lastError := i\<rparr>) = activity_ok p" "activity_ok (p\<lparr>pj_closed := j\<rparr>) = activity_ok p"
  "activity_ok (p\<lparr>pj_uncertainShells := k\<rparr>) = activity_ok p" "activity_ok (p\<lparr>pj_model := l\<rparr>) = activity_ok p"
  "activity_ok (p\<lparr>pj_provider := l\<rparr>) = activity_ok p" "activity_ok (p\<lparr>pj_entitlement := l\<rparr>) = activity_ok p"
  "activity_ok (p\<lparr>pj_requestSettings := m\<rparr>) = activity_ok p" "activity_ok (p\<lparr>pj_lastRequest := n\<rparr>) = activity_ok p"
  "activity_ok (p\<lparr>pj_thinking := q\<rparr>) = activity_ok p" "activity_ok (p\<lparr>pj_profile := r\<rparr>) = activity_ok p"
  "activity_ok (p\<lparr>pj_webFetch := s\<rparr>) = activity_ok p" "activity_ok (p\<lparr>pj_webSearch := s\<rparr>) = activity_ok p"
  "activity_ok (p\<lparr>pj_sandbox := t\<rparr>) = activity_ok p" "activity_ok (p\<lparr>pj_lastCompaction := u\<rparr>) = activity_ok p"
  "activity_ok (p\<lparr>pj_compacted := v\<rparr>) = activity_ok p" "activity_ok (p\<lparr>pj_sessionId := w\<rparr>) = activity_ok p"
  by (simp_all add: activity_ok_def)

lemma activity_calls [simp]:
  "activity_ok p \<Longrightarrow> activity_ok (updateOperation op s p\<lparr>pj_tools := t,
     pj_activity := map_option (\<lambda>a. if f a then act_toolCalls_update (g a) a else a) (pj_activity p)\<rparr>)"
  by (auto simp: activity_ok_def split: option.splits)

lemma payload_activity: "activity_ok p \<Longrightarrow> activity_ok (fst (project_payload event p))"
  by (cases "ev_payload event"; simp add: payload_defs clear_ok split: option.split prod.split)

section \<open>The records\<close>

fun rec_id :: "conversation_record \<Rightarrow> string" where
  "rec_id (EventRecord e) = ev_id e"
| "rec_id (UnknownRecord g) = gen_id g"

fun rec_parent :: "conversation_record \<Rightarrow> string option" where
  "rec_parent (EventRecord e) = ev_parentId e"
| "rec_parent (UnknownRecord g) = gen_parentId g"

definition records_ok :: "projector \<Rightarrow> bool" where
  "records_ok p \<longleftrightarrow> map rec_id (pj_records p) = mkeys (pj_events p) \<and> distinct (mkeys (pj_events p)) \<and>
     (\<forall>i < length (pj_records p). \<forall>q. rec_parent (pj_records p ! i) = Some q \<longrightarrow>
        q \<in> rec_id ` set (take i (pj_records p)))"

lemma records_ok_cong:
  "\<lbrakk>pj_records q = pj_records p; pj_events q = pj_events p\<rbrakk> \<Longrightarrow> records_ok q = records_ok p"
  by (simp add: records_ok_def)

lemma records_snoc:
  assumes "records_ok p" "mget (pj_events p) (rec_id r) = None"
    and "rec_parent r = None \<or> mhas (pj_events p) (the (rec_parent r))"
  shows "records_ok (p\<lparr>pj_events := mput (pj_events p) (rec_id r) v, pj_records := pj_records p @ [r]\<rparr>)"
proof -
  have new: "rec_id r \<notin> set (mkeys (pj_events p))" using assms(2) by (simp add: jsmap.keys_get)
  have "rec_parent r = Some q \<Longrightarrow> q \<in> rec_id ` set (pj_records p)" for q
  proof -
    assume "rec_parent r = Some q"
    then have "q \<in> set (mkeys (pj_events p))" using assms(3) by (simp add: jsmap.keys_get mhas_def)
    then show "q \<in> rec_id ` set (pj_records p)" using assms(1) by (metis records_ok_def set_map)
  qed
  then show ?thesis using assms new by (auto simp: records_ok_def jsmap.keys_put nth_append less_Suc_eq)
qed

lemma admit_ok:
  assumes "records_ok p" "admit (rec_id r) sid (rec_parent r) enc r alt p = Admitted q"
  shows "records_ok q" "q = p\<lparr>pj_events := mput (pj_events p) (rec_id r) enc, pj_records := pj_records p @ [r]\<rparr>"
    "mget (pj_events p) (rec_id r) = None"
  using assms records_snoc [OF assms(1), of r enc]
  by (auto simp: admit_def split: if_splits option.splits)

section \<open>The invariant\<close>

definition projector_ok :: "projector \<Rightarrow> bool" where
  "projector_ok p \<longleftrightarrow> records_ok p \<and> active_ok p \<and> activity_ok p"

lemma new_projector_ok: "projector_ok (new_projector s n)"
  by (simp add: projector_ok_def records_ok_def active_ok_def activity_ok_def new_projector_def mkeys_def)

lemma reset_ok: "projector_ok (projector_reset s n p)"
proof -
  have "projector_ok (q\<lparr>pj_uncertainShells := u\<rparr>) = projector_ok q" for q u
    by (simp add: projector_ok_def records_ok_def)
  then show ?thesis using new_projector_ok by (simp add: projector_reset_def Let_def)
qed

lemma applyEvent_ok:
  assumes "projector_ok p" shows "projector_ok (fst (applyEvent event p))"
proof -
  define p0 where "p0 = (if pj_sessionId p = None then p\<lparr>pj_sessionId := Some (ev_sessionId event)\<rparr> else p)"
  have p0: "projector_ok p0" using assms by (simp add: p0_def projector_ok_def records_ok_def)
  show ?thesis
  proof (cases "admit (ev_id event) (ev_sessionId event) (ev_parentId event) (encoded_event event) (EventRecord event)
             (''Event '' @ ev_id event @ '' changed in transit'') p0")
    case (Admitted q)
    have eq: "fst (applyEvent event p) = fst (project_payload event q)"
      using Admitted by (simp add: applyEvent_def Let_def p0_def [symmetric] split: prod.split option.split)
    note a = admit_ok [of p0 "EventRecord event", unfolded rec_id.simps rec_parent.simps, OF _ Admitted]
    have "records_ok q" "active_ok q" "activity_ok q" using a p0 by (simp_all add: projector_ok_def)
    moreover have "records_ok (fst (project_payload event q)) = records_ok q" by (rule records_ok_cong) simp_all
    ultimately show ?thesis unfolding eq projector_ok_def by (simp add: payload_active payload_activity)
  qed (simp_all add: applyEvent_def Let_def p0_def [symmetric] p0)
qed

lemma applyUnknown_ok:
  assumes "projector_ok p" shows "projector_ok (fst (applyUnknownEvent event p))"
proof (cases "admit (gen_id event) (gen_sessionId event) (gen_parentId event) (json_text (JObj (gen_json event)))
             (UnknownRecord event) ''Unknown event changed'' p")
  case (Admitted q)
  note a = admit_ok [of p "UnknownRecord event", unfolded rec_id.simps rec_parent.simps, OF _ Admitted]
  then show ?thesis using assms Admitted by (simp add: applyUnknownEvent_def projector_ok_def)
qed (simp_all add: applyUnknownEvent_def assms)

lemma applyEvents_ok: "projector_ok p \<Longrightarrow> projector_ok (fst (applyEvents events p))"
proof (induction events arbitrary: p)
  case (Cons e es)
  then show ?case using applyEvent_ok [of p e] by (auto split: prod.split sum.split)
qed simp

lemma activity_call_ok:
  assumes "projector_ok p" and "resetActivity q = resetActivity p" and "activity_ok q"
  shows "projector_ok q"
  using assms same_core [OF assms(2)] by (simp add: projector_ok_def records_ok_def active_ok_def)

text \<open>The public calls, with what they leave behind; an error is caught by the caller.\<close>

datatype projector_call =
    CallEvent canonical_event
  | CallUnknown generic_event
  | CallActivity session_activity_frame
  | CallMarkUncertain string string
  | CallClearActivity "string option"
  | CallResetActivity
  | CallReset "string option" "string option"
  | CallReplace "canonical_event list" "string option" "string option"

fun run_call :: "projector \<Rightarrow> projector_call \<Rightarrow> projector" where
  "run_call p (CallEvent e) = fst (applyEvent e p)"
| "run_call p (CallUnknown g) = fst (applyUnknownEvent g p)"
| "run_call p (CallActivity f) = fst (applyActivity f p)"
| "run_call p (CallMarkUncertain op cmd) = markShellUncertain op cmd p"
| "run_call p (CallClearActivity op) = clearActivity op p"
| "run_call p CallResetActivity = resetActivity p"
| "run_call p (CallReset s n) = projector_reset s n p"
| "run_call p (CallReplace es s n) = fst (projector_replace es s n p)"

lemma run_call_ok: "projector_ok p \<Longrightarrow> projector_ok (run_call p c)"
proof (cases c)
  case (CallMarkUncertain op cmd)
  then show "projector_ok p \<Longrightarrow> ?thesis" by (simp add: markShellUncertain_def projector_ok_def records_ok_def)
next
  case CallResetActivity
  then show "projector_ok p \<Longrightarrow> ?thesis"
    by (simp add: projector_ok_def records_ok_def active_ok_def activity_ok_def resetActivity_def)
next
  case (CallActivity f)
  then show "projector_ok p \<Longrightarrow> ?thesis"
    by simp (rule activity_call_ok, auto simp: applyActivity_ok projector_ok_def)
next
  case (CallClearActivity op)
  then show "projector_ok p \<Longrightarrow> ?thesis"
    by simp (rule activity_call_ok, auto simp: clear_ok projector_ok_def)
qed (simp_all add: applyEvent_ok applyUnknown_ok reset_ok projector_replace_def applyEvents_ok)

end
