(* ===== verification/Prompt_Queue_Properties.thy ===== *)
theory Prompt_Queue_Properties
  imports Prompt_Queue Projector "HOL-Library.Multiset"
begin

text \<open>
  What the prompt queue of \<open>Prompt_Queue\<close> promises in every interleaving: what waits in memory is what the
  log calls pending, recovery pauses exactly that, and without rebuilds no prompt is left behind; and
  three interleavings in which it does not do what it means to.
\<close>

section \<open>What waits in memory\<close>

fun drain_item :: "drain_point \<Rightarrow> string multiset" where
  "drain_item (DrainStarting q) = {#qt_queueItemId q#}"
| "drain_item _ = {#}"

fun recorded_item :: "record_task \<Rightarrow> string multiset" where
  "recorded_item (Recorded q) = {#qt_queueItemId q#}"
| "recorded_item _ = {#}"

fun requeued_item :: "record_task \<Rightarrow> string multiset" where
  "requeued_item (RequeueRecording op q) = {#qt_queueItemId q#}"
| "requeued_item _ = {#}"

definition items_of :: "(record_task \<Rightarrow> string multiset) \<Rightarrow> record_task list \<Rightarrow> string multiset" where
  "items_of f ts = sum_mset (image_mset f (mset ts))"

lemma items_simps [simp]:
  "items_of f [] = {#}" "items_of f (ts @ [t]) = items_of f ts + f t" "items_of f (t # ts) = f t + items_of f ts"
  by (simp_all add: items_of_def add.commute)

lemma items_nth: "i < length ts \<Longrightarrow> items_of f ts = f (ts ! i) + items_of f (drop_nth i ts)"
proof -
  assume i: "i < length ts"
  have "items_of f (xs @ ys) = items_of f xs + items_of f ys" for xs ys by (simp add: items_of_def)
  then show ?thesis using id_take_nth_drop [OF i] items_simps(3) unfolding drop_nth_def
    by (metis add.left_commute)
qed

lemma items_update: "i < length ts \<Longrightarrow> items_of f (ts[i := t]) = f t + items_of f (drop_nth i ts)"
  using items_nth [of i "ts[i := t]" f] by (simp add: drop_nth_def)

text \<open>The prompts that wait: queued, about to be started, or recorded and about to be queued.\<close>

definition waiting :: "managed_session \<Rightarrow> string multiset" where
  "waiting s = mset (map qt_queueItemId (ms_queue s)) + drain_item (ms_drain s) + items_of recorded_item (ms_tasks s)"

definition requeuing :: "managed_session \<Rightarrow> string multiset" where
  "requeuing s = items_of requeued_item (ms_tasks s)"

definition drain_flag_ok :: "managed_session \<Rightarrow> bool" where
  "drain_flag_ok s \<longleftrightarrow> (ms_queueDraining s \<longleftrightarrow> ms_drain s \<noteq> DrainIdle)"

definition once :: "'a multiset \<Rightarrow> bool" where
  "once M \<longleftrightarrow> (\<forall>x. count M x \<le> 1)"

text \<open>While nothing has stopped the session, what waits is what the log calls pending; otherwise a part of it.\<close>

definition healthy :: "managed_session \<Rightarrow> bool" where
  "healthy s \<longleftrightarrow> ms_rejected s = 0 \<and> \<not> ms_disposing s"

definition agrees :: "canonical_event list \<Rightarrow> managed_session \<Rightarrow> bool" where
  "agrees events s \<longleftrightarrow> set_mset (waiting s) \<subseteq> pending_ids events \<and>
     (healthy s \<longrightarrow> pending_ids events \<subseteq> set_mset (waiting s))"

definition targets_ok :: "canonical_event list \<Rightarrow> string multiset \<Rightarrow> bool" where
  "targets_ok events M \<longleftrightarrow> (\<forall>k \<in># M. \<exists>q op. find_enqueued events k = Some q \<and> ev_operationId q = Some op)"

lemma targets_snoc: "targets_ok es M \<Longrightarrow> targets_ok (es @ ys) M"
  unfolding targets_ok_def by (metis find_snoc_Some)

lemma targets_add: "targets_ok es (add_mset k M) \<longleftrightarrow>
    (\<exists>q op. find_enqueued es k = Some q \<and> ev_operationId q = Some op) \<and> targets_ok es M"
  by (auto simp: targets_ok_def)

lemma targets_enqueued: "targets_ok es M \<Longrightarrow> k \<in># M \<Longrightarrow> k \<in> enqueued_ids es"
  unfolding targets_ok_def using find_None [of es k] by force

definition queue_inv :: "managed_session \<Rightarrow> bool" where
  "queue_inv s \<longleftrightarrow> queue_log_ok (ms_events s) \<and> drain_flag_ok s \<and> agrees (ms_events s) s \<and>
     once (waiting s + requeuing s) \<and> targets_ok (ms_events s) (requeuing s)"

lemma queue_invI:
  assumes "queue_log_ok es" "drain_flag_ok s" "agrees es s" "once (waiting s + requeuing s)"
    "targets_ok es (requeuing s)" "ms_events s = es"
  shows "queue_inv s"
  using assms by (simp add: queue_inv_def)

lemma queue_invD:
  assumes "queue_inv s"
  shows "queue_log_ok (ms_events s)" "drain_flag_ok s" "agrees (ms_events s) s"
    "once (waiting s + requeuing s)" "targets_ok (ms_events s) (requeuing s)"
  using assms by (simp_all add: queue_inv_def)

lemma once_add: "once (add_mset k M) \<longleftrightarrow> k \<notin># M \<and> once M"
proof
  assume o: "once (add_mset k M)"
  have "count M x \<le> count (add_mset k M) x" for x by simp
  then have "once M" using o unfolding once_def by (meson order_trans)
  moreover have "count (add_mset k M) k \<le> 1" using o by (simp only: once_def)
  ultimately show "k \<notin># M \<and> once M" by (simp add: not_in_iff)
qed (auto simp: once_def not_in_iff)

section \<open>What moves nothing\<close>

text \<open>Two states with the same log and the same prompts waiting.\<close>

definition same_queue :: "managed_session \<Rightarrow> managed_session \<Rightarrow> bool" where
  "same_queue s' s \<longleftrightarrow> ms_events s' = ms_events s \<and> waiting s' = waiting s \<and> requeuing s' = requeuing s \<and> drain_flag_ok s' \<and>
     (healthy s' \<longrightarrow> healthy s)"

lemma same_queue_inv: "queue_inv s \<Longrightarrow> same_queue s' s \<Longrightarrow> queue_inv s'"
  by (auto simp: queue_inv_def same_queue_def agrees_def)

lemma same_queue_trans: "same_queue s'' s' \<Longrightarrow> same_queue s' s \<Longrightarrow> same_queue s'' s"
  by (auto simp: same_queue_def)

lemma same_queue_refl: "drain_flag_ok s \<Longrightarrow> same_queue s s"
  by (simp add: same_queue_def)

lemma drain_loop_same: "ms_queueDraining s \<Longrightarrow> drain_item (ms_drain s) = {#} \<Longrightarrow> same_queue (drain_loop s) s"
  by (auto simp: drain_loop_def same_queue_def healthy_def waiting_def requeuing_def drain_flag_ok_def split: list.split)

lemma startQueueDrain_same: "drain_flag_ok s \<Longrightarrow> same_queue (startQueueDrain s) s"
proof (cases "ms_queueDraining s")
  case False
  assume d: "drain_flag_ok s"
  then have "drain_item (ms_drain s) = {#}" using False by (simp add: drain_flag_ok_def)
  then have "same_queue (drain_loop (s\<lparr>ms_queueDraining := True\<rparr>)) s"
    using drain_loop_same [of "s\<lparr>ms_queueDraining := True\<rparr>"] by (simp add: same_queue_def healthy_def waiting_def requeuing_def)
  then show ?thesis using same_queue_refl [OF d] by (simp add: startQueueDrain_def drainQueue_def)
qed (simp add: startQueueDrain_def same_queue_refl)

lemma send_claim_fields [simp]:
  "ms_events (fst (send_claim op s)) = ms_events s" "ms_queue (fst (send_claim op s)) = ms_queue s"
  "ms_tasks (fst (send_claim op s)) = ms_tasks s" "ms_drain (fst (send_claim op s)) = ms_drain s"
  "ms_queueDraining (fst (send_claim op s)) = ms_queueDraining s"
  "ms_rejected (fst (send_claim op s)) = ms_rejected s" "ms_disposing (fst (send_claim op s)) = ms_disposing s"
  by (simp_all add: send_claim_def)

lemma send_begin_fields [simp]:
  "ms_events (fst (send_begin op c s)) = ms_events s" "ms_queue (fst (send_begin op c s)) = ms_queue s"
  "ms_tasks (fst (send_begin op c s)) = ms_tasks s" "ms_drain (fst (send_begin op c s)) = ms_drain s"
  "ms_queueDraining (fst (send_begin op c s)) = ms_queueDraining s"
  "ms_rejected (fst (send_begin op c s)) = ms_rejected s" "ms_disposing (fst (send_begin op c s)) = ms_disposing s"
  by (simp_all add: send_begin_def)

lemma direct_send_same:
  assumes "same_queue (fst r) s" shows "same_queue (direct_send_result op c r) s"
  using assms by (cases r; cases "snd r")
    (simp_all add: direct_send_result_def same_queue_def healthy_def waiting_def requeuing_def drain_flag_ok_def)

lemma drain_send_same:
  assumes "ms_events (fst r) = ms_events s" "ms_queue (fst r) = ms_queue s" "ms_tasks (fst r) = ms_tasks s"
    "ms_queueDraining (fst r)" "drain_item (ms_drain s) = {#}"
    "ms_rejected (fst r) = ms_rejected s" "ms_disposing (fst r) = ms_disposing s"
  shows "same_queue (drain_send_result q r) s"
  using assms by (cases r; cases "snd r")
    (simp_all add: drain_send_result_def same_queue_def healthy_def waiting_def requeuing_def drain_flag_ok_def)

lemma turn_finally_same: "drain_flag_ok s \<Longrightarrow> same_queue (turn_finally s) s"
  using startQueueDrain_same [of "s\<lparr>ms_activeTurn := None\<rparr>"]
  by (simp add: turn_finally_def same_queue_def healthy_def waiting_def requeuing_def drain_flag_ok_def)

lemma draining_finally: "ms_queueDraining s \<Longrightarrow> turn_finally s = s\<lparr>ms_activeTurn := None\<rparr>"
  by (simp add: turn_finally_def startQueueDrain_def)

section \<open>What records something\<close>

lemma other_event_inv:
  assumes inv: "queue_inv s" and e: "\<not> queue_payload (ev_payload e)" "ev_id e \<notin> ev_id ` set (ms_events s)"
  shows "queue_inv (log_event e s)"
proof (rule queue_invI)
  note d = queue_invD [OF inv] and p = pending_other [OF queue_invD(1) [OF inv] e]
  have eq: "waiting (log_event e s) = waiting s" "requeuing (log_event e s) = requeuing s"
    by (simp_all add: log_event_def waiting_def requeuing_def)
  show "queue_log_ok (ms_events s @ [e])" by (rule p(1))
  show "drain_flag_ok (log_event e s)" using d(2) by (simp add: log_event_def drain_flag_ok_def)
  show "agrees (ms_events s @ [e]) (log_event e s)"
    using d(3) by (simp add: agrees_def eq p(2)) (simp add: healthy_def log_event_def)
  show "once (waiting (log_event e s) + requeuing (log_event e s))" using d(4) by (simp add: eq)
  show "targets_ok (ms_events s @ [e]) (requeuing (log_event e s))" using d(5) by (simp add: eq targets_snoc)
  show "ms_events (log_event e s) = ms_events s @ [e]" by (simp add: log_event_def)
qed

lemma enqueued_inv:
  assumes inv: "queue_inv s" and i: "i < length (ms_tasks s)" "ms_tasks s ! i = EnqueueRecording op c pr"
    and e: "takes op (QueueEnqueued c pr) e s"
  shows "queue_inv ((log_event e s)\<lparr>ms_tasks := (ms_tasks s)[i := Recorded
    \<lparr>qt_queueItemId = ev_id e, qt_operationId = op, qt_content = c, qt_priority = pr\<rparr>]\<rparr>)" (is "queue_inv ?s")
proof (rule queue_invI)
  note d = queue_invD [OF inv]
  show ok: "queue_log_ok (ms_events s @ [e])" using d e by (simp add: takes_def queue_log_snoc)
  have w: "waiting ?s = add_mset (ev_id e) (waiting s)"
    using i by (simp add: waiting_def log_event_def items_update items_nth [OF i(1), of recorded_item])
  have r: "requeuing ?s = requeuing s"
    using i by (simp add: requeuing_def log_event_def items_update items_nth [OF i(1), of requeued_item])
  have p: "pending_ids (ms_events s @ [e]) = insert (ev_id e) (pending_ids (ms_events s))"
    using e by (simp add: pending_ids_snoc [OF ok] takes_def)
  have new: "ev_id e \<notin> enqueued_ids (ms_events s)" using e enqueued_sub by (auto simp: takes_def)
  then have "ev_id e \<notin># waiting s" using d(3) pending_sub [OF d(1)] by (auto simp: agrees_def)
  moreover have "ev_id e \<notin># requeuing s" using targets_enqueued [OF d(5)] new by blast
  ultimately show "once (waiting ?s + requeuing ?s)" using d(4) unfolding w r by (simp add: once_add)
  have "healthy ?s = healthy s" by (simp add: healthy_def log_event_def)
  then show "agrees (ms_events s @ [e]) ?s" using d(3) unfolding agrees_def w p by auto
  show "targets_ok (ms_events s @ [e]) (requeuing ?s)" using d(5) unfolding r by (rule targets_snoc)
  show "drain_flag_ok ?s" using d(2) by (simp add: log_event_def drain_flag_ok_def)
qed (simp add: log_event_def)

lemma requeued_inv:
  assumes inv: "queue_inv s" and i: "i < length (ms_tasks s)" "ms_tasks s ! i = RequeueRecording op q"
    and e: "takes op (QueueRequeued (qt_queueItemId q) (qt_priority q)) e s"
  shows "queue_inv ((log_event e s)\<lparr>ms_tasks := (ms_tasks s)[i := Recorded q]\<rparr>)" (is "queue_inv ?s")
proof (rule queue_invI)
  note d = queue_invD [OF inv]
  let ?k = "qt_queueItemId q"
  have r: "requeuing s = add_mset ?k (requeuing ?s)"
    using i by (simp add: requeuing_def log_event_def items_update items_nth [OF i(1), of requeued_item])
  have w: "waiting ?s = add_mset ?k (waiting s)"
    using i by (simp add: waiting_def log_event_def items_update items_nth [OF i(1), of recorded_item])
  obtain x xo where x: "find_enqueued (ms_events s) ?k = Some x" "ev_operationId x = Some xo"
    using d(5) unfolding r targets_add by blast
  show ok: "queue_log_ok (ms_events s @ [e])"
    using d e x find_None [of "ms_events s" ?k] by (simp add: takes_def queue_log_snoc)
  have p: "pending_ids (ms_events s @ [e]) = insert ?k (pending_ids (ms_events s))"
    using e x by (simp add: pending_ids_snoc [OF ok] takes_def)
  have "healthy ?s = healthy s" by (simp add: healthy_def log_event_def)
  then show "agrees (ms_events s @ [e]) ?s" using d(3) unfolding agrees_def w p by auto
  have "waiting ?s + requeuing ?s = waiting s + requeuing s" unfolding w r by simp
  then show "once (waiting ?s + requeuing ?s)" using d(4) by simp
  show "targets_ok (ms_events s @ [e]) (requeuing ?s)" using d(5) targets_snoc unfolding r targets_add by blast
  show "drain_flag_ok ?s" using d(2) by (simp add: log_event_def drain_flag_ok_def)
qed (simp add: log_event_def)

lemma started_inv:
  assumes inv: "queue_inv s" and dr: "ms_drain s = DrainStarting q"
    and e: "takes (qt_operationId q) (QueueStarted (qt_queueItemId q)) e s"
  shows "queue_inv ((log_event e s)\<lparr>ms_drain := DrainStarted q\<rparr>)" (is "queue_inv ?s")
proof (rule queue_invI)
  note d = queue_invD [OF inv]
  let ?k = "qt_queueItemId q"
  have w: "waiting s = add_mset ?k (waiting ?s)" using dr by (simp add: waiting_def log_event_def)
  have r: "requeuing ?s = requeuing s" by (simp add: requeuing_def log_event_def)
  have o: "?k \<notin># waiting ?s + requeuing s" "once (waiting ?s + requeuing s)"
    using d(4) unfolding w by (simp_all add: once_add)
  then show "once (waiting ?s + requeuing ?s)" by (simp add: r)
  have "?k \<in> enqueued_ids (ms_events s)" using d(3) pending_sub [OF d(1)] unfolding agrees_def w by auto
  then show ok: "queue_log_ok (ms_events s @ [e])"
    using d(1) e by (simp add: takes_def queue_log_snoc)
  have p: "pending_ids (ms_events s @ [e]) = pending_ids (ms_events s) - {?k}"
    using e by (simp add: pending_ids_snoc [OF ok] takes_def)
  have "healthy ?s = healthy s" by (simp add: healthy_def log_event_def)
  then show "agrees (ms_events s @ [e]) ?s" using d(3) o(1) unfolding agrees_def w p by auto
  show "targets_ok (ms_events s @ [e]) (requeuing ?s)" using d(5) unfolding r by (rule targets_snoc)
  show "drain_flag_ok ?s" using d(2) dr by (simp add: log_event_def drain_flag_ok_def)
qed (simp add: log_event_def)

section \<open>Every action keeps the invariant\<close>

definition requeue_in_flight :: "string \<Rightarrow> managed_session \<Rightarrow> bool" where
  "requeue_in_flight k s \<longleftrightarrow> list_ex (\<lambda>t. case t of RequeueRecording _ q \<Rightarrow> qt_queueItemId q = k | _ \<Rightarrow> False) (ms_tasks s)"

lemma not_in_flight: "\<not> requeue_in_flight k s \<Longrightarrow> k \<notin># requeuing s"
proof -
  have "k \<in># items_of requeued_item ts \<Longrightarrow> list_ex (\<lambda>t. case t of RequeueRecording _ q \<Rightarrow> qt_queueItemId q = k | _ \<Rightarrow> False) ts" for ts
  proof (induction ts)
    case (Cons t ts)
    then show ?case by (cases t) auto
  qed simp
  then show "\<not> requeue_in_flight k s \<Longrightarrow> k \<notin># requeuing s" by (auto simp: requeue_in_flight_def requeuing_def)
qed

lemma requeue_check_Some:
  assumes "requeue_check events op k pr = Inr (Some q)"
  obtains x latest j where "find_enqueued events k = Some x" "ev_operationId x = Some (qt_operationId q)"
    "latest_state events k = Some latest" "ev_payload latest = QueuePaused j" "qt_queueItemId q = k" "qt_priority q = pr"
proof -
  have "find_enqueued events k \<noteq> None"
    using assms by (cases "find_enqueued events k") (auto simp: requeue_check_def split: if_splits)
  then obtain x where x: "find_enqueued events k = Some x" by blast
  have "ev_operationId x \<noteq> None" using assms x by (cases "ev_operationId x") (auto simp: requeue_check_def split: if_splits)
  then obtain xo where xo: "ev_operationId x = Some xo" by blast
  have l: "case latest_state events k of Some latest \<Rightarrow> (case ev_payload latest of QueuePaused _ \<Rightarrow> True | _ \<Rightarrow> False) | None \<Rightarrow> False"
    and q: "q = \<lparr>qt_queueItemId = k, qt_operationId = xo,
        qt_content = (case ev_payload x of QueueEnqueued content _ \<Rightarrow> content | _ \<Rightarrow> []), qt_priority = pr\<rparr>"
    using assms x xo by (auto simp: requeue_check_def split: if_splits)
  from l obtain latest where latest: "latest_state events k = Some latest"
    "case ev_payload latest of QueuePaused _ \<Rightarrow> True | _ \<Rightarrow> False" by (cases "latest_state events k") auto
  then obtain j where "ev_payload latest = QueuePaused j" by (cases "ev_payload latest") auto
  then show thesis using that x xo latest q by simp
qed

lemma requeue_inv:
  assumes inv: "queue_inv s" and serial: "\<not> requeue_in_flight k s"
  shows "queue_inv (requeue op k pr s)"
proof (cases "requeue_check (ms_events s) op k pr")
  case (Inr r)
  show ?thesis
  proof (cases r)
    case (Some q)
    note d = queue_invD [OF inv]
    obtain x latest j where x: "find_enqueued (ms_events s) k = Some x" "ev_operationId x = Some (qt_operationId q)"
      "latest_state (ms_events s) k = Some latest" "ev_payload latest = QueuePaused j" "qt_queueItemId q = k"
      using requeue_check_Some Inr Some by metis
    let ?s = "s\<lparr>ms_tasks := ms_tasks s @ [RequeueRecording op q]\<rparr>"
    have w: "waiting ?s = waiting s" and r: "requeuing ?s = add_mset k (requeuing s)"
      using x(5) by (simp_all add: waiting_def requeuing_def)
    have "k \<notin># waiting s" using paused_not_pending [OF d(1) x(3,4)] d(3) by (auto simp: agrees_def)
    then have "once (waiting ?s + requeuing ?s)" using d(4) not_in_flight [OF serial] unfolding w r by (simp add: once_add)
    moreover have "targets_ok (ms_events s) (requeuing ?s)" using d(5) x(1,2) unfolding r targets_add by blast
    moreover have "requeue op k pr s = ?s" using Inr Some by (simp add: requeue_def)
    moreover have "drain_flag_ok ?s" using d(2) by (simp add: drain_flag_ok_def)
    ultimately show ?thesis using d(1,3) by (simp add: queue_inv_def agrees_def healthy_def w)
  qed (use inv Inr in \<open>simp add: requeue_def\<close>)
qed (use inv in \<open>simp add: requeue_def\<close>)

text \<open>A task that holds no recorded or requeued prompt comes and goes unnoticed.\<close>

fun silent :: "record_task \<Rightarrow> bool" where
  "silent (Recorded _) = False"
| "silent (RequeueRecording _ _) = False"
| "silent _ = True"

lemma silent_items [simp]: "silent t \<Longrightarrow> recorded_item t = {#}" "silent t \<Longrightarrow> requeued_item t = {#}"
  by (cases t; simp)+

lemma enqueue_same: "drain_flag_ok s \<Longrightarrow> same_queue (enqueue op c pr s) s"
  by (simp add: enqueue_def same_queue_def healthy_def waiting_def requeuing_def drain_flag_ok_def)

lemma silent_update_same:
  assumes "drain_flag_ok s" "i < length (ms_tasks s)" "silent (ms_tasks s ! i)" "silent t"
  shows "same_queue (s\<lparr>ms_tasks := (ms_tasks s)[i := t]\<rparr>) s"
  using assms by (simp add: same_queue_def healthy_def waiting_def requeuing_def drain_flag_ok_def items_update
      items_nth [OF assms(2), of recorded_item] items_nth [OF assms(2), of requeued_item])

lemma silent_drop_same:
  assumes "drain_flag_ok s" "i < length (ms_tasks s)" "silent (ms_tasks s ! i)"
  shows "same_queue (s\<lparr>ms_tasks := drop_nth i (ms_tasks s)\<rparr>) s"
  using assms by (simp add: same_queue_def healthy_def waiting_def requeuing_def drain_flag_ok_def
      items_nth [OF assms(2), of recorded_item] items_nth [OF assms(2), of requeued_item])

lemma requeue_drop_inv:
  assumes inv: "queue_inv s" and i: "i < length (ms_tasks s)" "ms_tasks s ! i = RequeueRecording op q"
  shows "queue_inv (s\<lparr>ms_tasks := drop_nth i (ms_tasks s)\<rparr>)" (is "queue_inv ?s")
proof (rule queue_invI)
  note d = queue_invD [OF inv]
  have r: "requeuing s = add_mset (qt_queueItemId q) (requeuing ?s)" and w: "waiting ?s = waiting s"
    using i by (simp_all add: requeuing_def waiting_def items_nth [OF i(1), of requeued_item] items_nth [OF i(1), of recorded_item])
  show "once (waiting ?s + requeuing ?s)" using d(4) unfolding w r by (simp add: once_add)
  show "targets_ok (ms_events s) (requeuing ?s)" using d(5) unfolding r targets_add by blast
qed (use queue_invD [OF inv] i in \<open>simp_all add: drain_flag_ok_def waiting_def items_nth [OF i(1), of recorded_item] agrees_def healthy_def\<close>)

lemma push_entry_same:
  assumes "drain_flag_ok s" "i < length (ms_tasks s)" "ms_tasks s ! i = Recorded q"
  shows "same_queue (push_entry q (s\<lparr>ms_tasks := drop_nth i (ms_tasks s)\<rparr>)) s"
proof -
  let ?s = "s\<lparr>ms_tasks := drop_nth i (ms_tasks s),
    ms_queue := (if qt_priority q = Front then q # ms_queue s else ms_queue s @ [q])\<rparr>"
  have "same_queue ?s s" using assms
    by (simp add: same_queue_def healthy_def waiting_def requeuing_def drain_flag_ok_def
        items_nth [OF assms(2), of recorded_item] items_nth [OF assms(2), of requeued_item])
  moreover have "same_queue (startQueueDrain ?s) ?s" using assms(1) by (intro startQueueDrain_same) (simp add: drain_flag_ok_def)
  ultimately show ?thesis by (auto simp: push_entry_def intro: same_queue_trans)
qed

lemma sends_same:
  assumes "drain_flag_ok s" shows "same_queue (s\<lparr>ms_sends := x\<rparr>) s"
  using assms by (simp add: same_queue_def healthy_def waiting_def requeuing_def drain_flag_ok_def)

lemma flag_sends [simp]: "drain_flag_ok (s\<lparr>ms_sends := x\<rparr>) = drain_flag_ok s"
  by (simp add: drain_flag_ok_def)

lemma claim_same: "drain_flag_ok s \<Longrightarrow> same_queue (fst (send_claim op s)) s"
  by (simp add: same_queue_def healthy_def waiting_def requeuing_def drain_flag_ok_def)

lemma begin_same: "drain_flag_ok s \<Longrightarrow> same_queue (fst (send_begin op c s)) s"
  by (simp add: same_queue_def healthy_def waiting_def requeuing_def drain_flag_ok_def)

lemma on_send_inv:
  assumes inv: "queue_inv s"
    and f: "\<And>t s'. queue_inv s' \<Longrightarrow> ms_events s' = ms_events s \<Longrightarrow> queue_inv (f t s')"
  shows "queue_inv (on_send i point f s)"
  using inv f same_queue_inv [OF inv sends_same [OF queue_invD(2) [OF inv]]] by (simp add: on_send_def)

lemma drain_settled_same:
  assumes "ms_queueDraining s" "drain_item (ms_drain s) = {#}" "drain_item p = {#}" "p \<noteq> DrainIdle"
  shows "same_queue (s\<lparr>ms_drain := p\<rparr>) s"
  using assms by (simp add: same_queue_def healthy_def waiting_def requeuing_def drain_flag_ok_def)

lemma rejects_same:
  assumes "drain_item (ms_drain s) = {#}" shows "same_queue (drain_rejects s) s"
  using assms by (simp add: same_queue_def healthy_def drain_rejects_def waiting_def requeuing_def drain_flag_ok_def)

text \<open>A start that cannot be recorded drops the prompt from memory; the log keeps it and the session stops.\<close>

lemma start_fails_inv:
  assumes inv: "queue_inv s" and dr: "ms_drain s = DrainStarting q"
  shows "queue_inv (drain_rejects s)"
proof (rule queue_invI)
  note d = queue_invD [OF inv]
  have w: "waiting s = add_mset (qt_queueItemId q) (waiting (drain_rejects s))" and r: "requeuing (drain_rejects s) = requeuing s"
    using dr by (simp_all add: waiting_def requeuing_def drain_rejects_def)
  show "once (waiting (drain_rejects s) + requeuing (drain_rejects s))" using d(4) unfolding w r by (simp add: once_add)
  show "targets_ok (ms_events s) (requeuing (drain_rejects s))" using d(5) unfolding r .
  show "agrees (ms_events s) (drain_rejects s)"
    using d(3) unfolding agrees_def w by (simp add: healthy_def drain_rejects_def)
qed (use queue_invD [OF inv] in \<open>simp_all add: drain_rejects_def drain_flag_ok_def\<close>)

lemma log_fields [simp]:
  "ms_queueDraining (log_event e s) = ms_queueDraining s" "ms_drain (log_event e s) = ms_drain s"
  "drain_flag_ok (log_event e s) = drain_flag_ok s" "ms_events (log_event e s) = ms_events s @ [e]"
  by (simp_all add: log_event_def drain_flag_ok_def)

lemma inv_flag: "queue_inv s \<Longrightarrow> ms_drain s \<noteq> DrainIdle \<Longrightarrow> ms_queueDraining s"
  using queue_invD(2) by (simp add: drain_flag_ok_def)

lemma settled_inv:
  assumes "queue_inv s" "ms_drain s \<noteq> DrainIdle" "drain_item (ms_drain s) = {#}" "drain_item p = {#}" "p \<noteq> DrainIdle"
  shows "queue_inv (s\<lparr>ms_drain := p\<rparr>)"
  using same_queue_inv [OF assms(1) drain_settled_same [OF inv_flag [OF assms(1,2)] assms(3-5)]] .

lemma log_other_inv:
  assumes "queue_inv s" "takes op p e s" "\<not> queue_payload p" shows "queue_inv (log_event e s)"
  using other_event_inv [OF assms(1), of e] assms(2,3) by (auto simp: takes_def)

lemma payload_not_queue [simp]: "\<not> queue_payload (abort_event m)" "\<not> queue_payload queued_prompt_failed"
  by (simp_all add: queue_payload_def abort_event_def queued_prompt_failed_def)

lemma task_appended_inv: "queue_inv s \<Longrightarrow> queue_inv (task_appended i e s)"
  using enqueued_inv requeued_inv by (auto simp: task_appended_def split: record_task.splits)

lemma task_checked_inv: "queue_inv s \<Longrightarrow> queue_inv (perform (TaskChecked i) s)"
  using same_queue_inv [OF _ silent_update_same [OF queue_invD(2)]]
  by (auto split: record_task.splits)

lemma task_failed_inv: "queue_inv s \<Longrightarrow> queue_inv (perform (TaskFailed i) s)"
  using same_queue_inv [OF _ silent_drop_same [OF queue_invD(2)]] requeue_drop_inv
  by (auto split: record_task.splits)

lemma task_continues_inv: "queue_inv s \<Longrightarrow> queue_inv (perform (TaskContinues i) s)"
  using same_queue_inv [OF _ push_entry_same [OF queue_invD(2)]] by (auto split: record_task.splits)

lemma send_checked_inv:
  assumes inv: "queue_inv s" shows "queue_inv (perform (SendChecked i ok) s)"
  unfolding perform.simps
proof (rule on_send_inv [OF inv])
  fix t s' assume s': "queue_inv s'" "ms_events s' = ms_events s"
  have "queue_inv (direct_send_result (sd_operationId t) (sd_content t) (send_claim (sd_operationId t) s'))"
    using same_queue_inv [OF s'(1) direct_send_same [OF claim_same [OF queue_invD(2) [OF s'(1)]]]] .
  then show "queue_inv (if ok then direct_send_result (sd_operationId t) (sd_content t) (send_claim (sd_operationId t) s') else s')"
    using s' by simp
qed

lemma send_aborted_inv:
  assumes inv: "queue_inv s" shows "queue_inv (perform (SendAborted i r) s)"
  unfolding perform.simps
proof (rule on_send_inv [OF inv])
  fix t s' assume s': "queue_inv s'" "ms_events s' = ms_events s"
  show "queue_inv (case r of None \<Rightarrow> s' | Some e \<Rightarrow>
      if takes (sd_operationId t) (abort_event recovered_message) e s then log_event e s' else s)"
    using s' inv log_other_inv [OF s'(1), of "sd_operationId t" "abort_event recovered_message"]
    by (auto simp: takes_def split: option.split)
qed

lemma drain_send_inv:
  assumes inv: "queue_inv s" and d: "ms_drain s \<noteq> DrainIdle" "drain_item (ms_drain s) = {#}"
    and r: "ms_events (fst r) = ms_events s" "ms_queue (fst r) = ms_queue s" "ms_tasks (fst r) = ms_tasks s"
      "ms_queueDraining (fst r) = ms_queueDraining s" "ms_rejected (fst r) = ms_rejected s" "ms_disposing (fst r) = ms_disposing s"
  shows "queue_inv (drain_send_result q r)"
  using same_queue_inv [OF inv drain_send_same [OF r(1-3) _ d(2) r(5,6)]] inv_flag [OF inv d(1)] r(4) by simp

lemma drain_aborted_inv:
  assumes inv: "queue_inv s" shows "queue_inv (perform (DrainAborted r) s)"
proof (cases "ms_drain s")
  case (DrainSending q point)
  show ?thesis
  proof (cases "point = SendAborting")
    case True
    note d = DrainSending [unfolded True]
    show ?thesis
    proof (cases r)
      case None
      then show ?thesis using settled_inv [OF inv] d by simp
    next
      case (Some e)
      show ?thesis
      proof (cases "takes (qt_operationId q) (abort_event recovered_message) e s")
        case True
        have "queue_inv (log_event e s)" using log_other_inv [OF inv True] by simp
        then have "queue_inv (drain_send_result q (log_event e s, SendReturns))"
          using d by (intro drain_send_inv [of "log_event e s"]) simp_all
        then show ?thesis using Some d True by simp
      qed (use Some d inv in simp)
    qed
  next
    case False
    then show ?thesis using DrainSending inv by (cases point) simp_all
  qed
qed (use inv in simp_all)

lemma drain_error_inv:
  assumes inv: "queue_inv s" shows "queue_inv (perform (DrainErrorAppended e) s)"
proof (cases "ms_drain s")
  case (DrainFailing q)
  show ?thesis
  proof (cases "takes (qt_operationId q) queued_prompt_failed e s")
    case True
    then have "queue_inv (log_event e s)" using log_other_inv [OF inv True] by simp
    then show ?thesis using DrainFailing True settled_inv [of "log_event e s"] by simp
  qed (use DrainFailing inv in simp)
qed (use inv in simp_all)

lemma flags_inv:
  assumes "queue_inv s" "ms_events s' = ms_events s" "ms_queue s' = ms_queue s" "ms_tasks s' = ms_tasks s" "ms_drain s' = ms_drain s"
    "ms_queueDraining s' = ms_queueDraining s" "healthy s' \<longrightarrow> healthy s"
  shows "queue_inv s'"
  using assms(2-) queue_invD(2) [OF assms(1)]
  by (intro same_queue_inv [OF assms(1)]) (simp add: same_queue_def waiting_def requeuing_def drain_flag_ok_def)

definition serial_action :: "queue_action \<Rightarrow> managed_session \<Rightarrow> bool" where
  "serial_action a s \<longleftrightarrow> (case a of CallRequeue _ k _ \<Rightarrow> \<not> requeue_in_flight k s | _ \<Rightarrow> True)"

lemma perform_inv:
  assumes inv: "queue_inv s" and serial: "serial_action a s"
  shows "queue_inv (perform a s)"
proof -
  note flag = queue_invD(2) [OF inv] and same = same_queue_inv [OF inv]
  show ?thesis
  proof (cases a)
    case (CallEnqueue op c pr)
    then show ?thesis using same [OF enqueue_same [OF flag]] by simp
  next
    case (CallRequeue op k pr)
    then show ?thesis using requeue_inv [OF inv] serial by (simp add: serial_action_def)
  next
    case (CallSend op c)
    then show ?thesis using same [OF direct_send_same [OF begin_same [OF flag]]] by simp
  next
    case (CallOwner op)
    have "queue_inv (s\<lparr>ms_activeTurn := Some op\<rparr>)" by (rule flags_inv [OF inv]) (simp_all add: healthy_def)
    then have "queue_inv (direct_send_result op [] (s\<lparr>ms_activeTurn := Some op\<rparr>, SendWaits SendRunning))"
      using same_queue_inv [OF _ direct_send_same [OF same_queue_refl [OF queue_invD(2)]]] by fastforce
    then show ?thesis using CallOwner inv by simp
  next
    case (SendEnded i)
    have "queue_inv (turn_finally s')" if "queue_inv s'" for s'
      using same_queue_inv [OF that turn_finally_same [OF queue_invD(2) [OF that]]] .
    then show ?thesis using SendEnded on_send_inv [OF inv] by simp
  next
    case (DrainAppended e)
    then show ?thesis using inv started_inv [OF inv] by (auto split: drain_point.split)
  next
    case DrainAppendFails
    then show ?thesis using inv start_fails_inv [OF inv] by (auto split: drain_point.split)
  next
    case DrainSends
    then show ?thesis using inv drain_send_inv [OF inv] by (auto split: drain_point.split)
  next
    case (DrainChecked ok)
    then show ?thesis using inv drain_send_inv [OF inv] settled_inv [OF inv]
      by (auto split: drain_point.split send_point.split)
  next
    case (DrainTurnEnds ok)
    have "queue_inv ((turn_finally s)\<lparr>ms_drain := DrainSettled q ok\<rparr>)" if "ms_drain s = DrainSending q SendRunning" for q
    proof -
      have "ms_queueDraining s" using inv_flag [OF inv] that by simp
      moreover have "queue_inv (s\<lparr>ms_activeTurn := None\<rparr>)" by (rule flags_inv [OF inv]) (simp_all add: healthy_def)
      ultimately show ?thesis using settled_inv [of "s\<lparr>ms_activeTurn := None\<rparr>"] that by (simp add: draining_finally)
    qed
    then show ?thesis using DrainTurnEnds inv by (auto split: drain_point.split send_point.split)
  next
    case DrainContinues
    then show ?thesis using inv settled_inv [OF inv] same [OF drain_loop_same [OF inv_flag [OF inv]]]
      by (auto split: drain_point.split bool.split)
  next
    case DrainErrorFails
    then show ?thesis using inv same [OF rejects_same] by (auto split: drain_point.split)
  next
    case DrainHandled
    then show ?thesis using inv by (auto intro!: flags_inv [OF inv] simp: healthy_def)
  next
    case BeginRebuild
    then show ?thesis using inv by (auto intro!: flags_inv [OF inv] simp: begin_rebuild_def healthy_def)
  next
    case EndRebuild
    then show ?thesis by (auto intro!: flags_inv [OF inv] simp: end_rebuild_def healthy_def)
  next
    case (ReserveInterrupt op target)
    then show ?thesis using inv by (auto intro!: flags_inv [OF inv] simp: reserveInterruptDelivery_def healthy_def split: option.split)
  next
    case (ReleaseInterrupt op)
    have "queue_inv (s\<lparr>ms_interruptDelivery := None\<rparr>)" by (rule flags_inv [OF inv]) (simp_all add: healthy_def)
    then have "queue_inv (startQueueDrain (s\<lparr>ms_interruptDelivery := None\<rparr>))"
      using same_queue_inv [OF _ startQueueDrain_same [OF queue_invD(2)]] by blast
    then show ?thesis using ReleaseInterrupt inv by (auto simp: releaseInterruptDelivery_def split: option.split)
  next
    case (OtherEvent e)
    then show ?thesis using inv other_event_inv [OF inv] by simp
  next
    case BeginDispose
    then show ?thesis by (auto intro!: flags_inv [OF inv] simp: healthy_def)
  next
    case BeginShutdown
    then show ?thesis by (auto intro!: flags_inv [OF inv] simp: healthy_def)
  qed (simp_all add: inv task_appended_inv task_checked_inv [OF inv, simplified] task_failed_inv [OF inv, simplified]
      task_continues_inv [OF inv, simplified] send_checked_inv [OF inv, simplified] send_aborted_inv [OF inv, simplified]
      drain_aborted_inv [OF inv, simplified] drain_error_inv [OF inv, simplified])
qed

section \<open>Runs\<close>

fun serial_requeues :: "queue_action list \<Rightarrow> managed_session \<Rightarrow> bool" where
  "serial_requeues [] s = True"
| "serial_requeues (a # as) s = (serial_action a s \<and> serial_requeues as (perform a s))"

lemma actions_inv: "\<lbrakk>queue_inv s; serial_requeues as s\<rbrakk> \<Longrightarrow> queue_inv (perform_all as s)"
  by (induction as arbitrary: s) (simp_all add: perform_all_def perform_inv)

lemma pending_empty: "pending_ids es = {} \<longleftrightarrow> recovered_pending es = []"
  by (simp add: pending_ids_def mkeys_def)

lemma opened_inv: "\<lbrakk>queue_log_ok es; recovered_pending es = []\<rbrakk> \<Longrightarrow> queue_inv (opened_session es)"
  using pending_empty [of es]
  by (simp add: queue_inv_def opened_session_def drain_flag_ok_def agrees_def waiting_def requeuing_def once_def targets_ok_def)

section \<open>Recovery\<close>

text \<open>What recording the pauses produces: events with new identifiers and the payload asked for.\<close>

definition pauses :: "(string \<times> string \<Rightarrow> canonical_event) \<Rightarrow> canonical_event list \<Rightarrow> bool" where
  "pauses pe es \<longleftrightarrow> distinct (map ev_id (es @ map pe (recovered_pending es))) \<and>
     list_all (\<lambda>(k, op). ev_payload (pe (k, op)) = QueuePaused k \<and> ev_operationId (pe (k, op)) = Some op) (recovered_pending es)"

lemma pause_prefix:
  assumes "queue_log_ok es" "distinct (map ev_id (es @ map pe ps))" "fst ` set ps \<subseteq> enqueued_ids es"
    "list_all (\<lambda>(k, op). ev_payload (pe (k, op)) = QueuePaused k) ps"
  shows "queue_log_ok (es @ map pe ps) \<and> pending_ids (es @ map pe ps) = pending_ids es - fst ` set ps"
  using assms
proof (induction ps rule: rev_induct)
  case (snoc p ps)
  obtain k op where p: "p = (k, op)" by (cases p)
  have ih: "queue_log_ok (es @ map pe ps)" "pending_ids (es @ map pe ps) = pending_ids es - fst ` set ps"
    using snoc by auto
  have e: "ev_payload (pe p) = QueuePaused k" using snoc.prems(4) by (simp add: p)
  have "k \<in> enqueued_ids (es @ map pe ps)" using snoc.prems(3) by (auto simp: p enqueued_ids_def)
  then have ok: "queue_log_ok ((es @ map pe ps) @ [pe p])"
    unfolding queue_log_snoc using ih(1) snoc.prems(2) e by auto
  show ?case using ok pending_ids_snoc [OF ok] ih(2) e by (auto simp: p)
qed simp

lemma pause_all:
  assumes "queue_log_ok es" "pauses pe es"
  shows "queue_log_ok (pauseRecoveredQueue pe es)" "recovered_pending (pauseRecoveredQueue pe es) = []"
proof -
  have k: "fst ` set (recovered_pending es) = pending_ids es" by (simp add: pending_ids_def mkeys_def)
  have "list_all (\<lambda>(k, op). ev_payload (pe (k, op)) = QueuePaused k) (recovered_pending es)"
    using assms(2) by (auto simp: pauses_def list_all_iff)
  then have p: "queue_log_ok (es @ map pe (recovered_pending es)) \<and>
      pending_ids (es @ map pe (recovered_pending es)) = pending_ids es - pending_ids es"
    using pause_prefix [OF assms(1), of pe "recovered_pending es"] assms(2) pending_sub [OF assms(1)]
    by (simp add: pauses_def k)
  then show "queue_log_ok (pauseRecoveredQueue pe es)" by (simp add: pauseRecoveredQueue_def)
  show "recovered_pending (pauseRecoveredQueue pe es) = []"
    using p pending_empty [of "pauseRecoveredQueue pe es"] by (simp add: pauseRecoveredQueue_def)
qed

section \<open>Nothing is forgotten\<close>

text \<open>Nothing is under way, and nothing stops or owns the session.\<close>

definition at_rest :: "managed_session \<Rightarrow> bool" where
  "at_rest s \<longleftrightarrow> ms_tasks s = [] \<and> ms_sends s = [] \<and> ms_drain s = DrainIdle \<and> ms_rejected s = 0 \<and>
     ms_interruptDelivery s = None \<and> \<not> ms_rebuilding s \<and> \<not> ms_disposing s \<and> \<not> ms_stopping s"

definition wakes :: "managed_session \<Rightarrow> bool" where
  "wakes s \<longleftrightarrow> ms_queue s = [] \<or> ms_stopping s \<or> ms_disposing s \<or> 0 < ms_rejected s \<or> ms_queueDraining s \<or>
     ms_activeTurn s \<noteq> None \<or> ms_interruptDelivery s \<noteq> None \<or> ms_rebuilding s"

definition owned :: "managed_session \<Rightarrow> bool" where
  "owned s \<longleftrightarrow> ms_activeTurn s = None \<or> list_ex (\<lambda>t. sd_point t = SendRunning) (ms_sends s) \<or>
     (\<exists>q. ms_drain s = DrainSending q SendRunning)"

definition rest_inv :: "managed_session \<Rightarrow> bool" where
  "rest_inv s \<longleftrightarrow> drain_flag_ok s \<and> wakes s \<and> owned s"

lemma rest_invD: "rest_inv s \<Longrightarrow> drain_flag_ok s" "rest_inv s \<Longrightarrow> wakes s" "rest_inv s \<Longrightarrow> owned s"
  by (simp_all add: rest_inv_def)

lemma rest_cong:
  assumes "rest_inv s" "ms_queue s' = ms_queue s" "ms_drain s' = ms_drain s" "ms_queueDraining s' = ms_queueDraining s"
    "ms_activeTurn s' = ms_activeTurn s" "ms_sends s' = ms_sends s" "ms_stopping s \<longrightarrow> ms_stopping s'" "ms_disposing s \<longrightarrow> ms_disposing s'"
    "0 < ms_rejected s \<longrightarrow> 0 < ms_rejected s' \<or> ms_disposing s'" "ms_interruptDelivery s \<noteq> None \<longrightarrow> ms_interruptDelivery s' \<noteq> None"
    "ms_rebuilding s \<longrightarrow> ms_rebuilding s'"
  shows "rest_inv s'"
  using assms by (auto simp: rest_inv_def drain_flag_ok_def wakes_def owned_def)

lemma drain_loop_rest:
  assumes "ms_queueDraining s" "\<forall>q. ms_drain s \<noteq> DrainSending q SendRunning" "owned s"
  shows "rest_inv (drain_loop s)"
  using assms by (auto simp: rest_inv_def drain_loop_def drain_flag_ok_def wakes_def owned_def split: list.split)

lemma startQueueDrain_rest:
  assumes "drain_flag_ok s" "owned s" shows "rest_inv (startQueueDrain s)"
proof (cases "ms_stopping s \<or> ms_disposing s \<or> ms_queueDraining s \<or> ms_interruptDelivery s \<noteq> None \<or>
    ms_activeTurn s \<noteq> None \<or> ms_rebuilding s")
  case True
  then have "startQueueDrain s = s" by (auto simp: startQueueDrain_def drainQueue_def)
  then show ?thesis using True assms by (auto simp: rest_inv_def wakes_def)
next
  case False
  then have "startQueueDrain s = drain_loop (s\<lparr>ms_queueDraining := True\<rparr>)"
    by (simp add: startQueueDrain_def drainQueue_def)
  moreover have "ms_drain s = DrainIdle" using False assms(1) by (simp add: drain_flag_ok_def)
  ultimately show ?thesis using assms(2) by (simp add: drain_loop_rest owned_def)
qed

lemma turn_finally_rest: "drain_flag_ok s \<Longrightarrow> rest_inv (turn_finally s)"
  unfolding turn_finally_def by (rule startQueueDrain_rest) (simp_all add: drain_flag_ok_def owned_def)

lemma push_entry_rest: "drain_flag_ok s \<Longrightarrow> owned s \<Longrightarrow> rest_inv (push_entry q s)"
  unfolding push_entry_def by (rule startQueueDrain_rest) (simp_all add: drain_flag_ok_def owned_def)

lemma send_claim_cases:
  obtains e where "send_claim op s = (s, SendThrows e)"
  | "ms_activeTurn s = None" "send_claim op s = (s\<lparr>ms_activeTurn := Some op\<rparr>, SendWaits SendRunning)"
proof (cases "ms_stopping s \<or> ms_disposing s \<or> ms_activeTurn s \<noteq> None \<or> ms_rebuilding s \<or> delivery_blocks op s")
  case True
  then have "\<exists>e. send_claim op s = (s, SendThrows e)" by (auto simp: send_claim_def)
  then show thesis using that(1) by blast
next
  case False
  then show thesis using that(2) by (simp add: send_claim_def)
qed

lemma send_begin_cases:
  obtains r where "send_begin op c s = (s, r)" "r \<noteq> SendWaits SendRunning"
  | "ms_activeTurn s = None" "send_begin op c s = (s\<lparr>ms_activeTurn := Some op\<rparr>, SendWaits SendRunning)"
proof (cases "send_begin op c s = send_claim op s")
  case True
  show thesis
  proof (rule send_claim_cases [of op s])
    fix e assume "send_claim op s = (s, SendThrows e)"
    then show thesis using that(1) [of "SendThrows e"] True by simp
  qed (use that(2) True in simp)
next
  case False
  then have "ms_stopping s \<or> terminal_of (ms_events s) op \<noteq> None \<or> has_user_message (ms_events s) op \<or> has_blob c"
    by (rule contrapos_np) (simp add: send_begin_def)
  then have "\<exists>r. send_begin op c s = (s, r) \<and> r \<noteq> SendWaits SendRunning" by (auto simp: send_begin_def)
  then show thesis using that(1) by blast
qed

lemma direct_rest:
  assumes "rest_inv s"
  shows "r \<noteq> SendWaits SendRunning \<Longrightarrow> rest_inv (direct_send_result op c (s, r))"
    "rest_inv (direct_send_result op c (s\<lparr>ms_activeTurn := Some op\<rparr>, SendWaits SendRunning))"
proof -
  show "rest_inv (direct_send_result op c (s, r))" if "r \<noteq> SendWaits SendRunning"
    using that assms by (cases r) (auto simp: direct_send_result_def rest_inv_def drain_flag_ok_def wakes_def owned_def)
  show "rest_inv (direct_send_result op c (s\<lparr>ms_activeTurn := Some op\<rparr>, SendWaits SendRunning))"
    using assms by (auto simp: direct_send_result_def rest_inv_def drain_flag_ok_def wakes_def owned_def)
qed

lemma begin_rest: "rest_inv s \<Longrightarrow> rest_inv (direct_send_result op c (send_begin op c s))"
  by (rule send_begin_cases [of op c s]) (simp_all add: direct_rest)

lemma claim_rest: "rest_inv s \<Longrightarrow> rest_inv (direct_send_result op c (send_claim op s))"
  by (rule send_claim_cases [of op s]) (simp_all add: direct_rest)

lemma drain_result_rest:
  assumes "rest_inv s" "\<forall>q. ms_drain s \<noteq> DrainSending q SendRunning" "ms_drain s \<noteq> DrainIdle"
  shows "r \<noteq> SendWaits SendRunning \<Longrightarrow> rest_inv (drain_send_result q (s, r))"
    "rest_inv (drain_send_result q (s\<lparr>ms_activeTurn := Some op\<rparr>, SendWaits SendRunning))"
proof -
  show "rest_inv (drain_send_result q (s, r))" if "r \<noteq> SendWaits SendRunning"
    using that assms by (cases r) (auto simp: drain_send_result_def rest_inv_def drain_flag_ok_def wakes_def owned_def)
  show "rest_inv (drain_send_result q (s\<lparr>ms_activeTurn := Some op\<rparr>, SendWaits SendRunning))"
    using assms by (auto simp: drain_send_result_def rest_inv_def drain_flag_ok_def wakes_def owned_def)
qed

lemma drain_begin_rest:
  assumes "rest_inv s" "\<forall>q. ms_drain s \<noteq> DrainSending q SendRunning" "ms_drain s \<noteq> DrainIdle"
  shows "rest_inv (drain_send_result q (send_begin op c s))"
  by (rule send_begin_cases [of op c s]) (simp_all add: drain_result_rest [OF assms])

lemma drain_claim_rest:
  assumes "rest_inv s" "\<forall>q. ms_drain s \<noteq> DrainSending q SendRunning" "ms_drain s \<noteq> DrainIdle"
  shows "rest_inv (drain_send_result q (send_claim op s))"
  by (rule send_claim_cases [of op s]) (simp_all add: drain_result_rest [OF assms])

lemma drain_point_rest:
  assumes "rest_inv s" "\<forall>q. ms_drain s \<noteq> DrainSending q SendRunning" "ms_drain s \<noteq> DrainIdle" "p \<noteq> DrainIdle"
  shows "rest_inv (s\<lparr>ms_drain := p\<rparr>)"
  using assms by (auto simp: rest_inv_def drain_flag_ok_def wakes_def owned_def)

lemma log_rest: "rest_inv s \<Longrightarrow> rest_inv (log_event e s)"
  by (erule rest_cong) (simp_all add: log_event_def)

lemma tasks_rest: "rest_inv s \<Longrightarrow> rest_inv (s\<lparr>ms_tasks := ts\<rparr>)"
  by (erule rest_cong) simp_all

lemma not_running_dropped:
  assumes "i < length ts" "sd_point (ts ! i) \<noteq> SendRunning" "list_ex (\<lambda>t. sd_point t = SendRunning) ts"
  shows "list_ex (\<lambda>t. sd_point t = SendRunning) (drop_nth i ts)"
proof -
  have "set ts = insert (ts ! i) (set (take i ts) \<union> set (drop (Suc i) ts))"
    using arg_cong [OF id_take_nth_drop [OF assms(1)], of set] by auto
  then show ?thesis using assms(2,3) by (auto simp: list_ex_iff drop_nth_def)
qed

lemma on_send_rest:
  assumes "rest_inv s" "point \<noteq> SendRunning"
    and f: "\<And>t s'. rest_inv s' \<Longrightarrow> rest_inv (f t s')"
  shows "rest_inv (on_send i point f s)"
proof -
  have "rest_inv (s\<lparr>ms_sends := drop_nth i (ms_sends s)\<rparr>)" if "i < length (ms_sends s)" "sd_point (ms_sends s ! i) = point"
    using assms(1,2) that not_running_dropped [of i "ms_sends s"]
    by (auto simp: rest_inv_def drain_flag_ok_def wakes_def owned_def)
  then show ?thesis using assms(1) f by (simp add: on_send_def)
qed

lemma rejects_rest:
  assumes "rest_inv s" "\<forall>q. ms_drain s \<noteq> DrainSending q SendRunning" shows "rest_inv (drain_rejects s)"
  using assms by (auto simp: drain_rejects_def rest_inv_def drain_flag_ok_def wakes_def owned_def)

lemma perform_rest:
  assumes r: "rest_inv s" and a: "a \<noteq> EndRebuild"
  shows "rest_inv (perform a s)"
proof (cases a)
  case (CallEnqueue op c pr)
  then show ?thesis using r by (simp add: enqueue_def tasks_rest)
next
  case (CallRequeue op k pr)
  then show ?thesis using r by (auto simp: requeue_def tasks_rest split: sum.split option.split)
next
  case (TaskChecked i)
  then show ?thesis using r by (auto simp: tasks_rest split: record_task.split)
next
  case (TaskAppended i e)
  then show ?thesis using r by (auto simp: task_appended_def tasks_rest log_rest split: record_task.split)
next
  case (TaskFailed i)
  then show ?thesis using r by (auto simp: tasks_rest split: record_task.split)
next
  case (TaskContinues i)
  have "rest_inv (push_entry q (s\<lparr>ms_tasks := drop_nth i (ms_tasks s)\<rparr>))" for q
    using rest_invD [OF tasks_rest [OF r]] push_entry_rest by blast
  then show ?thesis using TaskContinues r by (auto split: record_task.split)
next
  case (CallSend op c)
  then show ?thesis using begin_rest [OF r] by simp
next
  case (CallOwner op)
  then show ?thesis using r direct_rest(2) [OF r] by simp
next
  case (SendChecked i ok)
  then show ?thesis using on_send_rest [OF r] by (simp add: claim_rest)
next
  case (SendAborted i e)
  then show ?thesis using on_send_rest [OF r] r by (auto simp: log_rest split: option.split)
next
  case (SendEnded i)
  have "rest_inv (turn_finally (s\<lparr>ms_sends := ts\<rparr>))" for ts
    using turn_finally_rest [of "s\<lparr>ms_sends := ts\<rparr>"] rest_invD(1) [OF r] by simp
  then show ?thesis using SendEnded r by (simp add: on_send_def)
next
  case (DrainAppended e)
  then show ?thesis using r drain_point_rest [OF log_rest [OF r]] by (auto split: drain_point.split)
next
  case DrainAppendFails
  then show ?thesis using r rejects_rest [OF r] by (auto split: drain_point.split)
next
  case DrainSends
  then show ?thesis using r drain_begin_rest [OF r] by (auto split: drain_point.split)
next
  case (DrainChecked ok)
  then show ?thesis using r drain_claim_rest [OF r] drain_point_rest [OF r]
    by (auto split: drain_point.split send_point.split)
next
  case (DrainAborted e)
  then show ?thesis using r drain_point_rest [OF r] drain_result_rest(1) [OF log_rest [OF r]]
    by (auto split: drain_point.split send_point.split option.split)
next
  case (DrainTurnEnds ok)
  have "rest_inv ((turn_finally s)\<lparr>ms_drain := DrainSettled q ok\<rparr>)" if "ms_drain s = DrainSending q SendRunning" for q
  proof -
    have "ms_queueDraining s" using rest_invD(1) [OF r] that by (simp add: drain_flag_ok_def)
    then show ?thesis by (simp add: draining_finally rest_inv_def drain_flag_ok_def wakes_def owned_def)
  qed
  then show ?thesis using DrainTurnEnds r by (auto split: drain_point.split send_point.split)
next
  case DrainContinues
  have "ms_drain s = DrainSettled q b \<Longrightarrow> ms_queueDraining s" for q b
    using rest_invD(1) [OF r] by (simp add: drain_flag_ok_def)
  then show ?thesis using DrainContinues r drain_point_rest [OF r] drain_loop_rest [OF _ _ rest_invD(3) [OF r]]
    by (auto split: drain_point.split bool.split)
next
  case (DrainErrorAppended e)
  then show ?thesis using r drain_point_rest [OF log_rest [OF r]] by (auto split: drain_point.split)
next
  case DrainErrorFails
  then show ?thesis using r rejects_rest [OF r] by (auto split: drain_point.split)
next
  case (ReleaseInterrupt op)
  have "rest_inv (startQueueDrain (s\<lparr>ms_interruptDelivery := None\<rparr>))"
    using rest_invD(1,3) [OF r] by (intro startQueueDrain_rest) (simp_all add: drain_flag_ok_def owned_def)
  then show ?thesis using ReleaseInterrupt r by (auto simp: releaseInterruptDelivery_def split: option.split)
next
  case (OtherEvent e)
  then show ?thesis using r by (simp add: log_rest)
qed (use a r in \<open>auto intro!: rest_cong [OF r] simp: begin_rebuild_def reserveInterruptDelivery_def split: option.split\<close>)

lemma run_rest: "\<lbrakk>rest_inv s; EndRebuild \<notin> set as\<rbrakk> \<Longrightarrow> rest_inv (perform_all as s)"
  by (induction as arbitrary: s) (auto simp: perform_all_def perform_rest)

lemma rest_queue_empty: "rest_inv s \<Longrightarrow> at_rest s \<Longrightarrow> ms_queue s = []"
  by (auto simp: rest_inv_def drain_flag_ok_def wakes_def owned_def at_rest_def)

section \<open>Properties\<close>



text \<open>
  C9: Without rebuilds the queue is never stuck: in every interleaving in which no rebuild ends, a
  session that is at rest, with nothing under way and nothing that stops it, has no prompt left.
\<close>

theorem queue_never_stuck:
  assumes "EndRebuild \<notin> set actions" and "at_rest (perform_all actions (opened_session events))"
  shows "ms_queue (perform_all actions (opened_session events)) = []"
proof -
  have "rest_inv (opened_session events)"
    by (simp add: rest_inv_def opened_session_def drain_flag_ok_def wakes_def owned_def)
  then show ?thesis using rest_queue_empty [OF run_rest [OF _ assms(1)] assms(2)] by blast
qed

definition of_operation :: "string \<Rightarrow> canonical_event \<Rightarrow> canonical_event" where
  "of_operation op e = e\<lparr>ev_operationId := Some op\<rparr>"

definition ex_prompts :: "canonical_event list" where
  "ex_prompts =
     [ex_event CHR ''1'' None (SessionCreated ''/work'' None None None),
      of_operation ''A'' (ex_event CHR ''2'' (Some CHR ''1'') (QueueEnqueued [Text ''a''] Back)),
      of_operation ''A'' (ex_event CHR ''3'' (Some CHR ''2'') (QueuePaused (ex_id CHR ''2'')))]"

lemma queue_log_rev: "queue_log_ok (rev (e # es)) \<longleftrightarrow> queue_log_ok (rev es) \<and> ev_id e \<notin> ev_id ` set es \<and>
    (\<forall>k. mentions (ev_payload e) = Some k \<longrightarrow> k \<in> enqueued_ids es)"
  by (simp add: queue_log_snoc) (simp add: enqueued_ids_def)

lemma enqueued_Cons: "enqueued_ids (e # es) = (if is_enqueued (ev_payload e) then {ev_id e} else {}) \<union> enqueued_ids es"
  by (auto simp: enqueued_ids_def)

lemma ex_prompts_ok: "queue_log_ok ex_prompts"
proof -
  have "ex_prompts = rev [ex_prompts ! 2, ex_prompts ! 1, ex_prompts ! 0]" by (simp add: ex_prompts_def)
  moreover have "queue_log_ok (rev [ex_prompts ! 2, ex_prompts ! 1, ex_prompts ! 0])"
    unfolding queue_log_rev by (simp add: ex_prompts_def of_operation_def ex_event_def ex_id_def enqueued_Cons)
  ultimately show ?thesis by simp
qed

definition enqueue_actions :: "string \<Rightarrow> char \<Rightarrow> char \<Rightarrow> queue_action list" where
  "enqueue_actions op c parent =
     [CallEnqueue op [Text op] Back,
      TaskAppended 0 (of_operation op (ex_event c (Some parent) (QueueEnqueued [Text op] Back))), TaskContinues 0]"

definition start_actions :: "string \<Rightarrow> char \<Rightarrow> char \<Rightarrow> char \<Rightarrow> queue_action list" where
  "start_actions op item c parent =
     [DrainAppended (of_operation op (ex_event c (Some parent) (QueueStarted (ex_id item)))), DrainSends]"

definition turn_actions :: "string \<Rightarrow> char \<Rightarrow> char \<Rightarrow> char \<Rightarrow> queue_action list" where
  "turn_actions op c d parent =
     [OtherEvent (of_operation op (ex_event c (Some parent) (UserMessage [Text op]))),
      OtherEvent (of_operation op (ex_event d (Some c) (AssistantMessage [Text ''done''] Stop None None)))]"

definition fail_actions :: "string \<Rightarrow> char \<Rightarrow> char \<Rightarrow> queue_action list" where
  "fail_actions op c parent =
     [DrainContinues, DrainErrorAppended (of_operation op (ex_event c (Some parent) queued_prompt_failed)), DrainContinues]"

definition requeue_actions :: "queue_action list" where
  "requeue_actions =
     [CallRequeue ''R'' (ex_id CHR ''2'') Back,
      TaskAppended 0 (of_operation ''R'' (ex_event CHR ''4'' (Some CHR ''3'') (QueueRequeued (ex_id CHR ''2'') Back)))]"



theorem queue_never_stuck_witness:
  "ms_queue (perform_all (enqueue_actions ''B'' CHR ''4'' CHR ''3'' @ start_actions ''B'' CHR ''4'' CHR ''5'' CHR ''4'' @
     turn_actions ''B'' CHR ''6'' CHR ''7'' CHR ''5'' @ [DrainTurnEnds True, DrainContinues]) (opened_session ex_prompts)) = []"
proof (rule queue_never_stuck)
  show "EndRebuild \<notin> set (enqueue_actions ''B'' CHR ''4'' CHR ''3'' @ start_actions ''B'' CHR ''4'' CHR ''5'' CHR ''4'' @
     turn_actions ''B'' CHR ''6'' CHR ''7'' CHR ''5'' @ [DrainTurnEnds True, DrainContinues])"
    by (simp add: enqueue_actions_def start_actions_def turn_actions_def)
  show "at_rest (perform_all (enqueue_actions ''B'' CHR ''4'' CHR ''3'' @ start_actions ''B'' CHR ''4'' CHR ''5'' CHR ''4'' @
     turn_actions ''B'' CHR ''6'' CHR ''7'' CHR ''5'' @ [DrainTurnEnds True, DrainContinues]) (opened_session ex_prompts))"
    by code_simp
qed


text \<open>
  A queued prompt fails without being sent when something else takes the session while its start is
  recorded: a direct send, or an interrupt delivery that is reserved while the prompt before it runs.
\<close>

theorem drain_fails_prompt:
  "(let s = perform_all (enqueue_actions ''B'' CHR ''4'' CHR ''3'' @ [CallSend ''C'' [Text ''c'']] @
        start_actions ''B'' CHR ''4'' CHR ''5'' CHR ''4'' @ fail_actions ''B'' CHR ''6'' CHR ''5'') (opened_session ex_prompts) in
    map_option ev_payload (terminal_of (ms_events s) ''B'') = Some queued_prompt_failed \<and> \<not> has_user_message (ms_events s) ''B'') \<and>
   (let s = perform_all (enqueue_actions ''B'' CHR ''4'' CHR ''3'' @ enqueue_actions ''C'' CHR ''5'' CHR ''4'' @
        start_actions ''B'' CHR ''4'' CHR ''6'' CHR ''5'' @ [ReserveInterrupt ''I'' (Some ''B'')] @
        turn_actions ''B'' CHR ''7'' CHR ''8'' CHR ''6'' @ [DrainTurnEnds True, DrainContinues] @
        start_actions ''C'' CHR ''5'' CHR ''9'' CHR ''8'' @ fail_actions ''C'' CHR ''a'' CHR ''9'') (opened_session ex_prompts) in
    map_option ev_payload (terminal_of (ms_events s) ''C'') = Some queued_prompt_failed \<and> \<not> has_user_message (ms_events s) ''C'')"
  by (rule conjI; code_simp)

definition ex_started_twice :: "canonical_event list" where
  "ex_started_twice = ex_prompts @
     [of_operation ''R'' (ex_event CHR ''4'' (Some CHR ''3'') (QueueRequeued (ex_id CHR ''2'') Back)),
      of_operation ''S'' (ex_event CHR ''5'' (Some CHR ''4'') (QueueRequeued (ex_id CHR ''2'') Back)),
      of_operation ''A'' (ex_event CHR ''6'' (Some CHR ''5'') (QueueStarted (ex_id CHR ''2''))),
      of_operation ''A'' (ex_event CHR ''7'' (Some CHR ''6'') (UserMessage [Text ''A''])),
      of_operation ''A'' (ex_event CHR ''8'' (Some CHR ''7'') (AssistantMessage [Text ''done''] Stop None None)),
      of_operation ''A'' (ex_event CHR ''9'' (Some CHR ''8'') (QueueStarted (ex_id CHR ''2'')))]"

definition overlapping_requeues :: "queue_action list" where
  "overlapping_requeues =
     [CallRequeue ''R'' (ex_id CHR ''2'') Back, CallRequeue ''S'' (ex_id CHR ''2'') Back,
      TaskAppended 0 (ex_started_twice ! 3), TaskAppended 1 (ex_started_twice ! 4), TaskContinues 0, TaskContinues 0] @
     start_actions ''A'' CHR ''2'' CHR ''6'' CHR ''5'' @ turn_actions ''A'' CHR ''7'' CHR ''8'' CHR ''6'' @
     [DrainTurnEnds True, DrainContinues] @ start_actions ''A'' CHR ''2'' CHR ''9'' CHR ''8'' @ [DrainContinues]"

lemma overlapping_run:
  "(case perform_all overlapping_requeues (opened_session ex_prompts) of s \<Rightarrow>
     at_rest s \<and> ms_activeTurn s = None \<and> ms_events s = ex_started_twice)"
  by code_simp

lemma started_twice_projected:
  "(case applyEvents ex_started_twice (new_projector None None) of (p, e) \<Rightarrow> e = None \<and> pj_activeOperationId p = Some ''A'')"
  by code_simp

text \<open>
  Two overlapping requeues of one paused prompt are both accepted, although only a paused prompt may
  be requeued. The prompt starts twice; the second start sends nothing, so that the session is at rest
  while every client, reading the log, shows the prompt's operation as active.
\<close>

theorem overlapping_requeues_show_active:
  "(let s = perform_all overlapping_requeues (opened_session ex_prompts) in
    at_rest s \<and> ms_activeTurn s = None \<and>
    (case applyEvents (ms_events s) (new_projector None None) of (p, e) \<Rightarrow> e = None \<and> pj_activeOperationId p = Some ''A''))"
  using overlapping_run started_twice_projected by (simp add: Let_def)

end
