(* ===== verification/Projector_Properties.thy ===== *)
theory Projector_Properties
  imports Projector
begin

text \<open>
  What the conversation projector of \<open>Projector\<close> promises: its tool calls follow the kernel's pairing
  rule, what it has taken it keeps and takes again without change, a refused event stays recorded,
  and streamed text is shown up to a bound.
\<close>

section \<open>Tool calls against the kernel's pairing check\<close>

text \<open>What the kernel's check keeps of a projected tool call.\<close>

definition kernel_call :: "projected_tool_call \<Rightarrow> pending_call" where
  "kernel_call t = \<lparr>call_name = pt_name t, call_answered = pt_result t \<noteq> None\<rparr>"

definition kernel_calls :: "projector \<Rightarrow> (string, pending_call) jsmap" where
  "kernel_calls p = map (\<lambda>(c, t). (c, kernel_call t)) (pj_tools p)"

lemma mget_map: "mget (map (\<lambda>(k, v). (k, f v)) m) k = map_option f (mget m k)"
  by (induction m) auto

lemma mput_map: "mput (map (\<lambda>(k, v). (k, f v)) m) k (f v) = map (\<lambda>(k, v). (k, f v)) (mput m k v)"
  by (induction m) (auto simp: mput_def)

lemma kernel_get: "mget (kernel_calls p) c = map_option kernel_call (mget (pj_tools p) c)"
  by (simp add: kernel_calls_def mget_map)

lemma kernel_put: "kernel_calls (p\<lparr>pj_tools := mput (pj_tools p) c t\<rparr>) = mput (kernel_calls p) c (kernel_call t)"
  by (simp add: kernel_calls_def mput_map)

lemma kernel_cong: "pj_tools q = pj_tools p \<Longrightarrow> kernel_calls q = kernel_calls p"
  by (simp add: kernel_calls_def)

definition tool_conflict :: "projection_error option \<Rightarrow> bool" where
  "tool_conflict e \<longleftrightarrow> (\<exists>m. e = Some m \<and> pe_code m = ''tool_identity_conflict'')"

lemma project_step_sim:
  assumes "project_payload event p = (q, e)"
  shows "(case integrity_step (kernel_calls p) event of
      Inr cs \<Rightarrow> \<not> tool_conflict e \<and> kernel_calls q = cs
    | Inl _ \<Rightarrow> tool_conflict e \<and> kernel_calls q = kernel_calls p)"
proof (cases "ev_payload event")
  case (ToolCall c n i)
  have "mhas (kernel_calls p) c = mhas (pj_tools p) c" by (simp add: mhas_def kernel_get)
  moreover have "\<not> mhas (pj_tools p) c \<Longrightarrow> kernel_calls q = mput (kernel_calls p) c \<lparr>call_name = n, call_answered = False\<rparr>"
    using assms ToolCall by (auto simp: payload_defs kernel_calls_def mput_map [symmetric] kernel_call_def)
  moreover have "mhas (pj_tools p) c \<Longrightarrow> kernel_calls q = kernel_calls p"
    using assms ToolCall by (auto simp: payload_defs intro: kernel_cong)
  ultimately show ?thesis
    using assms ToolCall by (auto simp: integrity_step_def payload_defs tool_conflict_def)
next
  case (ToolResult c n k er d)
  then show ?thesis
    using assms by (auto simp: integrity_step_def payload_defs tool_conflict_def kernel_get kernel_put [simplified]
        kernel_call_def split: option.splits if_splits)
qed (use assms in \<open>auto simp: integrity_step_def payload_defs tool_conflict_def
      intro!: kernel_cong split: option.splits prod.splits if_splits\<close>)

lemma applyEvent_admitted:
  assumes "applyEvent event p = (q, r)" "mget (pj_events p) (ev_id event) = None"
  obtains (rejected) m where "r = Inl m" "pe_code m = ''session_mismatch'' \<or> pe_code m = ''missing_parent''"
      "pj_tools q = pj_tools p" "pj_events q = pj_events p" "pj_records q = pj_records p"
      "pj_sessionId q = (if pj_sessionId p = None then Some (ev_sessionId event) else pj_sessionId p)"
  | (recorded) p' e where "project_payload event p' = (q, e)" "pj_tools p' = pj_tools p"
      "pj_events p' = mput (pj_events p) (ev_id event) (encoded_event event)" "pj_records p' = pj_records p @ [EventRecord event]"
      "pj_sessionId p' = Some (ev_sessionId event)" "pj_sessionId p = None \<or> pj_sessionId p = Some (ev_sessionId event)" "r = (case e of None \<Rightarrow> Inr True | Some m \<Rightarrow> Inl m)"
proof -
  define p0 where "p0 = (if pj_sessionId p = None then p\<lparr>pj_sessionId := Some (ev_sessionId event)\<rparr> else p)"
  have same: "pj_tools p0 = pj_tools p" "pj_events p0 = pj_events p" "pj_records p0 = pj_records p"
    "pj_sessionId p0 \<noteq> None" "pj_sessionId p0 = (if pj_sessionId p = None then Some (ev_sessionId event) else pj_sessionId p)"
    by (simp_all add: p0_def)
  show thesis
  proof (cases "admit (ev_id event) (ev_sessionId event) (ev_parentId event) (encoded_event event) (EventRecord event)
             (''Event '' @ ev_id event @ '' changed in transit'') p0")
    case (Rejected m)
    then have "pe_code m = ''session_mismatch'' \<or> pe_code m = ''missing_parent''"
      using assms(2) same by (auto simp: admit_def split: if_splits)
    moreover have "q = p0" "r = Inl m" using assms(1) Rejected by (simp_all add: applyEvent_def Let_def p0_def [symmetric])
    ultimately show thesis using same by (intro rejected [of m]) simp_all
  next
    case Duplicate
    then show thesis using assms(2) same by (simp add: admit_def split: if_splits)
  next
    case (Admitted p')
    then have "p' = p0\<lparr>pj_events := mput (pj_events p0) (ev_id event) (encoded_event event), pj_records := pj_records p0 @ [EventRecord event]\<rparr>"
      and s: "pj_sessionId p0 = Some (ev_sessionId event)"
      using assms(2) same by (auto simp: admit_def split: if_splits)
    moreover obtain e where "project_payload event p' = (q, e)" "r = (case e of None \<Rightarrow> Inr True | Some m \<Rightarrow> Inl m)"
      using assms(1) Admitted by (auto simp: applyEvent_def Let_def p0_def [symmetric] split: prod.splits option.splits)
    ultimately show thesis using same s by (intro recorded [of p' e]) (simp_all split: if_splits)
  qed
qed

lemma kernel_applyEvent:
  assumes "applyEvent event p = (q, r)" "mget (pj_events p) (ev_id event) = None"
  shows "(case r of
      Inr _ \<Rightarrow> integrity_step (kernel_calls p) event = Inr (kernel_calls q)
    | Inl m \<Rightarrow> pe_code m = ''tool_identity_conflict'' \<longrightarrow> (\<exists>x. integrity_step (kernel_calls p) event = Inl x))"
  using assms
proof (cases rule: applyEvent_admitted)
  case (recorded p' e)
  then show ?thesis using project_step_sim [OF recorded(1)] kernel_cong [OF recorded(2)]
    by (auto simp: tool_conflict_def split: option.splits sum.splits)
qed auto

lemma applyEvent_new_keys:
  assumes "applyEvent event p = (q, Inr b)" "k \<noteq> ev_id event" "mget (pj_events p) (ev_id event) = None"
  shows "mget (pj_events q) k = mget (pj_events p) k"
  using assms(1,3)
proof (cases rule: applyEvent_admitted)
  case (recorded p' e)
  have "pj_events q = pj_events p'" using payload_fields(2) [of event p'] recorded(1) by simp
  then show ?thesis using recorded(3) assms(2) by simp
qed simp_all

lemma kernel_applyEvents:
  assumes "distinct (map ev_id es)" "\<And>e. e \<in> set es \<Longrightarrow> mget (pj_events p) (ev_id e) = None"
  shows "(case snd (applyEvents es p) of
      None \<Rightarrow> foldE integrity_step (kernel_calls p) es = Inr (kernel_calls (fst (applyEvents es p)))
    | Some m \<Rightarrow> pe_code m = ''tool_identity_conflict'' \<longrightarrow> (\<exists>x. foldE integrity_step (kernel_calls p) es = Inl x))"
  using assms
proof (induction es arbitrary: p)
  case (Cons e es)
  obtain q r where a: "applyEvent e p = (q, r)" by (cases "applyEvent e p")
  have new: "mget (pj_events p) (ev_id e) = None" using Cons.prems(2) by simp
  note k = kernel_applyEvent [OF a new]
  show ?case
  proof (cases r)
    case (Inl m)
    then show ?thesis using a k by (auto split: sum.splits)
  next
    case (Inr b)
    have new_q: "mget (pj_events q) (ev_id e') = None" if "e' \<in> set es" for e'
    proof -
      have "ev_id e' \<noteq> ev_id e" using Cons.prems(1) that by (metis distinct.simps(2) image_eqI list.simps(9) set_map)
      then show ?thesis using applyEvent_new_keys [OF a [unfolded Inr] _ new] Cons.prems(2) that by simp
    qed
    have "applyEvents (e # es) p = applyEvents es q" using a Inr by simp
    moreover have "foldE integrity_step (kernel_calls p) (e # es) = foldE integrity_step (kernel_calls q) es"
      using k Inr by simp
    moreover have "distinct (map ev_id es)" using Cons.prems(1) by simp
    ultimately show ?thesis using Cons.IH [of q] new_q by metis
  qed
qed simp

section \<open>What is known stays known\<close>

text \<open>An event is known when its identifier is recorded with its encoding, under its session.\<close>

definition knows :: "projector \<Rightarrow> canonical_event \<Rightarrow> bool" where
  "knows p e \<longleftrightarrow> pj_sessionId p = Some (ev_sessionId e) \<and> mget (pj_events p) (ev_id e) = Some (encoded_event e)"

lemma knows_applyEvent:
  assumes "knows p e" shows "knows (fst (applyEvent e' p)) e"
proof (cases "mget (pj_events p) (ev_id e')")
  case None
  obtain q r where a: "applyEvent e' p = (q, r)" by (cases "applyEvent e' p")
  from a None show ?thesis
  proof (cases rule: applyEvent_admitted)
    case rejected
    then show ?thesis using assms a by (simp add: knows_def)
  next
    case (recorded p' x)
    have "pj_events q = pj_events p'" "pj_sessionId q = pj_sessionId p'"
      using payload_fields(2,3) [of e' p'] recorded(1) by simp_all
    then show ?thesis using assms a recorded(3,5,6) None by (auto simp: knows_def)
  qed
next
  case (Some x)
  then have "fst (applyEvent e' p) = p" using assms
    by (auto simp: applyEvent_def admit_def knows_def Let_def)
  then show ?thesis using assms by simp
qed

lemma knows_after:
  assumes "applyEvent e p = (q, Inr b)" shows "knows q e"
proof (cases "mget (pj_events p) (ev_id e)")
  case None
  from assms None show ?thesis
  proof (cases rule: applyEvent_admitted)
    case (recorded p' x)
    have "pj_events q = pj_events p'" "pj_sessionId q = pj_sessionId p'"
      using payload_fields(2,3) [of e p'] recorded(1) by simp_all
    then show ?thesis using recorded(3,5) by (simp add: knows_def)
  qed simp
next
  case (Some x)
  then show ?thesis using assms
    by (auto simp: applyEvent_def admit_def knows_def Let_def split: if_splits)
qed

lemma applyEvent_known:
  assumes "knows p e" shows "applyEvent e p = (p, Inr False)"
  using assms by (simp add: applyEvent_def admit_def knows_def Let_def)

lemma applyEvent_changed:
  assumes "knows p e" "ev_id e' = ev_id e" "ev_sessionId e' = ev_sessionId e" "encoded_event e' \<noteq> encoded_event e"
  shows "applyEvent e' p = (p, Inl (ProjectionError ''altered_duplicate'' (''Event '' @ ev_id e @ '' changed in transit'')))"
  using assms by (auto simp: applyEvent_def admit_def knows_def Let_def)

lemma knows_applyEvents:
  assumes "knows p e" shows "knows (fst (applyEvents es p)) e"
  using assms
proof (induction es arbitrary: p)
  case (Cons e' es)
  then show ?case using knows_applyEvent [of p e e'] by (auto split: prod.split sum.split)
qed simp

lemma applyEvents_knows:
  assumes "applyEvents es p = (q, None)" "e \<in> set es" shows "knows q e"
  using assms
proof (induction es arbitrary: p)
  case (Cons e' es)
  then obtain p' b where a: "applyEvent e' p = (p', Inr b)" "applyEvents es p' = (q, None)"
    by (auto split: prod.splits sum.splits)
  show ?case
  proof (cases "e = e'")
    case True
    then show ?thesis using knows_applyEvents [OF knows_after [OF a(1)], of es] a(2) by simp
  next
    case False
    then show ?thesis using Cons.IH [OF a(2)] Cons.prems(2) by simp
  qed
qed simp

lemma applyEvents_known: "(\<And>e. e \<in> set es \<Longrightarrow> knows p e) \<Longrightarrow> applyEvents es p = (p, None)"
  by (induction es) (simp_all add: applyEvent_known)

text \<open>A call that keeps the conversation it has.\<close>

definition keeps_history :: "projector_call \<Rightarrow> bool" where
  "keeps_history c \<longleftrightarrow> (case c of CallReset _ _ \<Rightarrow> False | CallReplace _ _ _ \<Rightarrow> False | _ \<Rightarrow> True)"

lemma knows_cong: "\<lbrakk>pj_sessionId q = pj_sessionId p; pj_events q = pj_events p\<rbrakk> \<Longrightarrow> knows q e = knows p e"
  by (simp add: knows_def)

lemma knows_unknown:
  assumes "knows p e" shows "knows (fst (applyUnknownEvent g p)) e"
  using assms by (auto simp: applyUnknownEvent_def admit_def knows_def split: option.splits)

lemma knows_call:
  assumes "knows p e" "keeps_history c" shows "knows (run_call p c) e"
proof (cases c)
  case (CallActivity f)
  then show ?thesis using assms(1) knows_cong [of "run_call p c" p e] by simp
next
  case (CallClearActivity op)
  then show ?thesis using assms(1) knows_cong [of "run_call p c" p e] by simp
next
  case CallResetActivity
  then show ?thesis using assms(1) knows_cong [of "run_call p c" p e] by simp
next
  case (CallMarkUncertain op cmd)
  then show ?thesis using assms(1) by (simp add: markShellUncertain_def knows_def)
qed (use assms in \<open>simp_all add: knows_applyEvent knows_unknown keeps_history_def\<close>)

lemma knows_calls: "\<lbrakk>knows p e; list_all keeps_history cs\<rbrakk> \<Longrightarrow> knows (foldl run_call p cs) e"
  by (induction cs arbitrary: p) (simp_all add: knows_call)

section \<open>Streamed text\<close>

lemma trim_last:
  assumes "mwf (pj_sequences p)" "pj_sequences p = xs @ [(op, n)]"
  shows "mget (pj_sequences (trim_sequences p)) op = Some n \<and> pj_retired (trim_sequences p) \<subseteq> pj_retired p"
  using assms
proof (induction p arbitrary: xs rule: trim_sequences.induct)
  case (1 p)
  obtain oldest m rest where Cons: "pj_sequences p = (oldest, m) # rest"
    using "1.prems"(2) by (metis Nil_is_append_conv list.exhaust not_Cons_self2 surj_pair)
  show ?case
  proof (cases "128 < length (pj_sequences p)")
    case True
    let ?q = "p\<lparr>pj_sequences := mdel (pj_sequences p) oldest, pj_retired := pj_retired p - {oldest}\<rparr>"
    have t: "trim_sequences p = trim_sequences ?q"
      using Cons True by (subst trim_sequences.simps) simp
    obtain ys where xs: "xs = (oldest, m) # ys" using "1.prems"(2) Cons True by (cases xs) auto
    have "oldest \<notin> fst ` set rest" using "1.prems"(1) Cons by (simp add: mwf_def)
    then have "mdel (pj_sequences p) oldest = rest"
      unfolding Cons mdel_def by (simp add: AList.delete_eq) (rule filter_True, force)
    then have "pj_sequences ?q = ys @ [(op, n)]" using "1.prems"(2) Cons xs by simp
    moreover have "mwf (pj_sequences ?q)" using "1.prems"(1) by simp
    ultimately have "mget (pj_sequences (trim_sequences ?q)) op = Some n \<and> pj_retired (trim_sequences ?q) \<subseteq> pj_retired ?q"
      using "1.IH" [OF Cons refl True] by blast
    then show ?thesis unfolding t by auto
  next
    case False
    then have "trim_sequences p = p" using Cons by (subst trim_sequences.simps) simp
    moreover have "mget (pj_sequences p) op = Some n"
      using "1.prems" by (simp add: mget_def mwf_def map_add_def map_of_eq_None_iff [THEN iffD2])
    ultimately show ?thesis by simp
  qed
qed

lemma remember_newest:
  assumes "mwf (pj_sequences p)"
  shows "mget (pj_sequences (rememberActivitySequence op n p)) op = Some n"
    "pj_retired (rememberActivitySequence op n p) \<subseteq> pj_retired p"
proof -
  let ?p = "p\<lparr>pj_sequences := mput (mdel (pj_sequences p) op) op n\<rparr>"
  have "mwf (pj_sequences ?p)" using assms by simp
  moreover have "pj_sequences ?p = mdel (pj_sequences p) op @ [(op, n)]" by (simp add: mput_fresh)
  ultimately have "mget (pj_sequences (trim_sequences ?p)) op = Some n \<and> pj_retired (trim_sequences ?p) \<subseteq> pj_retired ?p"
    by (rule trim_last)
  then show "mget (pj_sequences (rememberActivitySequence op n p)) op = Some n"
    "pj_retired (rememberActivitySequence op n p) \<subseteq> pj_retired p"
    by (simp_all add: rememberActivitySequence_def)
qed

definition live :: "string \<Rightarrow> int \<Rightarrow> projected_activity \<Rightarrow> projector \<Rightarrow> bool" where
  "live op n a p \<longleftrightarrow> activity_ok p \<and> pj_latestActivity p = Some op \<and> mget (pj_sequences p) op = Some n \<and>
     op \<notin> pj_retired p \<and> pj_activity p = Some a \<and> act_operationId a = op \<and>
     act_sequence a = n"

lemma latest_remember: "activity_ok p \<Longrightarrow> pj_latestActivity (rememberActivitySequence op n p) = pj_latestActivity p"
  using remember_ok [of p op n] by (auto simp: activity_ok_def)

lemma accept_live:
  assumes p: "activity_ok p" and frame: "fr_operationId frame = op" "fr_sequence frame = n" and r: "op \<notin> pj_retired p"
    and a: "next_activity frame
       (case pj_activity p of Some b \<Rightarrow> if act_operationId b = op then b
           else \<lparr>act_operationId = op, act_sequence = n - 1, act_text = [], act_thinking = [], act_toolCalls = []\<rparr>
        | None \<Rightarrow> \<lparr>act_operationId = op, act_sequence = n - 1, act_text = [], act_thinking = [], act_toolCalls = []\<rparr>) = Some a"
    and op: "act_operationId a = op" "act_sequence a = n"
  shows "live op n a (accept_activity frame p)"
proof -
  define p1 where "p1 = (case pj_latestActivity p of
      Some latest \<Rightarrow> if latest \<noteq> op then retireActivity latest p else p | None \<Rightarrow> p)"
  have p1: "activity_ok p1" "pj_activity p1 = pj_activity p"
    using p retire_ok by (auto simp: p1_def split: option.splits)
  have "op \<notin> pj_retired (retireActivity latest p)" if "latest \<noteq> op" for latest
    using remember_newest(2) [of "p\<lparr>pj_retired := insert latest (pj_retired p)\<rparr>" latest] p r that
    by (auto simp: retireActivity_def activity_ok_def)
  then have r1: "op \<notin> pj_retired p1" using r by (auto simp: p1_def split: option.splits)
  define p2 where "p2 = p1\<lparr>pj_latestActivity := Some op\<rparr>"
  have p2: "activity_ok p2" "pj_activity p2 = pj_activity p" "pj_latestActivity p2 = Some op" "op \<notin> pj_retired p2"
    using p1 r1 by (simp_all add: p2_def)
  have eq: "accept_activity frame p = (rememberActivitySequence op n p2)\<lparr>pj_activity := Some a\<rparr>"
    unfolding accept_activity_def Let_def frame p1_def [symmetric] p2_def [symmetric] p2(2) a ..
  have "mwf (pj_sequences p2)" using p2(1) by (simp add: activity_ok_def)
  note m = remember_newest [OF this, of op n]
  show ?thesis unfolding live_def
    using accept_ok [OF p, of frame] m p2(3,4) latest_remember [OF p2(1)] op by (auto simp: eq)
qed

lemma live_text:
  assumes "live op n a p"
  shows "\<exists>q. applyActivity (TextFrame op (n + 1) t) p = (q, Inr True) \<and>
    live op (n + 1) (a\<lparr>act_sequence := n + 1, act_text := boundedActivityText (act_text a) t\<rparr>) q"
  using assms accept_live [of p "TextFrame op (n + 1) t" op "n + 1"]
  by (auto simp: live_def applyActivity_def Let_def next_activity_def)

lemma first_text:
  assumes "activity_ok p" "op \<notin> pj_retired p" "mget (pj_sequences p) op = None" "\<not> activity_of op p" "n = 0 \<or> n = 1"
  shows "\<exists>q. applyActivity (TextFrame op n t) p = (q, Inr True) \<and>
    live op n \<lparr>act_operationId = op, act_sequence = n, act_text = boundedActivityText [] t, act_thinking = [], act_toolCalls = []\<rparr> q"
  using assms accept_live [of p "TextFrame op n t" op n
      "\<lparr>act_operationId = op, act_sequence = n, act_text = boundedActivityText [] t, act_thinking = [], act_toolCalls = []\<rparr>"]
  by (auto simp: applyActivity_def Let_def next_activity_def activity_of_def split: option.splits)

text \<open>The text shown is the whole of what was streamed, or an end of it that is long enough.\<close>

definition shows_tail :: "string \<Rightarrow> string \<Rightarrow> bool" where
  "shows_tail shown streamed \<longleftrightarrow> (\<exists>k. shown = drop k streamed \<and>
     (k = 0 \<or> MAX_PROJECTED_ACTIVITY_CHARACTERS \<le> length shown) \<and> (length streamed \<le> activity_bound \<longrightarrow> k = 0))"

lemma shows_tail_step:
  assumes "shows_tail shown streamed" shows "shows_tail (boundedActivityText shown t) (streamed @ t)"
proof -
  obtain k where k: "shown = drop k streamed" "k = 0 \<or> MAX_PROJECTED_ACTIVITY_CHARACTERS \<le> length shown"
    "length streamed \<le> activity_bound \<longrightarrow> k = 0" using assms by (auto simp: shows_tail_def)
  have le: "k \<le> length streamed" using k by (auto simp: MAX_PROJECTED_ACTIVITY_CHARACTERS_def)
  then have c: "shown @ t = drop k (streamed @ t)" using k(1) by simp
  show ?thesis
  proof (cases "length (shown @ t) \<le> activity_bound")
    case True
    then have "boundedActivityText shown t = drop k (streamed @ t)"
      using c by (simp add: boundedActivityText_def activity_bound_def Let_def)
    then show ?thesis using k c by (auto simp: shows_tail_def intro!: exI [of _ k])
  next
    case False
    let ?j = "length (shown @ t) - MAX_PROJECTED_ACTIVITY_CHARACTERS"
    have "boundedActivityText shown t = drop ?j (drop k (streamed @ t))"
      using False by (simp add: boundedActivityText_def activity_bound_def Let_def c del: drop_append)
    then have "boundedActivityText shown t = drop (?j + k) (streamed @ t)" by (simp only: drop_drop)
    moreover have "length (boundedActivityText shown t) = MAX_PROJECTED_ACTIVITY_CHARACTERS"
      using False by (simp add: boundedActivityText_def activity_bound_def Let_def del: drop_append)
    moreover have "\<not> length (streamed @ t) \<le> activity_bound" using False k(1) by simp
    ultimately show ?thesis unfolding shows_tail_def by (metis order_refl)
  qed
qed

fun text_frames :: "string \<Rightarrow> int \<Rightarrow> string list \<Rightarrow> session_activity_frame list" where
  "text_frames op n [] = []"
| "text_frames op n (t # ts) = TextFrame op n t # text_frames op (n + 1) ts"

fun deliver :: "session_activity_frame list \<Rightarrow> projector \<Rightarrow> projector \<times> bool" where
  "deliver [] p = (p, True)"
| "deliver (f # fs) p =
     (case applyActivity f p of (q, r) \<Rightarrow> (case deliver fs q of (s, b) \<Rightarrow> (s, r = Inr True \<and> b)))"

lemma live_texts:
  assumes "live op n a p" "shows_tail (act_text a) s"
  shows "\<exists>q b. deliver (text_frames op (n + 1) ts) p = (q, True) \<and> live op (n + int (length ts)) b q \<and>
    shows_tail (act_text b) (s @ concat ts)"
  using assms
proof (induction ts arbitrary: n a p s)
  case (Cons t ts)
  obtain p' where p': "applyActivity (TextFrame op (n + 1) t) p = (p', Inr True)"
    "live op (n + 1) (a\<lparr>act_sequence := n + 1, act_text := boundedActivityText (act_text a) t\<rparr>) p'"
    using live_text [OF Cons.prems(1)] by blast
  have "shows_tail (act_text (a\<lparr>act_sequence := n + 1, act_text := boundedActivityText (act_text a) t\<rparr>)) (s @ t)"
    using shows_tail_step [OF Cons.prems(2)] by simp
  from Cons.IH [OF p'(2) this] show ?case using p'(1) by (auto simp: algebra_simps)
qed auto

section \<open>Properties\<close>

interpretation projector_calls: reducer "\<lambda>p c. Inr (run_call p c) :: projection_error + projector" projector_ok
  by unfold_locales (auto simp: run_call_ok)

lemma calls_fold: "foldE (\<lambda>p c. Inr (run_call p c) :: projection_error + projector) p calls = Inr (foldl run_call p calls)"
  by (induction calls arbitrary: p) simp_all

text \<open>
  C12: whatever calls are made on a projector, in whatever order and whether they throw or not,
  its records are the recorded events in order, under distinct identifiers, each after its parent;
  the active operation is one whose status is running or waiting; and the activity it holds is
  bounded: at most 128 remembered operations, retired ones among them, and texts of at most 147456
  characters.
\<close>

theorem projector_coherent: "projector_ok (foldl run_call (new_projector s n) calls)"
  using projector_calls.run_inv [OF new_projector_ok calls_fold] by blast

text \<open>
  C14: events that a projector has taken can be delivered again, in any order and number and after any
  other calls that keep the conversation, and change nothing; an event that comes back changed under
  its identifier is refused as an altered duplicate, and changes nothing either.
\<close>

theorem redelivery_harmless:
  assumes "applyEvents es p = (q, None)" and "list_all keeps_history calls"
  shows "(set es' \<subseteq> set es \<longrightarrow> applyEvents es' (foldl run_call q calls) = (foldl run_call q calls, None)) \<and>
    (e \<in> set es \<longrightarrow> ev_id e' = ev_id e \<longrightarrow> ev_sessionId e' = ev_sessionId e \<longrightarrow> encoded_event e' \<noteq> encoded_event e \<longrightarrow>
      applyEvent e' (foldl run_call q calls) = (foldl run_call q calls,
        Inl (ProjectionError ''altered_duplicate'' (''Event '' @ ev_id e @ '' changed in transit''))))"
  using knows_calls [OF applyEvents_knows [OF assms(1)] assms(2)] applyEvents_known applyEvent_changed by blast

theorem redelivery_harmless_witness:
  "applyEvents [ex_log ! 2, ex_log ! 0]
      (foldl run_call (fst (applyEvents ex_log (new_projector None None))) [CallActivity (TextFrame ''op'' 0 ''hi''), CallResetActivity]) =
    (foldl run_call (fst (applyEvents ex_log (new_projector None None))) [CallActivity (TextFrame ''op'' 0 ''hi''), CallResetActivity], None)"
proof -
  have a: "snd (applyEvents ex_log (new_projector None None)) = None" by code_simp
  have k: "list_all keeps_history [CallActivity (TextFrame ''op'' 0 ''hi''), CallResetActivity]" by code_simp
  have "set [ex_log ! 2, ex_log ! 0] \<subseteq> set ex_log" by (simp add: ex_log_def)
  then show ?thesis using redelivery_harmless [OF _ k, of ex_log "new_projector None None" _ "[ex_log ! 2, ex_log ! 0]"] a
    by (metis prod.collapse)
qed

text \<open>
  C13: the projector and the kernel agree on tool calls. A lineage of distinct events that a new
  projector takes in full satisfies the pairing rule of the kernel's replay, and the calls the
  projector holds, read as the kernel reads them, are the kernel's; and a lineage the projector
  refuses with a tool identity conflict breaks that rule.
\<close>

theorem projector_pairs_as_kernel:
  assumes "distinct (map ev_id es)"
  shows "(case snd (applyEvents es (new_projector s n)) of
      None \<Rightarrow> pairing_ok es \<and> kernel_calls (fst (applyEvents es (new_projector s n))) = calls_of es
    | Some m \<Rightarrow> pe_code m = ''tool_identity_conflict'' \<longrightarrow> \<not> pairing_ok es)"
proof -
  have "mget (pj_events (new_projector s n)) k = None" "kernel_calls (new_projector s n) = []" for k
    by (simp_all add: new_projector_def kernel_calls_def)
  then show ?thesis using kernel_applyEvents [OF assms, of "new_projector s n"] integrity_fold [of es "calls_of es"]
      integrity_fold [of es "kernel_calls (fst (applyEvents es (new_projector s n)))"]
    by (auto split: option.splits)
qed

theorem projector_pairs_as_kernel_witness:
  "pairing_ok ex_log \<and> kernel_calls (fst (applyEvents ex_log (new_projector None None))) = calls_of ex_log"
proof -
  have "distinct (map ev_id ex_log)" by code_simp
  moreover have "snd (applyEvents ex_log (new_projector None None)) = None" by code_simp
  ultimately show ?thesis using projector_pairs_as_kernel [of ex_log None None] by simp
qed

text \<open>
  An event whose projection throws has already been recorded. When \<^verbatim>\<open>applyEvent\<close> refuses an event
  for a tool, queue, interaction or interrupt conflict, the event is the newest record of the
  projector, and giving it the same event again answers that it is already there, without an error.
\<close>

theorem refused_event_stays_recorded:
  assumes "applyEvent e p = (q, Inl m)"
    and "pe_code m \<notin> {''session_mismatch'', ''missing_parent'', ''altered_duplicate''}"
  shows "pj_records q = pj_records p @ [EventRecord e] \<and> applyEvent e q = (q, Inr False)"
proof (cases "mget (pj_events p) (ev_id e)")
  case None
  from assms(1) None show ?thesis
  proof (cases rule: applyEvent_admitted)
    case (recorded p' x)
    have "pj_events q = pj_events p'" "pj_sessionId q = pj_sessionId p'" "pj_records q = pj_records p'"
      using payload_fields [of e p'] recorded(1) by simp_all
    then show ?thesis using recorded(3,4,5) applyEvent_known [of q e] by (simp add: knows_def)
  qed (use assms(2) in auto)
next
  case (Some x)
  then show ?thesis using assms
    by (auto simp: applyEvent_def admit_def Let_def split: if_splits)
qed

theorem refused_event_stays_recorded_witness:
  "snd (applyEvent (ex_event CHR ''1'' None (ToolResult ''c1'' ''read'' [] False None)) (new_projector None None)) \<noteq> Inr True \<and>
   snd (applyEvent (ex_event CHR ''1'' None (ToolResult ''c1'' ''read'' [] False None))
     (fst (applyEvent (ex_event CHR ''1'' None (ToolResult ''c1'' ''read'' [] False None)) (new_projector None None)))) = Inr False"
proof -
  let ?e = "ex_event CHR ''1'' None (ToolResult ''c1'' ''read'' [] False None)"
  have r: "snd (applyEvent ?e (new_projector None None)) =
      Inl (ProjectionError ''tool_identity_conflict'' ''Tool result c1 has no matching call'')" by code_simp
  then have "applyEvent ?e (new_projector None None) = (fst (applyEvent ?e (new_projector None None)),
      Inl (ProjectionError ''tool_identity_conflict'' ''Tool result c1 has no matching call''))"
    by (metis prod.collapse)
  from refused_event_stays_recorded [OF this] r show ?thesis by simp
qed

text \<open>
  Text deltas that arrive in sequence for an operation that is new to the projector are all
  taken, and the text shown is what was streamed: the whole of it while it has at most 147456
  characters, otherwise an end of it of at least 131072.
\<close>

theorem streamed_text_is_shown:
  assumes "projector_ok p" and "op \<notin> pj_retired p" and "mget (pj_sequences p) op = None" and "\<not> activity_of op p"
    and "n = 0 \<or> n = 1" and "ts \<noteq> []"
  shows "\<exists>q a. deliver (text_frames op n ts) p = (q, True) \<and> pj_activity q = Some a \<and> act_operationId a = op \<and>
    act_sequence a = n + int (length ts) - 1 \<and> shows_tail (act_text a) (concat ts)"
proof -
  obtain t us where ts: "ts = t # us" using assms(6) by (cases ts) simp_all
  have "activity_ok p" using assms(1) by (simp add: projector_ok_def)
  from first_text [OF this assms(2-5)] obtain p' a where f: "applyActivity (TextFrame op n t) p = (p', Inr True)"
    "live op n a p'" "act_text a = boundedActivityText [] t" "act_sequence a = n" by fastforce
  have "shows_tail [] []" by (simp add: shows_tail_def)
  from shows_tail_step [OF this, of t] have "shows_tail (act_text a) t" by (simp add: f(3))
  with live_texts [OF f(2)] obtain q b where "deliver (text_frames op (n + 1) us) p' = (q, True)"
    "live op (n + int (length us)) b q" "shows_tail (act_text b) (t @ concat us)" by blast
  then show ?thesis using f(1) by (auto simp: ts live_def)
qed


theorem streamed_text_is_shown_witness:
  "\<exists>q a. deliver (text_frames ''op'' 1 [''ab'', ''cd'']) (new_projector None None) = (q, True) \<and> pj_activity q = Some a \<and>
    act_operationId a = ''op'' \<and> act_sequence a = 2 \<and> shows_tail (act_text a) ''abcd''"
proof -
  have "''op'' \<notin> pj_retired (new_projector None None)" "mget (pj_sequences (new_projector None None)) ''op'' = None"
    "\<not> activity_of ''op'' (new_projector None None)" by (simp_all add: new_projector_def activity_of_def)
  from streamed_text_is_shown [OF new_projector_ok this, of 1 "[''ab'', ''cd'']"] show ?thesis by simp
qed

end
