(* ===== verification/Delivery.thy ===== *)
theory Delivery
  imports Projector
begin

text \<open>
  How the daemon delivers a session to its clients (\<^verbatim>\<open>packages/daemon/src/daemon.ts\<close>, from
  \<^verbatim>\<open>subscribe\<close> to \<^verbatim>\<open>activateReadySubscriptions\<close>): a subscription starts with a frozen snapshot that the
  client reads page by page, or resumes behind a cursor that it acknowledged; events logged meanwhile are
  buffered and follow, numbered, each with a cursor of its own.

  All this code is synchronous, so every operation is one function on the state. The maps of
  subscriptions of all connections are one map here, whose entries name their connection. The session
  manager's part is the log of each session and the set of listeners, which is the flag \<open>o_listening\<close>.
  Fresh identifiers are numbered and named by \<open>cfg_uuid\<close>; the time is an argument.
\<close>

section \<open>State\<close>

definition MAX_SNAPSHOT_PAGE_BYTES :: nat where "MAX_SNAPSHOT_PAGE_BYTES = MAX_CANONICAL_EVENT_BYTES"
definition MAX_SNAPSHOT_PAGE_EVENTS :: nat where "MAX_SNAPSHOT_PAGE_EVENTS = 5000"
definition MAX_SNAPSHOT_TAIL_BYTES :: nat where "MAX_SNAPSHOT_TAIL_BYTES = 4 * 1024 * 1024"
definition MAX_SNAPSHOT_TAIL_EVENTS :: nat where "MAX_SNAPSHOT_TAIL_EVENTS = 1024"
definition MAX_EVENT_CURSORS :: nat where "MAX_EVENT_CURSORS = 16384"

datatype delivery_error =
    DeliveryError (dlv_code: string) (dlv_message: string)
  | DeliveryTree tree_error

record cursor_record =
  cr_subscriptionId :: string
  cr_sessionId :: string
  cr_fromNodeId :: "string option"
  cr_position :: int
  cr_expiresAt :: int
  cr_acknowledged :: bool

record snapshot_page =
  pg_events :: "canonical_event list"
  pg_nextPageCursor :: "string option"
  pg_complete :: bool

record owned_subscription =
  o_id :: string
  o_connection :: nat
  o_sessionId :: string
  o_fromNodeId :: "string option"
  o_boundaryCursor :: "string option"
  o_snapshotId :: "string option"
  o_snapshotEvents :: "canonical_event list"
  o_pageCursors :: "(string, nat) jsmap"
  o_pageResults :: "(string, snapshot_page) jsmap"
  o_bufferedEvents :: "(canonical_event \<times> int) list"
  o_bufferedActivity :: "session_activity_frame list"
  o_listening :: bool
  o_nextPosition :: int
  o_sequence :: int
  o_bufferedEventBytes :: nat
  o_acknowledgedPosition :: int
  o_acknowledgedCursor :: "string option"
  o_active :: bool
  o_finalPageServed :: bool
  o_activateAfterResponse :: bool
  o_invalidated :: bool
  o_createdAt :: int
  o_lastAccessAt :: int

record wire_event =
  we_subscriptionId :: string
  we_sessionId :: string
  we_sequence :: int
  we_cursor :: string
  we_event :: canonical_event

datatype delivered = SentEvent nat wire_event | SentActivity nat string session_activity_frame

record delivery =
  dl_logs :: "(string, canonical_event list) jsmap"
  dl_cursors :: "(string, cursor_record) jsmap"
  dl_subscriptions :: "(string, owned_subscription) jsmap"
  dl_fresh :: nat
  dl_sent :: "delivered list"

record delivery_config =
  cfg_uuid :: "nat \<Rightarrow> string"
  cfg_cursorLifetimeMs :: int
  cfg_snapshotIdleLifetimeMs :: int
  cfg_snapshotAbsoluteLifetimeMs :: int

record snapshot_descriptor =
  snap_snapshotId :: string
  snap_sessionId :: string
  snap_fromNodeId :: "string option"
  snap_boundaryCursor :: string
  snap_eventCount :: nat
  snap_page :: snapshot_page

record subscribe_result =
  res_subscriptionId :: string
  res_sessionId :: string
  res_fromNodeId :: "string option"
  res_snapshot :: "snapshot_descriptor option"
  res_resumedFrom :: "string option"

definition new_delivery :: delivery where
  "new_delivery = \<lparr>dl_logs = [], dl_cursors = [], dl_subscriptions = [], dl_fresh = 0, dl_sent = []\<rparr>"

definition put_owned :: "owned_subscription \<Rightarrow> delivery \<Rightarrow> delivery" where
  "put_owned u s = s\<lparr>dl_subscriptions := mput (dl_subscriptions s) (o_id u) u\<rparr>"

definition fresh_id :: "delivery_config \<Rightarrow> delivery \<Rightarrow> string \<times> delivery" where
  "fresh_id cfg s = (cfg_uuid cfg (dl_fresh s), s\<lparr>dl_fresh := dl_fresh s + 1\<rparr>)"

text \<open>\<^verbatim>\<open>state.subscriptions.get(id)\<close> of one connection.\<close>

definition owned_of :: "delivery \<Rightarrow> nat \<Rightarrow> string \<Rightarrow> owned_subscription option" where
  "owned_of s connection i =
     (case mget (dl_subscriptions s) i of
        None \<Rightarrow> None
      | Some u \<Rightarrow> if o_connection u = connection then Some u else None)"

section \<open>Cursors\<close>

definition pruneCursors :: "int \<Rightarrow> delivery \<Rightarrow> delivery" where
  "pruneCursors now s = s\<lparr>dl_cursors := filter (\<lambda>(c, r). \<not> cr_expiresAt r \<le> now) (dl_cursors s)\<rparr>"

lemma length_mdel_hd: "m \<noteq> [] \<Longrightarrow> length (mdel m (fst (hd m))) < length m"
  by (cases m) (auto simp: mdel_def AList.delete_eq le_imp_less_Suc)

function evict_cursors :: "(string, cursor_record) jsmap \<Rightarrow> (string, cursor_record) jsmap" where
  "evict_cursors m =
     (if length m \<ge> MAX_EVENT_CURSORS \<and> m \<noteq> [] then evict_cursors (mdel m (fst (hd m))) else m)"
  by pat_completeness auto
termination
  by (relation "measure length") (auto simp: length_mdel_hd)

declare evict_cursors.simps [simp del]

definition createCursor ::
  "delivery_config \<Rightarrow> int \<Rightarrow> string \<Rightarrow> string \<Rightarrow> string option \<Rightarrow> int \<Rightarrow> delivery \<Rightarrow> string \<times> delivery" where
  "createCursor cfg now subscriptionId sessionId fromNodeId position s =
     (let s1 = pruneCursors now s;
          s2 = s1\<lparr>dl_cursors := evict_cursors (dl_cursors s1)\<rparr>;
          (cursor, s3) = fresh_id cfg s2
      in (cursor, s3\<lparr>dl_cursors := mput (dl_cursors s3) cursor
            \<lparr>cr_subscriptionId = subscriptionId, cr_sessionId = sessionId, cr_fromNodeId = fromNodeId,
             cr_position = position, cr_expiresAt = now + cfg_cursorLifetimeMs cfg, cr_acknowledged = False\<rparr>\<rparr>))"

definition releaseSubscriptionCursors :: "int \<Rightarrow> owned_subscription \<Rightarrow> bool \<Rightarrow> delivery \<Rightarrow> delivery" where
  "releaseSubscriptionCursors now u preserveAcknowledged s =
     (let s1 = pruneCursors now s
      in s1\<lparr>dl_cursors := filter (\<lambda>(cursor, r). \<not> (cr_subscriptionId r = o_id u \<and>
            (\<not> preserveAcknowledged \<or> Some cursor \<noteq> o_acknowledgedCursor u))) (dl_cursors s1)\<rparr>)"

section \<open>Snapshots\<close>

text \<open>The update of the subscription object; the state afterwards has its cursors released.\<close>

definition invalidateSnapshot :: "int \<Rightarrow> owned_subscription \<Rightarrow> delivery \<Rightarrow> owned_subscription \<times> delivery" where
  "invalidateSnapshot now u s =
     (let o1 = u\<lparr>o_invalidated := True\<rparr>
      in (o1\<lparr>o_bufferedEvents := [], o_bufferedActivity := [], o_bufferedEventBytes := 0, o_listening := False\<rparr>,
          releaseSubscriptionCursors now o1 False s))"

definition snapshot_expired :: "delivery_config \<Rightarrow> int \<Rightarrow> owned_subscription \<Rightarrow> bool" where
  "snapshot_expired cfg now u \<longleftrightarrow>
     \<not> o_active u \<and> (now - o_lastAccessAt u > cfg_snapshotIdleLifetimeMs cfg \<or>
       now - o_createdAt u > cfg_snapshotAbsoluteLifetimeMs cfg)"

definition assertSnapshotAvailable ::
  "delivery_config \<Rightarrow> int \<Rightarrow> owned_subscription \<Rightarrow> delivery \<Rightarrow> delivery \<times> (delivery_error + unit)" where
  "assertSnapshotAvailable cfg now u s =
     (if o_invalidated u \<or> snapshot_expired cfg now u then
        (let (o1, s1) = invalidateSnapshot now u s
         in (put_owned o1 s1, Inl (DeliveryError ''snapshot_required'' ''The snapshot is no longer available'')))
      else (s, Inr ()))"

definition event_size :: "canonical_event \<Rightarrow> nat" where
  "event_size event = utf8_length (json_text (event_json event))"

text \<open>The loop of \<^verbatim>\<open>buildSnapshotPage\<close>: the events of one page, from those that are left.\<close>

fun page_loop ::
  "canonical_event list \<Rightarrow> nat \<Rightarrow> canonical_event list \<Rightarrow> delivery_error + canonical_event list" where
  "page_loop events bytes [] = Inr events"
| "page_loop events bytes (event # rest) =
     (if length events \<ge> MAX_SNAPSHOT_PAGE_EVENTS then Inr events
      else if event_size event > MAX_SNAPSHOT_PAGE_BYTES then
        Inl (DeliveryError ''event_migration_required'' (''Event '' @ ev_id event @ '' exceeds the canonical event limit''))
      else if events \<noteq> [] \<and> bytes + event_size event > MAX_SNAPSHOT_PAGE_BYTES then Inr events
      else page_loop (events @ [event]) (bytes + event_size event) rest)"

definition buildSnapshotPage ::
  "delivery_config \<Rightarrow> owned_subscription \<Rightarrow> nat \<Rightarrow> delivery \<Rightarrow>
     delivery_error + (owned_subscription \<times> delivery \<times> snapshot_page)" where
  "buildSnapshotPage cfg u start s =
     bindE (page_loop [] 0 (drop start (o_snapshotEvents u))) (\<lambda>events.
       let offset = start + length events in
       if offset \<ge> length (o_snapshotEvents u)
       then Inr (u, s, \<lparr>pg_events = events, pg_nextPageCursor = None, pg_complete = True\<rparr>)
       else
         let (nextPageCursor, s1) = fresh_id cfg s
         in Inr (u\<lparr>o_pageCursors := mput (o_pageCursors u) nextPageCursor offset\<rparr>, s1,
              \<lparr>pg_events = events, pg_nextPageCursor = Some nextPageCursor, pg_complete = False\<rparr>))"

definition snapshotPage ::
  "delivery_config \<Rightarrow> int \<Rightarrow> nat \<Rightarrow> string \<Rightarrow> string \<Rightarrow> delivery \<Rightarrow> delivery \<times> (delivery_error + string \<times> snapshot_page)" where
  "snapshotPage cfg now connection snapshotId pageCursor s =
     (case find (\<lambda>u. o_connection u = connection \<and> o_snapshotId u = Some snapshotId) (mvals (dl_subscriptions s)) of
        None \<Rightarrow> (s, Inl (DeliveryError ''snapshot_required'' ''The snapshot is unknown or no longer available''))
      | Some u \<Rightarrow>
          (case mget (o_pageResults u) pageCursor of
             Some page \<Rightarrow> (s, Inr (snapshotId, page))
           | None \<Rightarrow>
               (case assertSnapshotAvailable cfg now u s of
                  (s1, Inl e) \<Rightarrow> (s1, Inl e)
                | (s1, Inr _) \<Rightarrow>
                    (let o1 = u\<lparr>o_lastAccessAt := now\<rparr>; s2 = put_owned o1 s1
                     in case mget (o_pageCursors o1) pageCursor of
                          None \<Rightarrow> (s2, Inl (DeliveryError ''unknown_cursor'' ''The page cursor does not belong to this snapshot''))
                        | Some offset \<Rightarrow>
                            (case buildSnapshotPage cfg o1 offset s2 of
                               Inl e \<Rightarrow> (s2, Inl e)
                             | Inr (o2, s3, page) \<Rightarrow>
                                 (let o3 = o2\<lparr>o_pageResults := mput (o_pageResults o2) pageCursor page\<rparr>;
                                      o4 = (if pg_complete page then o3\<lparr>o_finalPageServed := True\<rparr> else o3)
                                  in (put_owned o4 s3, Inr (snapshotId, page))))))))"

section \<open>Delivery\<close>

definition deliverEvent ::
  "delivery_config \<Rightarrow> int \<Rightarrow> canonical_event \<Rightarrow> int \<Rightarrow> owned_subscription \<times> delivery \<Rightarrow> owned_subscription \<times> delivery" where
  "deliverEvent cfg now event position = (\<lambda>(u, s).
     let o1 = u\<lparr>o_sequence := o_sequence u + 1\<rparr>;
         (cursor, s1) = createCursor cfg now (o_id o1) (o_sessionId o1) (o_fromNodeId o1) position s
     in (o1, s1\<lparr>dl_sent := dl_sent s1 @ [SentEvent (o_connection o1)
          \<lparr>we_subscriptionId = o_id o1, we_sessionId = o_sessionId o1, we_sequence = o_sequence o1,
           we_cursor = cursor, we_event = event\<rparr>]\<rparr>))"

definition bufferSnapshotEvent ::
  "int \<Rightarrow> canonical_event \<Rightarrow> int \<Rightarrow> owned_subscription \<times> delivery \<Rightarrow> owned_subscription \<times> delivery" where
  "bufferSnapshotEvent now event position = (\<lambda>(u, s).
     if o_invalidated u then (u, s)
     else if length (o_bufferedEvents u) \<ge> MAX_SNAPSHOT_TAIL_EVENTS \<or>
         o_bufferedEventBytes u + event_size event > MAX_SNAPSHOT_TAIL_BYTES
     then invalidateSnapshot now u s
     else (u\<lparr>o_bufferedEvents := o_bufferedEvents u @ [(event, position)],
              o_bufferedEventBytes := o_bufferedEventBytes u + event_size event\<rparr>, s))"

definition call_json :: "string \<times> string \<Rightarrow> json" where
  "call_json c = JObj [(''callId'', JStr (fst c)), (''name'', JStr (snd c))]"

fun frame_fields :: "session_activity_frame \<Rightarrow> json_object" where
  "frame_fields (TextFrame op n t) = [(''type'', JStr ''text_delta''), (''text'', JStr t)]"
| "frame_fields (ThinkingFrame op n t) = [(''type'', JStr ''thinking_delta''), (''text'', JStr t)]"
| "frame_fields (ToolCallFrame op n c) = [(''type'', JStr ''tool_call''), (''call'', call_json c)]"
| "frame_fields (SnapshotFrame op n t th cs) =
     [(''type'', JStr ''snapshot''), (''text'', JStr t), (''thinking'', JStr th), (''toolCalls'', JArr (map call_json cs))]"
| "frame_fields (ClearFrame op n) = [(''type'', JStr ''clear'')]"

definition frame_size :: "session_activity_frame \<Rightarrow> nat" where
  "frame_size frame = utf8_length (json_text (JObj
     ([(''operationId'', JStr (fr_operationId frame)), (''sequence'', jint (fr_sequence frame))] @ frame_fields frame)))"

definition bufferSnapshotActivity ::
  "int \<Rightarrow> session_activity_frame \<Rightarrow> owned_subscription \<times> delivery \<Rightarrow> owned_subscription \<times> delivery" where
  "bufferSnapshotActivity now frame = (\<lambda>(u, s).
     if o_invalidated u then (u, s)
     else if length (o_bufferedActivity u) \<ge> MAX_SNAPSHOT_TAIL_EVENTS \<or>
         o_bufferedEventBytes u + frame_size frame > MAX_SNAPSHOT_TAIL_BYTES
     then invalidateSnapshot now u s
     else (u\<lparr>o_bufferedActivity := o_bufferedActivity u @ [frame],
              o_bufferedEventBytes := o_bufferedEventBytes u + frame_size frame\<rparr>, s))"

text \<open>The listeners that \<^verbatim>\<open>subscribe\<close> registers.\<close>

definition on_event ::
  "delivery_config \<Rightarrow> int \<Rightarrow> canonical_event \<Rightarrow> owned_subscription \<times> delivery \<Rightarrow> owned_subscription \<times> delivery" where
  "on_event cfg now event = (\<lambda>(u, s).
     let position = o_nextPosition u; o1 = u\<lparr>o_nextPosition := o_nextPosition u + 1\<rparr>
     in if o_active o1 then deliverEvent cfg now event position (o1, s)
        else bufferSnapshotEvent now event position (o1, s))"

definition send_activity :: "session_activity_frame \<Rightarrow> owned_subscription \<times> delivery \<Rightarrow> owned_subscription \<times> delivery" where
  "send_activity frame = (\<lambda>(u, s).
     (u, s\<lparr>dl_sent := dl_sent s @ [SentActivity (o_connection u) (o_id u) frame]\<rparr>))"

definition on_activity ::
  "int \<Rightarrow> session_activity_frame \<Rightarrow> owned_subscription \<times> delivery \<Rightarrow> owned_subscription \<times> delivery" where
  "on_activity now frame = (\<lambda>(u, s).
     if o_active u then send_activity frame (u, s) else bufferSnapshotActivity now frame (u, s))"

text \<open>A loop over subscriptions whose body may change the subscription and the rest of the state.\<close>

definition update_owned ::
  "(owned_subscription \<Rightarrow> bool) \<Rightarrow> (owned_subscription \<times> delivery \<Rightarrow> owned_subscription \<times> delivery) \<Rightarrow>
     string \<Rightarrow> delivery \<Rightarrow> delivery" where
  "update_owned cond f i s =
     (case mget (dl_subscriptions s) i of
        None \<Rightarrow> s
      | Some u \<Rightarrow> if cond u then (let (o1, s1) = f (u, s) in put_owned o1 s1) else s)"

definition for_owned ::
  "(owned_subscription \<Rightarrow> bool) \<Rightarrow> (owned_subscription \<times> delivery \<Rightarrow> owned_subscription \<times> delivery) \<Rightarrow>
     delivery \<Rightarrow> delivery" where
  "for_owned cond f s = foldl (\<lambda>s i. update_owned cond f i s) s (mkeys (dl_subscriptions s))"

definition listens :: "string \<Rightarrow> owned_subscription \<Rightarrow> bool" where
  "listens sessionId u \<longleftrightarrow> o_listening u \<and> o_sessionId u = sessionId"

text \<open>The session manager appends an event and calls the listeners of its session.\<close>

definition publish_event :: "delivery_config \<Rightarrow> int \<Rightarrow> string \<Rightarrow> canonical_event \<Rightarrow> delivery \<Rightarrow> delivery" where
  "publish_event cfg now sessionId event s =
     (case mget (dl_logs s) sessionId of
        None \<Rightarrow> s
      | Some log \<Rightarrow>
          for_owned (listens sessionId) (on_event cfg now event)
            (s\<lparr>dl_logs := mput (dl_logs s) sessionId (log @ [event])\<rparr>))"

definition publish_activity :: "int \<Rightarrow> string \<Rightarrow> session_activity_frame \<Rightarrow> delivery \<Rightarrow> delivery" where
  "publish_activity now sessionId frame s = for_owned (listens sessionId) (on_activity now frame) s"

definition ready :: "nat \<Rightarrow> owned_subscription \<Rightarrow> bool" where
  "ready connection u \<longleftrightarrow> o_connection u = connection \<and>
     \<not> (\<not> o_activateAfterResponse u \<or> o_active u \<or> o_invalidated u)"

definition activate :: "delivery_config \<Rightarrow> int \<Rightarrow> owned_subscription \<times> delivery \<Rightarrow> owned_subscription \<times> delivery" where
  "activate cfg now = (\<lambda>(u, s).
     let o1 = u\<lparr>o_activateAfterResponse := False, o_active := True\<rparr>;
         (o2, s1) = foldl (\<lambda>st (event, position). deliverEvent cfg now event position st) (o1, s) (o_bufferedEvents o1);
         o3 = o2\<lparr>o_bufferedEvents := [], o_bufferedEventBytes := 0\<rparr>;
         (o4, s2) = foldl (\<lambda>st frame. send_activity frame st) (o3, s1) (o_bufferedActivity o3)
     in (o4\<lparr>o_bufferedActivity := []\<rparr>, s2))"

definition activateReadySubscriptions :: "delivery_config \<Rightarrow> int \<Rightarrow> nat \<Rightarrow> delivery \<Rightarrow> delivery" where
  "activateReadySubscriptions cfg now connection s = for_owned (ready connection) (activate cfg now) s"

section \<open>Requests\<close>

text \<open>What the session manager answers to \<^verbatim>\<open>subscribe\<close>: the events of the view.\<close>

definition view_events :: "delivery \<Rightarrow> string \<Rightarrow> string option \<Rightarrow> delivery_error + canonical_event list" where
  "view_events s sessionId fromNodeId =
     (case mget (dl_logs s) sessionId of
        None \<Rightarrow> Inl (DeliveryError ''unknown_session'' sessionId)
      | Some log \<Rightarrow>
          (case fromNodeId of
             None \<Rightarrow> Inr log
           | Some node \<Rightarrow>
               (case bindE (fromEvents (Some (JStr sessionId)) log) (\<lambda>t. lineage t node) of
                  Inl e \<Rightarrow> Inl (DeliveryTree e) | Inr events \<Rightarrow> Inr events)))"

definition resumable :: "delivery \<Rightarrow> string \<Rightarrow> string option \<Rightarrow> string \<Rightarrow> cursor_record option" where
  "resumable s sessionId fromNodeId after =
     (case mget (dl_cursors s) after of
        None \<Rightarrow> None
      | Some r \<Rightarrow> if cr_acknowledged r \<and> cr_sessionId r = sessionId \<and> cr_fromNodeId r = fromNodeId then Some r else None)"

definition new_subscription ::
  "int \<Rightarrow> nat \<Rightarrow> string \<Rightarrow> string \<Rightarrow> string option \<Rightarrow> string option \<Rightarrow> string option \<Rightarrow> canonical_event list \<Rightarrow>
     session_activity_frame option \<Rightarrow> int option \<Rightarrow> string option \<Rightarrow> owned_subscription" where
  "new_subscription now connection subscriptionId sessionId fromNodeId boundaryCursor snapshotId events activity
     resumedPosition after =
     \<lparr>o_id = subscriptionId, o_connection = connection, o_sessionId = sessionId, o_fromNodeId = fromNodeId,
      o_boundaryCursor = boundaryCursor, o_snapshotId = snapshotId, o_snapshotEvents = events,
      o_pageCursors = [], o_pageResults = [], o_bufferedEvents = [],
      o_bufferedActivity = (case activity of None \<Rightarrow> [] | Some frame \<Rightarrow> [frame]),
      o_listening = (fromNodeId = None), o_nextPosition = int (length events), o_sequence = 0,
      o_bufferedEventBytes = 0,
      o_acknowledgedPosition = (case resumedPosition of None \<Rightarrow> -2 | Some p \<Rightarrow> p), o_acknowledgedCursor = after,
      o_active = False, o_finalPageServed = False, o_activateAfterResponse = (resumedPosition \<noteq> None),
      o_invalidated = False, o_createdAt = now, o_lastAccessAt = now\<rparr>"

definition drop_subscription :: "string \<Rightarrow> delivery \<Rightarrow> delivery" where
  "drop_subscription i s = s\<lparr>dl_subscriptions := mdel (dl_subscriptions s) i\<rparr>"

text \<open>The two halves of \<^verbatim>\<open>subscribe\<close>: behind an acknowledged cursor, or with a snapshot.\<close>

definition subscribe_resumed ::
  "int \<Rightarrow> nat \<Rightarrow> string \<Rightarrow> string \<Rightarrow> string option \<Rightarrow> canonical_event list \<Rightarrow> session_activity_frame option \<Rightarrow>
     string \<Rightarrow> cursor_record \<Rightarrow> delivery \<Rightarrow> delivery \<times> (delivery_error + subscribe_result)" where
  "subscribe_resumed now connection subscriptionId sessionId fromNodeId events activity after r s =
     (let resumedPosition = cr_position r;
          s1 = s\<lparr>dl_cursors := mput (dl_cursors s) after (r\<lparr>cr_subscriptionId := subscriptionId\<rparr>)\<rparr>;
          u = new_subscription now connection subscriptionId sessionId fromNodeId None None events activity
                (Some resumedPosition) (Some after);
          tail = drop (nat (resumedPosition + 1)) events;
          (u1, s2) = foldl (\<lambda>st (offset, event). bufferSnapshotEvent now event (resumedPosition + 1 + int offset) st)
                       (u, put_owned u s1) (indexed tail)
      in if o_invalidated u1
         then (drop_subscription subscriptionId (put_owned u1 s2),
               Inl (DeliveryError ''snapshot_required'' ''The resumable tail exceeded its delivery limit''))
         else (put_owned u1 s2, Inr \<lparr>res_subscriptionId = subscriptionId, res_sessionId = sessionId,
                 res_fromNodeId = fromNodeId, res_snapshot = None, res_resumedFrom = Some after\<rparr>))"

definition subscribe_snapshot ::
  "delivery_config \<Rightarrow> int \<Rightarrow> nat \<Rightarrow> string \<Rightarrow> string \<Rightarrow> string option \<Rightarrow> canonical_event list \<Rightarrow>
     session_activity_frame option \<Rightarrow> delivery \<Rightarrow> delivery \<times> (delivery_error + subscribe_result)" where
  "subscribe_snapshot cfg now connection subscriptionId sessionId fromNodeId events activity s =
     (let (snapshotId, s1) = fresh_id cfg s;
          (boundaryCursor, s2) = createCursor cfg now subscriptionId sessionId fromNodeId (int (length events) - 1) s1;
          u = new_subscription now connection subscriptionId sessionId fromNodeId (Some boundaryCursor) (Some snapshotId)
                events activity None None;
          s3 = put_owned u s2
      in case buildSnapshotPage cfg u 0 s3 of
           Inl e \<Rightarrow> (s3, Inl e)
         | Inr (u1, s4, firstPage) \<Rightarrow>
             (put_owned (u1\<lparr>o_finalPageServed := pg_complete firstPage\<rparr>) s4,
              Inr \<lparr>res_subscriptionId = subscriptionId, res_sessionId = sessionId, res_fromNodeId = fromNodeId,
                   res_snapshot = Some \<lparr>snap_snapshotId = snapshotId, snap_sessionId = sessionId,
                     snap_fromNodeId = fromNodeId, snap_boundaryCursor = boundaryCursor,
                     snap_eventCount = length events, snap_page = firstPage\<rparr>,
                   res_resumedFrom = None\<rparr>))"

definition subscribe ::
  "delivery_config \<Rightarrow> int \<Rightarrow> nat \<Rightarrow> string \<Rightarrow> string option \<Rightarrow> string option \<Rightarrow> session_activity_frame option \<Rightarrow>
     delivery \<Rightarrow> delivery \<times> (delivery_error + subscribe_result)" where
  "subscribe cfg now connection sessionId fromNodeId after activity s =
     (let (subscriptionId, s1) = fresh_id cfg s
      in case view_events s1 sessionId fromNodeId of
           Inl e \<Rightarrow> (s1, Inl e)
         | Inr events \<Rightarrow>
             (case after of
                None \<Rightarrow> subscribe_snapshot cfg now connection subscriptionId sessionId fromNodeId events activity s1
              | Some c \<Rightarrow>
                  (let s2 = pruneCursors now s1
                   in case resumable s2 sessionId fromNodeId c of
                        None \<Rightarrow> (s2, Inl (DeliveryError ''snapshot_required'' ''The event cursor cannot resume this view''))
                      | Some r \<Rightarrow>
                          subscribe_resumed now connection subscriptionId sessionId fromNodeId events activity c r s2)))"

definition acknowledge ::
  "delivery_config \<Rightarrow> int \<Rightarrow> nat \<Rightarrow> string \<Rightarrow> string \<Rightarrow> delivery \<Rightarrow> delivery \<times> (delivery_error + string)" where
  "acknowledge cfg now connection subscriptionId cursor s =
     (case owned_of s connection subscriptionId of
        None \<Rightarrow> (s, Inl (DeliveryError ''unknown_subscription'' ''The subscription is not attached here''))
      | Some u \<Rightarrow>
          (case assertSnapshotAvailable cfg now u s of
             (s1, Inl e) \<Rightarrow> (s1, Inl e)
           | (s1, Inr _) \<Rightarrow>
               (let u1 = u\<lparr>o_lastAccessAt := now\<rparr>; s2 = pruneCursors now (put_owned u1 s1)
                in case mget (dl_cursors s2) cursor of
                     None \<Rightarrow> (s2, Inl (DeliveryError ''unknown_cursor'' ''The cursor does not belong to this subscription''))
                   | Some r \<Rightarrow>
                       if cr_subscriptionId r \<noteq> subscriptionId then
                         (s2, Inl (DeliveryError ''unknown_cursor'' ''The cursor does not belong to this subscription''))
                       else if Some cursor = o_boundaryCursor u1 \<and> \<not> o_finalPageServed u1 then
                         (s2, Inl (DeliveryError ''snapshot_required'' ''Finish the frozen snapshot before acknowledging it''))
                       else
                         let u2 = (if Some cursor = o_boundaryCursor u1 then u1\<lparr>o_activateAfterResponse := True\<rparr> else u1);
                             s3 = s2\<lparr>dl_cursors := mput (dl_cursors s2) cursor (r\<lparr>cr_acknowledged := True\<rparr>)\<rparr>
                         in if cr_position r < o_acknowledgedPosition u2 then
                              (put_owned u2 s3, Inr (case o_acknowledgedCursor u2 of None \<Rightarrow> cursor | Some c \<Rightarrow> c))
                            else
                              (put_owned (u2\<lparr>o_acknowledgedPosition := cr_position r, o_acknowledgedCursor := Some cursor\<rparr>)
                                 (s3\<lparr>dl_cursors := filter (\<lambda>(candidate, cr). \<not> (candidate \<noteq> cursor \<and>
                                    cr_subscriptionId cr = subscriptionId \<and> cr_position cr \<le> cr_position r)) (dl_cursors s3)\<rparr>),
                               Inr cursor))))"

definition unsubscribe ::
  "int \<Rightarrow> nat \<Rightarrow> string \<Rightarrow> delivery \<Rightarrow> delivery \<times> (delivery_error + unit)" where
  "unsubscribe now connection subscriptionId s =
     (case owned_of s connection subscriptionId of
        None \<Rightarrow> (s, Inl (DeliveryError ''unknown_subscription'' ''The subscription is not attached here''))
      | Some u \<Rightarrow> (drop_subscription subscriptionId (releaseSubscriptionCursors now u False s), Inr ()))"

text \<open>The end of a connection, and the timer that drops idle snapshots.\<close>

definition disconnect :: "int \<Rightarrow> nat \<Rightarrow> delivery \<Rightarrow> delivery" where
  "disconnect now connection s =
     (let s1 = foldl (\<lambda>s u. releaseSubscriptionCursors now u True s) s
                 (filter (\<lambda>u. o_connection u = connection) (mvals (dl_subscriptions s)))
      in s1\<lparr>dl_subscriptions := filter (\<lambda>(i, u). o_connection u \<noteq> connection) (dl_subscriptions s1)\<rparr>)"

definition sweep :: "delivery_config \<Rightarrow> int \<Rightarrow> nat \<Rightarrow> delivery \<Rightarrow> delivery" where
  "sweep cfg now connection s =
     for_owned (\<lambda>u. o_connection u = connection \<and> \<not> o_active u \<and> \<not> o_invalidated u \<and> snapshot_expired cfg now u)
       (\<lambda>(u, s). invalidateSnapshot now u s) (pruneCursors now s)"

text \<open>
  What happens to the service: requests, the activation that follows a request's response, what the
  sessions publish, and connections that end. A new session starts with the events it has on disk.
\<close>

datatype delivery_call =
    CallOpen string "canonical_event list"
  | CallSubscribe nat string "string option" "string option" "session_activity_frame option"
  | CallHistory nat string string
  | CallAck nat string string
  | CallUnsubscribe nat string
  | CallActivate nat
  | CallPublish string canonical_event
  | CallActivity string session_activity_frame
  | CallDisconnect nat
  | CallSweep nat

fun deliver_call :: "delivery_config \<Rightarrow> delivery \<Rightarrow> int \<times> delivery_call \<Rightarrow> delivery" where
  "deliver_call cfg s (now, CallOpen sessionId events) =
     (if mhas (dl_logs s) sessionId then s else s\<lparr>dl_logs := mput (dl_logs s) sessionId events\<rparr>)"
| "deliver_call cfg s (now, CallSubscribe connection sessionId fromNodeId after activity) =
     fst (subscribe cfg now connection sessionId fromNodeId after activity s)"
| "deliver_call cfg s (now, CallHistory connection snapshotId pageCursor) =
     fst (snapshotPage cfg now connection snapshotId pageCursor s)"
| "deliver_call cfg s (now, CallAck connection subscriptionId cursor) =
     fst (acknowledge cfg now connection subscriptionId cursor s)"
| "deliver_call cfg s (now, CallUnsubscribe connection subscriptionId) =
     fst (unsubscribe now connection subscriptionId s)"
| "deliver_call cfg s (now, CallActivate connection) = activateReadySubscriptions cfg now connection s"
| "deliver_call cfg s (now, CallPublish sessionId event) = publish_event cfg now sessionId event s"
| "deliver_call cfg s (now, CallActivity sessionId frame) = publish_activity now sessionId frame s"
| "deliver_call cfg s (now, CallDisconnect connection) = disconnect now connection s"
| "deliver_call cfg s (now, CallSweep connection) = sweep cfg now connection s"

end
