(* ===== verification/Delivery_Invariant.thy ===== *)
theory Delivery_Invariant
  imports Delivery
begin

text \<open>
  What the delivery service guarantees. The invariant \<open>delivery_inv\<close> says of every subscription that the
  events sent to it, then those buffered, are the log from where the subscription starts, and of every
  cursor that its position is that of the event it was sent with.
\<close>

section \<open>The invariant\<close>

fun wire_of :: "delivered \<Rightarrow> wire_event list" where
  "wire_of (SentEvent c w) = [w]"
| "wire_of (SentActivity c i f) = []"

definition wires :: "delivery \<Rightarrow> wire_event list" where
  "wires s = concat (map wire_of (dl_sent s))"

definition sent_to :: "delivery \<Rightarrow> string \<Rightarrow> wire_event list" where
  "sent_to s i = filter (\<lambda>w. we_subscriptionId w = i) (wires s)"

definition numbered :: "wire_event list \<Rightarrow> int \<Rightarrow> bool" where
  "numbered ws n \<longleftrightarrow> n = int (length ws) \<and> map we_sequence ws = map (\<lambda>k. int k + 1) [0..<length ws]"

text \<open>\<open>log\<close> is what the subscription has been told of its session.\<close>

definition follows :: "wire_event list \<Rightarrow> canonical_event list \<Rightarrow> owned_subscription \<Rightarrow> bool" where
  "follows ws log u \<longleftrightarrow>
     (\<exists>start \<le> length log.
        o_nextPosition u = int (length log) \<and>
        map we_event ws @ map fst (o_bufferedEvents u) = drop start log \<and>
        map snd (o_bufferedEvents u) = map int [length log - length (o_bufferedEvents u)..<length log] \<and>
        (o_snapshotId u \<noteq> None \<longrightarrow> o_snapshotEvents u = take start log))"

definition within_limits :: "owned_subscription \<Rightarrow> bool" where
  "within_limits u \<longleftrightarrow> length (o_bufferedEvents u) \<le> MAX_SNAPSHOT_TAIL_EVENTS \<and>
     length (o_bufferedActivity u) \<le> MAX_SNAPSHOT_TAIL_EVENTS \<and>
     sum_list (map (\<lambda>b. event_size (fst b)) (o_bufferedEvents u)) \<le> o_bufferedEventBytes u \<and>
     o_bufferedEventBytes u \<le> MAX_SNAPSHOT_TAIL_BYTES"

definition stream_ok :: "delivery \<Rightarrow> (string \<Rightarrow> canonical_event list option) \<Rightarrow> owned_subscription \<Rightarrow> bool" where
  "stream_ok s told u \<longleftrightarrow>
     numbered (sent_to s (o_id u)) (o_sequence u) \<and> within_limits u \<and>
     (o_active u \<longrightarrow> \<not> o_invalidated u \<and> o_bufferedEvents u = []) \<and>
     (o_listening u \<longleftrightarrow> o_fromNodeId u = None \<and> \<not> o_invalidated u) \<and>
     (o_listening u \<longrightarrow> (\<exists>log. told (o_sessionId u) = Some log \<and> follows (sent_to s (o_id u)) log u))"

lemma stream_ok_cong: "sent_to s' (o_id u) = sent_to s (o_id u) \<Longrightarrow> stream_ok s' L u = stream_ok s L u"
  by (simp add: stream_ok_def)

definition cursor_ok :: "delivery \<Rightarrow> string \<Rightarrow> cursor_record \<Rightarrow> bool" where
  "cursor_ok s c r \<longleftrightarrow> (cr_fromNodeId r = None \<longrightarrow>
     (\<exists>log. mget (dl_logs s) (cr_sessionId r) = Some log \<and> -1 \<le> cr_position r \<and> cr_position r < int (length log) \<and>
        (\<forall>w \<in> set (wires s). we_cursor w = c \<longrightarrow> we_sessionId w = cr_sessionId r \<and> 0 \<le> cr_position r \<and>
           log ! nat (cr_position r) = we_event w)))"

definition used_ids :: "delivery \<Rightarrow> string set" where
  "used_ids s = set (mkeys (dl_subscriptions s)) \<union> set (mkeys (dl_cursors s)) \<union>
     we_cursor ` set (wires s) \<union> we_subscriptionId ` set (wires s)"

definition ids_ok :: "delivery_config \<Rightarrow> delivery \<Rightarrow> bool" where
  "ids_ok cfg s \<longleftrightarrow> used_ids s \<subseteq> cfg_uuid cfg ` {..<dl_fresh s} \<and> mwf (dl_subscriptions s) \<and>
     mwf (dl_cursors s) \<and> (\<forall>i u. mget (dl_subscriptions s) i = Some u \<longrightarrow> o_id u = i)"

text \<open>\<open>X\<close> are subscriptions whose objects are being changed; \<open>told\<close> is what each has been told.\<close>

definition delivery_inv ::
  "delivery_config \<Rightarrow> string set \<Rightarrow> (string \<Rightarrow> string \<Rightarrow> canonical_event list option) \<Rightarrow> delivery \<Rightarrow> bool" where
  "delivery_inv cfg X told s \<longleftrightarrow> inj (cfg_uuid cfg) \<and> ids_ok cfg s \<and> length (dl_cursors s) \<le> MAX_EVENT_CURSORS \<and>
     (\<forall>i u. i \<notin> X \<longrightarrow> mget (dl_subscriptions s) i = Some u \<longrightarrow> stream_ok s (told i) u) \<and>
     (\<forall>c r. mget (dl_cursors s) c = Some r \<longrightarrow> cursor_ok s c r)"

section \<open>Changes of cursors only\<close>

definition same_slot :: "cursor_record \<Rightarrow> cursor_record \<Rightarrow> bool" where
  "same_slot r r' \<longleftrightarrow> cr_position r' = cr_position r \<and> cr_sessionId r' = cr_sessionId r \<and> cr_fromNodeId r' = cr_fromNodeId r"

definition quiet :: "delivery \<Rightarrow> delivery \<Rightarrow> bool" where
  "quiet s s' \<longleftrightarrow> dl_logs s' = dl_logs s \<and> dl_subscriptions s' = dl_subscriptions s \<and> wires s' = wires s \<and>
     length (dl_cursors s') \<le> length (dl_cursors s) \<and> dl_fresh s \<le> dl_fresh s' \<and> (mwf (dl_cursors s) \<longrightarrow> mwf (dl_cursors s')) \<and>
     (\<forall>c r'. mget (dl_cursors s') c = Some r' \<longrightarrow> (\<exists>r. mget (dl_cursors s) c = Some r \<and> same_slot r r'))"

lemma same_slot_refl [simp]: "same_slot r r"
  by (simp add: same_slot_def)

lemma quiet_refl [simp]: "quiet s s"
  by (auto simp: quiet_def)

lemma same_slot_trans: "same_slot r r' \<Longrightarrow> same_slot r' r'' \<Longrightarrow> same_slot r r''"
  by (simp add: same_slot_def)

lemma quiet_cursor:
  assumes "quiet s s'" and "mget (dl_cursors s') c = Some r'"
  obtains r where "mget (dl_cursors s) c = Some r" "same_slot r r'"
  using assms by (auto simp: quiet_def)

lemma quiet_trans:
  assumes "quiet s t" and "quiet t u"
  shows "quiet s u"
proof -
  have "length (dl_cursors u) \<le> length (dl_cursors s)" using assms by (auto simp: quiet_def)
  moreover have "\<exists>r. mget (dl_cursors s) c = Some r \<and> same_slot r r'" if "mget (dl_cursors u) c = Some r'" for c r'
    using quiet_cursor [OF assms(2) that] quiet_cursor [OF assms(1)] same_slot_trans by metis
  ultimately show ?thesis using assms by (auto simp: quiet_def)
qed

lemma quiet_fields:
  "quiet s s' \<Longrightarrow> dl_logs s' = dl_logs s" "quiet s s' \<Longrightarrow> dl_subscriptions s' = dl_subscriptions s"
  "quiet s s' \<Longrightarrow> wires s' = wires s" "quiet s s' \<Longrightarrow> sent_to s' i = sent_to s i"
  by (simp_all add: quiet_def sent_to_def)

lemma mkeys_mget: "c \<in> set (mkeys m) \<longleftrightarrow> mget m c \<noteq> None"
  by (rule jsmap.keys_get)

lemma quiet_inv:
  assumes "delivery_inv cfg X told s" and q: "quiet s s'"
  shows "delivery_inv cfg X told s'"
proof -
  note f = quiet_fields [OF q]
  have fresh: "dl_fresh s \<le> dl_fresh s'" using q by (simp add: quiet_def)
  have "set (mkeys (dl_cursors s')) \<subseteq> set (mkeys (dl_cursors s))"
    using q by (fastforce simp: mkeys_mget quiet_def)
  then have "used_ids s' \<subseteq> used_ids s" by (auto simp: used_ids_def f)
  moreover have "cfg_uuid cfg ` {..<dl_fresh s} \<subseteq> cfg_uuid cfg ` {..<dl_fresh s'}" using fresh by auto
  ultimately have "ids_ok cfg s'" using assms(1) q by (auto simp: delivery_inv_def ids_ok_def f quiet_def)
  moreover have "cursor_ok s' c r'" if "mget (dl_cursors s') c = Some r'" for c r'
  proof -
    obtain r where "mget (dl_cursors s) c = Some r" "same_slot r r'" using q \<open>mget (dl_cursors s') c = Some r'\<close>
      by (auto simp: quiet_def)
    then show ?thesis using assms(1) by (auto simp: delivery_inv_def cursor_ok_def same_slot_def f)
  qed
  moreover have "stream_ok s' L u = stream_ok s L u" for L u by (simp add: stream_ok_def f)
  moreover have "length (dl_cursors s') \<le> length (dl_cursors s)" using q by (simp add: quiet_def)
  ultimately show ?thesis using assms(1) by (simp add: delivery_inv_def f)
qed

lemma wires_eq [simp]:
  "wires (s\<lparr>dl_cursors := m\<rparr>) = wires s" "wires (s\<lparr>dl_fresh := n\<rparr>) = wires s"
  "wires (s\<lparr>dl_subscriptions := us\<rparr>) = wires s" "wires (s\<lparr>dl_logs := ls\<rparr>) = wires s"
  "wires (s\<lparr>dl_sent := dl_sent s @ xs\<rparr>) = wires s @ concat (map wire_of xs)"
  by (simp_all add: wires_def)

lemma sent_to_eq [simp]:
  "sent_to (s\<lparr>dl_cursors := m\<rparr>) i = sent_to s i" "sent_to (s\<lparr>dl_fresh := n\<rparr>) i = sent_to s i"
  "sent_to (s\<lparr>dl_subscriptions := us\<rparr>) i = sent_to s i" "sent_to (s\<lparr>dl_logs := ls\<rparr>) i = sent_to s i"
  by (simp_all add: sent_to_def)

lemma mget_member: "mwf m \<Longrightarrow> mget m k = Some v \<longleftrightarrow> (k, v) \<in> set m"
  by (simp add: mwf_def mget_def map_of_eq_Some_iff)

lemma mwf_filter [simp]: "mwf m \<Longrightarrow> mwf (filter P m)"
  by (simp add: mwf_def distinct_map_filter)

lemma mget_filter: "mwf m \<Longrightarrow> mget (filter P m) k = Some v \<longleftrightarrow> mget m k = Some v \<and> P (k, v)"
  by (simp add: mget_member)

lemma quiet_filter:
  assumes "mwf (dl_cursors s)" shows "quiet s (s\<lparr>dl_cursors := filter P (dl_cursors s)\<rparr>)"
  using assms by (auto simp: quiet_def mget_filter)

lemma length_mput: "length (mput m k v) = (if mget m k = None then length m + 1 else length m)"
proof -
  have "length (mput m k v) = length (mkeys (mput m k v))" for m :: "('a, 'b) jsmap" and k v by (simp add: mkeys_def)
  then show ?thesis by (simp add: mkeys_mput) (simp add: mkeys_def)
qed

lemma quiet_prune: "mwf (dl_cursors s) \<Longrightarrow> quiet s (pruneCursors now s)"
  by (simp add: pruneCursors_def quiet_filter)

lemma quiet_wf: "quiet s s' \<Longrightarrow> mwf (dl_cursors s) \<Longrightarrow> mwf (dl_cursors s')"
  by (simp add: quiet_def)

lemma quiet_release: "mwf (dl_cursors s) \<Longrightarrow> quiet s (releaseSubscriptionCursors now u b s)"
  unfolding releaseSubscriptionCursors_def Let_def
  by (rule quiet_trans [OF quiet_prune], assumption)
    (rule quiet_filter, rule quiet_wf [OF quiet_prune], assumption+)

lemma evict_length: "length (evict_cursors m) \<le> length m \<and> length (evict_cursors m) < MAX_EVENT_CURSORS"
proof (induction m rule: evict_cursors.induct)
  case (1 m)
  show ?case
  proof (cases "length m \<ge> MAX_EVENT_CURSORS \<and> m \<noteq> []")
    case True
    then show ?thesis using 1 length_mdel_hd [of m] by (subst (1 2) evict_cursors.simps) auto
  qed (auto simp: evict_cursors.simps [of m] MAX_EVENT_CURSORS_def)
qed

lemma evict_subset:
  "mwf m \<Longrightarrow> mwf (evict_cursors m) \<and> (mget (evict_cursors m) c = Some r \<longrightarrow> mget m c = Some r)"
proof (induction m rule: evict_cursors.induct)
  case (1 m)
  show ?case
  proof (cases "length m \<ge> MAX_EVENT_CURSORS \<and> m \<noteq> []")
    case True
    then show ?thesis using 1 by (subst (1 2) evict_cursors.simps) (auto split: if_splits)
  qed (use 1(2) in \<open>auto simp: evict_cursors.simps [of m]\<close>)
qed

lemma create_effect:
  assumes "createCursor cfg now i session node p s = (c, s')" and "mwf (dl_cursors s)"
  obtains s1 where "quiet s s1" "length (dl_cursors s1) < MAX_EVENT_CURSORS" "c = cfg_uuid cfg (dl_fresh s1)"
    "s' = s1\<lparr>dl_fresh := dl_fresh s1 + 1, dl_cursors := mput (dl_cursors s1) c
       \<lparr>cr_subscriptionId = i, cr_sessionId = session, cr_fromNodeId = node, cr_position = p,
        cr_expiresAt = now + cfg_cursorLifetimeMs cfg, cr_acknowledged = False\<rparr>\<rparr>"
proof -
  let ?p = "pruneCursors now s"
  let ?s1 = "?p\<lparr>dl_cursors := evict_cursors (dl_cursors ?p)\<rparr>"
  have wf: "mwf (dl_cursors ?p)" using quiet_wf [OF quiet_prune] assms(2) by blast
  have "quiet ?p ?s1" using evict_subset [OF wf] evict_length [of "dl_cursors ?p"] wf
    by (auto simp: quiet_def intro: same_slot_refl)
  then have q: "quiet s ?s1" using quiet_trans quiet_prune assms(2) by blast
  then show thesis using assms(1) by (intro that [OF q]) (auto simp: createCursor_def Let_def fresh_id_def evict_length)
qed

section \<open>Creating cursors and delivering events\<close>

lemma fresh_unused:
  assumes "ids_ok cfg s" and "inj (cfg_uuid cfg)"
  shows "cfg_uuid cfg (dl_fresh s) \<notin> used_ids s"
proof
  assume "cfg_uuid cfg (dl_fresh s) \<in> used_ids s"
  then have "cfg_uuid cfg (dl_fresh s) \<in> cfg_uuid cfg ` {..<dl_fresh s}" using assms(1) by (auto simp: ids_ok_def)
  then show False using assms(2) by (auto simp: inj_def)
qed

lemma take_id:
  assumes "delivery_inv cfg X told s"
  shows "delivery_inv cfg X told (s\<lparr>dl_fresh := dl_fresh s + 1\<rparr>)"
  by (rule quiet_inv [OF assms]) (auto simp: quiet_def)

text \<open>A position that a cursor of a whole view may name.\<close>

definition in_log :: "delivery \<Rightarrow> string option \<Rightarrow> string \<Rightarrow> int \<Rightarrow> bool" where
  "in_log s node session p \<longleftrightarrow>
     (node = None \<longrightarrow> (\<exists>log. mget (dl_logs s) session = Some log \<and> -1 \<le> p \<and> p < int (length log)))"

lemma create_inv:
  assumes "delivery_inv cfg X told s" and "createCursor cfg now i session node p s = (c, s')"
    and "in_log s node session p"
  shows "delivery_inv cfg X told s'" "dl_logs s' = dl_logs s" "dl_subscriptions s' = dl_subscriptions s"
    "wires s' = wires s" "c \<notin> we_cursor ` set (wires s)"
    "\<exists>r. mget (dl_cursors s') c = Some r \<and> cr_position r = p \<and> cr_sessionId r = session \<and> cr_fromNodeId r = node"
    "c \<in> cfg_uuid cfg ` {..<dl_fresh s'}" "dl_fresh s \<le> dl_fresh s'"
proof -
  have "mwf (dl_cursors s)" using assms(1) by (simp add: delivery_inv_def ids_ok_def)
  from create_effect [OF assms(2) this] obtain s1 where q: "quiet s s1" and few: "length (dl_cursors s1) < MAX_EVENT_CURSORS" and c: "c = cfg_uuid cfg (dl_fresh s1)"
    and s': "s' = s1\<lparr>dl_fresh := dl_fresh s1 + 1, dl_cursors := mput (dl_cursors s1) c
       \<lparr>cr_subscriptionId = i, cr_sessionId = session, cr_fromNodeId = node, cr_position = p,
        cr_expiresAt = now + cfg_cursorLifetimeMs cfg, cr_acknowledged = False\<rparr>\<rparr>" by blast
  note f = quiet_fields [OF q]
  have inv1: "delivery_inv cfg X told s1" by (rule quiet_inv [OF assms(1) q])
  then have ids: "ids_ok cfg s1" "inj (cfg_uuid cfg)" by (simp_all add: delivery_inv_def)
  have new: "c \<notin> used_ids s1" unfolding c by (rule fresh_unused [OF ids])
  have w: "wires s' = wires s1" "\<And>j. sent_to s' j = sent_to s1 j" by (simp_all add: s' wires_def sent_to_def)
  show "dl_logs s' = dl_logs s" "dl_subscriptions s' = dl_subscriptions s" "wires s' = wires s"
    by (simp_all only: w(1) f) (simp_all add: s' f)
  show "c \<notin> we_cursor ` set (wires s)" using new by (simp add: used_ids_def f)
  show "\<exists>r. mget (dl_cursors s') c = Some r \<and> cr_position r = p \<and> cr_sessionId r = session \<and> cr_fromNodeId r = node"
    by (simp add: s')
  show "c \<in> cfg_uuid cfg ` {..<dl_fresh s'}" by (simp add: s' c)
  show "dl_fresh s \<le> dl_fresh s'" using q by (simp add: s' quiet_def)
  have "used_ids s' = insert c (used_ids s1)"
    by (auto simp: used_ids_def s' mkeys_mget wires_def split: if_splits)
  then have "ids_ok cfg s'" using ids(1) by (auto simp: ids_ok_def s' c lessThan_Suc)
  moreover have "cursor_ok s' d r" if "mget (dl_cursors s') d = Some r" for d r
  proof (cases "d = c")
    case True
    moreover have "\<forall>w \<in> set (wires s). we_cursor w \<noteq> c" using new by (auto simp: used_ids_def f)
    ultimately show ?thesis using that assms(3) by (auto simp: s' cursor_ok_def in_log_def f)
  next
    case False
    then have "cursor_ok s1 d r" using that inv1 by (simp add: s' delivery_inv_def)
    then show ?thesis by (simp add: cursor_ok_def w) (simp add: s')
  qed
  moreover have "stream_ok s' L u = stream_ok s1 L u" for L u by (simp add: stream_ok_def w)
  moreover have "length (dl_cursors s') \<le> MAX_EVENT_CURSORS" using few by (simp add: s' length_mput)
  ultimately show "delivery_inv cfg X told s'" using inv1 by (simp add: delivery_inv_def s')
qed

text \<open>The event that a subscription is sent: at \<open>position\<close> of its session's log.\<close>

definition at_position :: "delivery \<Rightarrow> owned_subscription \<Rightarrow> canonical_event \<Rightarrow> int \<Rightarrow> bool" where
  "at_position s u event p \<longleftrightarrow> (o_fromNodeId u = None \<longrightarrow>
     (\<exists>log. mget (dl_logs s) (o_sessionId u) = Some log \<and> 0 \<le> p \<and> p < int (length log) \<and> log ! nat p = event))"

definition known_id :: "delivery_config \<Rightarrow> delivery \<Rightarrow> string \<Rightarrow> bool" where
  "known_id cfg s i \<longleftrightarrow> i \<in> cfg_uuid cfg ` {..<dl_fresh s}"

lemma known_later: "known_id cfg s i \<Longrightarrow> dl_fresh s \<le> dl_fresh s' \<Longrightarrow> known_id cfg s' i"
  by (auto simp: known_id_def)

lemma known_key: "delivery_inv cfg X told s \<Longrightarrow> mget (dl_subscriptions s) i = Some u \<Longrightarrow> known_id cfg s i"
  by (auto simp: delivery_inv_def ids_ok_def used_ids_def known_id_def mkeys_mget)

lemma deliver_inv:
  assumes inv: "delivery_inv cfg X told s" and i: "o_id u \<in> X" "known_id cfg s (o_id u)"
    and at: "at_position s u event p" and d: "deliverEvent cfg now event p (u, s) = (u', s')"
  shows "delivery_inv cfg X told s' \<and> u' = u\<lparr>o_sequence := o_sequence u + 1\<rparr> \<and> dl_logs s' = dl_logs s \<and>
    dl_subscriptions s' = dl_subscriptions s \<and> dl_fresh s \<le> dl_fresh s' \<and>
    (\<exists>c. sent_to s' (o_id u) = sent_to s (o_id u) @ [\<lparr>we_subscriptionId = o_id u, we_sessionId = o_sessionId u,
       we_sequence = o_sequence u + 1, we_cursor = c, we_event = event\<rparr>])"
proof -
  obtain c s1 where cr: "createCursor cfg now (o_id u) (o_sessionId u) (o_fromNodeId u) p s = (c, s1)" by fastforce
  let ?w = "\<lparr>we_subscriptionId = o_id u, we_sessionId = o_sessionId u,
       we_sequence = o_sequence u + 1, we_cursor = c, we_event = event\<rparr>"
  have s': "s' = s1\<lparr>dl_sent := dl_sent s1 @ [SentEvent (o_connection u) ?w]\<rparr>"
    and u': "u' = u\<lparr>o_sequence := o_sequence u + 1\<rparr>"
    using d cr by (auto simp: deliverEvent_def Let_def)
  have "in_log s (o_fromNodeId u) (o_sessionId u) p" using at by (auto simp: at_position_def in_log_def)
  note c = create_inv [OF inv cr this]
  have w: "wires s' = wires s @ [?w]" by (simp add: s' c(4))
  have sent: "sent_to s' j = sent_to s j @ (if j = o_id u then [?w] else [])" for j
    by (simp add: sent_to_def w)
  have sent1: "sent_to s1 j = sent_to s j" for j by (simp add: sent_to_def c(4))
  have "used_ids s' = used_ids s1 \<union> {c, o_id u}" by (auto simp: used_ids_def w c(4)) (auto simp: s')
  moreover have "known_id cfg s1 (o_id u)" "known_id cfg s1 c"
    using known_later [OF i(2) c(8)] c(7) by (simp_all add: known_id_def)
  ultimately have ids: "ids_ok cfg s'" using c(1) by (auto simp: delivery_inv_def ids_ok_def s' known_id_def)
  have cur: "cursor_ok s' e r" if r: "mget (dl_cursors s') e = Some r" for e r
  proof -
    have r1: "mget (dl_cursors s1) e = Some r" using r by (simp add: s')
    then have ok: "cursor_ok s1 e r" using c(1) by (simp add: delivery_inv_def)
    have "e = c \<Longrightarrow> cr_fromNodeId r = None \<Longrightarrow> cr_sessionId r = o_sessionId u \<and> 0 \<le> cr_position r \<and>
        (\<forall>log. mget (dl_logs s) (cr_sessionId r) = Some log \<longrightarrow> log ! nat (cr_position r) = event)"
      using c(6) r1 at by (auto simp: at_position_def)
    then show ?thesis using ok by (auto simp: cursor_ok_def w c(2,4) s')
  qed
  have str: "stream_ok s' (told j) v" if j: "j \<notin> X" "mget (dl_subscriptions s') j = Some v" for j v
  proof -
    have m: "mget (dl_subscriptions s1) j = Some v" using j(2) by (simp add: s')
    then have "o_id v = j" using c(1) by (simp add: delivery_inv_def ids_ok_def)
    then have "sent_to s' (o_id v) = sent_to s1 (o_id v)" using j(1) i(1) by (auto simp only: sent sent1) auto
    moreover have "stream_ok s1 (told j) v" using c(1) j(1) m by (simp add: delivery_inv_def)
    ultimately show ?thesis using stream_ok_cong by blast
  qed
  have "length (dl_cursors s') \<le> MAX_EVENT_CURSORS" "inj (cfg_uuid cfg)" using c(1) by (simp_all add: s' delivery_inv_def)
  then have "delivery_inv cfg X told s'" using ids cur str by (auto simp: delivery_inv_def)
  moreover have "dl_logs s' = dl_logs s" "dl_subscriptions s' = dl_subscriptions s" "dl_fresh s \<le> dl_fresh s'"
    using c(2,3,8) by (simp_all add: s')
  moreover have "sent_to s' (o_id u) = sent_to s (o_id u) @ [?w]" by (simp add: sent)
  ultimately show ?thesis by (auto simp: u')
qed

lemma deliver_all:
  assumes "delivery_inv cfg X told s" "o_id u \<in> X" "known_id cfg s (o_id u)"
    and "\<forall>(event, p) \<in> set bs. at_position s u event p"
    and "foldl (\<lambda>st (event, p). deliverEvent cfg now event p st) (u, s) bs = (u', s')"
  shows "delivery_inv cfg X told s' \<and> u' = u\<lparr>o_sequence := o_sequence u + int (length bs)\<rparr> \<and> dl_logs s' = dl_logs s \<and>
    dl_subscriptions s' = dl_subscriptions s \<and> dl_fresh s \<le> dl_fresh s' \<and>
    (\<exists>ws. sent_to s' (o_id u) = sent_to s (o_id u) @ ws \<and> map we_event ws = map fst bs \<and>
       map we_sequence ws = map (\<lambda>k. o_sequence u + int k + 1) [0..<length bs])"
  using assms
proof (induction bs arbitrary: u s)
  case (Cons b bs)
  obtain event p where b: "b = (event, p)" by fastforce
  obtain u1 s1 where d: "deliverEvent cfg now event p (u, s) = (u1, s1)" by fastforce
  note one = deliver_inv [OF Cons.prems(1-3) _ d]
  have at: "at_position s u event p" using Cons.prems(4) b by simp
  note one = one [OF at]
  have u1: "u1 = u\<lparr>o_sequence := o_sequence u + 1\<rparr>" using one by simp
  have at1: "\<forall>(event, p) \<in> set bs. at_position s1 u1 event p"
    using Cons.prems(4) one by (auto simp: at_position_def u1)
  have known: "known_id cfg s1 (o_id u)" using known_later [OF Cons.prems(3)] one by blast
  have rest: "foldl (\<lambda>st (event, p). deliverEvent cfg now event p st) (u1, s1) bs = (u', s')"
    using Cons.prems(5) by (simp add: b d)
  have step: "map (\<lambda>k. o_sequence u + int k + 1) [0..<length (b # bs)] =
      (o_sequence u + 1) # map (\<lambda>k. o_sequence u1 + int k + 1) [0..<length bs]"
    by (simp add: u1 upt_conv_Cons map_Suc_upt [symmetric] del: upt_Suc)
  from Cons.IH [OF _ _ _ at1 rest, of] one Cons.prems(2) known
  show ?case unfolding step by (auto simp: u1 b)
qed simp

section \<open>Changing a subscription\<close>

lemma put_inv:
  assumes "delivery_inv cfg {o_id u} told s" and "stream_ok s (told (o_id u)) u" and "known_id cfg s (o_id u)"
  shows "delivery_inv cfg {} told (put_owned u s)"
proof -
  have "used_ids (put_owned u s) \<subseteq> insert (o_id u) (used_ids s)"
    by (auto simp: used_ids_def put_owned_def mkeys_mput)
  then have "ids_ok cfg (put_owned u s)" using assms(1,3)
    by (auto simp: delivery_inv_def ids_ok_def put_owned_def known_id_def)
  moreover have "stream_ok (put_owned u s) L v = stream_ok s L v" for L v
    by (rule stream_ok_cong) (simp add: put_owned_def)
  moreover have "cursor_ok (put_owned u s) c r = cursor_ok s c r" for c r
    by (simp add: cursor_ok_def put_owned_def)
  moreover have "mget (dl_subscriptions (put_owned u s)) i = (if i = o_id u then Some u else mget (dl_subscriptions s) i)"
    "dl_cursors (put_owned u s) = dl_cursors s" for i by (simp_all add: put_owned_def)
  ultimately show ?thesis using assms(1,2) by (auto simp: delivery_inv_def)
qed

lemma delivery_inv_mono: "delivery_inv cfg X told s \<Longrightarrow> X \<subseteq> Y \<Longrightarrow> (\<And>i. i \<notin> Y \<Longrightarrow> told' i = told i) \<Longrightarrow> delivery_inv cfg Y told' s"
  by (auto simp: delivery_inv_def)

lemma inv_stream:
  "delivery_inv cfg X told s \<Longrightarrow> mget (dl_subscriptions s) i = Some u \<Longrightarrow> i \<notin> X \<Longrightarrow> stream_ok s (told i) u"
  "delivery_inv cfg X told s \<Longrightarrow> mget (dl_subscriptions s) i = Some u \<Longrightarrow> o_id u = i"
  by (auto simp: delivery_inv_def ids_ok_def)

text \<open>What the body of a loop over subscriptions must do; \<open>before\<close> and \<open>after\<close> are what they are told.\<close>

definition good_update ::
  "delivery_config \<Rightarrow> (owned_subscription \<Rightarrow> bool) \<Rightarrow> (owned_subscription \<times> delivery \<Rightarrow> owned_subscription \<times> delivery) \<Rightarrow>
     (string, canonical_event list) jsmap \<Rightarrow> (string \<Rightarrow> canonical_event list option) \<Rightarrow>
     (string \<Rightarrow> canonical_event list option) \<Rightarrow> bool" where
  "good_update cfg cond f logs before after \<longleftrightarrow> (\<forall>told s u.
     delivery_inv cfg {} told s \<longrightarrow> dl_logs s = logs \<longrightarrow> mget (dl_subscriptions s) (o_id u) = Some u \<longrightarrow>
     stream_ok s before u \<longrightarrow> known_id cfg s (o_id u) \<longrightarrow>
       (\<not> cond u \<longrightarrow> stream_ok s after u) \<and>
       (cond u \<longrightarrow> (case f (u, s) of (u', s') \<Rightarrow>
          delivery_inv cfg {o_id u} told s' \<and> o_id u' = o_id u \<and> dl_logs s' = logs \<and>
          dl_subscriptions s' = dl_subscriptions s \<and> dl_fresh s \<le> dl_fresh s' \<and> stream_ok s' after u')))"

lemma good_updateI:
  assumes "\<And>s u. stream_ok s before u \<Longrightarrow> \<not> cond u \<Longrightarrow> stream_ok s after u"
    and "\<And>told s u u' s'. delivery_inv cfg {} told s \<Longrightarrow> dl_logs s = logs \<Longrightarrow> stream_ok s before u \<Longrightarrow>
      known_id cfg s (o_id u) \<Longrightarrow> cond u \<Longrightarrow> f (u, s) = (u', s') \<Longrightarrow>
      delivery_inv cfg {o_id u} told s' \<and> o_id u' = o_id u \<and> dl_logs s' = logs \<and>
      dl_subscriptions s' = dl_subscriptions s \<and> dl_fresh s \<le> dl_fresh s' \<and> stream_ok s' after u'"
  shows "good_update cfg cond f logs before after"
  unfolding good_update_def
proof (intro allI impI conjI)
  fix told s u
  assume s: "delivery_inv cfg {} told s" "dl_logs s = logs" "stream_ok s before u" "known_id cfg s (o_id u)"
  show "stream_ok s after u" if "\<not> cond u" using assms(1) [OF s(3) that] .
  show "case f (u, s) of (u', s') \<Rightarrow>
      delivery_inv cfg {o_id u} told s' \<and> o_id u' = o_id u \<and> dl_logs s' = logs \<and>
      dl_subscriptions s' = dl_subscriptions s \<and> dl_fresh s \<le> dl_fresh s' \<and> stream_ok s' after u'" if "cond u"
    by (rule case_prodI2) (rule assms(2) [OF s that], simp)
qed

lemma update_inv:
  assumes good: "good_update cfg cond f logs before after" and inv: "delivery_inv cfg {} told s"
    and "dl_logs s = logs" and "told i = before"
  shows "delivery_inv cfg {} (told(i := after)) (update_owned cond f i s) \<and>
    dl_logs (update_owned cond f i s) = logs \<and>
    mkeys (dl_subscriptions (update_owned cond f i s)) = mkeys (dl_subscriptions s)"
proof (cases "mget (dl_subscriptions s) i")
  case None
  have "delivery_inv cfg {} (told(i := after)) s" using inv None by (auto simp: delivery_inv_def)
  then show ?thesis using None assms(3) by (simp add: update_owned_def)
next
  case (Some u)
  have i: "o_id u = i" using inv_stream(2) [OF inv Some] .
  have ok: "stream_ok s before u" using inv_stream(1) [OF inv Some] assms(4) by simp
  have known: "known_id cfg s i" using known_key [OF inv Some] .
  note g = good [unfolded good_update_def, rule_format, OF inv assms(3)]
  show ?thesis
  proof (cases "cond u")
    case False
    then have "stream_ok s after u" using g [of u] Some i ok known by simp
    then have "delivery_inv cfg {} (told(i := after)) s" using inv Some by (auto simp: delivery_inv_def)
    then show ?thesis using False Some assms(3) by (simp add: update_owned_def)
  next
    case True
    obtain u' s' where f: "f (u, s) = (u', s')" by fastforce
    then have r: "delivery_inv cfg {i} told s'" "o_id u' = i" "dl_logs s' = logs"
        "dl_subscriptions s' = dl_subscriptions s" "dl_fresh s \<le> dl_fresh s'" "stream_ok s' after u'"
      using g [of u] Some i ok known True by simp_all
    have "delivery_inv cfg {} (told(i := after)) (put_owned u' s')"
      using r known_later [OF known r(5)] by (intro put_inv delivery_inv_mono [OF r(1)]) auto
    then show ?thesis using True Some r f by (simp add: update_owned_def put_owned_def mkeys_mput)
  qed
qed

lemma update_all_inv:
  assumes good: "good_update cfg cond f logs before after"
  shows "delivery_inv cfg {} told s \<Longrightarrow> dl_logs s = logs \<Longrightarrow> distinct ks \<Longrightarrow> \<forall>i \<in> set ks. told i = before \<Longrightarrow>
    delivery_inv cfg {} (\<lambda>i. if i \<in> set ks then after else told i) (foldl (\<lambda>s i. update_owned cond f i s) s ks) \<and>
    dl_logs (foldl (\<lambda>s i. update_owned cond f i s) s ks) = logs \<and>
    mkeys (dl_subscriptions (foldl (\<lambda>s i. update_owned cond f i s) s ks)) = mkeys (dl_subscriptions s)"
proof (induction ks arbitrary: told s)
  case (Cons k ks)
  have "told k = before" using Cons.prems(4) by simp
  note up = update_inv [where i = k, OF good Cons.prems(1,2) this]
  have rest: "\<forall>i \<in> set ks. (told(k := after)) i = before" using Cons.prems(3,4) by auto
  have "distinct ks" using Cons.prems(3) by simp
  note ih = Cons.IH [OF up [THEN conjunct1] up [THEN conjunct2, THEN conjunct1] this rest]
  have eq: "(\<lambda>i. if i \<in> set (k # ks) then after else told i) =
      (\<lambda>i. if i \<in> set ks then after else (told(k := after)) i)" by auto
  show ?case unfolding eq foldl.simps using ih up by (elim conjE) (simp only: simp_thms)
qed simp

lemma for_owned_inv:
  assumes good: "good_update cfg cond f logs before after" and inv: "delivery_inv cfg {} (\<lambda>i. before) s"
    and "dl_logs s = logs"
  shows "delivery_inv cfg {} (\<lambda>i. after) (for_owned cond f s) \<and> dl_logs (for_owned cond f s) = logs"
proof -
  note all = update_all_inv [OF good inv assms(3), of "mkeys (dl_subscriptions s)"]
  have "distinct (mkeys (dl_subscriptions s))" using inv by (simp add: delivery_inv_def ids_ok_def mwf_def mkeys_def)
  then have r: "delivery_inv cfg {} (\<lambda>i. if i \<in> set (mkeys (dl_subscriptions s)) then after else before) (for_owned cond f s)"
    "dl_logs (for_owned cond f s) = logs" "mkeys (dl_subscriptions (for_owned cond f s)) = mkeys (dl_subscriptions s)"
    using all by (simp_all add: for_owned_def)
  have "stream_ok (for_owned cond f s) after u" if "mget (dl_subscriptions (for_owned cond f s)) i = Some u" for i u
    using inv_stream(1) [OF r(1) that] that mkeys_mget [of i "dl_subscriptions (for_owned cond f s)"] r(3) by simp
  then show ?thesis using r(1,2) by (simp add: delivery_inv_def)
qed

section \<open>Events, activity, activation\<close>

lemma inv_wf: "delivery_inv cfg X told s \<Longrightarrow> mwf (dl_cursors s)"
  by (simp add: delivery_inv_def ids_ok_def)

lemma invalidate_effect:
  assumes "invalidateSnapshot now u s = (u', s')" and "mwf (dl_cursors s)"
  shows "quiet s s'" "u' = u\<lparr>o_invalidated := True, o_bufferedEvents := [], o_bufferedActivity := [],
    o_bufferedEventBytes := 0, o_listening := False\<rparr>"
  using assms quiet_release by (auto simp: invalidateSnapshot_def Let_def)

lemma invalidate_ok:
  "stream_ok s L u \<Longrightarrow> \<not> o_active u \<Longrightarrow> sent_to s' (o_id u) = sent_to s (o_id u) \<Longrightarrow>
     stream_ok s' L' (u\<lparr>o_invalidated := True, o_bufferedEvents := [], o_bufferedActivity := [],
       o_bufferedEventBytes := 0, o_listening := False\<rparr>)"
  by (auto simp: stream_ok_def within_limits_def)

lemma numbered_snoc: "numbered ws n \<Longrightarrow> we_sequence w = n + 1 \<Longrightarrow> numbered (ws @ [w]) (n + 1)"
  by (simp add: numbered_def)

lemma numbered_append:
  assumes "numbered ws n" and "map we_sequence vs = map (\<lambda>k. n + int k + 1) [0..<length vs]"
  shows "numbered (ws @ vs) (n + int (length vs))"
proof -
  have n: "n = int (length ws)" and ws: "map we_sequence ws = map (\<lambda>k. int k + 1) [0..<length ws]"
    using assms(1) by (simp_all add: numbered_def)
  have "[0..<length ws + length vs] = [0..<length ws] @ map (\<lambda>k. k + length ws) [0..<length vs]"
    by (simp add: upt_add_eq_append [of 0 "length ws" "length vs"] map_add_upt add.commute [of "length vs"])
  then show ?thesis by (simp add: numbered_def ws assms(2) n algebra_simps)
qed

lemma follows_length:
  assumes "follows ws log u"
  obtains start where "start \<le> length log" "length log - length (o_bufferedEvents u) = length ws + start"
    "map we_event ws @ map fst (o_bufferedEvents u) = drop start log"
    "length ws + start + length (o_bufferedEvents u) = length log"
proof -
  obtain start where s: "start \<le> length log" "map we_event ws @ map fst (o_bufferedEvents u) = drop start log"
    using assms by (auto simp: follows_def)
  from arg_cong [OF s(2), of length] have "length ws + length (o_bufferedEvents u) = length log - start" by simp
  then show thesis using s by (intro that [of start]) auto
qed

lemma follows_buffer: "follows ws log u \<Longrightarrow> length (o_bufferedEvents u) \<le> length log"
  by (elim follows_length) simp

lemma follows_buffered:
  assumes "follows ws log u"
  shows "map fst (o_bufferedEvents u) = drop (length log - length (o_bufferedEvents u)) log"
proof -
  obtain start where s: "length log - length (o_bufferedEvents u) = length ws + start"
    "map we_event ws @ map fst (o_bufferedEvents u) = drop start log"
    using follows_length [OF assms] by metis
  have "map fst (o_bufferedEvents u) = drop (length ws) (map we_event ws @ map fst (o_bufferedEvents u))" by simp
  then show ?thesis by (simp only: s drop_drop)
qed

text \<open>One more event in the log, sent or buffered.\<close>

lemma follows_sent:
  assumes "follows ws log u" and "o_bufferedEvents u = []" and "we_event w = event"
    and "o_nextPosition u' = o_nextPosition u + 1" "o_bufferedEvents u' = []"
      "o_snapshotId u' = o_snapshotId u" "o_snapshotEvents u' = o_snapshotEvents u"
  shows "follows (ws @ [w]) (log @ [event]) u'"
proof -
  obtain start where "start \<le> length log" "o_nextPosition u = int (length log)"
      "map we_event ws @ map fst (o_bufferedEvents u) = drop start log"
      "o_snapshotId u \<noteq> None \<longrightarrow> o_snapshotEvents u = take start log"
    using assms(1) by (auto simp: follows_def)
  then show ?thesis using assms(2-) by (auto simp: follows_def intro!: exI [of _ start])
qed

lemma follows_kept:
  assumes "follows ws log u"
    and "o_nextPosition u' = o_nextPosition u + 1"
      "o_bufferedEvents u' = o_bufferedEvents u @ [(event, o_nextPosition u)]"
      "o_snapshotId u' = o_snapshotId u" "o_snapshotEvents u' = o_snapshotEvents u"
  shows "follows ws (log @ [event]) u'"
proof -
  obtain start where "start \<le> length log" "o_nextPosition u = int (length log)"
      "map we_event ws @ map fst (o_bufferedEvents u) = drop start log"
      "map snd (o_bufferedEvents u) = map int [length log - length (o_bufferedEvents u)..<length log]"
      "o_snapshotId u \<noteq> None \<longrightarrow> o_snapshotEvents u = take start log"
    using assms(1) by (auto simp: follows_def)
  moreover from this(3) have "map we_event ws @ map fst (o_bufferedEvents u) @ [event] = drop start log @ [event]"
    by (metis append_assoc)
  ultimately show ?thesis using assms(2-) follows_buffer [OF assms(1)]
    by (auto simp: follows_def upt_Suc_append intro!: exI [of _ start])
qed

text \<open>The parts of a good update, for a body that does not deliver.\<close>

lemma quiet_update:
  assumes "delivery_inv cfg {} told s" and "quiet s s'"
  shows "delivery_inv cfg {i} told s' \<and> dl_logs s' = dl_logs s \<and> dl_subscriptions s' = dl_subscriptions s \<and>
    dl_fresh s \<le> dl_fresh s' \<and> sent_to s' i = sent_to s i"
  using delivery_inv_mono [OF quiet_inv [OF assms], of "{i}"] quiet_fields [OF assms(2)] assms(2) by (simp add: quiet_def)

lemma bufferSnapshotEvent_cases:
  assumes "bufferSnapshotEvent now event p (u, s) = (u', s')" and "\<not> o_invalidated u"
  obtains (full) "invalidateSnapshot now u s = (u', s')"
  | (room) "s' = s" "u' = u\<lparr>o_bufferedEvents := o_bufferedEvents u @ [(event, p)],
        o_bufferedEventBytes := o_bufferedEventBytes u + event_size event\<rparr>"
      "length (o_bufferedEvents u) < MAX_SNAPSHOT_TAIL_EVENTS"
      "o_bufferedEventBytes u + event_size event \<le> MAX_SNAPSHOT_TAIL_BYTES"
proof (cases "length (o_bufferedEvents u) \<ge> MAX_SNAPSHOT_TAIL_EVENTS \<or> o_bufferedEventBytes u + event_size event > MAX_SNAPSHOT_TAIL_BYTES")
  case True
  then show thesis using assms by (intro full) (simp add: bufferSnapshotEvent_def)
next
  case False
  then show thesis using assms by (intro room) (simp_all add: bufferSnapshotEvent_def)
qed

lemma bufferSnapshotActivity_cases:
  assumes "bufferSnapshotActivity now frame (u, s) = (u', s')" and "\<not> o_invalidated u"
  obtains (full) "invalidateSnapshot now u s = (u', s')"
  | (room) "s' = s" "u' = u\<lparr>o_bufferedActivity := o_bufferedActivity u @ [frame],
        o_bufferedEventBytes := o_bufferedEventBytes u + frame_size frame\<rparr>"
      "length (o_bufferedActivity u) < MAX_SNAPSHOT_TAIL_EVENTS"
      "o_bufferedEventBytes u + frame_size frame \<le> MAX_SNAPSHOT_TAIL_BYTES"
proof (cases "length (o_bufferedActivity u) \<ge> MAX_SNAPSHOT_TAIL_EVENTS \<or> o_bufferedEventBytes u + frame_size frame > MAX_SNAPSHOT_TAIL_BYTES")
  case True
  then show thesis using assms by (intro full) (simp add: bufferSnapshotActivity_def)
next
  case False
  then show thesis using assms by (intro room) (simp_all add: bufferSnapshotActivity_def)
qed

lemma stream_listening:
  assumes "stream_ok s L u" and "o_listening u"
  obtains log where "L (o_sessionId u) = Some log" "follows (sent_to s (o_id u)) log u"
    "o_fromNodeId u = None" "\<not> o_invalidated u"
  using assms by (auto simp: stream_ok_def)

lemma on_event_good:
  assumes "mget old session = Some log" and "logs = mput old session (log @ [event])"
  shows "good_update cfg (listens session) (on_event cfg now event) logs (mget old) (mget logs)"
proof -
  have stay: "stream_ok s (mget logs) u" if "stream_ok s (mget old) u" "\<not> listens session u" for s u
    using that by (auto simp: stream_ok_def listens_def assms(2))
  have "delivery_inv cfg {o_id u} told s' \<and> o_id u' = o_id u \<and> dl_logs s' = logs \<and>
      dl_subscriptions s' = dl_subscriptions s \<and> dl_fresh s \<le> dl_fresh s' \<and> stream_ok s' (mget logs) u'"
    if inv: "delivery_inv cfg {} told s" and l: "dl_logs s = logs" and ok: "stream_ok s (mget old) u"
      and known: "known_id cfg s (o_id u)" and cond: "listens session u"
      and f: "on_event cfg now event (u, s) = (u', s')" for told s u u' s'
  proof -
    have listening: "o_listening u" "o_sessionId u = session" using cond by (simp_all add: listens_def)
    with ok assms(1) have fol: "follows (sent_to s (o_id u)) log u" and u: "o_fromNodeId u = None" "\<not> o_invalidated u"
      by (auto elim: stream_listening)
    have pos: "o_nextPosition u = int (length log)" using fol by (auto simp: follows_def)
    have inv1: "delivery_inv cfg {o_id u} told s" using delivery_inv_mono [OF inv] by blast
    let ?u = "u\<lparr>o_nextPosition := o_nextPosition u + 1\<rparr>"
    show ?thesis
    proof (cases "o_active u")
      case True
      then have d: "deliverEvent cfg now event (o_nextPosition u) (?u, s) = (u', s')"
        using f by (simp add: on_event_def Let_def)
      have at: "at_position s ?u event (o_nextPosition u)"
        by (simp add: at_position_def l assms(2) listening pos)
      from deliver_inv [OF inv1 _ _ at d] known obtain c where r: "delivery_inv cfg {o_id u} told s'"
          "u' = ?u\<lparr>o_sequence := o_sequence u + 1\<rparr>" "dl_logs s' = logs" "dl_subscriptions s' = dl_subscriptions s"
          "dl_fresh s \<le> dl_fresh s'"
          "sent_to s' (o_id u) = sent_to s (o_id u) @ [\<lparr>we_subscriptionId = o_id u, we_sessionId = o_sessionId u,
             we_sequence = o_sequence u + 1, we_cursor = c, we_event = event\<rparr>]" by (auto simp: l)
      have e: "o_bufferedEvents u = []" using ok True by (simp add: stream_ok_def)
      have "stream_ok s' (mget logs) u'" using ok
        by (auto simp: stream_ok_def r(2,6) listening assms(2) within_limits_def e True u
            intro!: numbered_snoc follows_sent [OF fol e])
      then show ?thesis using r by simp
    next
      case False
      then have b: "bufferSnapshotEvent now event (o_nextPosition u) (?u, s) = (u', s')"
        using f by (simp add: on_event_def Let_def)
      have okn: "stream_ok s (mget old) u" by (rule ok)
      show ?thesis
      proof (cases rule: bufferSnapshotEvent_cases [OF b])
        case 2
        note v = invalidate_effect [OF 2 inv_wf [OF inv]]
        have "stream_ok s' (mget logs) u'" using ok False quiet_fields(4) [OF v(1)]
          by (auto simp: v(2) stream_ok_def within_limits_def)
        then show ?thesis using quiet_update [OF inv v(1)] l v(2) by simp
      next
        case 3
        have "stream_ok s' (mget logs) u'" using ok False 3(3,4)
          by (auto simp: 3(1,2) stream_ok_def within_limits_def listening assms(2) u
              intro!: follows_kept [OF fol])
        then show ?thesis using inv1 l 3(1,2) by simp
      qed (use u in simp)
    qed
  qed
  then show ?thesis using stay by (intro good_updateI)
qed

lemma send_activity_inv:
  assumes "delivery_inv cfg X told s" and "send_activity frame (u, s) = (u', s')"
  shows "delivery_inv cfg X told s' \<and> u' = u \<and> dl_logs s' = dl_logs s \<and> dl_subscriptions s' = dl_subscriptions s \<and>
    dl_fresh s' = dl_fresh s \<and> sent_to s' i = sent_to s i"
proof -
  have s': "s' = s\<lparr>dl_sent := dl_sent s @ [SentActivity (o_connection u) (o_id u) frame]\<rparr>" "u' = u"
    using assms(2) by (auto simp: send_activity_def)
  have "quiet s s'" by (auto simp: quiet_def s')
  then show ?thesis using quiet_inv [OF assms(1)] s' by (simp add: sent_to_def)
qed

lemma send_all_inv:
  assumes "delivery_inv cfg X told s" and "foldl (\<lambda>st frame. send_activity frame st) (u, s) frames = (u', s')"
  shows "delivery_inv cfg X told s' \<and> u' = u \<and> dl_logs s' = dl_logs s \<and> dl_subscriptions s' = dl_subscriptions s \<and>
    dl_fresh s' = dl_fresh s \<and> sent_to s' i = sent_to s i"
  using assms
proof (induction frames arbitrary: u s)
  case (Cons frame frames)
  obtain u1 s1 where f: "send_activity frame (u, s) = (u1, s1)" by fastforce
  from send_activity_inv [OF Cons.prems(1) f, of i] Cons.IH [of s1 u1] Cons.prems(2) f show ?case by auto
qed simp

lemma on_activity_good: "good_update cfg (listens session) (on_activity now frame) logs L L"
proof -
  have "delivery_inv cfg {o_id u} told s' \<and> o_id u' = o_id u \<and> dl_logs s' = logs \<and>
      dl_subscriptions s' = dl_subscriptions s \<and> dl_fresh s \<le> dl_fresh s' \<and> stream_ok s' L u'"
    if inv: "delivery_inv cfg {} told s" and "dl_logs s = logs" and ok: "stream_ok s L u"
      and "known_id cfg s (o_id u)" and cond: "listens session u" and f: "on_activity now frame (u, s) = (u', s')" for told s u u' s'
  proof -
    have u: "\<not> o_invalidated u" using cond ok by (simp add: listens_def stream_ok_def)
    have inv1: "delivery_inv cfg {o_id u} told s" using delivery_inv_mono [OF inv] by blast
    show ?thesis
    proof (cases "o_active u")
      case True
      then have "send_activity frame (u, s) = (u', s')" using f by (simp add: on_activity_def)
      note q = send_activity_inv [OF inv1 this, of "o_id u"]
      have "stream_ok s' L u" using ok stream_ok_cong [of s' u s] q by simp
      then show ?thesis using q that(2) by simp
    next
      case False
      then have b: "bufferSnapshotActivity now frame (u, s) = (u', s')" using f by (simp add: on_activity_def)
      show ?thesis
      proof (cases rule: bufferSnapshotActivity_cases [OF b u])
        case 1
        note v = invalidate_effect [OF 1 inv_wf [OF inv]]
        have "stream_ok s' L u'" unfolding v(2) by (rule invalidate_ok [OF ok False]) (rule quiet_fields(4) [OF v(1)])
        then show ?thesis using quiet_update [OF inv v(1)] v(2) that(2) by simp
      next
        case 2
        have "stream_ok s' L u'" using ok 2(3,4)
          by (auto simp: 2(1,2) stream_ok_def within_limits_def follows_def)
        then show ?thesis using inv1 2(1,2) that(2) by simp
      qed
    qed
  qed
  then show ?thesis by (intro good_updateI)
qed

lemma sweep_good:
  assumes "\<And>u. cond u \<Longrightarrow> \<not> o_active u"
  shows "good_update cfg cond (\<lambda>(u, s). invalidateSnapshot now u s) logs L L"
proof -
  have "delivery_inv cfg {o_id u} told s' \<and> o_id u' = o_id u \<and> dl_logs s' = logs \<and>
      dl_subscriptions s' = dl_subscriptions s \<and> dl_fresh s \<le> dl_fresh s' \<and> stream_ok s' L u'"
    if inv: "delivery_inv cfg {} told s" and "dl_logs s = logs" and ok: "stream_ok s L u"
      and "known_id cfg s (o_id u)" and "cond u"
      and f: "invalidateSnapshot now u s = (u', s')" for told s u u' s'
  proof -
    note v = invalidate_effect [OF f inv_wf [OF inv]]
    have "stream_ok s' L u'" unfolding v(2)
      by (rule invalidate_ok [OF ok assms [OF \<open>cond u\<close>]]) (rule quiet_fields(4) [OF v(1)])
    then show ?thesis using quiet_update [OF inv v(1)] v(2) that(2) by simp
  qed
  note body = this
  show ?thesis by (rule good_updateI) (assumption, unfold prod.case, rule body, assumption+)
qed

text \<open>Activation sends what was buffered.\<close>

lemma buffered_at:
  assumes "stream_ok s L u" and "\<not> o_invalidated u" and "L = mget (dl_logs s)"
  shows "\<forall>(event, p) \<in> set (o_bufferedEvents u). at_position s u event p"
proof (cases "o_fromNodeId u = None")
  case True
  then obtain log where log: "L (o_sessionId u) = Some log" and fol: "follows (sent_to s (o_id u)) log u"
    using assms(1,2) by (auto simp: stream_ok_def)
  let ?b = "o_bufferedEvents u" and ?k = "length log - length (o_bufferedEvents u)"
  have "at_position s u (fst (?b ! n)) (snd (?b ! n))" if n: "n < length ?b" for n
  proof -
    have "map snd ?b = map int [?k..<length log]" using fol by (auto simp: follows_def)
    from arg_cong [OF this, of "\<lambda>xs. xs ! n"] have p: "snd (?b ! n) = int (?k + n)"
      using n follows_buffer [OF fol] by (simp del: of_nat_add of_nat_diff)
    from arg_cong [OF follows_buffered [OF fol], of "\<lambda>xs. xs ! n"] have e: "fst (?b ! n) = log ! (?k + n)"
      using n follows_buffer [OF fol] by simp
    have "?k + n < length log" using n follows_buffer [OF fol] by linarith
    then show ?thesis unfolding p e at_position_def nat_int using log assms(3) by simp
  qed
  then show ?thesis by (metis (mono_tags, lifting) case_prod_beta' in_set_conv_nth)
qed (auto simp: at_position_def)

lemma follows_flushed:
  assumes "follows ws log u" and "map we_event vs = map fst (o_bufferedEvents u)"
    and "o_nextPosition u' = o_nextPosition u" "o_bufferedEvents u' = []"
      "o_snapshotId u' = o_snapshotId u" "o_snapshotEvents u' = o_snapshotEvents u"
  shows "follows (ws @ vs) log u'"
  using assms by (auto simp: follows_def)

lemma activate_good:
  shows "good_update cfg (ready connection) (activate cfg now) logs (mget logs) (mget logs)"
proof -
  have "delivery_inv cfg {o_id u} told s' \<and> o_id u' = o_id u \<and> dl_logs s' = logs \<and>
      dl_subscriptions s' = dl_subscriptions s \<and> dl_fresh s \<le> dl_fresh s' \<and> stream_ok s' (mget logs) u'"
    if inv: "delivery_inv cfg {} told s" and l: "dl_logs s = logs" and ok: "stream_ok s (mget logs) u"
      and known: "known_id cfg s (o_id u)" and cond: "ready connection u"
      and f: "activate cfg now (u, s) = (u', s')" for told s u u' s'
  proof -
    let ?u1 = "u\<lparr>o_activateAfterResponse := False, o_active := True\<rparr>" and ?bs = "o_bufferedEvents u"
    obtain u2 s2 where d: "foldl (\<lambda>st (event, p). deliverEvent cfg now event p st) (?u1, s) ?bs = (u2, s2)" by fastforce
    let ?u3 = "u2\<lparr>o_bufferedEvents := [], o_bufferedEventBytes := 0\<rparr>"
    obtain u4 s4 where a: "foldl (\<lambda>st frame. send_activity frame st) (?u3, s2) (o_bufferedActivity ?u3) = (u4, s4)" by fastforce
    have us: "u' = u4\<lparr>o_bufferedActivity := []\<rparr>" "s' = s4" using f d a by (simp_all add: activate_def Let_def)
    have u: "\<not> o_invalidated u" using cond by (simp add: ready_def)
    have inv1: "delivery_inv cfg {o_id u} told s" using delivery_inv_mono [OF inv] by blast
    have "\<forall>(event, p) \<in> set ?bs. at_position s ?u1 event p" using buffered_at [OF ok u] l by (simp add: at_position_def)
    from deliver_all [OF inv1 _ _ this d] known obtain vs where r: "delivery_inv cfg {o_id u} told s2"
        "u2 = ?u1\<lparr>o_sequence := o_sequence u + int (length ?bs)\<rparr>" "dl_logs s2 = logs"
        "dl_subscriptions s2 = dl_subscriptions s" "dl_fresh s \<le> dl_fresh s2"
        "sent_to s2 (o_id u) = sent_to s (o_id u) @ vs" "map we_event vs = map fst ?bs"
        "map we_sequence vs = map (\<lambda>k. o_sequence u + int k + 1) [0..<length ?bs]" by (auto simp: l)
    have len: "length ?bs = length vs" using arg_cong [OF r(7), of length] by simp
    note q = send_all_inv [OF r(1) a, of "o_id u"]
    have num: "numbered (sent_to s (o_id u) @ vs) (o_sequence u + int (length vs))"
      using ok r(8) len by (intro numbered_append) (simp_all add: stream_ok_def)
    have u': "u' = ?u3\<lparr>o_bufferedActivity := []\<rparr>" using us q by simp
    have "stream_ok s' (mget logs) u'" using ok num q r(6)
      by (auto simp: u' us(2) r(2) stream_ok_def within_limits_def len u intro!: follows_flushed [OF _ r(7)])
    then show ?thesis using q r us(2) u' by simp
  qed
  then show ?thesis by (intro good_updateI)
qed

section \<open>Every call keeps the invariant\<close>

text \<open>Between calls every subscription has been told all of its session's log.\<close>

definition delivery_ok :: "delivery_config \<Rightarrow> delivery \<Rightarrow> bool" where
  "delivery_ok cfg s \<longleftrightarrow> delivery_inv cfg {} (\<lambda>i. mget (dl_logs s)) s"

lemma ok_quiet: "delivery_ok cfg s \<Longrightarrow> quiet s s' \<Longrightarrow> delivery_ok cfg s'"
  using quiet_inv by (simp add: delivery_ok_def quiet_fields)

lemma ok_wf: "delivery_ok cfg s \<Longrightarrow> mwf (dl_cursors s)" "delivery_ok cfg s \<Longrightarrow> mwf (dl_subscriptions s)"
  by (simp_all add: delivery_ok_def delivery_inv_def ids_ok_def)

lemma ok_stream:
  assumes "delivery_ok cfg s" and "mget (dl_subscriptions s) i = Some u"
  shows "stream_ok s (mget (dl_logs s)) u" "o_id u = i" "known_id cfg s i"
  using assms inv_stream [of cfg "{}"] known_key by (auto simp: delivery_ok_def)

lemma ok_put:
  assumes "delivery_ok cfg s" and "known_id cfg s (o_id u)" and "stream_ok s (mget (dl_logs s)) u"
  shows "delivery_ok cfg (put_owned u s)"
proof -
  have "delivery_inv cfg {o_id u} (\<lambda>i. mget (dl_logs s)) s"
    using assms(1) by (auto simp: delivery_ok_def intro: delivery_inv_mono)
  from put_inv [OF this assms(3,2)] show ?thesis by (simp add: delivery_ok_def put_owned_def)
qed

lemma ok_subset:
  assumes "delivery_ok cfg s" and "mwf m" and "\<And>i u. mget m i = Some u \<Longrightarrow> mget (dl_subscriptions s) i = Some u"
  shows "delivery_ok cfg (s\<lparr>dl_subscriptions := m\<rparr>)"
proof -
  have "used_ids (s\<lparr>dl_subscriptions := m\<rparr>) \<subseteq> used_ids s" using assms(3) by (fastforce simp: used_ids_def mkeys_mget)
  then have "ids_ok cfg (s\<lparr>dl_subscriptions := m\<rparr>)" using assms by (auto simp: delivery_ok_def delivery_inv_def ids_ok_def)
  moreover have "stream_ok (s\<lparr>dl_subscriptions := m\<rparr>) L v = stream_ok s L v" for L v by (rule stream_ok_cong) simp
  moreover have "cursor_ok (s\<lparr>dl_subscriptions := m\<rparr>) c r = cursor_ok s c r" for c r by (simp add: cursor_ok_def)
  moreover have "\<forall>i u. mget m i = Some u \<longrightarrow> stream_ok s (mget (dl_logs s)) u"
    using assms(3) ok_stream(1) [OF assms(1)] by blast
  ultimately show ?thesis using assms(1) by (simp add: delivery_ok_def delivery_inv_def)
qed

lemma ok_drop: "delivery_ok cfg s \<Longrightarrow> delivery_ok cfg (drop_subscription i s)"
  unfolding drop_subscription_def by (rule ok_subset) (auto simp: ok_wf split: if_splits)

lemma assert_ok:
  assumes "delivery_ok cfg s" and "mget (dl_subscriptions s) (o_id u) = Some u"
    and "assertSnapshotAvailable cfg now u s = (s', r)"
  shows "delivery_ok cfg s'" "r = Inr () \<Longrightarrow> s' = s \<and> \<not> o_invalidated u"
proof -
  have "delivery_ok cfg s' \<and> (r = Inr () \<longrightarrow> s' = s \<and> \<not> o_invalidated u)"
  proof (cases "o_invalidated u \<or> snapshot_expired cfg now u")
    case True
    obtain u1 s1 where v: "invalidateSnapshot now u s = (u1, s1)" by fastforce
    note e = invalidate_effect [OF v ok_wf(1) [OF assms(1)]]
    note ok = ok_stream [OF assms(1,2)]
    have "\<not> o_active u" using True ok(1) by (auto simp: snapshot_expired_def stream_ok_def)
    then have "stream_ok s1 (mget (dl_logs s1)) u1" unfolding e(2) using invalidate_ok [OF ok(1)] quiet_fields(4) [OF e(1)] by blast
    moreover have "known_id cfg s1 (o_id u1)" using known_later [OF ok(3)] e by (simp add: quiet_def)
    ultimately have "delivery_ok cfg (put_owned u1 s1)" by (intro ok_put ok_quiet [OF assms(1) e(1)])
    then show ?thesis using True assms(3) v by (auto simp: assertSnapshotAvailable_def)
  next
    case False
    then show ?thesis using assms(1,3) by (auto simp: assertSnapshotAvailable_def)
  qed
  then show "delivery_ok cfg s'" "r = Inr () \<Longrightarrow> s' = s \<and> \<not> o_invalidated u" by auto
qed

text \<open>Changes of a subscription that the invariant does not see.\<close>

lemma stream_unseen [simp]:
  "stream_ok s L (u\<lparr>o_lastAccessAt := t\<rparr>) = stream_ok s L u" "stream_ok s L (u\<lparr>o_pageCursors := pc\<rparr>) = stream_ok s L u"
  "stream_ok s L (u\<lparr>o_pageResults := pr\<rparr>) = stream_ok s L u" "stream_ok s L (u\<lparr>o_finalPageServed := b\<rparr>) = stream_ok s L u"
  "stream_ok s L (u\<lparr>o_activateAfterResponse := b\<rparr>) = stream_ok s L u"
  "stream_ok s L (u\<lparr>o_acknowledgedPosition := p, o_acknowledgedCursor := c\<rparr>) = stream_ok s L u"
  by (simp_all add: stream_ok_def within_limits_def follows_def)

lemma stream_put [simp]: "stream_ok (put_owned v s) L u = stream_ok s L u"
  by (rule stream_ok_cong) (simp add: put_owned_def)

lemma put_owned_simps [simp]:
  "dl_logs (put_owned u s) = dl_logs s" "dl_cursors (put_owned u s) = dl_cursors s" "dl_fresh (put_owned u s) = dl_fresh s"
  "known_id cfg (put_owned u s) i = known_id cfg s i" "wires (put_owned u s) = wires s"
  "mget (dl_subscriptions (put_owned u s)) i = (if i = o_id u then Some u else mget (dl_subscriptions s) i)"
  by (simp_all add: put_owned_def known_id_def)

lemma acknowledge_ok:
  assumes "delivery_ok cfg s"
  shows "delivery_ok cfg (fst (acknowledge cfg now connection i cursor s))"
proof (cases "owned_of s connection i")
  case None
  then show ?thesis using assms by (simp add: acknowledge_def)
next
  case (Some u)
  then have m: "mget (dl_subscriptions s) i = Some u" by (auto simp: owned_of_def split: option.splits if_splits)
  note u = ok_stream [OF assms m]
  obtain s1 r1 where a: "assertSnapshotAvailable cfg now u s = (s1, r1)" by fastforce
  have m1: "mget (dl_subscriptions s) (o_id u) = Some u" using m u(2) by simp
  show ?thesis
  proof (cases r1)
    case (Inl e)
    then show ?thesis using Some a assert_ok(1) [OF assms m1 a] by (simp add: acknowledge_def)
  next
    case (Inr x)
    then have s1: "s1 = s" using assert_ok(2) [OF assms m1 a] by simp
    let ?u1 = "u\<lparr>o_lastAccessAt := now\<rparr>"
    let ?s2 = "pruneCursors now (put_owned ?u1 s)"
    have ok1: "delivery_ok cfg (put_owned ?u1 s)" using u by (intro ok_put [OF assms]) simp_all
    have q2: "quiet (put_owned ?u1 s) ?s2" using quiet_prune ok_wf(1) [OF ok1] by blast
    have ok2: "delivery_ok cfg ?s2" by (rule ok_quiet [OF ok1 q2])
    have sub2: "stream_ok ?s2 (mget (dl_logs ?s2)) ?u1" "known_id cfg ?s2 (o_id u)"
      using ok_stream [OF ok2, of i ?u1] by (simp_all add: quiet_fields [OF q2] u(2))
    show ?thesis
    proof (cases "mget (dl_cursors ?s2) cursor")
      case None
      then show ?thesis using Some a Inr s1 ok2 by (simp add: acknowledge_def Let_def)
    next
      case (Some r)
      let ?s3 = "?s2\<lparr>dl_cursors := mput (dl_cursors ?s2) cursor (r\<lparr>cr_acknowledged := True\<rparr>)\<rparr>"
      have q3: "quiet ?s2 ?s3" using Some by (auto simp: quiet_def same_slot_def length_mput)
      have ok3: "delivery_ok cfg ?s3" by (rule ok_quiet [OF ok2 q3])
      have put3: "delivery_ok cfg (put_owned v t)" if "quiet ?s3 t" "o_id v = o_id u"
          "\<And>s L. stream_ok s L v = stream_ok s L u" for v t
        using that sub2 quiet_trans [OF q3 that(1)] known_later [OF sub2(2)]
        by (intro ok_put [OF ok_quiet [OF ok3 that(1)]])
          (auto simp: quiet_fields [OF quiet_trans [OF q3 that(1)]] quiet_def stream_ok_cong [of t u ?s2])
      have f3: "quiet ?s3 (?s2\<lparr>dl_cursors := filter P (mput (dl_cursors ?s2) cursor (r\<lparr>cr_acknowledged := True\<rparr>))\<rparr>)" for P
        using quiet_filter [OF ok_wf(1) [OF ok3]] by simp
      from \<open>owned_of s connection i = Some u\<close> Some show ?thesis
        by (auto simp: acknowledge_def Let_def a Inr s1 intro!: ok2 put3 f3)
    qed
  qed
qed

lemma unsubscribe_ok:
  assumes "delivery_ok cfg s"
  shows "delivery_ok cfg (fst (unsubscribe now connection i s))"
  using assms ok_drop [OF ok_quiet [OF assms quiet_release [OF ok_wf(1) [OF assms]]]]
  by (simp add: unsubscribe_def split: option.splits)

lemma disconnect_ok:
  assumes "delivery_ok cfg s"
  shows "delivery_ok cfg (disconnect now connection s)"
proof -
  have q: "quiet s (foldl (\<lambda>s u. releaseSubscriptionCursors now u True s) s us)" if "mwf (dl_cursors s)" for us s
    using that
  proof (induction us arbitrary: s)
    case (Cons u us)
    have r: "quiet s (releaseSubscriptionCursors now u True s)" by (rule quiet_release [OF Cons.prems])
    then show ?case using Cons.IH [OF quiet_wf [OF r Cons.prems]] quiet_trans [OF r] by simp
  qed simp
  note ok = ok_quiet [OF assms q [OF ok_wf(1) [OF assms]]]
  show ?thesis unfolding disconnect_def Let_def
    by (rule ok_subset [OF ok mwf_filter [OF ok_wf(2) [OF ok]]]) (simp add: mget_filter [OF ok_wf(2) [OF ok]])
qed

lemma build_page_effect:
  assumes "buildSnapshotPage cfg u start s = Inr (u', s', page)"
  shows "quiet s s'" "o_id u' = o_id u" "stream_ok t L u' = stream_ok t L u"
  using assms by (auto simp: buildSnapshotPage_def bindE_def fresh_id_def Let_def quiet_def split: sum.splits if_splits)

lemma find_in: "find P xs = Some x \<Longrightarrow> x \<in> set xs \<and> P x"
  by (induction xs) (auto split: if_splits)

lemma in_mvals: "mwf m \<Longrightarrow> u \<in> set (mvals m) \<longleftrightarrow> (\<exists>i. mget m i = Some u)"
  by (force simp: mvals_def mget_member)

lemma snapshotPage_ok:
  assumes "delivery_ok cfg s"
  shows "delivery_ok cfg (fst (snapshotPage cfg now connection snapshotId pageCursor s))"
proof (cases "find (\<lambda>u. o_connection u = connection \<and> o_snapshotId u = Some snapshotId) (mvals (dl_subscriptions s))")
  case None
  then show ?thesis using assms by (simp add: snapshotPage_def)
next
  case (Some u)
  from find_in [OF this] have "u \<in> set (mvals (dl_subscriptions s))" by (rule conjunct1)
  then obtain i where m: "mget (dl_subscriptions s) i = Some u"
    unfolding in_mvals [OF ok_wf(2) [OF assms]] by (rule exE)
  note u = ok_stream [OF assms m]
  obtain s1 r1 where a: "assertSnapshotAvailable cfg now u s = (s1, r1)" by fastforce
  have m1: "mget (dl_subscriptions s) (o_id u) = Some u" using m u(2) by simp
  note av = assert_ok [OF assms m1 a]
  let ?u1 = "u\<lparr>o_lastAccessAt := now\<rparr>"
  let ?s2 = "put_owned ?u1 s"
  have ok2: "delivery_ok cfg ?s2" using u by (intro ok_put [OF assms]) simp_all
  have put: "delivery_ok cfg (put_owned v t)"
    if b: "buildSnapshotPage cfg ?u1 offset ?s2 = Inr (u2, t, page)" and "o_id v = o_id u2"
      "stream_ok t (mget (dl_logs t)) v = stream_ok t (mget (dl_logs t)) u2" for offset u2 t page v
  proof -
    note e = build_page_effect [OF b]
    have "stream_ok t L ?u1 = stream_ok ?s2 L ?u1" for L by (rule stream_ok_cong) (rule quiet_fields(4) [OF e(1)])
    then have "stream_ok t (mget (dl_logs t)) v" using that(3) e(3) u(1) quiet_fields(1) [OF e(1)] by simp
    then show ?thesis using that(2) e(2) known_later [of cfg ?s2 "o_id v" t] e(1) u(2,3)
      by (intro ok_put [OF ok_quiet [OF ok2 e(1)]]) (auto simp: quiet_def)
  qed
  show ?thesis
  proof (cases r1)
    case (Inl e)
    then show ?thesis using Some a av(1) assms by (simp add: snapshotPage_def split: option.split)
  next
    case (Inr x)
    then have "s1 = s" using av(2) by simp
    then show ?thesis using Some a Inr ok2 assms
      by (auto simp: snapshotPage_def Let_def split: option.split sum.split intro!: put)
  qed
qed

section \<open>Subscribing\<close>

lemma put_stale:
  assumes "delivery_inv cfg {o_id u} told s" and "known_id cfg s (o_id u)"
  shows "delivery_inv cfg {o_id u} told (put_owned u s)"
proof -
  have "used_ids (put_owned u s) \<subseteq> insert (o_id u) (used_ids s)"
    by (auto simp: used_ids_def put_owned_def mkeys_mput)
  then have "ids_ok cfg (put_owned u s)" using assms
    by (auto simp: delivery_inv_def ids_ok_def put_owned_def known_id_def)
  moreover have "cursor_ok (put_owned u s) c r = cursor_ok s c r" for c r
    by (simp add: cursor_ok_def)
  ultimately show ?thesis using assms(1) by (simp add: delivery_inv_def)
qed

lemma drop_stale:
  assumes "delivery_inv cfg {i} told s"
  shows "delivery_inv cfg {} told (drop_subscription i s)"
proof -
  have "used_ids (drop_subscription i s) \<subseteq> used_ids s"
    by (auto simp: used_ids_def drop_subscription_def mkeys_mget split: if_splits)
  then have "ids_ok cfg (drop_subscription i s)" using assms
    by (auto simp: delivery_inv_def ids_ok_def drop_subscription_def)
  moreover have "cursor_ok (drop_subscription i s) c r = cursor_ok s c r" for c r
    by (simp add: cursor_ok_def drop_subscription_def)
  moreover have "stream_ok (drop_subscription i s) L v = stream_ok s L v" for L v
    by (rule stream_ok_cong) (simp add: drop_subscription_def)
  ultimately show ?thesis using assms by (simp add: delivery_inv_def) (simp add: drop_subscription_def)
qed

text \<open>The tail that a resumed subscription buffers, event by event.\<close>

definition tail_events :: "int \<Rightarrow> canonical_event list \<Rightarrow> (canonical_event \<times> int) list" where
  "tail_events p tail = map (\<lambda>(offset, event). (event, p + 1 + int offset)) (indexed tail)"

lemma length_indexed [simp]: "length (indexed xs) = length xs"
  by (simp add: indexed_def)

lemma tail_events_facts:
  "map fst (tail_events p tail) = tail" "length (tail_events p tail) = length tail"
  "map snd (tail_events p tail) = map (\<lambda>k. p + 1 + int k) [0..<length tail]"
  "map (\<lambda>b. event_size (fst b)) (tail_events p tail) = map event_size tail"
  by (induction tail rule: rev_induct) (simp_all add: tail_events_def indexed_snoc)

lemma resume_fold:
  assumes "mwf (dl_cursors s)" and "\<not> o_invalidated u" "o_bufferedEvents u = []" "o_bufferedEventBytes u = 0"
    and "foldl (\<lambda>st (offset, event). bufferSnapshotEvent now event (p + 1 + int offset) st) (u, s) (indexed tail) = (u', s')"
  shows "quiet s s' \<and> o_id u' = o_id u \<and> (\<not> o_invalidated u' \<longrightarrow>
    u' = u\<lparr>o_bufferedEvents := tail_events p tail, o_bufferedEventBytes := sum_list (map event_size tail)\<rparr> \<and>
    length tail \<le> MAX_SNAPSHOT_TAIL_EVENTS \<and> sum_list (map event_size tail) \<le> MAX_SNAPSHOT_TAIL_BYTES)"
  using assms(5)
proof (induction tail arbitrary: u' s' rule: rev_induct)
  case Nil
  then show ?case using assms by (simp add: tail_events_def)
next
  case (snoc event tail)
  obtain u1 s1 where f: "foldl (\<lambda>st (offset, event). bufferSnapshotEvent now event (p + 1 + int offset) st) (u, s) (indexed tail) = (u1, s1)"
    by fastforce
  note ih = snoc.IH [OF f]
  have b: "bufferSnapshotEvent now event (p + 1 + int (length tail)) (u1, s1) = (u', s')"
    using snoc.prems f by (simp add: indexed_snoc)
  show ?case
  proof (cases "o_invalidated u1")
    case True
    then have "u' = u1 \<and> s' = s1" using b by (simp add: bufferSnapshotEvent_def)
    then show ?thesis using ih True by simp
  next
    case False
    show ?thesis
    proof (cases rule: bufferSnapshotEvent_cases [OF b False])
      case 1
      note v = invalidate_effect [OF 1 quiet_wf [OF conjunct1 [OF ih] assms(1)]]
      then show ?thesis using quiet_trans [OF conjunct1 [OF ih]] ih by simp
    next
      case 2
      then show ?thesis using ih False
        by (auto simp: tail_events_def indexed_snoc tail_events_facts(2) [unfolded tail_events_def])
    qed
  qed
qed

lemma stream_new:
  assumes "sent_to s (o_id u) = []" and "o_sequence u = 0" "o_listening u = (o_fromNodeId u = None)"
    "\<not> o_invalidated u" "\<not> o_active u" "within_limits u"
    and "o_fromNodeId u = None \<Longrightarrow> \<exists>log. L (o_sessionId u) = Some log \<and> follows [] log u"
  shows "stream_ok s L u"
  using assms by (simp add: stream_ok_def numbered_def)

lemma fresh_facts:
  assumes "delivery_ok cfg s" and "fresh_id cfg s = (i, s1)"
  shows "quiet s s1" "delivery_ok cfg s1" "known_id cfg s1 i" "sent_to s1 i = []" "mget (dl_subscriptions s1) i = None"
proof -
  have s1: "s1 = s\<lparr>dl_fresh := dl_fresh s + 1\<rparr>" "i = cfg_uuid cfg (dl_fresh s)" using assms(2) by (auto simp: fresh_id_def)
  show q: "quiet s s1" by (auto simp: quiet_def s1)
  show "delivery_ok cfg s1" by (rule ok_quiet [OF assms(1) q])
  show "known_id cfg s1 i" by (auto simp: known_id_def s1)
  have "i \<notin> used_ids s" using fresh_unused assms(1) by (auto simp: delivery_ok_def delivery_inv_def s1)
  then have "\<forall>w \<in> set (wires s). we_subscriptionId w \<noteq> i" "mget (dl_subscriptions s) i = None"
    by (auto simp: used_ids_def mkeys_mget)
  then show "sent_to s1 i = []" "mget (dl_subscriptions s1) i = None"
    by (simp_all add: s1(1) sent_to_def filter_empty_conv)
qed

lemma view_whole: "view_events s session None = Inr events \<longleftrightarrow> mget (dl_logs s) session = Some events"
  by (simp add: view_events_def split: option.splits)

lemma cursor_position:
  assumes "delivery_ok cfg s" and "mget (dl_cursors s) c = Some r" "cr_fromNodeId r = None"
    and "mget (dl_logs s) (cr_sessionId r) = Some log"
  shows "-1 \<le> cr_position r" "cr_position r < int (length log)"
proof -
  have "cursor_ok s c r" using assms(1,2) by (simp add: delivery_ok_def delivery_inv_def)
  then show "-1 \<le> cr_position r" "cr_position r < int (length log)" using assms(3,4) by (auto simp: cursor_ok_def)
qed

lemma resumed_ok:
  assumes ok: "delivery_ok cfg s" and i: "known_id cfg s i" "sent_to s i = []" "mget (dl_subscriptions s) i = None"
    and v: "view_events s session node = Inr events"
    and r: "resumable s session node c = Some r"
    and res: "subscribe_resumed now connection i session node events activity c r s = (s', res)"
  shows "delivery_ok cfg s' \<and> (\<forall>x. res = Inr x \<longrightarrow> res_subscriptionId x = i \<and>
    (\<exists>u. mget (dl_subscriptions s') i = Some u \<and> map fst (o_bufferedEvents u) = drop (nat (cr_position r + 1)) events))"
proof -
  let ?p = "cr_position r"
  let ?s1 = "s\<lparr>dl_cursors := mput (dl_cursors s) c (r\<lparr>cr_subscriptionId := i\<rparr>)\<rparr>"
  let ?u = "new_subscription now connection i session node None None events activity (Some ?p) (Some c)"
  let ?tail = "drop (nat (?p + 1)) events"
  obtain u1 s2 where f: "foldl (\<lambda>st (offset, event). bufferSnapshotEvent now event (?p + 1 + int offset) st)
      (?u, put_owned ?u ?s1) (indexed ?tail) = (u1, s2)" by fastforce
  have c: "mget (dl_cursors s) c = Some r" and rn: "cr_sessionId r = session" "cr_fromNodeId r = node"
    using r by (auto simp: resumable_def split: option.splits if_splits)
  have q1: "quiet s ?s1" using c by (auto simp: quiet_def same_slot_def length_mput)
  have id: "o_id ?u = i" by (simp add: new_subscription_def)
  have "delivery_inv cfg {} (\<lambda>i. mget (dl_logs s)) ?s1" by (rule quiet_inv [OF ok [unfolded delivery_ok_def] q1])
  then have inv1: "delivery_inv cfg {o_id ?u} (\<lambda>i. mget (dl_logs s)) ?s1" by (rule delivery_inv_mono) auto
  have known1: "known_id cfg ?s1 (o_id ?u)" using i(1) id by (simp add: known_id_def)
  note inv2 = put_stale [OF inv1 known1]
  have new: "\<not> o_invalidated ?u" "o_bufferedEvents ?u = []" "o_bufferedEventBytes ?u = 0"
    by (simp_all add: new_subscription_def)
  note fold = resume_fold [OF inv_wf [OF inv2] new f]
  have q: "quiet (put_owned ?u ?s1) s2" and i1: "o_id u1 = i" using fold id by simp_all
  note qf = quiet_fields [OF q, simplified]
  have inv3: "delivery_inv cfg {o_id u1} (\<lambda>i. mget (dl_logs s)) s2" using quiet_inv [OF inv2 q] i1 id by simp
  have known3: "known_id cfg s2 (o_id u1)" using known_later [OF known1, of s2] q id i1 by (simp add: quiet_def)
  show ?thesis
  proof (cases "o_invalidated u1")
    case True
    then have "s' = drop_subscription i (put_owned u1 s2)" "\<forall>x. res \<noteq> Inr x"
      using res f by (auto simp: subscribe_resumed_def Let_def)
    moreover have "delivery_inv cfg {} (\<lambda>i. mget (dl_logs s)) (drop_subscription i (put_owned u1 s2))"
      using drop_stale put_stale [OF inv3 known3] i1 by simp
    ultimately show ?thesis by (simp add: delivery_ok_def drop_subscription_def qf(1))
  next
    case False
    then have u1: "u1 = ?u\<lparr>o_bufferedEvents := tail_events ?p ?tail, o_bufferedEventBytes := sum_list (map event_size ?tail)\<rparr>"
      and lim: "length ?tail \<le> MAX_SNAPSHOT_TAIL_EVENTS" "sum_list (map event_size ?tail) \<le> MAX_SNAPSHOT_TAIL_BYTES"
      using fold by simp_all
    have s': "s' = put_owned u1 s2" "\<forall>x. res = Inr x \<longrightarrow> res_subscriptionId x = i"
      using res f False by (auto simp: subscribe_resumed_def Let_def)
    have "follows [] log u1" if "node = None" "mget (dl_logs s) session = Some log" for log
    proof -
      have log: "events = log" using v that by (simp add: view_whole)
      have p: "-1 \<le> ?p" "?p < int (length log)" using cursor_position [OF ok c] rn that by auto
      define k where "k = nat (?p + 1)"
      have k: "?p + 1 = int k" "k \<le> length log" using p by (auto simp: k_def)
      have up: "[k..<length log] = map (\<lambda>j. j + k) [0..<length log - k]"
        using map_add_upt [of k "length log - k"] k(2) by simp
      have "map snd (tail_events ?p ?tail) = map int [k..<length log]"
        unfolding tail_events_facts k log k_def [symmetric] up by (simp add: add.commute)
      then show ?thesis using k
        by (simp add: follows_def u1 new_subscription_def tail_events_facts log flip: k_def)
          (rule exI [of _ k], simp)
    qed
    then have "stream_ok s2 (mget (dl_logs s)) u1"
      using i lim v by (intro stream_new)
        (auto simp: u1 new_subscription_def qf sent_to_def within_limits_def tail_events_facts view_whole
          MAX_SNAPSHOT_TAIL_EVENTS_def split: option.splits)
    then have "delivery_inv cfg {} (\<lambda>i. mget (dl_logs s)) s'" unfolding s'(1) by (rule put_inv [OF inv3 _ known3])
    moreover have "mget (dl_subscriptions s') i = Some u1" using s'(1) i1 by simp
    moreover have "map fst (o_bufferedEvents u1) = ?tail" by (simp add: u1 tail_events_facts)
    moreover have "dl_logs s' = dl_logs s" using s'(1) qf(1) by simp
    ultimately show ?thesis using s'(2) by (auto simp: delivery_ok_def)
  qed
qed

lemma snapshot_ok:
  assumes ok: "delivery_ok cfg s" and i: "known_id cfg s i" "sent_to s i = []"
    and v: "view_events s session node = Inr events"
    and res: "subscribe_snapshot cfg now connection i session node events activity s = (s', res)"
  shows "delivery_ok cfg s'"
proof -
  obtain sid s1 where f: "fresh_id cfg s = (sid, s1)" by fastforce
  note one = fresh_facts [OF ok f]
  obtain c s2 where cr: "createCursor cfg now i session node (int (length events) - 1) s1 = (c, s2)" by fastforce
  have lg: "dl_logs s1 = dl_logs s" by (rule quiet_fields [OF one(1)])
  have "in_log s1 node session (int (length events) - 1)" using v by (auto simp: in_log_def lg view_whole)
  note two = create_inv [OF one(2) [unfolded delivery_ok_def] cr this]
  have ok2: "delivery_ok cfg s2" using two(1,2) by (simp add: delivery_ok_def)
  let ?u = "new_subscription now connection i session node (Some c) (Some sid) events activity None None"
  have id: "o_id ?u = i" by (simp add: new_subscription_def)
  have "known_id cfg s1 i" using known_later [OF i(1)] one(1) by (simp add: quiet_def)
  then have known: "known_id cfg s2 i" using known_later two(8) by blast
  have "sent_to s2 i = []" using i(2) two(4) quiet_fields(3) [OF one(1)] by (simp add: sent_to_def)
  then have str: "stream_ok s2 (mget (dl_logs s2)) ?u"
    using v by (intro stream_new)
      (auto simp: new_subscription_def within_limits_def MAX_SNAPSHOT_TAIL_EVENTS_def view_whole two(2) lg follows_def
        split: option.splits)
  have ok3: "delivery_ok cfg (put_owned ?u s2)" using ok_put [OF ok2 _ str] known id by simp
  show ?thesis
  proof (cases "buildSnapshotPage cfg ?u 0 (put_owned ?u s2)")
    case (Inl e)
    then show ?thesis using res ok3 by (auto simp: subscribe_snapshot_def f cr Let_def)
  next
    case (Inr y)
    then obtain u1 s4 page where b: "buildSnapshotPage cfg ?u 0 (put_owned ?u s2) = Inr (u1, s4, page)" by (cases y) auto
    note e = build_page_effect [OF b]
    have "stream_ok s4 L ?u = stream_ok (put_owned ?u s2) L ?u" for L by (rule stream_ok_cong) (rule quiet_fields(4) [OF e(1)])
    then have "stream_ok s4 (mget (dl_logs s4)) u1" using e(3) str quiet_fields(1) [OF e(1)] by simp
    moreover have "known_id cfg s4 (o_id u1)" using known_later [of cfg "put_owned ?u s2" i s4] e known id by (simp add: quiet_def)
    ultimately have "delivery_ok cfg (put_owned (u1\<lparr>o_finalPageServed := pg_complete page\<rparr>) s4)"
      by (intro ok_put ok_quiet [OF ok3 e(1)]) simp_all
    then show ?thesis using res b by (auto simp: subscribe_snapshot_def f cr Let_def)
  qed
qed

lemma subscribe_ok:
  assumes ok: "delivery_ok cfg s" and res: "subscribe cfg now connection session node after activity s = (s', res)"
  shows "delivery_ok cfg s'"
proof -
  obtain i s1 where f: "fresh_id cfg s = (i, s1)" by fastforce
  note one = fresh_facts [OF ok f]
  show ?thesis
  proof (cases "view_events s1 session node")
    case (Inl e)
    then show ?thesis using res one(2) by (auto simp: subscribe_def f)
  next
    case (Inr events)
    show ?thesis
    proof (cases after)
      case None
      then show ?thesis using snapshot_ok [OF one(2-4) Inr] res Inr by (simp add: subscribe_def f)
    next
      case (Some c)
      let ?s2 = "pruneCursors now s1"
      have q: "quiet s1 ?s2" by (rule quiet_prune [OF ok_wf(1) [OF one(2)]])
      note qf = quiet_fields [OF q]
      have ok2: "delivery_ok cfg ?s2" by (rule ok_quiet [OF one(2) q])
      have "view_events ?s2 session node = Inr events" using Inr by (simp add: view_events_def qf)
      moreover have "known_id cfg ?s2 i" using known_later [OF one(3)] q by (simp add: quiet_def)
      ultimately show ?thesis using resumed_ok [OF ok2] res Inr Some one(4,5) ok2
        by (auto simp: subscribe_def f Let_def qf split: option.splits)
    qed
  qed
qed

lemma publish_ok:
  assumes ok: "delivery_ok cfg s"
  shows "delivery_ok cfg (publish_event cfg now session event s)"
proof (cases "mget (dl_logs s) session")
  case None
  then show ?thesis using ok by (simp add: publish_event_def)
next
  case (Some log)
  let ?logs = "mput (dl_logs s) session (log @ [event])"
  let ?s = "s\<lparr>dl_logs := ?logs\<rparr>"
  have "cursor_ok ?s c r" if "cursor_ok s c r" for c r
    using that Some by (auto simp: cursor_ok_def nth_append)
  moreover have "stream_ok ?s L v = stream_ok s L v" for L v by (rule stream_ok_cong) simp
  moreover have "ids_ok cfg ?s = ids_ok cfg s" by (simp add: ids_ok_def used_ids_def)
  ultimately have inv: "delivery_inv cfg {} (\<lambda>i. mget (dl_logs s)) ?s" using ok by (simp add: delivery_ok_def delivery_inv_def)
  from for_owned_inv [OF on_event_good [OF Some refl] inv] show ?thesis
    using Some by (simp add: publish_event_def delivery_ok_def)
qed

lemma loop_ok:
  assumes "delivery_ok cfg s" and "good_update cfg cond f (dl_logs s) (mget (dl_logs s)) (mget (dl_logs s))"
  shows "delivery_ok cfg (for_owned cond f s)"
  using for_owned_inv [OF assms(2) assms(1) [unfolded delivery_ok_def] refl] by (simp add: delivery_ok_def)

lemma open_ok:
  assumes ok: "delivery_ok cfg s" and "mget (dl_logs s) session = None"
  shows "delivery_ok cfg (s\<lparr>dl_logs := mput (dl_logs s) session events\<rparr>)"
proof -
  let ?s = "s\<lparr>dl_logs := mput (dl_logs s) session events\<rparr>"
  have "cursor_ok ?s c r" if "cursor_ok s c r" for c r using that assms(2) by (auto simp: cursor_ok_def)
  moreover have "stream_ok ?s (mget (dl_logs ?s)) v" if "stream_ok s (mget (dl_logs s)) v" for v
    using that assms(2) by (auto simp: stream_ok_def)
  moreover have "ids_ok cfg ?s = ids_ok cfg s" by (simp add: ids_ok_def used_ids_def)
  ultimately show ?thesis using ok by (auto simp: delivery_ok_def delivery_inv_def)
qed

lemma call_ok: "delivery_ok cfg s \<Longrightarrow> delivery_ok cfg (deliver_call cfg s (now, call))"
proof (cases call)
  case (CallSubscribe connection session node after activity)
  then show "delivery_ok cfg s \<Longrightarrow> ?thesis" by (metis deliver_call.simps(2) prod.collapse subscribe_ok)
next
  case (CallSweep connection)
  show ?thesis if ok: "delivery_ok cfg s" unfolding CallSweep deliver_call.simps sweep_def
    by (rule loop_ok [OF ok_quiet [OF ok quiet_prune [OF ok_wf(1) [OF ok]]]]) (rule sweep_good, simp)
qed (auto simp: mhas_def open_ok snapshotPage_ok acknowledge_ok unsubscribe_ok publish_ok disconnect_ok
    publish_activity_def activateReadySubscriptions_def intro!: loop_ok on_activity_good activate_good)

lemma new_delivery_ok: "inj (cfg_uuid cfg) \<Longrightarrow> delivery_ok cfg new_delivery"
  by (simp add: delivery_ok_def delivery_inv_def new_delivery_def ids_ok_def used_ids_def wires_def mkeys_def)

lemma reachable_ok:
  assumes "inj (cfg_uuid cfg)"
  shows "delivery_ok cfg (foldl (deliver_call cfg) new_delivery calls)"
  by (induction calls rule: rev_induct) (auto simp: new_delivery_ok [OF assms] intro: call_ok)

end
