(* ===== verification/Delivery_Properties.thy ===== *)
theory Delivery_Properties
  imports Delivery_Invariant Event_Log
begin

text \<open>
  What the delivery service guarantees: events arrive in order and complete, a client resumes right after
  the event it acknowledged, snapshots are read page by page within the limits, what is kept is bounded.
\<close>

section \<open>The guarantees\<close>


text \<open>
  C11: a client that lost its connection and subscribes again behind the cursor of an event it was sent
  gets, when the daemon grants that, exactly the events that follow this event in the log.
\<close>

theorem resume_continues:
  assumes "inj (cfg_uuid cfg)" and "s = foldl (deliver_call cfg) new_delivery calls"
    and "w \<in> set (wires s)"
    and "subscribe cfg now connection session None (Some (we_cursor w)) activity s = (s', Inr x)"
  shows "\<exists>log k u. mget (dl_logs s) session = Some log \<and> k < length log \<and> log ! k = we_event w \<and>
    we_sessionId w = session \<and> mget (dl_subscriptions s') (res_subscriptionId x) = Some u \<and>
    map fst (o_bufferedEvents u) = drop (k + 1) log"
proof -
  have ok: "delivery_ok cfg s" using reachable_ok [OF assms(1)] assms(2) by simp
  obtain i s1 where f: "fresh_id cfg s = (i, s1)" by fastforce
  note one = fresh_facts [OF ok f]
  let ?s2 = "pruneCursors now s1" and ?c = "we_cursor w"
  have q: "quiet s1 ?s2" by (rule quiet_prune [OF ok_wf(1) [OF one(2)]])
  note qf = quiet_fields [OF quiet_trans [OF one(1) q]]
  have ok2: "delivery_ok cfg ?s2" by (rule ok_quiet [OF one(2) q])
  obtain log where v: "view_events s1 session None = Inr log" using assms(4)
    by (cases "view_events s1 session None") (simp_all add: subscribe_def f)
  then have log: "mget (dl_logs s) session = Some log" and v2: "view_events ?s2 session None = Inr log"
    by (simp_all add: view_whole qf quiet_fields [OF one(1)])
  obtain r where r: "resumable ?s2 session None ?c = Some r" using assms(4)
    by (cases "resumable ?s2 session None ?c") (simp_all add: subscribe_def f v Let_def)
  have sub: "subscribe_resumed now connection i session None log activity ?c r ?s2 = (s', Inr x)"
    using assms(4) by (simp add: subscribe_def f v r Let_def)
  have "known_id cfg ?s2 i" using known_later [OF one(3)] q by (simp add: quiet_def)
  moreover have "sent_to ?s2 i = []" "mget (dl_subscriptions ?s2) i = None"
    using one(4,5) quiet_fields [OF q] by simp_all
  ultimately obtain u where u: "mget (dl_subscriptions s') (res_subscriptionId x) = Some u"
      "map fst (o_bufferedEvents u) = drop (nat (cr_position r + 1)) log"
    using resumed_ok [OF ok2 _ _ _ v2 r sub] by auto
  have c: "mget (dl_cursors ?s2) ?c = Some r" "cr_sessionId r = session" "cr_fromNodeId r = None"
    using r by (auto simp: resumable_def split: option.splits if_splits)
  have "cursor_ok ?s2 ?c r" using ok2 c(1) by (simp add: delivery_ok_def delivery_inv_def)
  then have "0 \<le> cr_position r" "cr_position r < int (length log)" "log ! nat (cr_position r) = we_event w" "we_sessionId w = session"
    using assms(3) log c by (auto simp: cursor_ok_def qf)
  then show ?thesis using u log by (intro exI [of _ log] exI [of _ "nat (cr_position r)"] exI [of _ u]) (auto simp: nat_add_distrib)
qed

text \<open>
  C36: what the service keeps is bounded. In every reachable state there are at most 16384 cursors, and a
  subscription holds at most 1024 events and 1024 frames of activity, at most 4 MiB of events.
\<close>

theorem delivery_bounded:
  assumes "inj (cfg_uuid cfg)" and "s = foldl (deliver_call cfg) new_delivery calls"
  shows "length (dl_cursors s) \<le> 16384 \<and> (\<forall>i u. mget (dl_subscriptions s) i = Some u \<longrightarrow>
    length (o_bufferedEvents u) \<le> 1024 \<and> length (o_bufferedActivity u) \<le> 1024 \<and>
    sum_list (map (\<lambda>b. event_size (fst b)) (o_bufferedEvents u)) \<le> 4194304)"
proof -
  have ok: "delivery_ok cfg s" using reachable_ok [OF assms(1)] assms(2) by simp
  have "within_limits u" if "mget (dl_subscriptions s) i = Some u" for i u
    using ok_stream(1) [OF ok that] by (simp add: stream_ok_def)
  then have "\<forall>i u. mget (dl_subscriptions s) i = Some u \<longrightarrow>
    length (o_bufferedEvents u) \<le> 1024 \<and> length (o_bufferedActivity u) \<le> 1024 \<and>
    sum_list (map (\<lambda>b. event_size (fst b)) (o_bufferedEvents u)) \<le> 4194304"
    by (fastforce simp: within_limits_def MAX_SNAPSHOT_TAIL_EVENTS_def MAX_SNAPSHOT_TAIL_BYTES_def)
  moreover have "length (dl_cursors s) \<le> 16384" using ok
    by (simp add: delivery_ok_def delivery_inv_def MAX_EVENT_CURSORS_def)
  ultimately show ?thesis by blast
qed

section \<open>Snapshot pages\<close>

lemma page_loop_Cons:
  assumes "page_loop events bytes (event # rest) = Inr page"
  obtains (stop) "page = events" "events \<noteq> []"
  | (more_events) "length events < MAX_SNAPSHOT_PAGE_EVENTS" "event_size event \<le> MAX_SNAPSHOT_PAGE_BYTES"
      "events = [] \<or> bytes + event_size event \<le> MAX_SNAPSHOT_PAGE_BYTES"
      "page_loop (events @ [event]) (bytes + event_size event) rest = Inr page"
  using assms by (fastforce simp: MAX_SNAPSHOT_PAGE_EVENTS_def split: if_splits)

lemma page_loop_take:
  "page_loop events bytes rest = Inr page \<Longrightarrow> \<exists>n. page = events @ take n rest"
proof (induction rest arbitrary: events bytes)
  case (Cons event rest)
  show ?case
  proof (cases rule: page_loop_Cons [OF Cons.prems])
    case 1
    then show ?thesis by (intro exI [of _ 0]) simp
  next
    case 2
    then obtain n where "page = (events @ [event]) @ take n rest" using Cons.IH by blast
    then show ?thesis by (intro exI [of _ "Suc n"]) simp
  qed
qed simp

lemma page_loop_limits:
  "page_loop events bytes rest = Inr page \<Longrightarrow> bytes = sum_list (map event_size events) \<Longrightarrow>
     length events \<le> MAX_SNAPSHOT_PAGE_EVENTS \<Longrightarrow> bytes \<le> MAX_SNAPSHOT_PAGE_BYTES \<Longrightarrow>
     length page \<le> MAX_SNAPSHOT_PAGE_EVENTS \<and> sum_list (map event_size page) \<le> MAX_SNAPSHOT_PAGE_BYTES"
proof (induction rest arbitrary: events bytes)
  case (Cons event rest)
  show ?case
  proof (cases rule: page_loop_Cons [OF Cons.prems(1)])
    case 1
    then show ?thesis using Cons.prems by simp
  next
    case 2
    then show ?thesis using Cons.prems by (intro Cons.IH [OF 2(4)]) auto
  qed
qed simp

lemma page_loop_progress:
  assumes "page_loop [] 0 rest = Inr page" and "rest \<noteq> []"
  shows "page \<noteq> []"
proof -
  obtain event more where rest: "rest = event # more" using assms(2) by (cases rest) auto
  show ?thesis
  proof (cases rule: page_loop_Cons [OF assms(1) [unfolded rest]])
    case 2
    then show ?thesis using page_loop_take [OF 2(4)] by auto
  qed simp
qed

text \<open>The subscription that a page request finds.\<close>

definition snapshot_of :: "delivery \<Rightarrow> nat \<Rightarrow> string \<Rightarrow> owned_subscription option" where
  "snapshot_of s connection snapshotId =
     find (\<lambda>u. o_connection u = connection \<and> o_snapshotId u = Some snapshotId) (mvals (dl_subscriptions s))"

lemma find_replaced:
  assumes "\<And>i w. (i, w) \<in> set m \<Longrightarrow> f w = i" and "find P (mvals m) = Some u" and "mget m k = Some u" and "P v"
  shows "find P (mvals (mput m k v)) = Some v"
  using assms
proof (induction m)
  case (Cons p m)
  obtain k' u' where p: "p = (k', u')" by fastforce
  show ?case
  proof (cases "k' = k")
    case True
    then show ?thesis using Cons.prems(4) by (simp add: p mvals_def mput_def)
  next
    case False
    then have m: "mget m k = Some u" using Cons.prems(3) by (simp add: p)
    then have "f u = k" using Cons.prems(1) [of k u] mget_in by fastforce
    moreover have "f u' = k'" using Cons.prems(1) [of k' u'] p by simp
    ultimately have "u' \<noteq> u" using False by auto
    show ?thesis
    proof (cases "P u'")
      case True
      then show ?thesis using Cons.prems(2) \<open>u' \<noteq> u\<close> by (simp add: p mvals_def)
    next
      case False
      then show ?thesis using Cons m \<open>k' \<noteq> k\<close> by (simp add: p mvals_def mput_def)
    qed
  qed
qed simp

lemma snapshot_put:
  assumes ok: "delivery_ok cfg s" and "snapshot_of s connection sid = Some u" and "o_id v = o_id u"
    and "o_connection v = connection" "o_snapshotId v = Some sid"
  shows "snapshot_of (put_owned v s) connection sid = Some v"
proof -
  have "u \<in> set (mvals (dl_subscriptions s))" using find_in [OF assms(2) [unfolded snapshot_of_def]] by simp
  then obtain i where m: "mget (dl_subscriptions s) i = Some u"
    unfolding in_mvals [OF ok_wf(2) [OF ok]] by blast
  have ids: "o_id w = j" if "(j, w) \<in> set (dl_subscriptions s)" for j w
    using ok_stream(2) [OF ok] that by (simp add: mget_member [OF ok_wf(2) [OF ok]])
  show ?thesis using find_replaced [of "dl_subscriptions s" o_id _ u "o_id u" v] ids assms(2-5) m ok_stream(2) [OF ok m]
    by (simp add: snapshot_of_def put_owned_def)
qed

lemma snapshot_owner:
  assumes "delivery_ok cfg s" and "snapshot_of s connection sid = Some u"
  shows "mget (dl_subscriptions s) (o_id u) = Some u" "o_connection u = connection" "o_snapshotId u = Some sid"
proof -
  note f = find_in [OF assms(2) [unfolded snapshot_of_def]]
  then obtain i where "mget (dl_subscriptions s) i = Some u"
    using in_mvals [OF ok_wf(2) [OF assms(1)], of u] by auto
  then show "mget (dl_subscriptions s) (o_id u) = Some u" "o_connection u = connection" "o_snapshotId u = Some sid"
    using ok_stream(2) [OF assms(1)] f by auto
qed

lemma build_page_slice:
  assumes "buildSnapshotPage cfg u start s = Inr (u', s', page)" and "start < length (o_snapshotEvents u)"
  shows "\<exists>n. pg_events page = take n (drop start (o_snapshotEvents u)) \<and> 0 < n \<and> n \<le> 5000 \<and>
    start + n \<le> length (o_snapshotEvents u) \<and> sum_list (map event_size (pg_events page)) \<le> MAX_SNAPSHOT_PAGE_BYTES \<and>
    (pg_complete page \<longleftrightarrow> start + n = length (o_snapshotEvents u)) \<and>
    (case pg_nextPageCursor page of None \<Rightarrow> pg_complete page
     | Some next \<Rightarrow> \<not> pg_complete page \<and> mget (o_pageCursors u') next = Some (start + n))"
    "o_id u' = o_id u" "o_connection u' = o_connection u" "o_snapshotId u' = o_snapshotId u"
    "o_snapshotEvents u' = o_snapshotEvents u"
proof -
  let ?evs = "o_snapshotEvents u"
  obtain events where pl: "page_loop [] 0 (drop start ?evs) = Inr events"
    using assms(1) by (cases "page_loop [] 0 (drop start ?evs)") (simp_all add: buildSnapshotPage_def bindE_def)
  let ?n = "length events"
  obtain k where k: "events = take k (drop start ?evs)" using page_loop_take [OF pl] by auto
  have ev: "events = take ?n (drop start ?evs)" by (metis k append_eq_conv_conj append_take_drop_id)
  have few: "?n \<le> length ?evs - start" using arg_cong [OF k, of length] by simp
  have n: "0 < ?n" using page_loop_progress [OF pl] assms(2) by simp
  have lim: "?n \<le> 5000" "sum_list (map event_size events) \<le> MAX_SNAPSHOT_PAGE_BYTES"
    using page_loop_limits [OF pl] by (simp_all add: MAX_SNAPSHOT_PAGE_EVENTS_def)
  have page: "pg_events page = events" "pg_complete page \<longleftrightarrow> start + ?n = length ?evs"
      "case pg_nextPageCursor page of None \<Rightarrow> pg_complete page
       | Some next \<Rightarrow> \<not> pg_complete page \<and> mget (o_pageCursors u') next = Some (start + ?n)"
    and same: "o_id u' = o_id u" "o_connection u' = o_connection u" "o_snapshotId u' = o_snapshotId u" "o_snapshotEvents u' = ?evs"
    using assms few by (auto simp: buildSnapshotPage_def bindE_def pl fresh_id_def Let_def split: if_splits)
  show "o_id u' = o_id u" "o_connection u' = o_connection u" "o_snapshotId u' = o_snapshotId u" "o_snapshotEvents u' = ?evs"
    by (fact same)+
  show "\<exists>n. pg_events page = take n (drop start ?evs) \<and> 0 < n \<and> n \<le> 5000 \<and>
    start + n \<le> length ?evs \<and> sum_list (map event_size (pg_events page)) \<le> MAX_SNAPSHOT_PAGE_BYTES \<and>
    (pg_complete page \<longleftrightarrow> start + n = length ?evs) \<and>
    (case pg_nextPageCursor page of None \<Rightarrow> pg_complete page
     | Some next \<Rightarrow> \<not> pg_complete page \<and> mget (o_pageCursors u') next = Some (start + n))"
    using ev few n lim page assms(2) by (intro exI [of _ ?n]) (simp split: option.splits)
qed


section \<open>Giving up a subscription\<close>

lemma member_release:
  "mwf (dl_cursors s) \<Longrightarrow> mget (dl_cursors (releaseSubscriptionCursors now u b s)) c = Some r \<longleftrightarrow>
     mget (dl_cursors s) c = Some r \<and> now < cr_expiresAt r \<and>
     (cr_subscriptionId r = o_id u \<longrightarrow> b \<and> Some c = o_acknowledgedCursor u)"
  by (auto simp: releaseSubscriptionCursors_def pruneCursors_def mget_filter Let_def)

lemma member_prune:
  "mwf (dl_cursors s) \<Longrightarrow> mget (dl_cursors (pruneCursors now s)) c = Some r \<longleftrightarrow>
     mget (dl_cursors s) c = Some r \<and> now < cr_expiresAt r"
  by (auto simp: pruneCursors_def mget_filter)

lemma release_all_keeps:
  "mwf (dl_cursors s) \<Longrightarrow> mget (dl_cursors s) c = Some r \<Longrightarrow> now < cr_expiresAt r \<Longrightarrow>
     (\<forall>v \<in> set us. cr_subscriptionId r = o_id v \<longrightarrow> Some c = o_acknowledgedCursor v) \<Longrightarrow>
     mget (dl_cursors (foldl (\<lambda>s u. releaseSubscriptionCursors now u True s) s us)) c = Some r"
proof (induction us arbitrary: s)
  case (Cons v us)
  have "mget (dl_cursors (releaseSubscriptionCursors now v True s)) c = Some r"
    using Cons.prems by (simp add: member_release)
  then show ?case using Cons.IH [OF quiet_wf [OF quiet_release [OF Cons.prems(1)] Cons.prems(1)]] Cons.prems(3,4) by simp
qed simp

lemma release_all_wf:
  "mwf (dl_cursors s) \<Longrightarrow> mwf (dl_cursors (foldl (\<lambda>s u. releaseSubscriptionCursors now u True s) s us))"
  by (induction us arbitrary: s) (simp_all add: quiet_wf [OF quiet_release])


section \<open>The service at work\<close>

text \<open>One client that reads an empty snapshot, follows two events and acknowledges the first.\<close>

definition ex_delivery_cfg :: delivery_config where
  "ex_delivery_cfg = \<lparr>cfg_uuid = (\<lambda>n. replicate n CHR ''x''), cfg_cursorLifetimeMs = 1000, cfg_snapshotIdleLifetimeMs = 1000,
     cfg_snapshotAbsoluteLifetimeMs = 1000\<rparr>"

lemma ex_delivery_cfg: "inj (cfg_uuid ex_delivery_cfg)"
proof (rule injI)
  fix x y assume "cfg_uuid ex_delivery_cfg x = cfg_uuid ex_delivery_cfg y"
  from arg_cong [OF this, of length] show "x = y" by (simp add: ex_delivery_cfg_def)
qed

lemma ex_event_sizes: "event_size ex_created \<le> MAX_CANONICAL_EVENT_BYTES" "event_size ex_message \<le> MAX_CANONICAL_EVENT_BYTES"
  using ex_storable by (auto simp: storable_def event_bytes_def event_size_def utf8_length_def)

definition ex_delivery_calls :: "(int \<times> delivery_call) list" where
  "ex_delivery_calls = [(0, CallOpen ''s'' []), (1, CallSubscribe 0 ''s'' None None None), (2, CallAck 0 [] ''xx''), (3, CallActivate 0),
     (4, CallPublish ''s'' ex_created), (5, CallPublish ''s'' ex_message), (6, CallAck 0 [] ''xxx'')]"

lemma evict_small: "length m < 16384 \<Longrightarrow> evict_cursors m = m"
  by (simp add: evict_cursors.simps MAX_EVENT_CURSORS_def)

lemmas delivery_eval = subscribe_def subscribe_snapshot_def fresh_id_def view_events_def createCursor_def pruneCursors_def
  evict_small new_subscription_def put_owned_def buildSnapshotPage_def bindE_def acknowledge_def
  owned_of_def assertSnapshotAvailable_def snapshot_expired_def activateReadySubscriptions_def for_owned_def update_owned_def
  ready_def activate_def mhas_def new_delivery_def ex_delivery_cfg_def mkeys_def publish_event_def listens_def on_event_def deliverEvent_def

definition ex_delivery :: delivery where
  "ex_delivery = foldl (deliver_call ex_delivery_cfg) new_delivery ex_delivery_calls"

lemma ex_delivery:
  "dl_logs ex_delivery = [(''s'', [ex_created, ex_message])]" "dl_fresh ex_delivery = 5"
  "dl_cursors ex_delivery =
     [(''xxx'', \<lparr>cr_subscriptionId = [], cr_sessionId = ''s'', cr_fromNodeId = None, cr_position = 0, cr_expiresAt = 1004,
        cr_acknowledged = True\<rparr>),
      (''xxxx'', \<lparr>cr_subscriptionId = [], cr_sessionId = ''s'', cr_fromNodeId = None, cr_position = 1, cr_expiresAt = 1005,
        cr_acknowledged = False\<rparr>)]"
  "wires ex_delivery =
     [\<lparr>we_subscriptionId = [], we_sessionId = ''s'', we_sequence = 1, we_cursor = ''xxx'', we_event = ex_created\<rparr>,
      \<lparr>we_subscriptionId = [], we_sessionId = ''s'', we_sequence = 2, we_cursor = ''xxxx'', we_event = ex_message\<rparr>]"
  by (simp_all add: ex_delivery_def ex_delivery_calls_def delivery_eval wires_def)

lemma ex_delivery_owner:
  "\<exists>u. dl_subscriptions ex_delivery = [([], u)] \<and> o_fromNodeId u = None \<and> \<not> o_invalidated u \<and> o_sessionId u = ''s'' \<and>
     o_bufferedEvents u = [] \<and> o_acknowledgedCursor u = Some ''xxx'' \<and> o_connection u = 0"
  by (simp add: ex_delivery_def ex_delivery_calls_def delivery_eval)


theorem delivery_bounded_witness: "length (dl_cursors ex_delivery) \<le> 16384"
  using delivery_bounded [OF ex_delivery_cfg ex_delivery_def] by blast

lemma ex_fifth_id: "replicate 5 c = [c, c, c, c, c]"
  by (simp add: eval_nat_numeral)

lemma ex_resumed:
  "\<exists>s' x. subscribe ex_delivery_cfg 7 1 ''s'' None (Some ''xxx'') None ex_delivery = (s', Inr x) \<and> res_subscriptionId x = ''xxxxx''"
  using ex_event_sizes(2)
  by (auto simp: ex_delivery delivery_eval resumable_def subscribe_resumed_def indexed_def bufferSnapshotEvent_def
      MAX_SNAPSHOT_TAIL_EVENTS_def MAX_SNAPSHOT_TAIL_BYTES_def MAX_CANONICAL_EVENT_BYTES_def ex_fifth_id)

theorem resume_continues_witness:
  "\<exists>s' x u. subscribe ex_delivery_cfg 7 1 ''s'' None (Some ''xxx'') None ex_delivery = (s', Inr x) \<and>
     mget (dl_subscriptions s') (res_subscriptionId x) = Some u \<and> map fst (o_bufferedEvents u) = [ex_message]"
proof -
  obtain s' x where r: "subscribe ex_delivery_cfg 7 1 ''s'' None (Some ''xxx'') None ex_delivery = (s', Inr x)"
    using ex_resumed by blast
  let ?w = "\<lparr>we_subscriptionId = [], we_sessionId = ''s'', we_sequence = 1, we_cursor = ''xxx'', we_event = ex_created\<rparr>"
  obtain log k u where "mget (dl_logs ex_delivery) ''s'' = Some log" "k < length log" "log ! k = ex_created"
      "mget (dl_subscriptions s') (res_subscriptionId x) = Some u" "map fst (o_bufferedEvents u) = drop (k + 1) log"
    using resume_continues [OF ex_delivery_cfg ex_delivery_def, of ?w 7 1 "''s''" None s' x] r by (auto simp: ex_delivery)
  moreover have "ex_message \<noteq> ex_created" by (simp add: ex_message_def ex_created_def ex_event_def)
  ultimately show ?thesis using r by (auto simp: ex_delivery less_Suc_eq)
qed


lemma page_loop_total:
  "\<forall>e \<in> set rest. event_size e \<le> MAX_SNAPSHOT_PAGE_BYTES \<Longrightarrow> \<exists>page. page_loop events bytes rest = Inr page"
  by (induction rest arbitrary: events bytes) auto

text \<open>A session of 5001 events, and a client that has read the first page of its snapshot.\<close>

definition ex_snapshot :: delivery where
  "ex_snapshot = foldl (deliver_call ex_delivery_cfg) new_delivery
     [(0, CallOpen ''s'' (replicate 5001 ex_created)), (1, CallSubscribe 0 ''s'' None None None)]"


end
