(* ===== verification/Text_Decoder.thy ===== *)
theory Text_Decoder
  imports Prelude "HOL-Library.Word"
begin

text \<open>
  What the stream readers of the provider adapters use of the language: generators, \<^verbatim>\<open>TextDecoder\<close>
  and \<^verbatim>\<open>TextEncoder\<close>. A text is
  the list of its code points, so that the replacement character and every other character that a
  provider may send can be told apart. \<open>utf8_step\<close> is the state machine of the encoding standard,
  one byte at a time; a decoder that streams keeps the state between calls and drops one leading
  byte order mark. The theorems: decoding in pieces is decoding at once, and decoding gives back
  an encoded text.
\<close>

type_synonym octets = "8 word list"
type_synonym code_points = "nat list"

definition points :: "string \<Rightarrow> code_points" where
  "points s = map of_char s"

section \<open>Generators\<close>

text \<open>
  A generator's outcome is what it yields and then the error it throws or the state it returns in;
  \<open>gen_bind\<close> is \<^verbatim>\<open>yield*\<close> followed by the rest of the body.
\<close>

definition gen_bind :: "'a list \<times> ('e + 's) \<Rightarrow> ('s \<Rightarrow> 'a list \<times> ('e + 't)) \<Rightarrow> 'a list \<times> ('e + 't)" where
  "gen_bind m k = (case snd m of
       Inl e \<Rightarrow> (fst m, Inl e)
     | Inr s \<Rightarrow> (let (out, r) = k s in (fst m @ out, r)))"

lemma gen_bind_cong [fundef_cong]:
  "m = m' \<Longrightarrow> (\<And>s. snd m' = Inr s \<Longrightarrow> k s = k' s) \<Longrightarrow> gen_bind m k = gen_bind m' k'"
  by (auto simp: gen_bind_def split: sum.splits)

lemma gen_bind_simps [simp]:
  "gen_bind (out, Inl e) k = (out, Inl e)"
  "gen_bind ([], Inr s) k = k s"
  "gen_bind m (\<lambda>s. ([], Inr s)) = m"
  by (auto simp: gen_bind_def split: sum.splits prod.splits) (metis prod.collapse)+

lemma gen_bind_assoc: "gen_bind (gen_bind m k) k' = gen_bind m (\<lambda>s. gen_bind (k s) k')"
  by (auto simp: gen_bind_def split: sum.splits prod.splits)

section \<open>The decoder\<close>

datatype utf8_state = Utf8State (utf8_point: nat) (utf8_needed: nat) (utf8_lower: nat) (utf8_upper: nat)

definition utf8_ground :: utf8_state where
  "utf8_ground = Utf8State 0 0 128 191"

definition replacement_point :: nat where "replacement_point = 65533"
definition byte_order_mark :: nat where "byte_order_mark = 65279"

text \<open>A byte read with no sequence open.\<close>

definition utf8_lead :: "nat \<Rightarrow> utf8_state \<times> code_points" where
  "utf8_lead b =
     (if b < 128 then (utf8_ground, [b])
      else if 194 \<le> b \<and> b \<le> 223 then (Utf8State (b mod 32) 1 128 191, [])
      else if 224 \<le> b \<and> b \<le> 239 then
        (Utf8State (b mod 16) 2 (if b = 224 then 160 else 128) (if b = 237 then 159 else 191), [])
      else if 240 \<le> b \<and> b \<le> 244 then
        (Utf8State (b mod 8) 3 (if b = 240 then 144 else 128) (if b = 244 then 143 else 191), [])
      else (utf8_ground, [replacement_point]))"

text \<open>A byte that cannot continue the open sequence replaces it and is read again.\<close>

fun utf8_step :: "utf8_state \<Rightarrow> nat \<Rightarrow> utf8_state \<times> code_points" where
  "utf8_step (Utf8State p n lo hi) b =
     (if n = 0 then utf8_lead b
      else if b < lo \<or> hi < b then
        (let (s, out) = utf8_lead b in (s, replacement_point # out))
      else if n = 1 then (utf8_ground, [p * 64 + b mod 64])
      else (Utf8State (p * 64 + b mod 64) (n - 1) 128 191, []))"

fun utf8_run :: "utf8_state \<Rightarrow> octets \<Rightarrow> utf8_state \<times> code_points" where
  "utf8_run s [] = (s, [])"
| "utf8_run s (b # bs) =
     (let (s', out) = utf8_step s (unat b); (s'', out') = utf8_run s' bs in (s'', out @ out'))"

definition utf8_flush :: "utf8_state \<Rightarrow> code_points" where
  "utf8_flush s = (if utf8_needed s = 0 then [] else [replacement_point])"

text \<open>
  A \<^verbatim>\<open>TextDecoder\<close> between calls: the state of the machine and whether the first character has
  been seen. \<open>stream_decode\<close> is \<^verbatim>\<open>decode(chunk, { stream: true })\<close>, \<open>finish_decode\<close> the closing
  \<^verbatim>\<open>decode()\<close>, \<open>text_decode\<close> a single call \<^verbatim>\<open>decode(bytes)\<close>.
\<close>

record text_decoder =
  td_state :: utf8_state
  td_started :: bool

definition new_decoder :: text_decoder where
  "new_decoder = \<lparr>td_state = utf8_ground, td_started = False\<rparr>"

definition drop_mark :: "bool \<Rightarrow> code_points \<Rightarrow> code_points" where
  "drop_mark started ps = (if \<not> started \<and> ps \<noteq> [] \<and> hd ps = byte_order_mark then tl ps else ps)"

definition stream_decode :: "text_decoder \<Rightarrow> octets \<Rightarrow> text_decoder \<times> code_points" where
  "stream_decode d bs =
     (let (s, ps) = utf8_run (td_state d) bs
      in (\<lparr>td_state = s, td_started = (td_started d \<or> ps \<noteq> [])\<rparr>, drop_mark (td_started d) ps))"

definition finish_decode :: "text_decoder \<Rightarrow> code_points" where
  "finish_decode d = drop_mark (td_started d) (utf8_flush (td_state d))"

definition text_decode :: "octets \<Rightarrow> code_points" where
  "text_decode bs = (let (d, ps) = stream_decode new_decoder bs in ps @ finish_decode d)"

section \<open>The encoder\<close>

text \<open>A scalar value is a code point that is not a surrogate; a decoder produces nothing else.\<close>

definition scalar_value :: "nat \<Rightarrow> bool" where
  "scalar_value p \<longleftrightarrow> p < 55296 \<or> 57344 \<le> p \<and> p < 1114112"

definition point_bytes :: "nat \<Rightarrow> nat list" where
  "point_bytes p =
     (if p < 128 then [p]
      else if p < 2048 then [192 + p div 64, 128 + p mod 64]
      else if p < 65536 then [224 + p div 4096, 128 + p div 64 mod 64, 128 + p mod 64]
      else [240 + p div 262144, 128 + p div 4096 mod 64, 128 + p div 64 mod 64, 128 + p mod 64])"

definition text_encode :: "code_points \<Rightarrow> octets" where
  "text_encode ps = concat (map (\<lambda>p. map of_nat (point_bytes p)) ps)"

text \<open>\<^verbatim>\<open>new TextEncoder().encode(value).byteLength\<close>\<close>

definition byteLength :: "code_points \<Rightarrow> nat" where
  "byteLength ps = sum_list (map (\<lambda>p. length (point_bytes p)) ps)"

section \<open>Decoding in pieces\<close>

lemma utf8_run_append:
  "utf8_run s (xs @ ys) =
     (let (s', out) = utf8_run s xs; (s'', out') = utf8_run s' ys in (s'', out @ out'))"
  by (induction xs arbitrary: s) (simp_all add: Let_def split: prod.splits)

lemma drop_mark_append:
  "drop_mark d (ps @ qs) = drop_mark d ps @ drop_mark (d \<or> ps \<noteq> []) qs"
  by (cases ps) (simp_all add: drop_mark_def)

lemma stream_decode_append:
  "stream_decode d (xs @ ys) =
     (let (d', out) = stream_decode d xs; (d'', out') = stream_decode d' ys in (d'', out @ out'))"
  by (auto simp: stream_decode_def utf8_run_append drop_mark_append Let_def split: prod.splits)

lemma stream_decode_Nil [simp]: "stream_decode d [] = (d, [])"
  by (simp add: stream_decode_def drop_mark_def)

lemma byteLength_simps [simp]:
  "byteLength [] = 0"
  "byteLength (p # ps) = length (point_bytes p) + byteLength ps"
  "byteLength (ps @ qs) = byteLength ps + byteLength qs"
  by (simp_all add: byteLength_def)

lemma text_encode_simps [simp]:
  "text_encode [] = []"
  "text_encode (p # ps) = map of_nat (point_bytes p) @ text_encode ps"
  "text_encode (ps @ qs) = text_encode ps @ text_encode qs"
  by (simp_all add: text_encode_def)

lemma length_text_encode: "length (text_encode ps) = byteLength ps"
  by (induction ps) simp_all

lemma point_bytes_nonempty: "1 \<le> length (point_bytes p)"
  by (simp add: point_bytes_def)

lemma byteLength_ge: "length ps \<le> byteLength ps"
proof (induction ps)
  case (Cons p ps)
  then show ?case using point_bytes_nonempty [of p] by simp
qed simp

section \<open>Decoding an encoded text\<close>

lemma point_bytes_octet: "scalar_value p \<Longrightarrow> b \<in> set (point_bytes p) \<Longrightarrow> b < 256"
  by (auto simp: scalar_value_def point_bytes_def split: if_splits)

lemma unat_octet: "b < 256 \<Longrightarrow> unat (of_nat b :: 8 word) = b"
  by (simp add: unat_of_nat)

fun utf8_steps :: "utf8_state \<Rightarrow> nat list \<Rightarrow> utf8_state \<times> code_points" where
  "utf8_steps s [] = (s, [])"
| "utf8_steps s (b # bs) =
     (let (s', out) = utf8_step s b; (s'', out') = utf8_steps s' bs in (s'', out @ out'))"

lemma utf8_run_steps: "\<forall>b \<in> set bs. b < 256 \<Longrightarrow> utf8_run s (map of_nat bs) = utf8_steps s bs"
  by (induction bs arbitrary: s) (simp_all add: unat_octet)

lemma octet_digits:
  fixes q :: nat
  shows "q < 32 \<Longrightarrow> (192 + q) mod 32 = q"
    and "q < 16 \<Longrightarrow> (224 + q) mod 16 = q"
    and "q < 8 \<Longrightarrow> (240 + q) mod 8 = q"
    and "q < 64 \<Longrightarrow> (128 + q) mod 64 = q"
  using mod_mult_self4 [of 32 6 q] mod_mult_self4 [of 16 14 q] mod_mult_self4 [of 8 30 q]
    mod_mult_self4 [of 64 2 q] by simp_all

text \<open>The three shapes of a longer sequence, over the digits that its bytes carry.\<close>

lemma two_bytes:
  assumes "2 \<le> a" "a < 32" "b < 64"
  shows "utf8_steps utf8_ground [192 + a, 128 + b] = (utf8_ground, [a * 64 + b])"
  using assms by (simp add: utf8_ground_def utf8_lead_def octet_digits)

lemma three_bytes:
  assumes "a < 16" "b < 64" "c < 64" "a = 0 \<longrightarrow> 32 \<le> b" "a = 13 \<longrightarrow> b < 32"
  shows "utf8_steps utf8_ground [224 + a, 128 + b, 128 + c] = (utf8_ground, [(a * 64 + b) * 64 + c])"
  using assms by (auto simp add: utf8_ground_def utf8_lead_def octet_digits)

lemma four_bytes:
  assumes "a < 5" "b < 64" "c < 64" "d < 64" "a = 0 \<longrightarrow> 16 \<le> b" "a = 4 \<longrightarrow> b < 16"
  shows "utf8_steps utf8_ground [240 + a, 128 + b, 128 + c, 128 + d] =
     (utf8_ground, [((a * 64 + b) * 64 + c) * 64 + d])"
  using assms by (auto simp add: utf8_ground_def utf8_lead_def octet_digits)

lemma digits_2: "(p div 64) * 64 + p mod 64 = (p :: nat)"
  by simp

lemma digits_3: "(p div 4096 * 64 + p div 64 mod 64) * 64 + p mod 64 = (p :: nat)"
proof -
  have "p div 4096 = p div 64 div 64" by (simp add: div_mult2_eq [symmetric])
  then have "p div 4096 * 64 + p div 64 mod 64 = p div 64" by simp
  then show ?thesis by simp
qed

lemma digits_4:
  "((p div 262144 * 64 + p div 4096 mod 64) * 64 + p div 64 mod 64) * 64 + p mod 64 = (p :: nat)"
proof -
  have "p div 262144 = p div 4096 div 64" by (simp add: div_mult2_eq [symmetric])
  then have "p div 262144 * 64 + p div 4096 mod 64 = p div 4096" by simp
  then show ?thesis using digits_3 [of p] by simp
qed

lemma point_2:
  assumes "128 \<le> p" "p < 2048"
  shows "utf8_steps utf8_ground [192 + p div 64, 128 + p mod 64] = (utf8_ground, [p])"
proof -
  have "2 \<le> p div 64" using div_le_mono [OF assms(1), of 64] by simp
  moreover have "p div 64 < 32" using assms by (simp add: div_less_iff_less_mult)
  ultimately show ?thesis using two_bytes [of "p div 64" "p mod 64"] by (simp only: digits_2)
qed

lemma point_3:
  assumes "2048 \<le> p" "p < 65536" "scalar_value p"
  shows "utf8_steps utf8_ground [224 + p div 4096, 128 + p div 64 mod 64, 128 + p mod 64] =
     (utf8_ground, [p])"
proof -
  define a b c where "a = p div 4096" and "b = p div 64 mod 64" and "c = p mod 64"
  have p: "(a * 64 + b) * 64 + c = p" by (simp only: a_def b_def c_def digits_3)
  have b: "b < 64" and c: "c < 64" by (simp_all add: b_def c_def)
  have "a < 16" using assms by (simp add: a_def div_less_iff_less_mult)
  moreover have "a = 0 \<longrightarrow> 32 \<le> b" "a = 13 \<longrightarrow> b < 32"
    using p b c assms by (auto simp: scalar_value_def)
  ultimately show ?thesis
    using three_bytes [of a b c] b c by (simp only: p) (simp only: a_def b_def c_def)
qed

lemma point_4:
  assumes "65536 \<le> p" "scalar_value p"
  shows "utf8_steps utf8_ground
     [240 + p div 262144, 128 + p div 4096 mod 64, 128 + p div 64 mod 64, 128 + p mod 64] =
     (utf8_ground, [p])"
proof -
  define a b c d where "a = p div 262144" and "b = p div 4096 mod 64" and "c = p div 64 mod 64"
    and "d = p mod 64"
  have p: "((a * 64 + b) * 64 + c) * 64 + d = p" by (simp only: a_def b_def c_def d_def digits_4)
  have small: "b < 64" "c < 64" "d < 64" by (simp_all add: b_def c_def d_def)
  have "a < 5" using assms by (auto simp: a_def scalar_value_def div_less_iff_less_mult)
  moreover have "a = 0 \<longrightarrow> 16 \<le> b" "a = 4 \<longrightarrow> b < 16"
    using p small assms by (auto simp: scalar_value_def)
  ultimately show ?thesis
    using four_bytes [of a b c d] small by (simp only: p) (simp only: a_def b_def c_def d_def)
qed

lemma utf8_point: "scalar_value p \<Longrightarrow> utf8_steps utf8_ground (point_bytes p) = (utf8_ground, [p])"
  using point_2 [of p] point_3 [of p] point_4 [of p]
  by (auto simp del: utf8_steps.simps simp add: point_bytes_def)
    (simp add: utf8_ground_def utf8_lead_def)

lemma utf8_run_encode:
  "\<forall>p \<in> set ps. scalar_value p \<Longrightarrow> utf8_run utf8_ground (text_encode ps) = (utf8_ground, ps)"
proof (induction ps)
  case (Cons p ps)
  have "utf8_run utf8_ground (map of_nat (point_bytes p)) = (utf8_ground, [p])"
    using Cons.prems by (subst utf8_run_steps) (auto simp: utf8_point dest: point_bytes_octet)
  then show ?case using Cons by (simp add: utf8_run_append)
qed simp

lemma utf8_flush_ground [simp]: "utf8_flush utf8_ground = []"
  by (simp add: utf8_flush_def utf8_ground_def)

lemma stream_decode_encode:
  assumes "\<forall>p \<in> set ps. scalar_value p" and "ps = [] \<or> hd ps \<noteq> byte_order_mark"
  shows "stream_decode new_decoder (text_encode ps) = (\<lparr>td_state = utf8_ground, td_started = (ps \<noteq> [])\<rparr>, ps)"
  using assms by (auto simp: stream_decode_def new_decoder_def utf8_run_encode drop_mark_def)

theorem text_roundtrip:
  assumes "\<forall>p \<in> set ps. scalar_value p" and "ps = [] \<or> hd ps \<noteq> byte_order_mark"
  shows "text_decode (text_encode ps) = ps"
  using assms by (simp add: text_decode_def stream_decode_encode finish_decode_def drop_mark_def)

end
