(* ===== verification/Sse.thy ===== *)
theory Sse
  imports Text_Decoder
begin

text \<open>
  Server-sent events (\<^verbatim>\<open>packages/ai/src/sse.ts\<close>): the generator that turns the chunks of a
  provider's response into frames. The variables of \<^verbatim>\<open>decodeSseStream\<close> are the buffer and the record \<open>sse_pending\<close>.

  The lemmas compare the generator with \<open>sse_lines\<close>, which reads the whole text line by line: where
  the chunk boundaries fall does not matter, what is yielded is bounded, and encoded frames come back.
\<close>

section \<open>Frames and limits\<close>

definition MAX_SSE_TOTAL_BYTES :: nat where "MAX_SSE_TOTAL_BYTES = 16 * 1024 * 1024"
definition MAX_SSE_LINE_BYTES :: nat where "MAX_SSE_LINE_BYTES = 1024 * 1024"
definition MAX_SSE_EVENT_NAME_BYTES :: nat where "MAX_SSE_EVENT_NAME_BYTES = 256"
definition MAX_SSE_DATA_LINES :: nat where "MAX_SSE_DATA_LINES = 1024"
definition MAX_SSE_FRAME_DATA_BYTES :: nat where "MAX_SSE_FRAME_DATA_BYTES = 4 * 1024 * 1024"

record sse_frame =
  frame_event :: "code_points option"
  frame_data :: code_points

datatype sse_error = ResponseLimit | PendingLimit | LineLimit | EventNameLimit | DataLinesLimit | FrameDataLimit

fun sse_message :: "sse_error \<Rightarrow> string" where
  "sse_message ResponseLimit = ''SSE response exceeds its byte limit''"
| "sse_message PendingLimit = ''SSE pending line exceeds its byte limit''"
| "sse_message LineLimit = ''SSE line exceeds its byte limit''"
| "sse_message EventNameLimit = ''SSE event name exceeds its byte limit''"
| "sse_message DataLinesLimit = ''SSE frame exceeds its data-line limit''"
| "sse_message FrameDataLimit = ''SSE frame data exceeds its byte limit''"

text \<open>The variables \<^verbatim>\<open>eventName\<close>, \<^verbatim>\<open>data\<close> and \<^verbatim>\<open>dataBytes\<close>.\<close>

record sse_pending =
  pend_event :: "code_points option"
  pend_data :: "code_points list"
  pend_bytes :: nat

definition no_pending :: sse_pending where
  "no_pending = \<lparr>pend_event = None, pend_data = [], pend_bytes = 0\<rparr>"

section \<open>One line\<close>

fun join_lines :: "code_points list \<Rightarrow> code_points" where
  "join_lines [] = []"
| "join_lines [l] = l"
| "join_lines (l # m # ls) = l @ 10 # join_lines (m # ls)"

definition strip_return :: "code_points \<Rightarrow> code_points" where
  "strip_return line = (if line \<noteq> [] \<and> last line = 13 then butlast line else line)"

definition field_name :: "code_points \<Rightarrow> code_points" where
  "field_name line = takeWhile (\<lambda>p. p \<noteq> 58) line"

definition field_value :: "code_points \<Rightarrow> code_points" where
  "field_value line =
     (let value = tl (dropWhile (\<lambda>p. p \<noteq> 58) line)
      in if value \<noteq> [] \<and> hd value = 32 then tl value else value)"

definition sse_field :: "sse_pending \<Rightarrow> code_points \<Rightarrow> code_points \<Rightarrow> sse_error + sse_pending" where
  "sse_field p field value =
     (if field = points ''event'' then
        if byteLength value > MAX_SSE_EVENT_NAME_BYTES then Inl EventNameLimit
        else Inr (p\<lparr>pend_event := Some value\<rparr>)
      else if field = points ''data'' then
        if length (pend_data p) \<ge> MAX_SSE_DATA_LINES then Inl DataLinesLimit
        else
          let dataBytes = pend_bytes p + byteLength value + (if pend_data p = [] then 0 else 1)
          in if dataBytes > MAX_SSE_FRAME_DATA_BYTES then Inl FrameDataLimit
             else Inr (p\<lparr>pend_bytes := dataBytes, pend_data := pend_data p @ [value]\<rparr>)
      else Inr p)"

definition sse_line :: "sse_pending \<Rightarrow> code_points \<Rightarrow> sse_frame list \<times> (sse_error + sse_pending)" where
  "sse_line p raw =
     (if byteLength raw > MAX_SSE_LINE_BYTES then ([], Inl LineLimit)
      else
        let line = strip_return raw
        in if line = [] then
             (if pend_data p \<noteq> []
              then [\<lparr>frame_event = pend_event p, frame_data = join_lines (pend_data p)\<rparr>] else [],
              Inr no_pending)
           else if hd line \<noteq> 58 then ([], sse_field p (field_name line) (field_value line))
           else ([], Inr p))"

section \<open>The generator\<close>

lemma after_newline_shorter: "x \<in> set b \<Longrightarrow> length (tl (dropWhile (\<lambda>c. c \<noteq> x) b)) < length b"
  by (induction b) (auto simp: less_SucI)

text \<open>\<^verbatim>\<open>drainLines\<close> returns with what is left of the buffer.\<close>

function drainLines ::
  "code_points \<Rightarrow> sse_pending \<Rightarrow> sse_frame list \<times> (sse_error + code_points \<times> sse_pending)" where
  "drainLines buffer p =
     (if 10 \<notin> set buffer then ([], Inr (buffer, p))
      else gen_bind (sse_line p (takeWhile (\<lambda>c. c \<noteq> 10) buffer))
             (\<lambda>p'. drainLines (tl (dropWhile (\<lambda>c. c \<noteq> 10) buffer)) p'))"
  by pat_completeness auto
termination
  by (relation "measure (\<lambda>(buffer, p). length buffer)")
    (auto simp del: length_tl intro: after_newline_shorter)

declare drainLines.simps [simp del]

fun sse_chunks ::
  "text_decoder \<Rightarrow> nat \<Rightarrow> code_points \<Rightarrow> sse_pending \<Rightarrow> octets list \<Rightarrow>
     sse_frame list \<times> (sse_error + code_points \<times> sse_pending)" where
  "sse_chunks d totalBytes buffer p [] = drainLines (buffer @ finish_decode d @ [10, 10]) p"
| "sse_chunks d totalBytes buffer p (chunk # chunks) =
     (if totalBytes + length chunk > MAX_SSE_TOTAL_BYTES then ([], Inl ResponseLimit)
      else
        let (d', decoded) = stream_decode d chunk; buffer' = buffer @ decoded
        in if 10 \<notin> set buffer' \<and> byteLength buffer' > MAX_SSE_LINE_BYTES then ([], Inl PendingLimit)
           else gen_bind (drainLines buffer' p)
                  (\<lambda>(rest, p'). sse_chunks d' (totalBytes + length chunk) rest p' chunks))"

definition decodeSseStream :: "octets list \<Rightarrow> sse_frame list \<times> sse_error option" where
  "decodeSseStream chunks =
     (let (frames, r) = sse_chunks new_decoder 0 [] no_pending chunks in (frames, error_of r))"

section \<open>Reading a text line by line\<close>

text \<open>
  The reference: the complete lines of a text, read in order. A stream's text ends with two line
  feeds, so that nothing is left over.
\<close>

fun split_lines :: "code_points \<Rightarrow> code_points list \<times> code_points" where
  "split_lines [] = ([], [])"
| "split_lines (c # cs) =
     (let (ls, rest) = split_lines cs
      in if c = 10 then ([] # ls, rest)
         else (case ls of [] \<Rightarrow> ([], c # rest) | l # ls' \<Rightarrow> ((c # l) # ls', rest)))"

fun sse_lines :: "sse_pending \<Rightarrow> code_points list \<Rightarrow> sse_frame list \<times> (sse_error + sse_pending)" where
  "sse_lines p [] = ([], Inr p)"
| "sse_lines p (l # ls) = gen_bind (sse_line p l) (\<lambda>p'. sse_lines p' ls)"

definition read_text :: "code_points \<Rightarrow> sse_frame list \<times> sse_error option" where
  "read_text text =
     (let (frames, r) = sse_lines no_pending (fst (split_lines (text @ [10, 10]))) in (frames, error_of r))"

lemma sse_lines_append: "sse_lines p (ls @ ms) = gen_bind (sse_lines p ls) (\<lambda>p'. sse_lines p' ms)"
  by (induction ls arbitrary: p) (simp_all add: gen_bind_assoc)

lemma split_no_newline: "10 \<notin> set t \<Longrightarrow> split_lines t = ([], t)"
  by (induction t) auto

lemma split_line: "10 \<notin> set l \<Longrightarrow> split_lines (l @ 10 # t) = (l # fst (split_lines t), snd (split_lines t))"
  by (induction l) (auto split: prod.splits)

lemma split_rest: "10 \<notin> set (snd (split_lines t))"
  by (induction t) (auto split: prod.splits list.splits)

lemma take_line: "10 \<in> set t \<Longrightarrow> takeWhile (\<lambda>c. c \<noteq> 10) t @ 10 # tl (dropWhile (\<lambda>c. c \<noteq> 10) t) = t"
  by (induction t) auto

lemma split_at_newline:
  assumes "(10 :: nat) \<in> set t"
  shows "split_lines t =
    (takeWhile (\<lambda>c. c \<noteq> 10) t # fst (split_lines (tl (dropWhile (\<lambda>c. c \<noteq> 10) t))),
     snd (split_lines (tl (dropWhile (\<lambda>c. c \<noteq> 10) t))))"
proof -
  have "10 \<notin> set (takeWhile (\<lambda>c. c \<noteq> (10 :: nat)) t)" by (auto dest: set_takeWhileD)
  from split_line [OF this, of "tl (dropWhile (\<lambda>c. c \<noteq> 10) t)"] show ?thesis
    by (simp only: take_line [OF assms])
qed

lemma split_append:
  "split_lines (t @ u) =
     (fst (split_lines t) @ fst (split_lines (snd (split_lines t) @ u)), snd (split_lines (snd (split_lines t) @ u)))"
proof (induction t)
  case (Cons c t)
  then show ?case
    by (cases "split_lines t"; cases "fst (split_lines t)"; cases "split_lines (snd (split_lines t) @ u)")
      (auto simp: Let_def split: prod.splits list.splits)
qed simp

lemma drain_lines:
  "drainLines t p =
     gen_bind (sse_lines p (fst (split_lines t))) (\<lambda>p'. ([], Inr (snd (split_lines t), p')))"
proof (induction t p rule: drainLines.induct)
  case (1 t p)
  show ?case
  proof (cases "10 \<in> set t")
    case True
    define l where "l = takeWhile (\<lambda>c. c \<noteq> 10) t"
    define u where "u = tl (dropWhile (\<lambda>c. c \<noteq> 10) t)"
    have "drainLines t p = gen_bind (sse_line p l) (\<lambda>p'. drainLines u p')"
      using True by (simp add: drainLines.simps [of t] l_def u_def)
    also have "\<dots> = gen_bind (sse_line p l)
        (\<lambda>p'. gen_bind (sse_lines p' (fst (split_lines u))) (\<lambda>p''. ([], Inr (snd (split_lines u), p''))))"
      using 1 True by (intro gen_bind_cong) (simp_all add: l_def u_def)
    finally show ?thesis
      using split_at_newline [OF True] by (simp add: gen_bind_assoc l_def u_def)
  qed (simp add: drainLines.simps [of t] split_no_newline)
qed

section \<open>Chunk boundaries do not matter\<close>

text \<open>
  A line that is too long is noticed either while it is pending or once it is complete; apart from
  that the generator yields and throws what the reference does.
\<close>

definition same_outcome :: "'a list \<times> (sse_error + 's) \<Rightarrow> 'a list \<times> (sse_error + 't) \<Rightarrow> bool" where
  "same_outcome m r \<longleftrightarrow> fst m = fst r \<and>
     (error_of (snd m) = error_of (snd r) \<or>
      error_of (snd m) = Some PendingLimit \<and> error_of (snd r) = Some LineLimit)"

definition cut_short :: "'a list \<times> (sse_error + 's) \<Rightarrow> 'a list \<times> (sse_error + 't) \<Rightarrow> bool" where
  "cut_short m r \<longleftrightarrow> prefix (fst m) (fst r) \<and> error_of (snd m) \<noteq> None"

lemma same_outcome_bind:
  assumes "\<And>s. snd m = Inr s \<Longrightarrow> same_outcome (k s) (k' s)"
  shows "same_outcome (gen_bind m k) (gen_bind m k')"
  using assms by (auto simp: same_outcome_def gen_bind_def split: sum.splits prod.splits)

lemma cut_short_bind:
  assumes "\<And>s. snd m = Inr s \<Longrightarrow> cut_short (k s) (k' s)"
  shows "cut_short (gen_bind m k) (gen_bind m k')"
  using assms by (auto simp: cut_short_def gen_bind_def split: sum.splits prod.splits)

definition decode_rest :: "text_decoder \<Rightarrow> octets list \<Rightarrow> code_points" where
  "decode_rest d chunks = (let (d', out) = stream_decode d (concat chunks) in out @ finish_decode d')"

lemma decode_rest_simps:
  "decode_rest d [] = finish_decode d"
  "stream_decode d c = (d', out) \<Longrightarrow> decode_rest d (c # cs) = out @ decode_rest d' cs"
  by (auto simp: decode_rest_def stream_decode_append split: prod.splits)

lemma overlong_line:
  assumes "10 \<notin> set t" and "byteLength t > MAX_SSE_LINE_BYTES" and "10 \<in> set u"
  shows "sse_lines p (fst (split_lines (t @ u))) = ([], Inl LineLimit)"
proof -
  have "10 \<in> set (t @ u)" using assms(3) by simp
  from split_at_newline [OF this] obtain l ls
    where split: "fst (split_lines (t @ u)) = l # ls" and l: "l = takeWhile (\<lambda>c. c \<noteq> 10) (t @ u)"
    by simp
  have "l = t @ takeWhile (\<lambda>c. c \<noteq> 10) u"
    unfolding l using assms(1) by (intro takeWhile_append2) auto
  then have "byteLength l > MAX_SSE_LINE_BYTES" using assms(2) by simp
  then show ?thesis by (simp add: split sse_line_def)
qed

lemma drain_then_more:
  "sse_lines p (fst (split_lines (t @ u))) =
     gen_bind (drainLines t p) (\<lambda>(rest, p'). sse_lines p' (fst (split_lines (rest @ u))))"
  by (subst split_append) (simp add: drain_lines sse_lines_append gen_bind_assoc)

lemma drain_rest: "snd (drainLines t p) = Inr (rest, p') \<Longrightarrow> 10 \<notin> set rest"
  using split_rest [of t] by (auto simp: drain_lines gen_bind_def split: sum.splits)

lemma last_drain:
  assumes "10 \<in> set t"
  shows "error_of (snd (drainLines t p)) = error_of (snd (sse_lines p (fst (split_lines t))))"
    and "fst (drainLines t p) = fst (sse_lines p (fst (split_lines t)))"
  by (auto simp: drain_lines gen_bind_def split: sum.splits)

lemma chunks_same_outcome:
  assumes "totalBytes + length (concat chunks) \<le> MAX_SSE_TOTAL_BYTES"
  shows "same_outcome (sse_chunks d totalBytes buffer p chunks)
           (sse_lines p (fst (split_lines (buffer @ decode_rest d chunks @ [10, 10]))))"
  using assms
proof (induction d totalBytes buffer p chunks rule: sse_chunks.induct)
  case (1 d totalBytes buffer p)
  then show ?case by (simp add: same_outcome_def decode_rest_simps last_drain)
next
  case (2 d totalBytes buffer p chunk chunks)
  obtain d' out where dec: "stream_decode d chunk = (d', out)" by (cases "stream_decode d chunk")
  have fits: "\<not> totalBytes + length chunk > MAX_SSE_TOTAL_BYTES" using 2(2) by simp
  let ?more = "decode_rest d' chunks @ [10, 10]"
  have whole: "buffer @ decode_rest d (chunk # chunks) @ [10, 10] = (buffer @ out) @ ?more"
    by (simp add: decode_rest_simps(2) [OF dec])
  show ?case
  proof (cases "10 \<notin> set (buffer @ out) \<and> byteLength (buffer @ out) > MAX_SSE_LINE_BYTES")
    case True
    have "sse_lines p (fst (split_lines ((buffer @ out) @ ?more))) = ([], Inl LineLimit)"
      by (rule overlong_line) (use True in auto)
    with True fits show ?thesis by (simp only: whole) (simp add: dec same_outcome_def)
  next
    case False
    have "same_outcome
        (gen_bind (drainLines (buffer @ out) p) (\<lambda>(rest, p'). sse_chunks d' (totalBytes + length chunk) rest p' chunks))
        (gen_bind (drainLines (buffer @ out) p) (\<lambda>(rest, p'). sse_lines p' (fst (split_lines (rest @ ?more)))))"
      using 2 fits dec False by (intro same_outcome_bind) auto
    then show ?thesis using fits False by (simp only: whole drain_then_more [of p "buffer @ out" ?more]) (auto simp add: dec)
  qed
qed

lemma chunks_cut_short:
  assumes "totalBytes + length (concat chunks) > MAX_SSE_TOTAL_BYTES" and "totalBytes \<le> MAX_SSE_TOTAL_BYTES"
  shows "cut_short (sse_chunks d totalBytes buffer p chunks)
           (sse_lines p (fst (split_lines (buffer @ decode_rest d chunks @ [10, 10]))))"
  using assms
proof (induction d totalBytes buffer p chunks rule: sse_chunks.induct)
  case (2 d totalBytes buffer p chunk chunks)
  obtain d' out where dec: "stream_decode d chunk = (d', out)" by (cases "stream_decode d chunk")
  let ?more = "decode_rest d' chunks @ [10, 10]"
  have whole: "buffer @ decode_rest d (chunk # chunks) @ [10, 10] = (buffer @ out) @ ?more"
    by (simp add: decode_rest_simps(2) [OF dec])
  show ?case
  proof (cases "totalBytes + length chunk > MAX_SSE_TOTAL_BYTES \<or>
      10 \<notin> set (buffer @ out) \<and> byteLength (buffer @ out) > MAX_SSE_LINE_BYTES")
    case True
    then show ?thesis by (auto simp: dec cut_short_def)
  next
    case False
    have "cut_short
        (gen_bind (drainLines (buffer @ out) p) (\<lambda>(rest, p'). sse_chunks d' (totalBytes + length chunk) rest p' chunks))
        (gen_bind (drainLines (buffer @ out) p) (\<lambda>(rest, p'). sse_lines p' (fst (split_lines (rest @ ?more)))))"
      using 2 dec False by (intro cut_short_bind) auto
    then show ?thesis using False by (simp only: whole drain_then_more [of p "buffer @ out" ?more]) (auto simp add: dec)
  qed
qed simp

lemma decode_rest_all: "decode_rest new_decoder chunks = text_decode (concat chunks)"
  by (simp add: decode_rest_def text_decode_def)

lemma chunks_outcome:
  "if length (concat chunks) \<le> MAX_SSE_TOTAL_BYTES
   then fst (decodeSseStream chunks) = fst (read_text (text_decode (concat chunks))) \<and>
        (snd (decodeSseStream chunks) = snd (read_text (text_decode (concat chunks))) \<or>
         snd (decodeSseStream chunks) = Some PendingLimit \<and>
         snd (read_text (text_decode (concat chunks))) = Some LineLimit)
   else prefix (fst (decodeSseStream chunks)) (fst (read_text (text_decode (concat chunks)))) \<and>
        snd (decodeSseStream chunks) \<noteq> None"
proof (cases "length (concat chunks) \<le> MAX_SSE_TOTAL_BYTES")
  case True
  then have "same_outcome (sse_chunks new_decoder 0 [] no_pending chunks)
      (sse_lines no_pending (fst (split_lines (text_decode (concat chunks) @ [10, 10]))))"
    using chunks_same_outcome [of 0 chunks new_decoder "[]" no_pending] by (simp add: decode_rest_all)
  with True show ?thesis
    by (simp add: decodeSseStream_def read_text_def same_outcome_def case_prod_beta)
next
  case False
  then have "cut_short (sse_chunks new_decoder 0 [] no_pending chunks)
      (sse_lines no_pending (fst (split_lines (text_decode (concat chunks) @ [10, 10]))))"
    using chunks_cut_short [of 0 chunks new_decoder "[]" no_pending] by (simp add: decode_rest_all)
  with False show ?thesis
    by (simp add: decodeSseStream_def read_text_def cut_short_def case_prod_beta)
qed

text \<open>
  C15: A server-sent-event response yields the frames of its text read line by line, wherever the
  boundaries of its chunks fall, and fails exactly when that reading fails; a response over the
  total limit yields a beginning of those frames and fails.
\<close>

theorem sse_chunks_irrelevant:
  "if length (concat chunks) \<le> MAX_SSE_TOTAL_BYTES
   then fst (decodeSseStream chunks) = fst (read_text (text_decode (concat chunks))) \<and>
        (snd (decodeSseStream chunks) = snd (read_text (text_decode (concat chunks))) \<or>
         snd (decodeSseStream chunks) = Some PendingLimit \<and>
         snd (read_text (text_decode (concat chunks))) = Some LineLimit)
   else prefix (fst (decodeSseStream chunks)) (fst (read_text (text_decode (concat chunks)))) \<and>
        snd (decodeSseStream chunks) \<noteq> None"
  by (rule chunks_outcome)

section \<open>What is yielded is bounded\<close>

lemma byteLength_join:
  "byteLength (join_lines ls) = sum_list (map byteLength ls) + (length ls - 1)"
  by (induction ls rule: join_lines.induct) (simp_all add: point_bytes_def)

definition pending_ok :: "sse_pending \<Rightarrow> bool" where
  "pending_ok p \<longleftrightarrow>
     (\<forall>e. pend_event p = Some e \<longrightarrow> byteLength e \<le> MAX_SSE_EVENT_NAME_BYTES) \<and>
     length (pend_data p) \<le> MAX_SSE_DATA_LINES \<and>
     pend_bytes p = byteLength (join_lines (pend_data p)) \<and> pend_bytes p \<le> MAX_SSE_FRAME_DATA_BYTES"

definition frame_ok :: "sse_frame \<Rightarrow> bool" where
  "frame_ok f \<longleftrightarrow>
     (\<forall>e. frame_event f = Some e \<longrightarrow> byteLength e \<le> MAX_SSE_EVENT_NAME_BYTES) \<and>
     byteLength (frame_data f) \<le> MAX_SSE_FRAME_DATA_BYTES"

lemma no_pending_ok [simp]: "pending_ok no_pending"
  by (simp add: pending_ok_def no_pending_def)

lemma sse_field_ok:
  assumes "pending_ok p" and "sse_field p field value = Inr p'"
  shows "pending_ok p'"
  using assms
  by (cases "pend_data p")
    (auto simp: sse_field_def pending_ok_def byteLength_join Let_def split: if_splits)

lemma sse_line_ok:
  assumes "pending_ok p"
  shows "(\<forall>f \<in> set (fst (sse_line p l)). frame_ok f) \<and> (\<forall>p'. snd (sse_line p l) = Inr p' \<longrightarrow> pending_ok p')"
  using assms sse_field_ok [OF assms]
  by (auto simp: sse_line_def Let_def frame_ok_def pending_ok_def [of p])

lemma sse_lines_ok:
  "pending_ok p \<Longrightarrow> \<forall>f \<in> set (fst (sse_lines p ls)). frame_ok f"
proof (induction ls arbitrary: p)
  case (Cons l ls)
  note line = sse_line_ok [OF Cons.prems, of l]
  show ?case
  proof (cases "snd (sse_line p l)")
    case (Inr p')
    then show ?thesis using line Cons.IH [of p'] by (auto simp: gen_bind_def split: prod.splits)
  qed (use line in \<open>simp add: gen_bind_def\<close>)
qed simp

text \<open>
  However long a response is and however it fails, every frame yielded has at most 4 MiB of data
  and an event name of at most 256 bytes.
\<close>

theorem sse_frames_bounded:
  "\<forall>f \<in> set (fst (decodeSseStream chunks)).
     byteLength (frame_data f) \<le> 4194304 \<and> (\<forall>e. frame_event f = Some e \<longrightarrow> byteLength e \<le> 256)"
proof -
  have "prefix (fst (decodeSseStream chunks)) (fst (read_text (text_decode (concat chunks))))"
    using chunks_outcome [of chunks] by (auto split: if_splits)
  moreover have "\<forall>f \<in> set (fst (read_text (text_decode (concat chunks)))). frame_ok f"
    using sse_lines_ok [OF no_pending_ok] by (simp add: read_text_def case_prod_beta)
  ultimately show ?thesis
    by (auto simp: frame_ok_def MAX_SSE_FRAME_DATA_BYTES_def MAX_SSE_EVENT_NAME_BYTES_def dest: set_mono_prefix)
qed

lemma sse_frames_bounded_witness:
  "\<forall>f \<in> set (fst (decodeSseStream [[100, 97, 116, 97, 58, 97, 10, 10]])). byteLength (frame_data f) \<le> 4194304"
  using sse_frames_bounded by blast

section \<open>Encoded frames come back\<close>

text \<open>
  The text of a frame as the specification of server-sent events writes it: an event line, one line
  per line of data, an empty line.
\<close>

definition data_line :: "code_points \<Rightarrow> code_points" where
  "data_line l = points ''data: '' @ l"

definition event_line :: "code_points \<Rightarrow> code_points" where
  "event_line e = points ''event: '' @ e"

definition frame_lines :: "code_points option \<times> code_points list \<Rightarrow> code_points list" where
  "frame_lines f = (case fst f of None \<Rightarrow> [] | Some e \<Rightarrow> [event_line e]) @ map data_line (snd f) @ [[]]"

definition lines_text :: "code_points list \<Rightarrow> code_points" where
  "lines_text ls = concat (map (\<lambda>l. l @ [10]) ls)"

definition frames_text :: "(code_points option \<times> code_points list) list \<Rightarrow> code_points" where
  "frames_text fs = lines_text (concat (map frame_lines fs))"

definition plain_line :: "code_points \<Rightarrow> bool" where
  "plain_line l \<longleftrightarrow> (\<forall>c \<in> set l. scalar_value c \<and> c \<noteq> 10 \<and> c \<noteq> 13)"

text \<open>What a frame may hold: lines without breaks, at least one of them, within the limits.\<close>

definition frame_fits :: "code_points option \<times> code_points list \<Rightarrow> bool" where
  "frame_fits f \<longleftrightarrow>
     (case fst f of None \<Rightarrow> True | Some e \<Rightarrow> plain_line e \<and> byteLength e \<le> MAX_SSE_EVENT_NAME_BYTES) \<and>
     snd f \<noteq> [] \<and> length (snd f) \<le> MAX_SSE_DATA_LINES \<and>
     (\<forall>l \<in> set (snd f). plain_line l \<and> byteLength l + 6 \<le> MAX_SSE_LINE_BYTES) \<and>
     byteLength (join_lines (snd f)) \<le> MAX_SSE_FRAME_DATA_BYTES"

definition frame_of :: "code_points option \<times> code_points list \<Rightarrow> sse_frame" where
  "frame_of f = \<lparr>frame_event = fst f, frame_data = join_lines (snd f)\<rparr>"

lemma split_lines_text: "\<forall>l \<in> set ls. 10 \<notin> set l \<Longrightarrow>
  split_lines (lines_text ls @ t) = (ls @ fst (split_lines t), snd (split_lines t))"
  by (induction ls) (auto simp: lines_text_def split_line)

lemma points_literals:
  "points ''data: '' = [100, 97, 116, 97, 58, 32]" "points ''event: '' = [101, 118, 101, 110, 116, 58, 32]"
  "points ''data'' = [100, 97, 116, 97]" "points ''event'' = [101, 118, 101, 110, 116]"
  by (simp_all add: points_def)

lemma strip_plain: "plain_line l \<Longrightarrow> strip_return l = l"
  by (auto simp: strip_return_def plain_line_def)

lemma plain_lines [simp]:
  "plain_line (data_line l) = plain_line l" "plain_line (event_line e) = plain_line e" "plain_line []"
  by (auto simp: plain_line_def data_line_def event_line_def points_literals scalar_value_def)

lemma read_data_line:
  assumes "plain_line l" and "byteLength l + 6 \<le> MAX_SSE_LINE_BYTES"
  shows "sse_line p (data_line l) = ([], sse_field p (points ''data'') l)"
proof -
  have "plain_line (data_line l)" using assms(1) by simp
  then show ?thesis using assms(2)
    by (simp add: sse_line_def strip_plain data_line_def points_literals field_name_def field_value_def
        point_bytes_def)
qed

lemma read_event_line:
  assumes "plain_line e" and "byteLength e \<le> MAX_SSE_EVENT_NAME_BYTES"
  shows "sse_line p (event_line e) = ([], Inr (p\<lparr>pend_event := Some e\<rparr>))"
proof -
  have "plain_line (event_line e)" using assms(1) by simp
  then show ?thesis using assms(2)
    by (simp add: sse_line_def strip_plain event_line_def points_literals field_name_def field_value_def
        point_bytes_def sse_field_def MAX_SSE_EVENT_NAME_BYTES_def MAX_SSE_LINE_BYTES_def)
qed

lemma join_snoc_length:
  "byteLength (join_lines (ls @ [l])) = byteLength (join_lines ls) + byteLength l + (if ls = [] then 0 else 1)"
  by (simp add: byteLength_join)

lemma join_prefix_length: "byteLength (join_lines ls) \<le> byteLength (join_lines (ls @ ms))"
  by (simp add: byteLength_join)

lemma read_data_lines:
  assumes "\<forall>l \<in> set ls. plain_line l \<and> byteLength l + 6 \<le> MAX_SSE_LINE_BYTES"
    and "length (ds @ ls) \<le> MAX_SSE_DATA_LINES"
    and "byteLength (join_lines (ds @ ls)) \<le> MAX_SSE_FRAME_DATA_BYTES"
  shows "sse_lines \<lparr>pend_event = e, pend_data = ds, pend_bytes = byteLength (join_lines ds)\<rparr> (map data_line ls) =
    ([], Inr \<lparr>pend_event = e, pend_data = ds @ ls, pend_bytes = byteLength (join_lines (ds @ ls))\<rparr>)"
  using assms
proof (induction ls arbitrary: ds)
  case (Cons l ls)
  have "byteLength (join_lines (ds @ [l])) \<le> MAX_SSE_FRAME_DATA_BYTES"
    using join_prefix_length [of "ds @ [l]" ls] Cons.prems(3) by simp
  then have "sse_field \<lparr>pend_event = e, pend_data = ds, pend_bytes = byteLength (join_lines ds)\<rparr> (points ''data'') l =
    Inr \<lparr>pend_event = e, pend_data = ds @ [l], pend_bytes = byteLength (join_lines (ds @ [l]))\<rparr>"
    using Cons.prems(2) by (simp add: sse_field_def points_literals join_snoc_length)
  with Cons show ?case by (simp add: read_data_line)
qed simp

lemma read_frame:
  assumes "frame_fits f"
  shows "sse_lines no_pending (frame_lines f) = ([frame_of f], Inr no_pending)"
proof -
  obtain ev ls where f: "f = (ev, ls)" by fastforce
  have blank: "sse_line \<lparr>pend_event = ev, pend_data = ls, pend_bytes = n\<rparr> [] = ([frame_of f], Inr no_pending)" for n
    using assms by (simp add: f frame_fits_def sse_line_def strip_return_def frame_of_def)
  have data: "sse_lines \<lparr>pend_event = ev, pend_data = [], pend_bytes = 0\<rparr> (map data_line ls) =
      ([], Inr \<lparr>pend_event = ev, pend_data = ls, pend_bytes = byteLength (join_lines ls)\<rparr>)"
    using read_data_lines [of ls "[]" ev] assms by (simp add: f frame_fits_def)
  show ?thesis
  proof (cases ev)
    case None
    then show ?thesis using data blank by (simp add: f frame_lines_def sse_lines_append no_pending_def)
  next
    case (Some e)
    have "sse_line no_pending (event_line e) = ([], Inr (no_pending\<lparr>pend_event := Some e\<rparr>))"
      using assms by (intro read_event_line) (simp_all add: f frame_fits_def Some)
    then show ?thesis using data blank
      by (simp add: f frame_lines_def sse_lines_append Some no_pending_def)
  qed
qed

lemma read_frames:
  "\<forall>f \<in> set fs. frame_fits f \<Longrightarrow>
     sse_lines no_pending (concat (map frame_lines fs)) = (map frame_of fs, Inr no_pending)"
  by (induction fs) (simp_all add: sse_lines_append read_frame, simp_all add: gen_bind_def)

lemma frame_lines_plain: "frame_fits f \<Longrightarrow> \<forall>l \<in> set (frame_lines f). plain_line l"
  by (auto simp: frame_fits_def frame_lines_def split: option.splits)

lemma frames_lines_plain:
  "\<forall>f \<in> set fs. frame_fits f \<Longrightarrow> \<forall>l \<in> set (concat (map frame_lines fs)). plain_line l"
  using frame_lines_plain by auto

lemma lines_text_scalar: "\<forall>l \<in> set ls. plain_line l \<Longrightarrow> \<forall>c \<in> set (lines_text ls). scalar_value c"
  by (auto simp: lines_text_def plain_line_def scalar_value_def)

lemma frames_text_start:
  assumes "\<forall>f \<in> set fs. frame_fits f"
  shows "frames_text fs = [] \<or> hd (frames_text fs) \<noteq> byte_order_mark"
proof (cases fs)
  case (Cons f fs')
  then have "snd f \<noteq> []" using assms by (simp add: frame_fits_def)
  then show ?thesis
    by (cases "snd f") (auto simp: Cons frames_text_def lines_text_def frame_lines_def event_line_def data_line_def
        points_literals byte_order_mark_def split: option.splits)
qed (simp add: frames_text_def lines_text_def)

lemma read_frames_text:
  assumes "\<forall>f \<in> set fs. frame_fits f"
  shows "read_text (frames_text fs) = (map frame_of fs, None)"
proof -
  have "\<forall>l \<in> set (concat (map frame_lines fs)). 10 \<notin> set l"
    using frames_lines_plain [OF assms] unfolding plain_line_def by blast
  then have "fst (split_lines (frames_text fs @ [10, 10])) = concat (map frame_lines fs) @ [[], []]"
    by (simp add: frames_text_def split_lines_text)
  moreover have "sse_lines no_pending [[], []] = ([], Inr no_pending)"
    by (simp add: sse_line_def strip_return_def no_pending_def)
  ultimately show ?thesis
    using read_frames [OF assms] by (simp add: read_text_def sse_lines_append gen_bind_def)
qed

text \<open>
  C37: Frames written as the specification of server-sent events says are decoded to exactly
  themselves, in order and without an error, for every way of cutting their bytes into chunks.
\<close>

theorem sse_roundtrip:
  assumes "\<forall>f \<in> set fs. frame_fits f"
    and "concat chunks = text_encode (frames_text fs)"
    and "byteLength (frames_text fs) \<le> 16777216"
  shows "decodeSseStream chunks = (map frame_of fs, None)"
proof -
  have "text_decode (concat chunks) = frames_text fs"
    unfolding assms(2) using lines_text_scalar [OF frames_lines_plain] frames_text_start assms(1)
    by (intro text_roundtrip) (simp_all add: frames_text_def)
  then show ?thesis
    using chunks_outcome [of chunks] read_frames_text [OF assms(1)] assms(2,3)
    by (cases "decodeSseStream chunks") (simp add: length_text_encode MAX_SSE_TOTAL_BYTES_def)
qed

lemma sse_roundtrip_witness:
  "decodeSseStream [[100, 97, 116], [97, 58, 32, 226, 130], [172, 10, 10]] =
     ([\<lparr>frame_event = None, frame_data = [8364]\<rparr>], None)"
proof -
  have "decodeSseStream [[100, 97, 116], [97, 58, 32, 226, 130], [172, 10, 10]] = (map frame_of [(None, [[8364]])], None)"
    by (rule sse_roundtrip)
      (simp_all add: frame_fits_def plain_line_def scalar_value_def MAX_SSE_DATA_LINES_def MAX_SSE_LINE_BYTES_def
        MAX_SSE_FRAME_DATA_BYTES_def point_bytes_def frames_text_def lines_text_def frame_lines_def data_line_def
        points_literals)
  then show ?thesis by (simp add: frame_of_def)
qed

end
