(* ===== verification/Aws_Event_Stream.thy ===== *)
theory Aws_Event_Stream
  imports Text_Decoder Js_Text
begin

unbundle bit_operations_syntax

text \<open>
  The event-stream framing of Bedrock (\<^verbatim>\<open>packages/ai/src/aws-event-stream.ts\<close>): length-prefixed
  binary messages with two CRC-32 checksums, read out of a growing byte buffer. \<open>aws_buffer\<close> has the
  variables \<^verbatim>\<open>storage\<close>, \<^verbatim>\<open>start\<close> and \<^verbatim>\<open>end\<close>; the reader's abstract state is the list of bytes between
  the two. \<^verbatim>\<open>JSON.parse\<close> is the model's on texts within its strings and an argument on others.

  The lemmas: the buffer implements a queue of bytes and is never written out of range, encoded
  messages come back, and a message in which one byte was changed never becomes an event.
\<close>

definition MAX_AWS_EVENT_STREAM_FRAME_BYTES :: nat where
  "MAX_AWS_EVENT_STREAM_FRAME_BYTES = 16 * 1024 * 1024"
definition MAX_AWS_EVENT_STREAM_TOTAL_BYTES :: nat where
  "MAX_AWS_EVENT_STREAM_TOTAL_BYTES = 64 * 1024 * 1024"

datatype aws_error =
    AwsResponseLimit | AwsPendingLimit | AwsLengths | AwsPreludeChecksum | AwsMessageChecksum
  | AwsHeaderTruncated | AwsHeaderType | AwsValueTruncated | AwsNoType | AwsSyntax | AwsPayload
  | AwsPartial | AwsRange

section \<open>Checksums and numbers\<close>

definition crc_bit :: "32 word \<Rightarrow> 32 word" where
  "crc_bit crc = drop_bit 1 crc XOR (0xEDB88320 AND - (crc AND 1))"

definition crc_byte :: "32 word \<Rightarrow> 8 word \<Rightarrow> 32 word" where
  "crc_byte crc b = (crc_bit ^^ 8) (crc XOR ucast b)"

definition crc32 :: "octets \<Rightarrow> 32 word" where
  "crc32 bytes = foldl crc_byte 0xFFFFFFFF bytes XOR 0xFFFFFFFF"

definition big_endian :: "octets \<Rightarrow> nat" where
  "big_endian bs = foldl (\<lambda>n b. n * 256 + unat b) 0 bs"

text \<open>\<^verbatim>\<open>subarray(from, to)\<close> and the reads of a \<^verbatim>\<open>DataView\<close>, whose offsets are in range in this code.\<close>

definition subarray :: "octets \<Rightarrow> nat \<Rightarrow> nat \<Rightarrow> octets" where
  "subarray bs from to = take (to - from) (drop from bs)"

definition getUint32 :: "octets \<Rightarrow> nat \<Rightarrow> nat" where
  "getUint32 bs off = big_endian (subarray bs off (off + 4))"

definition getUint16 :: "octets \<Rightarrow> nat \<Rightarrow> nat" where
  "getUint16 bs off = big_endian (subarray bs off (off + 2))"

section \<open>Headers and payload\<close>

function eventTypeFrom :: "octets \<Rightarrow> nat \<Rightarrow> aws_error + code_points" where
  "eventTypeFrom headers offset =
     (if offset \<ge> length headers then Inl AwsNoType
      else
        let nameLength = unat (headers ! offset)
        in if offset + 2 + nameLength > length headers then Inl AwsHeaderTruncated
           else
             let name = text_decode (subarray headers (offset + 1) (offset + 1 + nameLength));
                 type = unat (headers ! (offset + 1 + nameLength));
                 offset1 = offset + 2 + nameLength
             in if type \<noteq> 7 then Inl AwsHeaderType
                else if offset1 + 2 > length headers then Inl AwsValueTruncated
                else
                  let len = getUint16 headers offset1; offset2 = offset1 + 2
                  in if offset2 + len > length headers then Inl AwsValueTruncated
                     else if name = points '':event-type'' \<or> name = points '':exception-type''
                     then Inr (text_decode (subarray headers offset2 (offset2 + len)))
                     else eventTypeFrom headers (offset2 + len))"
  by pat_completeness auto
termination
  by (relation "measure (\<lambda>(headers, offset). length headers - offset)") auto

declare eventTypeFrom.simps [simp del]

definition eventType :: "octets \<Rightarrow> aws_error + code_points" where
  "eventType headers = eventTypeFrom headers 0"

definition parse_points :: "(code_points \<Rightarrow> json option) \<Rightarrow> code_points \<Rightarrow> json option" where
  "parse_points wide ps = (if \<forall>p \<in> set ps. p < 256 then json_parse (map char_of ps) else wide ps)"

definition aws_payload :: "(code_points \<Rightarrow> json option) \<Rightarrow> code_points \<Rightarrow> aws_error + json_object" where
  "aws_payload wide payloadText =
     (if payloadText = [] then Inr []
      else case parse_points wide payloadText of
             None \<Rightarrow> Inl AwsSyntax
           | Some payload \<Rightarrow> (case obj_fields payload of None \<Rightarrow> Inl AwsPayload | Some kvs \<Rightarrow> Inr kvs))"

type_synonym aws_event = "code_points \<times> json_object"

text \<open>The checks on one complete message and the event \<^verbatim>\<open>{ [type]: payload }\<close>.\<close>

definition aws_message ::
  "(code_points \<Rightarrow> json option) \<Rightarrow> octets \<Rightarrow> nat \<Rightarrow> nat \<Rightarrow> aws_error + aws_event" where
  "aws_message wide message totalLength headersLength =
     (if unat (crc32 (subarray message 0 8)) \<noteq> getUint32 message 8 then Inl AwsPreludeChecksum
      else if unat (crc32 (subarray message 0 (totalLength - 4))) \<noteq> getUint32 message (totalLength - 4)
      then Inl AwsMessageChecksum
      else bindE (eventType (subarray message 12 (12 + headersLength))) (\<lambda>type.
           bindE (aws_payload wide (text_decode (subarray message (12 + headersLength) (totalLength - 4)))) (\<lambda>payload.
           Inr (type, payload))))"

section \<open>The buffer\<close>

record aws_buffer =
  storage :: octets
  buf_start :: nat
  buf_end :: nat

text \<open>\<^verbatim>\<open>set\<close> throws when the elements do not fit.\<close>

definition set_at :: "octets \<Rightarrow> nat \<Rightarrow> octets \<Rightarrow> aws_error + octets" where
  "set_at xs offset ys =
     (if offset + length ys > length xs then Inl AwsRange
      else Inr (take offset xs @ ys @ drop (offset + length ys) xs))"

definition ensure_capacity :: "aws_buffer \<Rightarrow> nat \<Rightarrow> aws_error + aws_buffer" where
  "ensure_capacity s n =
     (let pending = buf_end s - buf_start s
      in if length (storage s) - buf_end s < n then
           let capacity = max (length (storage s) * 2) (pending + n)
           in bindE (set_at (replicate capacity 0) 0 (subarray (storage s) (buf_start s) (buf_end s)))
                (\<lambda>next. Inr \<lparr>storage = next, buf_start = 0, buf_end = pending\<rparr>)
         else Inr s)"

definition aws_receive :: "aws_buffer \<Rightarrow> nat \<Rightarrow> octets \<Rightarrow> aws_error + aws_buffer" where
  "aws_receive s received chunk =
     (if received + length chunk > MAX_AWS_EVENT_STREAM_TOTAL_BYTES then Inl AwsResponseLimit
      else if buf_end s - buf_start s + length chunk > MAX_AWS_EVENT_STREAM_FRAME_BYTES then Inl AwsPendingLimit
      else bindE (ensure_capacity s (length chunk)) (\<lambda>s'.
           bindE (set_at (storage s') (buf_end s') chunk) (\<lambda>st.
           Inr (s'\<lparr>storage := st, buf_end := buf_end s' + length chunk\<rparr>))))"

text \<open>The inner loop: one message after the other, while a complete one is there.\<close>

definition consume :: "aws_buffer \<Rightarrow> nat \<Rightarrow> aws_buffer" where
  "consume s totalLength =
     (if buf_start s + totalLength = buf_end s then s\<lparr>buf_start := 0, buf_end := 0\<rparr>
      else s\<lparr>buf_start := buf_start s + totalLength\<rparr>)"

function aws_drain ::
  "(code_points \<Rightarrow> json option) \<Rightarrow> aws_buffer \<Rightarrow> aws_event list \<times> (aws_error + aws_buffer)" where
  "aws_drain wide s =
     (if buf_end s - buf_start s < 16 then ([], Inr s)
      else
        let view = subarray (storage s) (buf_start s) (buf_end s);
            totalLength = getUint32 view 0; headersLength = getUint32 view 4
        in if totalLength < 16 \<or> totalLength > MAX_AWS_EVENT_STREAM_FRAME_BYTES \<or> headersLength > totalLength - 16
           then ([], Inl AwsLengths)
           else if buf_end s - buf_start s < totalLength then ([], Inr s)
           else (case aws_message wide (subarray (storage s) (buf_start s) (buf_start s + totalLength)) totalLength headersLength of
                   Inl e \<Rightarrow> ([], Inl e)
                 | Inr ev \<Rightarrow> gen_bind ([ev], Inr (consume s totalLength)) (aws_drain wide)))"
  by pat_completeness auto
termination
  by (relation "measure (\<lambda>(wide, s). buf_end s - buf_start s)")
    (auto simp: consume_def gen_bind_def split: if_splits)

declare aws_drain.simps [simp del]

fun aws_chunks ::
  "(code_points \<Rightarrow> json option) \<Rightarrow> aws_buffer \<Rightarrow> nat \<Rightarrow> octets list \<Rightarrow> aws_event list \<times> (aws_error + aws_buffer)" where
  "aws_chunks wide s received [] = ([], if buf_end s \<noteq> buf_start s then Inl AwsPartial else Inr s)"
| "aws_chunks wide s received (chunk # chunks) =
     (case aws_receive s received chunk of
        Inl e \<Rightarrow> ([], Inl e)
      | Inr s' \<Rightarrow> gen_bind (aws_drain wide s') (\<lambda>s''. aws_chunks wide s'' (received + length chunk) chunks))"

definition new_buffer :: aws_buffer where
  "new_buffer = \<lparr>storage = replicate (64 * 1024) 0, buf_start = 0, buf_end = 0\<rparr>"

definition decodeAwsEventStream ::
  "(code_points \<Rightarrow> json option) \<Rightarrow> octets list \<Rightarrow> aws_event list \<times> aws_error option" where
  "decodeAwsEventStream wide chunks =
     (let (events, r) = aws_chunks wide new_buffer 0 chunks in (events, error_of r))"

section \<open>The checksum tells bytes apart\<close>

lemma crc_bit_odd: "crc_bit x = drop_bit 1 x XOR (if odd x then 0xEDB88320 else 0)"
  by (auto simp: crc_bit_def and_one_eq mod2_eq_if)

lemma crc_bit_top: "bit (crc_bit x) 31 = odd x"
  by (auto simp: crc_bit_odd bit_simps dest: bit_imp_le_length)

lemma xor_cancel [simp]: "a XOR m = b XOR m \<longleftrightarrow> a = (b :: 32 word)"
  by (metis xor.assoc xor_self_eq xor.right_neutral)

lemma crc_bit_inj [simp]: "crc_bit x = crc_bit y \<longleftrightarrow> x = y"
proof
  assume eq: "crc_bit x = crc_bit y"
  then have par: "odd x = odd y" by (metis crc_bit_top)
  then have "x div 2 = y div 2"
    using eq by (auto simp: crc_bit_odd drop_bit_eq_div split: if_splits)
  moreover have "x mod 2 = y mod 2" using par by (simp add: mod2_eq_if)
  ultimately show "x = y" by (metis div_mult_mod_eq)
qed simp

lemma crc_bits_inj [simp]: "(crc_bit ^^ n) x = (crc_bit ^^ n) y \<longleftrightarrow> x = y"
  by (induction n) simp_all

lemma crc_byte_inj [simp]: "crc_byte c b = crc_byte d b \<longleftrightarrow> c = d"
  by (simp add: crc_byte_def)

lemma ucast_octet: "ucast (ucast (a :: 8 word) :: 32 word) = a"
  by (rule ucast_up_ucast_id) (simp add: is_up)

lemma crc_byte_byte [simp]: "crc_byte c a = crc_byte c b \<longleftrightarrow> a = b"
proof -
  have "c XOR ucast a = c XOR ucast b \<longleftrightarrow> (ucast a :: 32 word) = ucast b"
    by (metis xor_cancel xor.commute)
  also have "\<dots> \<longleftrightarrow> a = b"
    by (metis ucast_octet)
  finally show ?thesis by (simp add: crc_byte_def)
qed

lemma crc_fold_inj [simp]: "foldl crc_byte c bs = foldl crc_byte d bs \<longleftrightarrow> c = d"
  by (induction bs arbitrary: c d) simp_all

lemma crc32_one_byte: "crc32 (xs @ a # ys) = crc32 (xs @ b # ys) \<longleftrightarrow> a = b"
  by (simp add: crc32_def)

lemma crc32_update: "i < length bs \<Longrightarrow> crc32 (bs[i := b]) = crc32 bs \<longleftrightarrow> b = bs ! i"
  using crc32_one_byte [of "take i bs" b "drop (Suc i) bs" "bs ! i"]
  by (simp add: upd_conv_take_nth_drop id_take_nth_drop [symmetric])

lemma big_endian_append: "big_endian (xs @ ys) = big_endian xs * 256 ^ length ys + big_endian ys"
proof (induction ys rule: rev_induct)
  case (snoc y ys)
  then show ?case by (simp add: big_endian_def foldl_append [symmetric] algebra_simps del: foldl_append) (simp add: algebra_simps)
qed (simp add: big_endian_def)

section \<open>The buffer is a queue of bytes\<close>

definition buffer_ok :: "aws_buffer \<Rightarrow> bool" where
  "buffer_ok s \<longleftrightarrow> buf_start s \<le> buf_end s \<and> buf_end s \<le> length (storage s)"

definition buffered :: "aws_buffer \<Rightarrow> octets" where
  "buffered s = subarray (storage s) (buf_start s) (buf_end s)"

lemma length_buffered: "buffer_ok s \<Longrightarrow> length (buffered s) = buf_end s - buf_start s"
  by (simp add: buffered_def buffer_ok_def subarray_def min_absorb2 diff_le_mono)

lemma subarray_write:
  "a \<le> b \<Longrightarrow> b \<le> length xs \<Longrightarrow>
     subarray (take b xs @ ys @ zs) a (b + length ys) = subarray xs a b @ ys"
  by (simp only: subarray_def drop_take [symmetric]) simp

lemma ensure_capacity_ok:
  assumes "buffer_ok s"
  obtains s' where "ensure_capacity s n = Inr s'" "buffer_ok s'" "buffered s' = buffered s"
    "buf_end s' + n \<le> length (storage s')"
proof (cases "length (storage s) - buf_end s < n")
  case True
  let ?k = "max (length (storage s) * 2) (buf_end s - buf_start s + n)"
  let ?st = "buffered s @ drop (length (buffered s)) (replicate ?k 0)"
  have len: "length (buffered s) = buf_end s - buf_start s" by (rule length_buffered [OF assms])
  have "ensure_capacity s n = Inr \<lparr>storage = ?st, buf_start = 0, buf_end = buf_end s - buf_start s\<rparr>"
    using True len by (simp add: ensure_capacity_def set_at_def Let_def buffered_def [symmetric])
  then show thesis
    by (rule that) (use len in \<open>auto simp: buffer_ok_def buffered_def [of "aws_buffer_ext _ _ _ _"] subarray_def\<close>)
next
  case False
  then show thesis using assms by (intro that [of s]) (auto simp: ensure_capacity_def buffer_ok_def)
qed

lemma receive_cases:
  assumes "buffer_ok s"
  obtains (limit) e where "aws_receive s received chunk = Inl e" "e = AwsResponseLimit \<or> e = AwsPendingLimit"
    "received + length chunk > MAX_AWS_EVENT_STREAM_TOTAL_BYTES \<or>
     length (buffered s) + length chunk > MAX_AWS_EVENT_STREAM_FRAME_BYTES"
  | (stored) s' where "aws_receive s received chunk = Inr s'" "buffer_ok s'" "buffered s' = buffered s @ chunk"
proof (cases "received + length chunk > MAX_AWS_EVENT_STREAM_TOTAL_BYTES \<or>
    length (buffered s) + length chunk > MAX_AWS_EVENT_STREAM_FRAME_BYTES")
  case True
  then show thesis
    by (intro limit [of "if received + length chunk > MAX_AWS_EVENT_STREAM_TOTAL_BYTES
      then AwsResponseLimit else AwsPendingLimit"]) (auto simp: aws_receive_def length_buffered [OF assms])
next
  case False
  obtain s1 where s1: "ensure_capacity s (length chunk) = Inr s1" "buffer_ok s1" "buffered s1 = buffered s"
    "buf_end s1 + length chunk \<le> length (storage s1)"
    using ensure_capacity_ok [OF assms, of "length chunk"] by blast
  let ?s' = "s1\<lparr>storage := take (buf_end s1) (storage s1) @ chunk @ drop (buf_end s1 + length chunk) (storage s1),
    buf_end := buf_end s1 + length chunk\<rparr>"
  have "aws_receive s received chunk = Inr ?s'"
    using False s1 by (simp add: aws_receive_def length_buffered [OF assms] set_at_def)
  moreover have "buffer_ok ?s'" using s1 by (simp add: buffer_ok_def)
  moreover have "buffered ?s' = buffered s1 @ chunk"
    using s1(2) by (simp add: buffered_def buffer_ok_def subarray_write)
  ultimately show thesis using s1(3) by (intro stored) simp_all
qed

text \<open>The specification: messages read off the front of a list of bytes.\<close>

function aws_read ::
  "(code_points \<Rightarrow> json option) \<Rightarrow> octets \<Rightarrow> aws_event list \<times> (aws_error + octets)" where
  "aws_read wide bs =
     (if length bs < 16 then ([], Inr bs)
      else
        let totalLength = getUint32 bs 0; headersLength = getUint32 bs 4
        in if totalLength < 16 \<or> totalLength > MAX_AWS_EVENT_STREAM_FRAME_BYTES \<or> headersLength > totalLength - 16
           then ([], Inl AwsLengths)
           else if length bs < totalLength then ([], Inr bs)
           else (case aws_message wide (take totalLength bs) totalLength headersLength of
                   Inl e \<Rightarrow> ([], Inl e)
                 | Inr ev \<Rightarrow> gen_bind ([ev], Inr (drop totalLength bs)) (aws_read wide)))"
  by pat_completeness auto
termination
  by (relation "measure (\<lambda>(wide, bs). length bs)") (auto simp: gen_bind_def)

declare aws_read.simps [simp del]

definition read_stream :: "(code_points \<Rightarrow> json option) \<Rightarrow> octets \<Rightarrow> aws_event list \<times> aws_error option" where
  "read_stream wide bs =
     (let (events, r) = aws_read wide bs
      in (events, case r of Inl e \<Rightarrow> Some e | Inr rest \<Rightarrow> if rest \<noteq> [] then Some AwsPartial else None))"

definition implements :: "'a list \<times> ('e + aws_buffer) \<Rightarrow> 'a list \<times> ('e + octets) \<Rightarrow> bool" where
  "implements m r \<longleftrightarrow> fst m = fst r \<and>
     (case snd m of Inl e \<Rightarrow> snd r = Inl e | Inr s \<Rightarrow> buffer_ok s \<and> snd r = Inr (buffered s))"

lemma subarray_subarray: "b \<le> c - a \<Longrightarrow> subarray (subarray xs a c) 0 b = subarray xs a (a + b)"
  by (simp add: subarray_def min_def)

lemma consume_buffered:
  assumes "buffer_ok s" and "n \<le> buf_end s - buf_start s"
  shows "buffer_ok (consume s n)" and "buffered (consume s n) = drop n (buffered s)"
  using assms by (auto simp: consume_def buffer_ok_def buffered_def subarray_def drop_take add.commute)

lemma drain_implements: "buffer_ok s \<Longrightarrow> implements (aws_drain wide s) (aws_read wide (buffered s))"
proof (induction wide s rule: aws_drain.induct)
  case (1 wide s)
  note len = length_buffered [OF 1(2)]
  let ?t = "getUint32 (buffered s) 0" and ?h = "getUint32 (buffered s) 4"
  show ?case
  proof (cases "16 \<le> buf_end s - buf_start s \<and>
      \<not> (?t < 16 \<or> ?t > MAX_AWS_EVENT_STREAM_FRAME_BYTES \<or> ?h > ?t - 16) \<and> ?t \<le> buf_end s - buf_start s")
    case False
    then show ?thesis using 1(2)
      by (auto simp: aws_drain.simps [of wide s] aws_read.simps [of wide "buffered s"] len implements_def Let_def
          buffered_def [symmetric])
  next
    case True
    have msg: "subarray (storage s) (buf_start s) (buf_start s + ?t) = take ?t (buffered s)"
      using True 1(2) by (simp add: buffered_def subarray_def buffer_ok_def min_def)
    show ?thesis
    proof (cases "aws_message wide (take ?t (buffered s)) ?t ?h")
      case (Inl e)
      then show ?thesis using True 1(2)
        by (simp add: aws_drain.simps [of wide s] aws_read.simps [of wide "buffered s"] len implements_def Let_def
            buffered_def [symmetric] msg)
    next
      case (Inr ev)
      have "implements (aws_drain wide (consume s ?t)) (aws_read wide (buffered (consume s ?t)))"
        using 1(1) [OF _ refl refl refl, of ev "consume s ?t"] True Inr consume_buffered [OF 1(2), of ?t]
        by (simp add: buffered_def [symmetric] msg not_less)
      then show ?thesis using True Inr 1(2) consume_buffered(2) [OF 1(2), of ?t]
        by (simp add: aws_drain.simps [of wide s] aws_read.simps [of wide "buffered s"] len implements_def Let_def
            buffered_def [symmetric] msg gen_bind_def case_prod_beta split: sum.splits)
    qed
  qed
qed

lemma header_fields_append [simp]:
  "n + 4 \<le> length xs \<Longrightarrow> getUint32 (xs @ ys) n = getUint32 xs n"
  by (simp add: getUint32_def subarray_def)

lemma read_append: "aws_read wide (a @ b) = gen_bind (aws_read wide a) (\<lambda>rest. aws_read wide (rest @ b))"
proof (induction wide a rule: aws_read.induct)
  case (1 wide a)
  let ?t = "getUint32 a 0" and ?h = "getUint32 a 4"
  show ?case
  proof (cases "length a < 16 \<or> ?t < 16 \<or> ?t > MAX_AWS_EVENT_STREAM_FRAME_BYTES \<or> ?h > ?t - 16 \<or> length a < ?t")
    case True
    then show ?thesis
      by (auto simp: aws_read.simps [of wide a] aws_read.simps [of wide "a @ b"] Let_def cong: sum.case_cong)
  next
    case False
    show ?thesis
    proof (cases "aws_message wide (take ?t a) ?t ?h")
      case (Inl e)
      then show ?thesis using False
        by (auto simp: aws_read.simps [of wide a] aws_read.simps [of wide "a @ b"] Let_def)
    next
      case (Inr ev)
      have IH: "aws_read wide (drop ?t a @ b) =
          gen_bind (aws_read wide (drop ?t a)) (\<lambda>rest. aws_read wide (rest @ b))"
        using 1 [OF _ refl refl, of ev] False Inr by simp
      have ab: "aws_read wide (a @ b) = gen_bind ([ev], Inr (drop ?t a @ b)) (aws_read wide)"
        using False Inr by (simp add: aws_read.simps [of wide "a @ b"] Let_def)
      have a: "aws_read wide a = gen_bind ([ev], Inr (drop ?t a)) (aws_read wide)"
        using False Inr by (simp add: aws_read.simps [of wide a] Let_def)
      show ?thesis unfolding ab a gen_bind_assoc
        by (simp add: gen_bind_def IH)
    qed
  qed
qed

lemma read_stuck: "snd (aws_read wide bs) = Inr rest \<Longrightarrow> aws_read wide rest = ([], Inr rest)"
proof (induction wide bs rule: aws_read.induct)
  case (1 wide bs)
  let ?t = "getUint32 bs 0" and ?h = "getUint32 bs 4"
  show ?case
  proof (cases "length bs < 16 \<or> ?t < 16 \<or> ?t > MAX_AWS_EVENT_STREAM_FRAME_BYTES \<or> ?h > ?t - 16 \<or> length bs < ?t")
    case True
    then show ?thesis using 1(2)
      by (auto simp: aws_read.simps [of wide bs] aws_read.simps [of wide rest] Let_def split: if_splits)
  next
    case False
    then obtain ev where ev: "aws_message wide (take ?t bs) ?t ?h = Inr ev"
      using 1(2) by (cases "aws_message wide (take ?t bs) ?t ?h") (auto simp: aws_read.simps [of wide bs] Let_def)
    have "aws_read wide bs = gen_bind ([ev], Inr (drop ?t bs)) (aws_read wide)"
      using False ev by (simp add: aws_read.simps [of wide bs] Let_def)
    then show ?thesis using 1(1) [OF _ refl refl, of ev "drop ?t bs"] 1(2) False ev
      by (simp add: gen_bind_def split: prod.splits)
  qed
qed

text \<open>
  A run over chunks against one read of all bytes: the same events and outcome, unless a limit on
  the bytes held or received stops the run, which then has yielded a beginning of those events.
\<close>

definition end_of_stream :: "octets \<Rightarrow> 'a list \<times> (aws_error + octets)" where
  "end_of_stream rest = ([], if rest \<noteq> [] then Inl AwsPartial else Inr rest)"

definition limit_error :: "aws_error option \<Rightarrow> bool" where
  "limit_error e \<longleftrightarrow> e = Some AwsResponseLimit \<or> e = Some AwsPendingLimit"

definition agrees :: "'a list \<times> (aws_error + 's) \<Rightarrow> 'a list \<times> (aws_error + 't) \<Rightarrow> bool" where
  "agrees m r \<longleftrightarrow> fst m = fst r \<and> error_of (snd m) = error_of (snd r) \<or>
     prefix (fst m) (fst r) \<and> limit_error (error_of (snd m))"

lemma agrees_bind:
  assumes "implements m r" and "\<And>s. snd m = Inr s \<Longrightarrow> buffer_ok s \<Longrightarrow> snd r = Inr (buffered s) \<Longrightarrow> agrees (k s) (k' (buffered s))"
  shows "agrees (gen_bind m k) (gen_bind r k')"
proof (cases "snd m")
  case (Inl e)
  then show ?thesis using assms(1) by (simp add: implements_def agrees_def gen_bind_def)
next
  case (Inr s)
  then have "agrees (k s) (k' (buffered s))" "fst m = fst r" "snd r = Inr (buffered s)"
    using assms by (auto simp: implements_def)
  then show ?thesis using Inr by (auto simp: agrees_def gen_bind_def case_prod_beta)
qed

lemma chunks_agree:
  assumes "buffer_ok s" and "aws_read wide (buffered s) = ([], Inr (buffered s))"
  shows "agrees (aws_chunks wide s received chunks)
    (gen_bind (aws_read wide (buffered s @ concat chunks)) end_of_stream)"
  using assms
proof (induction wide s received chunks rule: aws_chunks.induct)
  case (1 wide s received)
  then show ?case using length_buffered [OF 1(1)]
    by (auto simp: agrees_def end_of_stream_def buffer_ok_def)
next
  case (2 wide s received chunk chunks)
  show ?case
  proof (cases rule: receive_cases [OF 2(2), of received chunk, case_names limit stored])
    case (limit e)
    then show ?thesis by (auto simp: agrees_def limit_error_def)
  next
    case (stored s')
    have "agrees (gen_bind (aws_drain wide s') (\<lambda>s''. aws_chunks wide s'' (received + length chunk) chunks))
        (gen_bind (aws_read wide (buffered s')) (\<lambda>rest. gen_bind (aws_read wide (rest @ concat chunks)) end_of_stream))"
      using 2(1) [OF stored(1)] by (intro agrees_bind drain_implements stored(2)) (auto dest: read_stuck)
    moreover have "aws_read wide (buffered s @ concat (chunk # chunks)) =
        gen_bind (aws_read wide (buffered s')) (\<lambda>rest. aws_read wide (rest @ concat chunks))"
      by (simp add: stored(3) read_append [symmetric])
    ultimately show ?thesis by (simp add: stored(1) gen_bind_assoc)
  qed
qed

lemma read_rest_length: "snd (aws_read wide bs) = Inr rest \<Longrightarrow> length rest \<le> length bs"
proof (induction wide bs rule: aws_read.induct)
  case (1 wide bs)
  let ?t = "getUint32 bs 0" and ?h = "getUint32 bs 4"
  show ?case
  proof (cases "length bs < 16 \<or> ?t < 16 \<or> ?t > MAX_AWS_EVENT_STREAM_FRAME_BYTES \<or> ?h > ?t - 16 \<or> length bs < ?t")
    case True
    then show ?thesis using 1(2) by (auto simp: aws_read.simps [of wide bs] Let_def split: if_splits)
  next
    case False
    then obtain ev where ev: "aws_message wide (take ?t bs) ?t ?h = Inr ev"
      using 1(2) by (cases "aws_message wide (take ?t bs) ?t ?h") (auto simp: aws_read.simps [of wide bs] Let_def)
    then have "snd (aws_read wide (drop ?t bs)) = Inr rest"
      using False 1(2) by (simp add: aws_read.simps [of wide bs] Let_def gen_bind_def case_prod_beta)
    then show ?thesis using 1(1) [OF _ refl refl, of ev "drop ?t bs"] False ev by simp
  qed
qed

lemma aws_message_range: "aws_message wide m t h \<noteq> Inl e" if "limit_error (Some e) \<or> e = AwsRange"
proof -
  have "eventTypeFrom headers offset \<noteq> Inl e" for headers offset
    using that by (induction headers offset rule: eventTypeFrom.induct)
      (subst eventTypeFrom.simps, auto simp: Let_def limit_error_def)
  then show ?thesis using that
    by (auto simp: aws_message_def eventType_def aws_payload_def limit_error_def bindE_def
        split: sum.splits option.splits if_splits)
qed

lemma read_no_limit: "limit_error (Some e) \<or> e = AwsRange \<Longrightarrow> snd (aws_read wide bs) \<noteq> Inl e"
proof (induction wide bs rule: aws_read.induct)
  case (1 wide bs)
  let ?t = "getUint32 bs 0" and ?h = "getUint32 bs 4"
  show ?case
  proof (cases "length bs < 16 \<or> ?t < 16 \<or> ?t > MAX_AWS_EVENT_STREAM_FRAME_BYTES \<or> ?h > ?t - 16 \<or> length bs < ?t")
    case True
    then show ?thesis using 1(2) by (auto simp: aws_read.simps [of wide bs] Let_def limit_error_def)
  next
    case False
    show ?thesis
    proof (cases "aws_message wide (take ?t bs) ?t ?h")
      case (Inl e')
      then show ?thesis using False 1(2) aws_message_range [OF 1(2)]
        by (auto simp: aws_read.simps [of wide bs] Let_def)
    next
      case (Inr ev)
      then show ?thesis using 1(1) [OF _ refl refl, of ev "drop ?t bs"] False 1(2)
        by (simp add: aws_read.simps [of wide bs] Let_def gen_bind_def case_prod_beta)
    qed
  qed
qed

lemma chunks_no_limit:
  assumes "buffer_ok s" and "length (buffered s) \<le> received"
    and "received + length (concat chunks) \<le> MAX_AWS_EVENT_STREAM_FRAME_BYTES"
  shows "\<not> limit_error (error_of (snd (aws_chunks wide s received chunks)))"
  using assms
proof (induction wide s received chunks rule: aws_chunks.induct)
  case (2 wide s received chunk chunks)
  show ?case
  proof (cases rule: receive_cases [OF 2(2), of received chunk, case_names limit stored])
    case (limit e)
    then show ?thesis using 2
      by (auto simp: MAX_AWS_EVENT_STREAM_FRAME_BYTES_def MAX_AWS_EVENT_STREAM_TOTAL_BYTES_def)
  next
    case (stored s')
    note drained = drain_implements [OF stored(2), of wide]
    show ?thesis
    proof (cases "snd (aws_drain wide s')")
      case (Inl e)
      then have "snd (aws_read wide (buffered s')) = Inl e" using drained by (simp add: implements_def)
      then show ?thesis using read_no_limit [of e wide "buffered s'"] Inl
        by (auto simp: stored(1) gen_bind_def)
    next
      case (Inr s'')
      then have "buffer_ok s''" "snd (aws_read wide (buffered s')) = Inr (buffered s'')"
        using drained by (simp_all add: implements_def)
      moreover from this have "length (buffered s'') \<le> received + length chunk"
        using read_rest_length [of wide "buffered s'" "buffered s''"] stored(3) 2(3) by simp
      ultimately show ?thesis using 2(1) [OF stored(1), of s''] 2(4) Inr
        by (simp add: stored(1) gen_bind_def case_prod_beta)
    qed
  qed
qed (simp add: limit_error_def)

lemma new_buffer_ok [simp]: "buffer_ok new_buffer" "buffered new_buffer = []"
  by (simp_all add: buffer_ok_def new_buffer_def buffered_def subarray_def)

lemma read_Nil [simp]: "aws_read wide [] = ([], Inr [])"
  by (simp add: aws_read.simps)

lemma read_stream_alt:
  "read_stream wide bs = (let (events, r) = gen_bind (aws_read wide bs) end_of_stream in (events, error_of r))"
  by (simp add: read_stream_def end_of_stream_def gen_bind_def case_prod_beta split: sum.splits)

lemma decode_agrees:
  "decodeAwsEventStream wide chunks = read_stream wide (concat chunks) \<or>
   prefix (fst (decodeAwsEventStream wide chunks)) (fst (read_stream wide (concat chunks))) \<and>
   limit_error (snd (decodeAwsEventStream wide chunks))"
  using chunks_agree [of new_buffer wide 0 chunks]
  by (simp add: agrees_def decodeAwsEventStream_def read_stream_alt case_prod_beta prod_eq_iff)

lemma decode_no_limit:
  "length (concat chunks) \<le> MAX_AWS_EVENT_STREAM_FRAME_BYTES \<Longrightarrow>
     \<not> limit_error (snd (decodeAwsEventStream wide chunks))"
  using chunks_no_limit [of new_buffer 0 chunks wide] by (simp add: decodeAwsEventStream_def case_prod_beta)

lemma decode_in_range: "snd (decodeAwsEventStream wide chunks) \<noteq> Some AwsRange"
proof -
  have "snd (read_stream wide bs) \<noteq> Some AwsRange" for bs
    using read_no_limit [of AwsRange wide bs] by (auto simp: read_stream_def case_prod_beta split: sum.splits)
  then show ?thesis using decode_agrees [of wide chunks] by (auto simp: limit_error_def)
qed

text \<open>
  C17: The growing buffer implements a queue of bytes: it is never written out of range, and
  however a response is cut into chunks, its events and its outcome are those of reading all its
  bytes at once; a limit on the bytes received or held, which no response of up to 16 MiB meets,
  can only end the run early with an error.
\<close>

theorem aws_buffer_refines_bytes:
  "snd (decodeAwsEventStream wide chunks) \<noteq> Some AwsRange \<and>
   (if length (concat chunks) \<le> 16777216
    then decodeAwsEventStream wide chunks = read_stream wide (concat chunks)
    else decodeAwsEventStream wide chunks = read_stream wide (concat chunks) \<or>
      prefix (fst (decodeAwsEventStream wide chunks)) (fst (read_stream wide (concat chunks))) \<and>
      snd (decodeAwsEventStream wide chunks) \<in> {Some AwsResponseLimit, Some AwsPendingLimit})"
  using decode_in_range [of wide chunks] decode_agrees [of wide chunks] decode_no_limit [of chunks wide]
  by (auto simp: MAX_AWS_EVENT_STREAM_FRAME_BYTES_def limit_error_def)

section \<open>Encoded messages come back\<close>

fun be_bytes :: "nat \<Rightarrow> nat \<Rightarrow> octets" where
  "be_bytes 0 n = []"
| "be_bytes (Suc k) n = be_bytes k (n div 256) @ [of_nat (n mod 256)]"

text \<open>A message as the service writes it: string headers (type 7) and a payload.\<close>

definition wire_header :: "code_points \<times> code_points \<Rightarrow> octets" where
  "wire_header h =
     be_bytes 1 (byteLength (fst h)) @ text_encode (fst h) @ [7] @
     be_bytes 2 (byteLength (snd h)) @ text_encode (snd h)"

definition with_checksum :: "octets \<Rightarrow> octets" where
  "with_checksum bs = bs @ be_bytes 4 (unat (crc32 bs))"

definition wire_message :: "(code_points \<times> code_points) list \<times> code_points \<Rightarrow> octets" where
  "wire_message m =
     (let headers = concat (map wire_header (fst m)); payload = text_encode (snd m)
      in with_checksum (with_checksum (be_bytes 4 (16 + length headers + length payload) @
           be_bytes 4 (length headers)) @ headers @ payload))"

definition plain_text :: "code_points \<Rightarrow> bool" where
  "plain_text t \<longleftrightarrow> (\<forall>p \<in> set t. scalar_value p) \<and> (t = [] \<or> hd t \<noteq> byte_order_mark)"

definition names_type :: "code_points \<Rightarrow> bool" where
  "names_type name \<longleftrightarrow> name = points '':event-type'' \<or> name = points '':exception-type''"

fun event_name :: "(code_points \<times> code_points) list \<Rightarrow> code_points option" where
  "event_name [] = None"
| "event_name (h # hs) = (if names_type (fst h) then Some (snd h) else event_name hs)"

definition header_fits :: "code_points \<times> code_points \<Rightarrow> bool" where
  "header_fits h \<longleftrightarrow> plain_text (fst h) \<and> plain_text (snd h) \<and>
     byteLength (fst h) < 256 \<and> byteLength (snd h) < 65536"

text \<open>What a message stands for, if its sizes, headers and payload are in order.\<close>

definition message_event ::
  "(code_points \<Rightarrow> json option) \<Rightarrow> (code_points \<times> code_points) list \<times> code_points \<Rightarrow> aws_event option" where
  "message_event wide m =
     (if list_all header_fits (fst m) \<and> plain_text (snd m) \<and>
         length (wire_message m) \<le> MAX_AWS_EVENT_STREAM_FRAME_BYTES
      then (case event_name (fst m) of
              None \<Rightarrow> None
            | Some type \<Rightarrow> (case aws_payload wide (snd m) of Inl e \<Rightarrow> None | Inr payload \<Rightarrow> Some (type, payload)))
      else None)"

lemma length_be_bytes [simp]: "length (be_bytes k n) = k"
  by (induction k arbitrary: n) simp_all

lemma big_endian_simps [simp]:
  "big_endian [] = 0" "big_endian [b] = unat b"
  by (simp_all add: big_endian_def)

lemma big_endian_be [simp]: "n < 256 ^ k \<Longrightarrow> big_endian (be_bytes k n) = n"
proof (induction k arbitrary: n)
  case (Suc k)
  then have "n div 256 < 256 ^ k" by (simp add: div_less_iff_less_mult mult.commute)
  with Suc.IH show ?case by (simp add: big_endian_append unat_of_nat)
qed simp

lemma digit_eq:
  fixes a b :: nat
  assumes "x < 256" "y < 256"
  shows "a * 256 + x = b * 256 + y \<longleftrightarrow> a = b \<and> x = y"
proof
  assume eq: "a * 256 + x = b * 256 + y"
  have "(a * 256 + x) div 256 = a" "(b * 256 + y) div 256 = b" using assms by simp_all
  with eq show "a = b \<and> x = y" by auto
qed simp

lemma big_endian_inj: "length xs = length ys \<Longrightarrow> big_endian xs = big_endian ys \<longleftrightarrow> xs = ys"
proof (induction xs ys rule: rev_induct2)
  case (4 x xs y ys)
  have "unat x < 256" "unat y < 256" using unsigned_less [of x] unsigned_less [of y] by simp_all
  then show ?case using 4 by (simp add: big_endian_append digit_eq word_unat_eq_iff)
qed simp_all

lemma subarray_middle [simp]:
  "subarray (xs @ ys @ zs) (length xs) (length xs + length ys) = ys"
  "subarray (xs @ ys) (length xs) (length xs + length ys) = ys"
  by (simp_all add: subarray_def)

lemma unat_crc: "unat (c :: 32 word) < 256 ^ 4"
  using unsigned_less [of c] by simp

lemma decode_plain: "plain_text t \<Longrightarrow> text_decode (text_encode t) = t"
  by (simp add: plain_text_def text_roundtrip)

lemma event_type_header:
  assumes "header_fits h"
  shows "eventTypeFrom (pre @ wire_header h @ post) (length pre) =
     (if names_type (fst h) then Inr (snd h)
      else eventTypeFrom (pre @ wire_header h @ post) (length pre + length (wire_header h)))"
proof -
  obtain n v where h: "h = (n, v)" by fastforce
  let ?n = "text_encode n" and ?v = "text_encode v"
  let ?hs = "pre @ wire_header h @ post"
  have shape: "?hs = pre @ be_bytes 1 (byteLength n) @ ?n @ [7] @ be_bytes 2 (byteLength v) @ ?v @ post"
    by (simp add: wire_header_def h)
  have first: "unat (?hs ! length pre) = byteLength n"
    unfolding shape using assms by (simp add: header_fits_def h nth_append unat_of_nat)
  have kind: "unat (?hs ! (length pre + 1 + byteLength n)) = 7"
    unfolding shape by (simp add: nth_append length_text_encode)
  have name: "subarray ?hs (length pre + 1) (length pre + 1 + byteLength n) = ?n"
    using subarray_middle(1) [of "pre @ be_bytes 1 (byteLength n)" ?n] unfolding shape by (simp add: length_text_encode)
  have len: "getUint16 ?hs (length pre + 2 + byteLength n) = byteLength v"
    using subarray_middle(1) [of "pre @ be_bytes 1 (byteLength n) @ ?n @ [7]" "be_bytes 2 (byteLength v)" "?v @ post"]
      assms unfolding shape by (simp add: getUint16_def length_text_encode header_fits_def h)
  have val: "subarray ?hs (length pre + 2 + byteLength n + 2) (length pre + 2 + byteLength n + 2 + byteLength v) = ?v"
  proof -
    let ?a = "pre @ be_bytes 1 (byteLength n) @ ?n @ [7] @ be_bytes 2 (byteLength v)"
    have "length ?a = length pre + 2 + byteLength n + 2" by (simp add: length_text_encode)
    moreover have "?hs = ?a @ ?v @ post" by (simp only: shape append_assoc append_Cons append_Nil)
    ultimately show ?thesis using subarray_middle(1) [of ?a ?v post] by (simp only: length_text_encode)
  qed
  have total: "length ?hs = length pre + 4 + byteLength n + byteLength v + length post"
    "length (wire_header h) = 4 + byteLength n + byteLength v"
    by (simp_all add: wire_header_def h length_text_encode)
  have plain: "plain_text n" "plain_text v" using assms by (simp_all add: header_fits_def h)
  define X where "X = ?hs"
  note facts = first kind name len val total(1)
  have "eventTypeFrom X (length pre) = (if names_type n then Inr v
      else eventTypeFrom X (length pre + 2 + byteLength n + 2 + byteLength v))"
    using facts [folded X_def]
    by (subst eventTypeFrom.simps [folded names_type_def]) (simp add: Let_def decode_plain plain)
  moreover have "length pre + 2 + byteLength n + 2 + byteLength v = length pre + length (wire_header h)"
    by (simp add: total(2))
  ultimately show ?thesis by (simp only: X_def h fst_conv snd_conv)
qed

lemma event_type_headers:
  assumes "list_all header_fits hs"
  shows "eventTypeFrom (pre @ concat (map wire_header hs)) (length pre) =
     (case event_name hs of None \<Rightarrow> Inl AwsNoType | Some v \<Rightarrow> Inr v)"
  using assms
proof (induction hs arbitrary: pre)
  case (Cons h hs)
  then show ?case
    using event_type_header [of h pre "concat (map wire_header hs)"] Cons.IH [of "pre @ wire_header h"] by simp
qed (simp add: eventTypeFrom.simps)

text \<open>What every message on the wire satisfies: its length and both checksums are right.\<close>

definition sealed :: "octets \<Rightarrow> bool" where
  "sealed w \<longleftrightarrow>
     16 \<le> length w \<and> length w \<le> MAX_AWS_EVENT_STREAM_FRAME_BYTES \<and> getUint32 w 0 = length w \<and>
     unat (crc32 (take 8 w)) = getUint32 w 8 \<and>
     unat (crc32 (take (length w - 4) w)) = getUint32 w (length w - 4)"

lemma subarray_0: "subarray xs 0 n = take n xs"
  by (simp add: subarray_def)

lemma wire_shape:
  assumes "length (wire_message (hs, q)) \<le> MAX_AWS_EVENT_STREAM_FRAME_BYTES"
  defines "h \<equiv> concat (map wire_header hs)" and "w \<equiv> wire_message (hs, q)"
  shows "sealed w" and "getUint32 w 4 = length h"
    and "subarray w 12 (12 + length h) = h"
    and "subarray w (12 + length h) (length w - 4) = text_encode q"
    and "length w = 16 + length h + byteLength q"
proof -
  let ?n = "16 + length h + byteLength q"
  define prelude where "prelude = be_bytes 4 ?n @ be_bytes 4 (length h)"
  define body where "body = with_checksum prelude @ h @ text_encode q"
  have w: "w = with_checksum body"
    by (simp add: w_def wire_message_def h_def Let_def prelude_def body_def length_text_encode)
  have plen: "length prelude = 8" by (simp add: prelude_def)
  have blen: "length body = 12 + length h + byteLength q"
    by (simp add: body_def with_checksum_def plen length_text_encode)
  show wlen: "length w = ?n" by (simp add: w with_checksum_def blen)
  have small: "?n < 256 ^ 4" using assms(1)
    by (simp add: w_def [symmetric] wlen MAX_AWS_EVENT_STREAM_FRAME_BYTES_def)
  have w_prelude: "w = be_bytes 4 ?n @ be_bytes 4 (length h) @ be_bytes 4 (unat (crc32 prelude)) @ h @ text_encode q @
      be_bytes 4 (unat (crc32 body))"
    by (simp add: w body_def with_checksum_def prelude_def)
  have "getUint32 w 0 = ?n"
    using small by (simp add: w_prelude getUint32_def subarray_def)
  moreover show "getUint32 w 4 = length h"
    using small by (simp add: w_prelude getUint32_def subarray_def)
  moreover have "getUint32 w 8 = unat (crc32 prelude)"
    using unat_crc by (simp add: w_prelude getUint32_def subarray_def)
  moreover have "take 8 w = prelude" by (simp add: w_prelude prelude_def)
  moreover have "getUint32 w (length w - 4) = unat (crc32 body)"
    using unat_crc by (simp add: w with_checksum_def getUint32_def subarray_def)
  moreover have "take (length w - 4) w = body" by (simp add: w with_checksum_def)
  ultimately show "sealed w" using assms(1) by (simp add: sealed_def wlen w_def [symmetric])
  show "subarray w 12 (12 + length h) = h" by (simp add: w_prelude subarray_def)
  show "subarray w (12 + length h) (length w - 4) = text_encode q"
    by (simp add: w_prelude subarray_def length_text_encode)
qed

lemma read_wire:
  assumes "message_event wide m = Some ev"
  shows "aws_read wide (wire_message m @ rest) = gen_bind ([ev], Inr rest) (aws_read wide)"
proof -
  obtain hs q where m: "m = (hs, q)" by fastforce
  let ?h = "concat (map wire_header hs)" and ?w = "wire_message m"
  have ok: "list_all header_fits hs" "plain_text q" "length ?w \<le> MAX_AWS_EVENT_STREAM_FRAME_BYTES"
    and ev: "event_name hs = Some (fst ev)" "aws_payload wide q = Inr (snd ev)"
    using assms by (auto simp: message_event_def m split: if_splits option.splits sum.splits)
  note shape = wire_shape [OF ok(3) [unfolded m], folded m]
  have "eventType ?h = Inr (fst ev)"
    using event_type_headers [OF ok(1), of "[]"] ev(1) by (simp add: eventType_def)
  then have "aws_message wide ?w (length ?w) (length ?h) = Inr ev"
    using shape(1) ok(2) ev(2)
    by (simp add: aws_message_def sealed_def subarray_0 shape(3,4) decode_plain)
  moreover have "16 \<le> length ?w" "getUint32 ?w 0 = length ?w" using shape(1) by (simp_all add: sealed_def)
  ultimately show ?thesis
    using ok(3) shape(2,5) by (subst aws_read.simps) (simp add: Let_def)
qed

lemma read_wires:
  assumes "list_all2 (\<lambda>m ev. message_event wide m = Some ev) ms evs"
  shows "aws_read wide (concat (map wire_message ms) @ rest) = gen_bind (evs, Inr rest) (aws_read wide)"
  using assms by (induction ms evs rule: list_all2_induct) (simp_all add: read_wire gen_bind_def case_prod_beta)

text \<open>
  C38: Messages framed as the event-stream format prescribes are decoded to exactly their events, in
  order and without an error, for every way of cutting their bytes into chunks.
\<close>

theorem aws_roundtrip:
  assumes "list_all2 (\<lambda>m ev. message_event wide m = Some ev) ms evs"
    and "concat chunks = concat (map wire_message ms)" and "length (concat chunks) \<le> 16777216"
  shows "decodeAwsEventStream wide chunks = (evs, None)"
proof -
  have "aws_read wide (concat chunks) = (evs, Inr [])"
    using read_wires [OF assms(1), of "[]"] assms(2) by (simp add: gen_bind_def)
  then show ?thesis using decode_agrees [of wide chunks] decode_no_limit [of chunks wide] assms(3)
    by (simp add: read_stream_def MAX_AWS_EVENT_STREAM_FRAME_BYTES_def)
qed

section \<open>A changed byte is noticed\<close>

lemma subarray_update:
  "i < length w \<Longrightarrow> a \<le> b \<Longrightarrow> b \<le> length w \<Longrightarrow>
     subarray (w[i := x]) a b = (if a \<le> i \<and> i < b then (subarray w a b)[i - a := x] else subarray w a b)"
  by (auto simp: subarray_def drop_update_swap take_update_swap list_update_beyond)

lemma getUint32_update:
  assumes "i < length w" and "k + 4 \<le> length w"
  shows "getUint32 (w[i := x]) k = getUint32 w k \<longleftrightarrow> (k \<le> i \<and> i < k + 4 \<longrightarrow> x = w ! i)"
proof -
  have "(subarray w k (k + 4))[i - k := x] = subarray w k (k + 4) \<longleftrightarrow> x = w ! i" if "k \<le> i" "i < k + 4"
    using that assms by (auto simp: subarray_def list_update_same_conv)
  then show ?thesis using assms by (auto simp add: getUint32_def subarray_update big_endian_inj)
qed

lemma take_crc_update:
  "i < length w \<Longrightarrow> n \<le> length w \<Longrightarrow>
     crc32 (take n (w[i := x])) = crc32 (take n w) \<longleftrightarrow> (i < n \<longrightarrow> x = w ! i)"
  using crc32_update [of i "take n w" x]
  by (cases "i < n") (simp_all add: take_update_swap list_update_beyond)

text \<open>Change one byte of a sealed message: the reader throws, or it waits for bytes that never come.\<close>

lemma read_changed:
  assumes w: "sealed w" and i: "i < length w" and x: "x \<noteq> w ! i"
  shows "fst (aws_read wide (w[i := x] @ rest)) = [] \<and> snd (aws_read wide (w[i := x] @ rest)) \<noteq> Inr []"
proof -
  let ?w = "w[i := x]"
  let ?bs = "?w @ rest"
  let ?t = "getUint32 ?bs 0" and ?h = "getUint32 ?bs 4"
  have len: "16 \<le> length w" using w by (simp add: sealed_def)
  have prelude: "i < 12 \<Longrightarrow> unat (crc32 (take 8 ?w)) \<noteq> getUint32 ?w 8"
    using w i x len take_crc_update [of i w 8 x] getUint32_update [of i w 8 x]
    by (cases "i < 8") (auto simp: sealed_def word_unat_eq_iff take_update_cancel)
  have body: "12 \<le> i \<Longrightarrow> unat (crc32 (take (length w - 4) ?w)) \<noteq> getUint32 ?w (length w - 4)"
    using w i x len take_crc_update [of i w "length w - 4" x] getUint32_update [of i w "length w - 4" x]
    by (cases "i < length w - 4") (auto simp: sealed_def word_unat_eq_iff take_update_cancel)
  have total: "12 \<le> i \<Longrightarrow> ?t = length w"
    using w i len getUint32_update [of i w 0 x] by (simp add: sealed_def)
  have bad: "\<exists>e. aws_message wide (take ?t ?bs) ?t ?h = Inl e" if "16 \<le> ?t" "?t \<le> length ?bs"
  proof (cases "i < 12")
    case True
    have "take 8 (take ?t ?bs) = take 8 ?w" using that len by (simp add: min_def)
    moreover have "getUint32 (take ?t ?bs) 8 = getUint32 ?w 8"
    proof -
      have "take 12 (take ?t ?bs) = take 12 ?w" using that len by (simp add: min_def)
      moreover have "getUint32 xs 8 = big_endian (drop 8 (take 12 xs))" for xs
        by (simp add: getUint32_def subarray_def drop_take)
      ultimately show ?thesis by simp
    qed
    ultimately show ?thesis using prelude [OF True] by (simp add: aws_message_def subarray_0)
  next
    case False
    then have "?t = length w" "take ?t ?bs = ?w" using total by simp_all
    then show ?thesis using body False by (simp add: aws_message_def subarray_0)
  qed
  have "16 \<le> length ?bs" using len by simp
  then have nonempty: "?bs \<noteq> []" by auto
  show ?thesis
  proof (cases "length ?bs < 16 \<or> ?t < 16 \<or> ?t > MAX_AWS_EVENT_STREAM_FRAME_BYTES \<or> ?h > ?t - 16 \<or> length ?bs < ?t")
    case True
    then show ?thesis using nonempty by (auto simp: aws_read.simps [of wide ?bs] Let_def)
  next
    case False
    then obtain e where "aws_message wide (take ?t ?bs) ?t ?h = Inl e" using bad by auto
    then have "aws_read wide ?bs = ([], Inl e)"
      using False by (subst aws_read.simps) (simp only: Let_def de_Morgan_disj if_False sum.case simp_thms)
    then show ?thesis by simp
  qed
qed

text \<open>
  C16: When one byte of one message is changed on the way, the events before that message are all that
  is ever yielded and the stream fails, whatever follows and however the bytes arrive.
\<close>

theorem aws_corruption_detected:
  assumes "list_all2 (\<lambda>m ev. message_event wide m = Some ev) ms evs"
    and "message_event wide m = Some ev" and "i < length (wire_message m)" and "x \<noteq> wire_message m ! i"
    and "concat chunks = concat (map wire_message ms) @ (wire_message m)[i := x] @ rest"
  shows "prefix (fst (decodeAwsEventStream wide chunks)) evs \<and> snd (decodeAwsEventStream wide chunks) \<noteq> None"
proof -
  have "sealed (wire_message m)"
    using assms(2) wire_shape(1) [of "fst m" "snd m"] by (simp add: message_event_def split: if_splits)
  note changed = read_changed [OF this assms(3,4), of wide rest]
  have "aws_read wide (concat chunks) =
      (evs, snd (aws_read wide ((wire_message m)[i := x] @ rest)))"
    using read_wires [OF assms(1), of "(wire_message m)[i := x] @ rest"] changed assms(5)
    by (simp add: gen_bind_def case_prod_beta)
  then have "fst (read_stream wide (concat chunks)) = evs" "snd (read_stream wide (concat chunks)) \<noteq> None"
    using changed by (auto simp: read_stream_def split: sum.splits)
  then show ?thesis using decode_agrees [of wide chunks] by (auto simp: limit_error_def)
qed

text \<open>A message with one header and the payload \<^verbatim>\<open>{}\<close>, cut inside its prelude.\<close>

definition ex_aws_message :: "(code_points \<times> code_points) list \<times> code_points" where
  "ex_aws_message = ([(points '':event-type'', points ''ping'')], points ''{}'')"

lemma length_wire_message:
  "length (wire_message (hs, q)) = 16 + length (concat (map wire_header hs)) + byteLength q"
  by (simp add: wire_message_def with_checksum_def Let_def length_text_encode)

lemma ex_aws_message_event: "message_event wide ex_aws_message = Some (points ''ping'', [])"
proof -
  have "length (wire_message ex_aws_message) \<le> MAX_AWS_EVENT_STREAM_FRAME_BYTES"
    by (simp add: ex_aws_message_def length_wire_message wire_header_def length_text_encode points_def point_bytes_def
        MAX_AWS_EVENT_STREAM_FRAME_BYTES_def)
  moreover have "list_all header_fits (fst ex_aws_message)" "plain_text (snd ex_aws_message)"
    by (simp_all add: ex_aws_message_def header_fits_def plain_text_def points_def scalar_value_def byte_order_mark_def
        point_bytes_def)
  moreover have "event_name (fst ex_aws_message) = Some (points ''ping'')"
    by (simp add: ex_aws_message_def names_type_def)
  moreover have "aws_payload wide (snd ex_aws_message) = Inr []"
    by (simp add: ex_aws_message_def aws_payload_def parse_points_def points_def) code_simp
  ultimately show ?thesis by (simp add: message_event_def)
qed

lemma aws_roundtrip_witness:
  "decodeAwsEventStream (\<lambda>_. None) [take 5 (wire_message ex_aws_message), drop 5 (wire_message ex_aws_message)] =
     ([(points ''ping'', [])], None)"
  using aws_roundtrip [of "\<lambda>_. None" "[ex_aws_message]" "[(points ''ping'', [])]"
      "[take 5 (wire_message ex_aws_message), drop 5 (wire_message ex_aws_message)]"] ex_aws_message_event
  by (simp add: ex_aws_message_def length_wire_message wire_header_def length_text_encode points_def point_bytes_def)

definition ex_changed :: octets where
  "ex_changed = (wire_message ex_aws_message)[0 := wire_message ex_aws_message ! 0 + 1]"

lemma aws_corruption_detected_witness:
  "fst (decodeAwsEventStream (\<lambda>_. None) [ex_changed]) = [] \<and>
   snd (decodeAwsEventStream (\<lambda>_. None) [ex_changed]) \<noteq> None"
proof -
  have "0 < length (wire_message ex_aws_message)" by (simp add: ex_aws_message_def length_wire_message)
  then show ?thesis
    using aws_corruption_detected [of "\<lambda>_. None" "[]" "[]" ex_aws_message _ 0 "wire_message ex_aws_message ! 0 + 1"
        "[ex_changed]" "[]"] ex_aws_message_event [of "\<lambda>_. None"] by (simp add: ex_changed_def)
qed

end
