(* ===== verification/Provider_Port.thy ===== *)
theory Provider_Port
  imports Model_Stream
begin

text \<open>
  What stands between a provider and the kernel's model port: the normalization of a provider's
  stream (\<^verbatim>\<open>packages/ai/src/stream.ts\<close>) and the replay metadata that the port keeps from one request
  to the next (\<^verbatim>\<open>packages/ai/src/provider-port.ts\<close>): signatures and continuation identifiers that
  a provider wants back with the answer they came with.

  A provider's stream is the values it yields and how it ends; \<open>aborted\<close> is the state of the request's
  signal when the stream fails. The keys of an object the code builds are in the order of
  \<open>stream_json\<close>. The lemmas: a normalized stream has one terminal event and it is the last; metadata
  is attached to the answer of its own stream as long as every stream has stored one answer, and to
  another one after a stream that failed and was retried.
\<close>

section \<open>Normalized streams\<close>

datatype stream_end = StreamEnds | StreamThrows "string option"

definition terminalForFailure :: "bool \<Rightarrow> string \<Rightarrow> string \<Rightarrow> bool \<Rightarrow> model_stream_event" where
  "terminalForFailure aborted code message partial =
     (if aborted then Aborted (if partial then Some True else None)
      else StreamErrorEv
        \<lparr>err_code = code, err_message = message, err_retryable = False,
         err_partial = (if partial then Some True else None), err_category = Some StreamInterrupted,
         err_requestPhase = Some Streaming, err_retryAfterMs = None, err_retry = None, err_response = None,
         err_diagnostics = None\<rparr>)"

fun stream_error_message :: "stream_error \<Rightarrow> string" where
  "stream_error_message (ModelStreamValidationError path message) = path @ '' '' @ message"

fun terminal_value :: "json \<Rightarrow> bool" where
  "terminal_value (JObj kvs) \<longleftrightarrow> read_str (mget kvs ''type'') \<in> {''completed'', ''error'', ''aborted''}"
| "terminal_value _ \<longleftrightarrow> False"

fun normalize_from :: "bool \<Rightarrow> stream_end \<Rightarrow> bool \<Rightarrow> json list \<Rightarrow> json list" where
  "normalize_from aborted end emittedContent [] =
     [stream_json (case end of
        StreamEnds \<Rightarrow> terminalForFailure aborted ''provider_stream_truncated''
          ''provider ended the stream without a terminal event'' emittedContent
      | StreamThrows m \<Rightarrow> terminalForFailure aborted ''provider_stream_failure''
          (case m of None \<Rightarrow> ''provider stream threw a non-Error value'' | Some s \<Rightarrow> s) emittedContent)]"
| "normalize_from aborted end emittedContent (rawEvent # rest) =
     (case parseModelStreamEvent rawEvent ''modelStreamEvent'' of
        Inl e \<Rightarrow> [stream_json (terminalForFailure aborted ''provider_stream_failure''
                    (stream_error_message e) emittedContent)]
      | Inr event \<Rightarrow> event # (if terminal_value event then [] else normalize_from aborted end True rest))"

definition normalizeModelStream :: "bool \<Rightarrow> stream_end \<Rightarrow> json list \<Rightarrow> json list" where
  "normalizeModelStream aborted end items = normalize_from aborted end False items"

definition collectModelStream :: "bool \<Rightarrow> stream_end \<Rightarrow> json list \<Rightarrow> string + (json list \<times> json)" where
  "collectModelStream aborted end items =
     (let events = normalizeModelStream aborted end items
      in if events = [] \<or> \<not> terminal_value (last events)
         then Inl ''normalized model stream did not end with a terminal event''
         else Inr (events, last events))"

lemma terminal_failure [simp]: "terminal_value (stream_json (terminalForFailure a c m p))"
  by (simp add: terminalForFailure_def stream_json_def)

lemma parse_returns: "parseModelStreamEvent v path = Inr w \<Longrightarrow> w = v"
  by (simp add: parseModelStreamEvent_def throw_iff)

lemma failure_valid:
  "message \<noteq> [] \<Longrightarrow> code \<noteq> [] \<Longrightarrow>
     parseModelStreamEvent (stream_json (terminalForFailure a code message p)) path =
       Inr (stream_json (terminalForFailure a code message p))"
  by (rule parse_stream_json) (simp add: terminalForFailure_def nonempty_def opt_ok_def)

lemma normalize_terminal:
  "normalize_from a e c items \<noteq> [] \<and> terminal_value (last (normalize_from a e c items)) \<and>
   (\<forall>v \<in> set (butlast (normalize_from a e c items)). \<not> terminal_value v)"
  by (induction a e c items rule: normalize_from.induct) (auto split: sum.split stream_end.split)

lemma normalize_valid:
  assumes "end \<noteq> StreamThrows (Some [])"
  shows "\<forall>v \<in> set (normalize_from a end c items). parseModelStreamEvent v ''modelStreamEvent'' = Inr v"
  using assms
proof (induction a "end" c items rule: normalize_from.induct)
  case (1 a "end" c)
  then show ?case
    by (auto simp: failure_valid split: stream_end.split option.split) (rule ccontr, simp add: failure_valid)
next
  case (2 a "end" c v vs)
  show ?case
  proof (cases "parseModelStreamEvent v ''modelStreamEvent''")
    case (Inl e)
    have "stream_error_message e \<noteq> []" by (cases e) simp
    then show ?thesis by (simp add: Inl failure_valid)
  next
    case (Inr w)
    then show ?thesis using 2 parse_returns [OF Inr] by auto
  qed
qed

lemma normalize_prefix: "prefix (butlast (normalize_from a e c items)) items"
proof (induction a e c items rule: normalize_from.induct)
  case (2 a e c v vs)
  then show ?case using parse_returns [of v "''modelStreamEvent''"] normalize_terminal [of a e True vs]
    by (auto split: sum.split)
qed simp

lemma normalize_stops:
  "v \<in> set items \<Longrightarrow> terminal_value v \<Longrightarrow> normalize_from a e c (items @ later) = normalize_from a e c items"
proof (induction a e c items rule: normalize_from.induct)
  case (2 a e c w vs)
  then show ?case using parse_returns [of w "''modelStreamEvent''"] by (auto split: sum.split)
qed simp


lemma empty_error_message_invalid:
  "parseModelStreamEvent (last (normalizeModelStream False (StreamThrows (Some [])) [])) ''modelStreamEvent'' =
     Inl (ModelStreamValidationError ''modelStreamEvent.message'' ''must be a non-empty string'')"
  by code_simp


section \<open>Replay metadata\<close>

record model_identity =
  id_providerId :: string
  id_apiDialect :: string
  id_modelId :: string

type_synonym provider_signature = "model_identity \<times> string"

record provider_continuation =
  cont_identity :: model_identity
  cont_responseId :: "string option"
  cont_itemId :: "string option"
  cont_namespace :: "string option"

text \<open>What a request sends of an assistant's content and calls; \<open>rc_redacted\<close> is the flag when present.\<close>

record request_content =
  rc_item :: content_item
  rc_signature :: "provider_signature option"
  rc_redacted :: bool
  rc_continuation :: "provider_continuation option"

record request_call =
  rq_call :: tool_call_request
  rq_signature :: "provider_signature option"
  rq_continuation :: "provider_continuation option"

datatype request_message =
    RequestUser "content_item list"
  | RequestAssistant "request_content list" "request_call list option" "model_identity option" "provider_continuation option"
  | RequestTool string string "content_item list" bool

datatype turns_error = MixedIdentities

definition plain_content :: "content_item \<Rightarrow> request_content" where
  "plain_content item = \<lparr>rc_item = item, rc_signature = None, rc_redacted = False, rc_continuation = None\<rparr>"

definition plain_call :: "tool_call_request \<Rightarrow> request_call" where
  "plain_call call = \<lparr>rq_call = call, rq_signature = None, rq_continuation = None\<rparr>"

text \<open>A message that is passed on as it is.\<close>

fun plain_message :: "model_message \<Rightarrow> request_message" where
  "plain_message (UserMsg content) = RequestUser content"
| "plain_message (AssistantMsg content calls) =
     RequestAssistant (map plain_content content) (map_option (map plain_call) calls) None None"
| "plain_message (ToolMsg callId name content isError) = RequestTool callId name content isError"

definition replay_identity :: "provider_replay_metadata \<Rightarrow> model_identity" where
  "replay_identity ev = \<lparr>id_providerId = rep_providerId ev, id_apiDialect = rep_apiDialect ev, id_modelId = rep_modelId ev\<rparr>"

definition replay_signature :: "provider_replay_metadata \<Rightarrow> provider_signature option" where
  "replay_signature ev = map_option (\<lambda>value. (replay_identity ev, value)) (rep_signature ev)"

definition replayContinuation :: "provider_replay_metadata \<Rightarrow> provider_continuation" where
  "replayContinuation ev = \<lparr>cont_identity = replay_identity ev, cont_responseId = rep_responseId ev,
     cont_itemId = rep_itemId ev, cont_namespace = rep_namespace ev\<rparr>"

definition hasReplayContinuation :: "provider_replay_metadata \<Rightarrow> bool" where
  "hasReplayContinuation ev \<longleftrightarrow> rep_responseId ev \<noteq> None \<or> rep_itemId ev \<noteq> None \<or> rep_namespace ev \<noteq> None"

definition continuation_of :: "provider_replay_metadata \<Rightarrow> provider_continuation option" where
  "continuation_of ev = (if hasReplayContinuation ev then Some (replayContinuation ev) else None)"

definition thinking_content :: "provider_replay_metadata option \<Rightarrow> content_item \<Rightarrow> request_content" where
  "thinking_content event item =
     (case event of
        None \<Rightarrow> plain_content item
      | Some ev \<Rightarrow> if rep_signature ev = None then plain_content item
          else \<lparr>rc_item = item, rc_signature = replay_signature ev, rc_redacted = (rep_redacted ev = Some True),
                rc_continuation = None\<rparr>)"

definition text_content :: "provider_replay_metadata option \<Rightarrow> content_item \<Rightarrow> request_content" where
  "text_content event item =
     (case event of
        None \<Rightarrow> plain_content item
      | Some ev \<Rightarrow> \<lparr>rc_item = item, rc_signature = replay_signature ev, rc_redacted = False,
          rc_continuation = continuation_of ev\<rparr>)"

definition nth_event :: "provider_replay_metadata list \<Rightarrow> nat \<Rightarrow> provider_replay_metadata option" where
  "nth_event evs i = (if i < length evs then Some (evs ! i) else None)"

text \<open>The map over the content, with \<^verbatim>\<open>thinkingIndex\<close> and \<^verbatim>\<open>textIndex\<close>.\<close>

fun attach_content ::
  "provider_replay_metadata list \<Rightarrow> provider_replay_metadata list \<Rightarrow> nat \<Rightarrow> nat \<Rightarrow> content_item list \<Rightarrow> request_content list" where
  "attach_content thinking txt i j [] = []"
| "attach_content thinking txt i j (Thinking t # items) =
     thinking_content (nth_event thinking i) (Thinking t) # attach_content thinking txt (i + 1) j items"
| "attach_content thinking txt i j (Text t # items) =
     text_content (nth_event txt j) (Text t) # attach_content thinking txt i (j + 1) items"
| "attach_content thinking txt i j (Blob b # items) =
     plain_content (Blob b) # attach_content thinking txt i j items"

definition attach_call :: "provider_replay_metadata list \<Rightarrow> tool_call_request \<Rightarrow> request_call" where
  "attach_call replay call =
     (case find (\<lambda>ev. rep_target ev = TargetToolCall \<and> rep_callId ev = Some (req_callId call)) replay of
        None \<Rightarrow> plain_call call
      | Some ev \<Rightarrow> \<lparr>rq_call = call, rq_signature = replay_signature ev, rq_continuation = continuation_of ev\<rparr>)"

definition by_index :: "replay_target \<Rightarrow> provider_replay_metadata list \<Rightarrow> provider_replay_metadata list" where
  "by_index target replay = sort_key rep_contentIndex (filter (\<lambda>ev. rep_target ev = target) replay)"

fun attach_replay :: "provider_replay_metadata list \<Rightarrow> model_message \<Rightarrow> turns_error + request_message" where
  "attach_replay (first # rest) (AssistantMsg content calls) =
     (let replay = first # rest
      in if \<exists>ev \<in> set replay. replay_identity ev \<noteq> replay_identity first then Inl MixedIdentities
         else Inr (RequestAssistant
           (attach_content (by_index TargetThinking replay) (by_index TargetText replay) 0 0 content)
           (map_option (map (attach_call replay)) calls)
           (Some (replay_identity first))
           (map_option replayContinuation (find (\<lambda>ev. rep_responseId ev \<noteq> None) replay))))"
| "attach_replay _ message = Inr (plain_message message)"

fun is_assistant :: "model_message \<Rightarrow> bool" where
  "is_assistant (AssistantMsg content calls) = True"
| "is_assistant _ = False"

text \<open>The answers that have a turn: the last ones, as many as there are turns.\<close>

definition assistantIndexes :: "model_message list \<Rightarrow> nat list" where
  "assistantIndexes messages = map fst (filter (\<lambda>(i, m). is_assistant m) (indexed messages))"

definition byMessage ::
  "model_message list \<Rightarrow> provider_replay_metadata list list \<Rightarrow> (nat, provider_replay_metadata list) jsmap" where
  "byMessage messages turns =
     (let indexes = assistantIndexes messages; offset = length indexes - length turns
      in foldl (\<lambda>m (index, turn). if offset + index < length indexes then mput m (indexes ! (offset + index)) turn else m)
           [] (indexed turns))"

definition retainReplayMetadata ::
  "model_message list \<Rightarrow> provider_replay_metadata list list \<Rightarrow> turns_error + request_message list" where
  "retainReplayMetadata messages turns =
     (if turns = [] then Inr (map plain_message messages)
      else mapE (\<lambda>(messageIndex, message).
             case mget (byMessage messages turns) messageIndex of
               None \<Rightarrow> Inr (plain_message message)
             | Some replay \<Rightarrow> attach_replay replay message) (indexed messages))"

text \<open>
  A finished stream leaves its metadata as one more turn, whatever became of it: \<^verbatim>\<open>retainStream\<close> pushes in
  a \<^verbatim>\<open>finally\<close>.
\<close>

fun replay_event :: "model_stream_event \<Rightarrow> provider_replay_metadata list" where
  "replay_event (ReplayMetadata m) = [m]"
| "replay_event _ = []"

definition retainStream :: "model_stream_event list \<Rightarrow> provider_replay_metadata list list \<Rightarrow> provider_replay_metadata list list" where
  "retainStream events turns = turns @ [concat (map replay_event events)]"

section \<open>Which answer gets which turn\<close>

text \<open>Attaching adds metadata and nothing else.\<close>

fun bare_message :: "request_message \<Rightarrow> model_message" where
  "bare_message (RequestUser content) = UserMsg content"
| "bare_message (RequestAssistant content calls origin continuation) =
     AssistantMsg (map rc_item content) (map_option (map rq_call) calls)"
| "bare_message (RequestTool callId name content isError) = ToolMsg callId name content isError"

lemma bare_content: "map rc_item (attach_content th tx i j items) = items"
  by (induction th tx i j items rule: attach_content.induct)
    (auto simp: thinking_content_def text_content_def plain_content_def split: option.split)

lemma bare_call: "rq_call (attach_call replay call) = call"
  by (simp add: attach_call_def plain_call_def split: option.split)

lemma bare_plain: "bare_message (plain_message m) = m"
  by (cases m) (simp_all add: plain_content_def plain_call_def comp_def option.map_comp option.map_ident)

lemma bare_attach: "attach_replay replay m = Inr m' \<Longrightarrow> bare_message m' = m"
  by (cases "(replay, m)" rule: attach_replay.cases)
    (auto simp: Let_def bare_content bare_call bare_plain comp_def option.map_comp option.map_ident split: if_splits)

text \<open>The same loop with the number of answers seen so far in place of the map by message index.\<close>

fun attach_counted ::
  "nat \<Rightarrow> provider_replay_metadata list list \<Rightarrow> nat \<Rightarrow> model_message list \<Rightarrow> turns_error + request_message list" where
  "attach_counted offset turns seen [] = Inr []"
| "attach_counted offset turns seen (m # ms) =
     bindE (if is_assistant m \<and> offset \<le> seen \<and> seen - offset < length turns
            then attach_replay (turns ! (seen - offset)) m else Inr (plain_message m)) (\<lambda>m'.
     bindE (attach_counted offset turns (if is_assistant m then seen + 1 else seen) ms) (\<lambda>ms'.
     Inr (m' # ms')))"

lemma mapE_Cons_bind: "mapE f (x # xs) = bindE (f x) (\<lambda>y. bindE (mapE f xs) (\<lambda>ys. Inr (y # ys)))"
  by (simp add: bindE_def split: sum.split)

definition answers :: "model_message list \<Rightarrow> nat" where
  "answers ms = length (filter is_assistant ms)"

lemma answers_simps [simp]:
  "answers [] = 0" "answers (m # ms) = (if is_assistant m then Suc (answers ms) else answers ms)"
  "answers (ms @ ns) = answers ms + answers ns"
  by (simp_all add: answers_def)

fun indexes_from :: "nat \<Rightarrow> model_message list \<Rightarrow> nat list" where
  "indexes_from k [] = []"
| "indexes_from k (m # ms) = (if is_assistant m then k # indexes_from (Suc k) ms else indexes_from (Suc k) ms)"

lemma assistant_indexes: "assistantIndexes ms = indexes_from 0 ms"
proof -
  have "map fst (filter (\<lambda>(i, m). is_assistant m) (zip [k..<k + length ms] ms)) = indexes_from k ms" for k
  proof (induction ms arbitrary: k)
    case (Cons m ms)
    show ?case using Cons.IH [of "Suc k"] by (simp add: upt_conv_Cons del: upt_Suc)
  qed simp
  from this [of 0] show ?thesis by (simp add: assistantIndexes_def indexed_def)
qed

lemma indexes_append: "indexes_from k (ms @ ns) = indexes_from k ms @ indexes_from (k + length ms) ns"
  by (induction ms arbitrary: k) simp_all

lemma indexes_length [simp]: "length (indexes_from k ms) = answers ms"
  by (induction ms arbitrary: k) simp_all

lemma indexes_range: "i \<in> set (indexes_from k ms) \<Longrightarrow> k \<le> i \<and> i < k + length ms"
  by (induction ms arbitrary: k) (fastforce split: if_splits)+

lemma indexes_distinct: "distinct (indexes_from k ms)"
  by (induction ms arbitrary: k) (auto dest: indexes_range)

lemma turn_lookup:
  assumes "distinct ks"
  shows "mget (foldl (\<lambda>m (i, t). if off + i < length ks then mput m (ks ! (off + i)) t else m) [] (indexed ts)) k =
    (if \<exists>r < length ks. ks ! r = k \<and> off \<le> r \<and> r - off < length ts
     then Some (ts ! ((THE r. r < length ks \<and> ks ! r = k) - off)) else None)"
proof (induction ts rule: rev_induct)
  case (snoc t ts)
  have the: "(THE r. r < length ks \<and> ks ! r = ks ! q) = q" if "q < length ks" for q
    using that assms by (auto simp: nth_eq_iff_index_eq)
  show ?case
  proof (cases "off + length ts < length ks \<and> ks ! (off + length ts) = k")
    case True
    then show ?thesis using the [of "off + length ts"] by (auto simp: indexed_snoc intro!: exI [of _ "off + length ts"])
  next
    case False
    have "(\<exists>r < length ks. ks ! r = k \<and> off \<le> r \<and> r - off < length (ts @ [t])) \<longleftrightarrow>
        (\<exists>r < length ks. ks ! r = k \<and> off \<le> r \<and> r - off < length ts)"
      using False by (auto simp: less_Suc_eq) (metis le_add_diff_inverse)
    moreover have "(ts @ [t]) ! ((THE r. r < length ks \<and> ks ! r = k) - off) =
        ts ! ((THE r. r < length ks \<and> ks ! r = k) - off)"
      if "\<exists>r < length ks. ks ! r = k \<and> off \<le> r \<and> r - off < length ts"
      using that the by (auto simp: nth_append)
    ultimately show ?thesis using snoc False by (auto simp: indexed_snoc)
  qed
qed simp

lemma answer_lookup:
  fixes pre m post turns
  defines "off \<equiv> answers (pre @ m # post) - length turns"
  shows "mget (byMessage (pre @ m # post) turns) (length pre) =
    (if is_assistant m \<and> off \<le> answers pre \<and> answers pre - off < length turns
     then Some (turns ! (answers pre - off)) else None)"
proof -
  let ?ks = "indexes_from 0 (pre @ m # post)"
  have ks: "?ks = indexes_from 0 pre @ (if is_assistant m then length pre # indexes_from (Suc (length pre)) post
      else indexes_from (Suc (length pre)) post)" by (simp add: indexes_append)
  have only: "r = answers pre \<and> is_assistant m" if "r < length ?ks" "?ks ! r = length pre" for r
  proof -
    have a: "is_assistant m"
    proof (rule ccontr)
      assume "\<not> is_assistant m"
      then have "?ks ! r \<in> set (indexes_from 0 pre @ indexes_from (Suc (length pre)) post)"
        using that(1) nth_mem [of r ?ks] by (simp add: ks)
      then show False using that(2) indexes_range by fastforce
    qed
    then have "?ks ! answers pre = length pre" "answers pre < length ?ks" by (simp_all add: ks nth_append)
    then have "r = answers pre"
      using that nth_eq_iff_index_eq [OF indexes_distinct [of 0 "pre @ m # post"], of r "answers pre"] by simp
    with a show ?thesis by simp
  qed
  have at: "is_assistant m \<Longrightarrow> answers pre < length ?ks \<and> ?ks ! answers pre = length pre"
    by (simp add: ks nth_append)
  have the: "is_assistant m \<Longrightarrow> (THE r. r < length ?ks \<and> ?ks ! r = length pre) = answers pre"
    by (rule the_equality, erule at) (rule only [THEN conjunct1], simp_all)
  have ex: "(\<exists>r < length ?ks. ?ks ! r = length pre \<and> off \<le> r \<and> r - off < length turns) \<longleftrightarrow>
      is_assistant m \<and> off \<le> answers pre \<and> answers pre - off < length turns"
    using only at by blast
  have off: "length ?ks - length turns = off" by (simp add: off_def)
  show ?thesis
    unfolding byMessage_def Let_def assistant_indexes turn_lookup [OF indexes_distinct] off ex
    using the by (simp cong: if_cong)
qed

lemma retain_counted:
  assumes "turns \<noteq> []"
  shows "retainReplayMetadata ms turns = attach_counted (answers ms - length turns) turns 0 ms"
proof -
  have "mapE (\<lambda>(i, m). case mget (byMessage (pre @ ns) turns) i of None \<Rightarrow> Inr (plain_message m)
        | Some replay \<Rightarrow> attach_replay replay m) (zip [length pre..<length pre + length ns] ns) =
      attach_counted (answers (pre @ ns) - length turns) turns (answers pre) ns" for pre ns
  proof (induction ns arbitrary: pre)
    case (Cons n ns)
    show ?case
      using Cons.IH [of "pre @ [n]"]
      by (simp add: upt_conv_Cons mapE_Cons_bind answer_lookup del: upt_Suc mapE.simps(2) answers_simps(3))
        (simp add: cong: if_cong)
  qed simp
  from this [of "[]" ms] show ?thesis using assms by (simp add: retainReplayMetadata_def indexed_def)
qed

text \<open>
  The history of a port: each stream with the metadata it left and the messages that the session
  stored before the next request, among them one answer.
\<close>

type_synonym exchange = "provider_replay_metadata list \<times> model_message list"

definition answered :: "exchange \<Rightarrow> bool" where
  "answered x \<longleftrightarrow> answers (snd x) = 1"

definition send_back :: "exchange \<Rightarrow> turns_error + request_message list" where
  "send_back x = mapE (attach_replay (fst x)) (snd x)"

lemma not_assistant_plain: "\<not> is_assistant m \<Longrightarrow> attach_replay replay m = Inr (plain_message m)"
  by (cases "(replay, m)" rule: attach_replay.cases) simp_all

lemma no_answers_plain: "answers ms = 0 \<Longrightarrow> mapE (attach_replay replay) ms = Inr (map plain_message ms)"
  by (induction ms) (auto simp: not_assistant_plain split: if_splits)

lemma bindE_assoc: "bindE (bindE m f) g = bindE m (\<lambda>x. bindE (f x) g)"
  by (simp add: bindE_def split: sum.split)

lemma bindE_return [simp]: "bindE m Inr = m"
  by (simp add: bindE_def split: sum.split)

lemma counted_before:
  "seen + answers ms \<le> offset \<Longrightarrow>
     attach_counted offset turns seen (ms @ rest) =
       bindE (attach_counted offset turns (seen + answers ms) rest) (\<lambda>out. Inr (map plain_message ms @ out))"
proof (induction ms arbitrary: seen)
  case (Cons m ms)
  then show ?case by (cases "is_assistant m") (simp_all add: bindE_assoc)
qed simp

lemma counted_no_answers:
  "answers ms = 0 \<Longrightarrow>
     attach_counted offset turns seen (ms @ rest) =
       bindE (attach_counted offset turns seen rest) (\<lambda>out. Inr (map plain_message ms @ out))"
proof (induction ms)
  case (Cons m ms)
  then show ?case by (cases "is_assistant m") (simp_all add: bindE_assoc)
qed simp

lemma mapE_append_bind:
  "mapE f (xs @ ys) = bindE (mapE f xs) (\<lambda>us. bindE (mapE f ys) (\<lambda>vs. Inr (us @ vs)))"
  by (induction xs) (simp_all add: mapE_Cons_bind bindE_assoc del: mapE.simps(2))

lemma one_answer_split:
  assumes "answers ms = 1"
  obtains pre m post where "ms = pre @ m # post" "answers pre = 0" "is_assistant m" "answers post = 0"
proof -
  have "\<exists>m \<in> set ms. is_assistant m" using assms by (auto simp: answers_def filter_empty_conv length_Suc_conv filter_eq_Cons_iff)
  then obtain pre m post where ms: "ms = pre @ m # post" "is_assistant m" by (auto dest: split_list)
  then show thesis using assms by (intro that [of pre m post]) auto
qed

lemma counted_exchange:
  assumes "answers ms = 1" and "i < length turns"
  shows "attach_counted offset turns (offset + i) (ms @ rest) =
    bindE (mapE (attach_replay (turns ! i)) ms) (\<lambda>out.
    bindE (attach_counted offset turns (offset + Suc i) rest) (\<lambda>out'. Inr (out @ out')))"
proof -
  obtain pre m post where ms: "ms = pre @ m # post" "answers pre = 0" "is_assistant m" "answers post = 0"
    using one_answer_split [OF assms(1)] by blast
  show ?thesis using assms(2) ms(3)
    by (simp add: ms(1) counted_no_answers [OF ms(2)] counted_no_answers [OF ms(4)] mapE_append_bind mapE_Cons_bind
        no_answers_plain [OF ms(2)] no_answers_plain [OF ms(4)] bindE_assoc del: mapE.simps(2))
qed

lemma counted_history:
  assumes "list_all answered xs" and "\<forall>i < length xs. turns ! (k + i) = fst (xs ! i)"
    and "k + length xs \<le> length turns"
  shows "attach_counted offset turns (offset + k) (concat (map snd xs)) =
    bindE (mapE send_back xs) (\<lambda>outs. Inr (concat outs))"
  using assms
proof (induction xs arbitrary: k)
  case (Cons x xs)
  have "turns ! k = fst x" using Cons.prems(2) by (force dest: spec [of _ 0])
  moreover have "\<forall>i < length xs. turns ! (Suc k + i) = fst (xs ! i)"
    using Cons.prems(2) by (metis Suc_less_eq add_Suc_shift length_Cons nth_Cons_Suc)
  ultimately show ?case
    using Cons.IH [of "Suc k"] Cons.prems counted_exchange [of "snd x" k turns offset "concat (map snd xs)"]
    by (simp add: answered_def send_back_def mapE_Cons_bind bindE_assoc del: mapE.simps(2))
qed simp

lemma sent_history:
  assumes "list_all answered xs" and "extra = [] \<or> answers base = 0"
  shows "retainReplayMetadata (base @ concat (map snd xs)) (map fst xs @ extra) =
    bindE (mapE send_back xs) (\<lambda>outs. Inr (map plain_message base @ concat outs))"
proof (cases "xs = [] \<and> extra = []")
  case False
  have n: "answers (concat (map snd xs)) = length xs"
    using assms(1) by (induction xs) (auto simp: answered_def)
  have off: "answers (base @ concat (map snd xs)) - length (map fst xs @ extra) = answers base"
    using assms(2) n by auto
  have "retainReplayMetadata (base @ concat (map snd xs)) (map fst xs @ extra) =
      attach_counted (answers base) (map fst xs @ extra) 0 (base @ concat (map snd xs))"
    using False off by (subst retain_counted) auto
  also have "\<dots> = bindE (attach_counted (answers base) (map fst xs @ extra) (answers base + 0) (concat (map snd xs)))
      (\<lambda>out. Inr (map plain_message base @ out))"
    using counted_before [of 0 base "answers base"] by simp
  finally show ?thesis
    using counted_history [OF assms(1), of "map fst xs @ extra" 0 "answers base"]
    by (simp add: nth_append bindE_assoc)
qed (simp add: retainReplayMetadata_def)

text \<open>
  C22: As long as every stream since the port was made has stored one answer, a request sends each
  answer back with the metadata of its own stream: earlier messages go as they are, nothing else of any
  message changes, and the request fails only when one stream named two model identities.
\<close>

theorem answers_keep_their_metadata:
  assumes "list_all answered xs"
  shows "retainReplayMetadata (base @ concat (map snd xs)) (map fst xs) =
      bindE (mapE send_back xs) (\<lambda>outs. Inr (map plain_message base @ concat outs)) \<and>
    (\<forall>x m m'. x \<in> set xs \<and> m \<in> set (snd x) \<and> attach_replay (fst x) m = Inr m' \<longrightarrow> bare_message m' = m)"
  using sent_history [OF assms, of "[]" base] bare_attach by auto


definition ex_metadata :: "string \<Rightarrow> provider_replay_metadata" where
  "ex_metadata value =
     \<lparr>rep_target = TargetThinking, rep_contentIndex = 0, rep_providerId = ''anthropic'', rep_apiDialect = ''messages'',
      rep_modelId = ''m'', rep_callId = None, rep_signature = Some value, rep_redacted = None, rep_responseId = None,
      rep_itemId = None, rep_namespace = None\<rparr>"

definition ex_exchange :: "string \<Rightarrow> exchange" where
  "ex_exchange value = ([ex_metadata value], [AssistantMsg [Thinking value] None, UserMsg [Text ''go on'']])"

text \<open>The thinking texts of a request, each with the signature it is sent with.\<close>

fun signed_content :: "request_message \<Rightarrow> (content_item \<times> string option) list" where
  "signed_content (RequestAssistant content calls origin continuation) =
     map (\<lambda>c. (rc_item c, map_option snd (rc_signature c))) content"
| "signed_content _ = []"

lemma answers_keep_their_metadata_witness:
  "map signed_content (projr (retainReplayMetadata (concat (map snd [ex_exchange ''a'', ex_exchange ''b'']))
     (map fst [ex_exchange ''a'', ex_exchange ''b'']))) =
   [[(Thinking ''a'', Some ''a'')], [], [(Thinking ''b'', Some ''b'')], []]"
proof -
  have "list_all answered [ex_exchange ''a'', ex_exchange ''b'']" by code_simp
  from answers_keep_their_metadata [OF this, of "[]"]
  have "retainReplayMetadata (concat (map snd [ex_exchange ''a'', ex_exchange ''b'']))
      (map fst [ex_exchange ''a'', ex_exchange ''b'']) =
    bindE (mapE send_back [ex_exchange ''a'', ex_exchange ''b'']) (\<lambda>outs. Inr (concat outs))" by simp
  then show ?thesis by (simp only:) code_simp
qed


end
