(* ===== verification/Spec2Isabelle.thy ===== *)
theory Spec2Isabelle
  imports Event_Log Compaction Append_Race File_Tools Mutation_Queue Command_Journal Prompt_Queue_Properties Projector_Properties
    Delivery_Properties Sse Aws_Event_Stream Provider_Port
begin

text \<open>
  A verification development for Axl, a local coding agent written in TypeScript.

  \<^bold>\<open>The program.\<close> A session is an append-only log of canonical events, one JSON line per event, each
  naming its parent. The log is read into a tree; the branch from the root to the tip is the
  conversation. An agent session appends to the log: a turn stores the user's message, streams the
  model's answer, runs the tools that the answer calls, stores their results and asks the model again
  until it stops. Long conversations are compacted into a summary. Tools reach the file system through a
  policy on canonical paths. Around this kernel the repository has a daemon, an SDK, provider adapters,
  and terminal and browser front ends.

  \<^bold>\<open>The theories\<close>, in the order of their imports, with the sources under \<^verbatim>\<open>src/packages\<close>:

  \<^item> \<open>Prelude\<close>: thrown errors as values, folds that may throw, the insertion-ordered Map behind the
    locale \<open>keyed_store\<close>, the locale \<open>reducer\<close> for loops that keep an invariant.
  \<^item> \<open>Js_Text\<close>: the string functions, UTF-8, \<^verbatim>\<open>JSON.stringify\<close> and \<^verbatim>\<open>JSON.parse\<close> of the language, with
    the round trip of JSON texts.
  \<^item> \<open>Event_Envelope\<close>, \<open>Events\<close>, \<open>Event_Codec\<close>, \<open>Event_Json\<close> (\<^verbatim>\<open>protocol/src/event-envelope.ts\<close>,
    \<^verbatim>\<open>events.ts\<close>, \<^verbatim>\<open>canonical-event.ts\<close>): identifiers, the JSON validator, the 38 payload types with
    their parsers, the encoder. Parsing is sound and idempotent, encoding round trips.
  \<^item> \<open>Redaction\<close> (\<^verbatim>\<open>kernel/src/redaction.ts\<close>): secrets leave every string value of a stored payload;
    identity and tree structure stay.
  \<^item> \<open>Session_Tree\<close> (\<^verbatim>\<open>kernel/src/session-tree.ts\<close> and the integrity check of \<^verbatim>\<open>replay.ts\<close>): building the
    tree refines an order-free specification of well-formed logs; lineage is the parent chain; the
    integrity check is equivalent to the pairing of calls and results on every branch.
  \<^item> \<open>Framing\<close>, \<open>Event_Log\<close> (\<^verbatim>\<open>kernel/src/jsonl-event-log.ts\<close>, \<^verbatim>\<open>replay.ts\<close>): the locale \<open>line_codec\<close>
    states what a newline-framed record format needs and is interpreted on the event encoding. Appending
    is atomic for the next reader under any sequence of short writes and failures, recovery is
    idempotent, and replay reproduces a log.
  \<^item> \<open>Model_Stream\<close> (\<^verbatim>\<open>protocol/src/model-stream.ts\<close>, \<^verbatim>\<open>model-request.ts\<close>): provider events, their
    validator, thinking levels, token estimates.
  \<^item> \<open>Compaction\<close> (\<^verbatim>\<open>kernel/src/compaction.ts\<close>, \<^verbatim>\<open>model-port.ts\<close>): the messages that a lineage shows the
    model, the plan of a compaction, the summary request.
  \<^item> \<open>Effects\<close>: state passing with exceptions, and triples with one postcondition for returning and one
    for throwing.
  \<^item> \<open>Tools\<close> (\<^verbatim>\<open>kernel/src/tools.ts\<close>): the registry; its registrations interpret \<open>reducer\<close>.
  \<^item> \<open>Agent_Session\<close>, \<open>Session_Log\<close>, \<open>Session_Turns\<close> (\<^verbatim>\<open>kernel/src/agent-session.ts\<close>): the session
    record and every operation on it, then the invariant of its log, then what a turn guarantees: the log
    grows by a chain, calls are answered, abort ends the turn, one owner per branch, queues lose nothing,
    retry delays are bounded.
  \<^item> \<open>Append_Race\<close>: the two halves of \<^verbatim>\<open>append\<close> as separate steps. Serial appends chain; overlapping ones
    may not.
  \<^item> \<open>Path_Policy\<close> (\<^verbatim>\<open>kernel/src/path-policy.ts\<close>): POSIX paths, canonicalization, the read and write
    checks, which decide exactly the policy for located paths.
  \<^item> \<open>File_Tools\<close> (\<^verbatim>\<open>kernel/src/tools/validate.ts\<close>, \<^verbatim>\<open>read.ts\<close>, \<^verbatim>\<open>write.ts\<close>, \<^verbatim>\<open>edit.ts\<close>): the tools over
    a disk whose calls may fail, and \<open>Mutation_Queue\<close> (\<^verbatim>\<open>file-mutation-queue.ts\<close>): mutations of a file
    as a step relation with mutual exclusion and progress.
  \<^item> \<open>Command_Journal\<close> (\<^verbatim>\<open>daemon/src/command-journal.ts\<close>): the record of accepted and completed commands,
    framed like the session log. What memory holds survives a restart, a stored outcome is final,
    and two ways in which the daemon writes a journal that it cannot open again.
  \<^item> \<open>Projector\<close>, \<open>Projector_Properties\<close> (\<^verbatim>\<open>sdk/src/projector.ts\<close>): the reduction of a session to what a
    client shows. Any calls keep its records ordered and its activity bounded; its tool calls refine the
    kernel's pairing check; redelivered events change nothing; streamed text is shown.
  \<^item> \<open>Prompt_Queue\<close>, \<open>Prompt_Queue_Properties\<close> (\<^verbatim>\<open>daemon/src/session-manager.ts\<close>): queued prompts, the
    drain that sends them and what competes with it, as interleavings of the code between its awaits. What
    waits in memory is what the log calls pending, recovery pauses it, and only a rebuild, a race for the
    session or overlapping requeues go wrong.
  \<^item> \<open>Delivery\<close>, \<open>Delivery_Invariant\<close>, \<open>Delivery_Properties\<close> (\<^verbatim>\<open>daemon/src/daemon.ts\<close> from
    \<^verbatim>\<open>subscribe\<close> to \<^verbatim>\<open>activateReadySubscriptions\<close>): subscriptions with their frozen snapshots, cursors and
    buffers, one function per operation and one for the sequence of calls. The invariant says of every
    subscription that what it was sent and what it holds is its session's log; from it follow delivery in
    order, resumption behind an acknowledged event, paging and the bounds.
  \<^item> \<open>Text_Decoder\<close>: the standard UTF-8 decoder over octets in chunks, its encoder and their round trip,
    and generators as lists of what they yield with how they end.
  \<^item> \<open>Sse\<close>, \<open>Aws_Event_Stream\<close> (\<^verbatim>\<open>ai/src/sse.ts\<close>, \<^verbatim>\<open>aws-event-stream.ts\<close>): the two decoders of
    provider responses. Chunk boundaries do not matter, well-formed responses are read back, and a changed
    byte of a checked message is noticed.
  \<^item> \<open>Provider_Port\<close> (\<^verbatim>\<open>ai/src/stream.ts\<close>, \<^verbatim>\<open>provider-port.ts\<close>): the contract that a normalized stream
    keeps, and which answer is sent back with which replay metadata.

  \<^bold>\<open>Parameters.\<close> Code outside the repository appears as arguments: the clock, random identifiers, the
  model port's stream, the tools' effects and the abort signal are fields of the environment of
  \<open>Agent_Session\<close>, read at a clock that every interaction advances; the operating system's writes are an
  arbitrary sequence of outcomes in \<open>Event_Log\<close> and faults in \<open>File_Tools\<close>; \<^verbatim>\<open>realpath\<close> is a function in
  \<open>Path_Policy\<close>; the text decoder and the validators of command results are arguments in
  \<open>Command_Journal\<close>; the parser of JSON texts with characters beyond 255 is the argument \<open>wide\<close> of
  \<open>Aws_Event_Stream\<close>; fresh identifiers are named by \<open>cfg_uuid\<close> in \<open>Delivery\<close>, injectively. Hypotheses on them (\<open>env_ok\<close>, \<open>log_hooks_ok\<close>, \<open>healthy\<close>, \<open>located\<close>) state what
  the code relies on, and each property that uses one has a witness.

  \<^bold>\<open>Recursion.\<close> All loops of the source are total functions, with two exceptions. The walk along parents
  uses one unit of fuel per node and one more, which suffices because a walk that visits more nodes has
  met a cycle, and the tree has none. The JSON parser uses the length of its input as fuel. The turn loop
  may run forever with a model that always calls tools; it is a partial function whose value \<open>None\<close>
  means that it never returns, and an abort that stays is proved to end it.

  \<^bold>\<open>Limits of the model.\<close> Strings are made of code units below 256, except in the decoders of provider
  responses, where a text is a list of code points. Numbers are exact decimals: the
  rounding of doubles is not modelled, neither in token estimates nor in retry delays. JSON values are
  trees, so repeated or cyclic references do not occur. A host callback that throws out of \<^verbatim>\<open>onEvent\<close> or
  \<^verbatim>\<open>onActivity\<close> is not modelled. Umask and directories are not part of the disk.

  \<^bold>\<open>Not modelled.\<close> Creation of log files and the sync of their directory; \<^verbatim>\<open>dispose\<close> of a session; the
  shell and web tools, the sandbox and extensions, which start processes and speak HTTP; the provider
  adapters, which translate between the model stream and third-party formats, with their catalogues and
  credentials; the method tables of the wire schemas; the daemon apart from its journal, prompt queue and
  event delivery, which is a socket server and file system services; the SDK apart from its projector,
  which is transport code and a client whose steps interleave with the callbacks of its user; and the
  front ends, which present what the SDK gives them.
\<close>

end
